(* ===== verification/Prelude.thy ===== *)
theory Prelude
  imports Main "HOL-Library.Word" "HOL-Library.Code_Target_Nat"
begin

text \<open>
  What every component of the development shares: the machine integer types of the C code,
  byte buffers with the little-endian loads and stores the compiler emits for the packed header
  structures (\<^verbatim>\<open>src/include/netif.h\<close> fixes a little-endian host), \<^verbatim>\<open>memcpy\<close>, and the lemmas
  on rings that the two circular buffers of the program (\<^verbatim>\<open>src/lib/cbuf.c\<close> and
  \<^verbatim>\<open>src/net/fast_pipe.c\<close>) rest on.

  A buffer is the list of the bytes of its allocation. A load past its end is undefined in C;
  here it reads 0 and a store there is dropped. Nothing below depends on this choice: the
  theorems that are about the contents of a buffer state the bounds.
\<close>

unbundle bit_operations_syntax

type_synonym u8 = "8 word"
type_synonym u16 = "16 word"
type_synonym u32 = "32 word"
type_synonym u64 = "64 word"
type_synonym bytes = "8 word list"

named_theorems buf_simps \<open>loads, stores and lengths of byte buffers\<close>
named_theorems word_conv \<open>words read as natural numbers\<close>

section \<open>Words\<close>

lemma unat_u8_lt [simp]: "unat (x :: u8) < 256"
  using unsigned_less [of x, where ?'a = nat] by simp

lemma unat_u16_lt [simp]: "unat (x :: u16) < 65536"
  using unsigned_less [of x, where ?'a = nat] by simp

lemma unat_u32_lt [simp]: "unat (x :: u32) < 4294967296"
  using unsigned_less [of x, where ?'a = nat] by simp

definition lo8 :: "u16 \<Rightarrow> u8" where
  "lo8 v = ucast v"

definition hi8 :: "u16 \<Rightarrow> u8" where
  "hi8 v = ucast (drop_bit 8 v)"

definition mk16 :: "u8 \<Rightarrow> u8 \<Rightarrow> u16" where
  "mk16 lo hi = ucast lo OR push_bit 8 (ucast hi)"

definition lo16 :: "u32 \<Rightarrow> u16" where
  "lo16 v = ucast v"

definition hi16 :: "u32 \<Rightarrow> u16" where
  "hi16 v = ucast (drop_bit 16 v)"

definition mk32 :: "u16 \<Rightarrow> u16 \<Rightarrow> u32" where
  "mk32 lo hi = ucast lo OR push_bit 16 (ucast hi)"

lemma mk16_lo8_hi8 [simp, buf_simps]: "mk16 (lo8 v) (hi8 v) = v"
  by (rule bit_word_eqI) (auto simp: mk16_def lo8_def hi8_def bit_simps)

lemma lo8_mk16 [simp, buf_simps]: "lo8 (mk16 l h) = l"
  by (rule bit_word_eqI) (auto simp: mk16_def lo8_def bit_simps)

lemma hi8_mk16 [simp, buf_simps]: "hi8 (mk16 l h) = h"
  by (rule bit_word_eqI)
    (auto simp: mk16_def hi8_def bit_simps dest: bit_imp_le_length)

lemma mk32_lo16_hi16 [simp, buf_simps]: "mk32 (lo16 v) (hi16 v) = v"
  by (rule bit_word_eqI) (auto simp: mk32_def lo16_def hi16_def bit_simps)

lemma lo16_mk32 [simp, buf_simps]: "lo16 (mk32 l h) = l"
  by (rule bit_word_eqI) (auto simp: mk32_def lo16_def bit_simps)

lemma hi16_mk32 [simp, buf_simps]: "hi16 (mk32 l h) = h"
  by (rule bit_word_eqI)
    (auto simp: mk32_def hi16_def bit_simps dest: bit_imp_le_length)


section \<open>Byte buffers\<close>

definition rd8 :: "bytes \<Rightarrow> nat \<Rightarrow> u8" where
  "rd8 bs i = (if i < length bs then bs ! i else 0)"

definition rd16 :: "bytes \<Rightarrow> nat \<Rightarrow> u16" where
  "rd16 bs i = mk16 (rd8 bs i) (rd8 bs (i + 1))"

definition rd32 :: "bytes \<Rightarrow> nat \<Rightarrow> u32" where
  "rd32 bs i = mk32 (rd16 bs i) (rd16 bs (i + 2))"

definition wr8 :: "nat \<Rightarrow> u8 \<Rightarrow> bytes \<Rightarrow> bytes" where
  "wr8 i v bs = bs[i := v]"

definition wr16 :: "nat \<Rightarrow> u16 \<Rightarrow> bytes \<Rightarrow> bytes" where
  "wr16 i v bs = wr8 (i + 1) (hi8 v) (wr8 i (lo8 v) bs)"

definition wr32 :: "nat \<Rightarrow> u32 \<Rightarrow> bytes \<Rightarrow> bytes" where
  "wr32 i v bs = wr16 (i + 2) (hi16 v) (wr16 i (lo16 v) bs)"

text \<open>\<open>memcpy(dst + off, src, n)\<close>, for the part of the range that lies in \<open>dst\<close>.\<close>

definition memcpy :: "bytes \<Rightarrow> nat \<Rightarrow> bytes \<Rightarrow> nat \<Rightarrow> bytes" where
  "memcpy dst off src n = take off dst @ take (length dst - off) (take n src) @ drop (off + n) dst"

text \<open>The bytes \<open>p[off .. off + n)\<close>.\<close>

definition slice :: "nat \<Rightarrow> nat \<Rightarrow> bytes \<Rightarrow> bytes" where
  "slice off n bs = take n (drop off bs)"

lemma length_wr8 [simp, buf_simps]: "length (wr8 i v bs) = length bs"
  by (simp add: wr8_def)

lemma length_wr16 [simp, buf_simps]: "length (wr16 i v bs) = length bs"
  by (simp add: wr16_def)

lemma length_wr32 [simp, buf_simps]: "length (wr32 i v bs) = length bs"
  by (simp add: wr32_def)

lemma rd8_wr8 [buf_simps]:
  "rd8 (wr8 j v bs) i = (if i = j \<and> i < length bs then v else rd8 bs i)"
  by (auto simp: rd8_def wr8_def nth_list_update)

lemma rd8_wr16 [buf_simps]:
  "rd8 (wr16 j v bs) i =
     (if i = j \<and> i < length bs then lo8 v
      else if i = j + 1 \<and> i < length bs then hi8 v else rd8 bs i)"
  by (auto simp: wr16_def rd8_wr8)

lemma rd16_wr16_same [simp, buf_simps]: "i + 1 < length bs \<Longrightarrow> rd16 (wr16 i v bs) i = v"
  by (simp add: rd16_def rd8_wr16)

lemma rd16_wr16_other [simp, buf_simps]:
  "i + 1 < j \<or> j + 1 < i \<Longrightarrow> rd16 (wr16 j v bs) i = rd16 bs i"
  by (auto simp: rd16_def rd8_wr16)

lemma rd16_wr8_other [simp, buf_simps]:
  "i + 1 < j \<or> j < i \<Longrightarrow> rd16 (wr8 j v bs) i = rd16 bs i"
  by (auto simp: rd16_def rd8_wr8)

lemma wr16_overwrite [simp, buf_simps]: "wr16 i v (wr16 i w bs) = wr16 i v bs"
proof -
  have "bs[i := a, Suc i := b, i := c] = bs[i := c, Suc i := b]" for a b c
    by (metis list_update_overwrite list_update_swap n_not_Suc_n)
  then show ?thesis by (simp add: wr16_def wr8_def)
qed

lemma wr16_rd16: "i + 1 < length bs \<Longrightarrow> wr16 i (rd16 bs i) bs = bs"
  by (simp add: wr16_def wr8_def rd16_def rd8_def)

lemma rd32_wr32_same [simp, buf_simps]: "i + 3 < length bs \<Longrightarrow> rd32 (wr32 i v bs) i = v"
  by (simp add: rd32_def wr32_def)

lemma rd32_wr32_other [simp, buf_simps]:
  "i + 3 < j \<or> j + 3 < i \<Longrightarrow> rd32 (wr32 j v bs) i = rd32 bs i"
  by (auto simp: rd32_def wr32_def)

lemma rd32_wr16_other [simp, buf_simps]:
  "i + 3 < j \<or> j + 1 < i \<Longrightarrow> rd32 (wr16 j v bs) i = rd32 bs i"
  by (auto simp: rd32_def)

lemma rd32_wr8_other [simp, buf_simps]:
  "i + 3 < j \<or> j < i \<Longrightarrow> rd32 (wr8 j v bs) i = rd32 bs i"
  by (auto simp: rd32_def)

lemma rd16_wr32_other [simp, buf_simps]:
  "i + 1 < j \<or> j + 3 < i \<Longrightarrow> rd16 (wr32 j v bs) i = rd16 bs i"
  by (auto simp: wr32_def)

lemma rd8_wr32_other [simp, buf_simps]:
  "i < j \<or> j + 3 < i \<Longrightarrow> rd8 (wr32 j v bs) i = rd8 bs i"
  by (auto simp: wr32_def rd8_wr16)

lemma rd8_slice [buf_simps]:
  "rd8 (slice off n bs) i = (if i < n then rd8 bs (off + i) else 0)"
  by (auto simp: slice_def rd8_def)

lemma length_slice [simp, buf_simps]: "length (slice off n bs) = min n (length bs - off)"
  by (simp add: slice_def)

lemma rd16_slice [buf_simps]: "i + 1 < n \<Longrightarrow> rd16 (slice off n bs) i = rd16 bs (off + i)"
  by (simp add: rd16_def rd8_slice)

lemma rd32_slice [buf_simps]: "i + 3 < n \<Longrightarrow> rd32 (slice off n bs) i = rd32 bs (off + i)"
  by (simp add: rd32_def rd16_slice add.assoc)

lemma length_memcpy [simp, buf_simps]:
  "off + n \<le> length dst \<Longrightarrow> n \<le> length src \<Longrightarrow> length (memcpy dst off src n) = length dst"
  by (simp add: memcpy_def)

lemma memcpy_eq:
  "off + n \<le> length dst \<Longrightarrow> memcpy dst off src n = take off dst @ take n src @ drop (off + n) dst"
  by (simp add: memcpy_def)

lemma nth_memcpy:
  assumes "off + n \<le> length dst" and "n \<le> length src" and "i < length dst"
  shows "memcpy dst off src n ! i =
    (if i < off then dst ! i else if i < off + n then src ! (i - off) else dst ! i)"
  using assms by (auto simp: memcpy_eq nth_append)

lemma slice_memcpy_same:
  "off + n \<le> length dst \<Longrightarrow> n \<le> length src \<Longrightarrow> slice off n (memcpy dst off src n) = take n src"
  by (simp add: memcpy_eq slice_def)

section \<open>Rings\<close>

text \<open>
  The \<open>u\<close> bytes that start at position \<open>t\<close> of a ring with storage \<open>b\<close>. Both circular buffers of
  the program are read through this function: positions count on without end and are reduced
  modulo the capacity at each access.
\<close>

definition ring_list :: "bytes \<Rightarrow> nat \<Rightarrow> nat \<Rightarrow> bytes" where
  "ring_list b t u = map (\<lambda>i. b ! ((t + i) mod length b)) [0..<u]"

lemma length_ring_list [simp]: "length (ring_list b t u) = u"
  by (simp add: ring_list_def)

lemma ring_list_0 [simp]: "ring_list b t 0 = []"
  by (simp add: ring_list_def)

lemma nth_ring_list: "i < u \<Longrightarrow> ring_list b t u ! i = b ! ((t + i) mod length b)"
  by (simp add: ring_list_def)

lemma ring_list_mod: "ring_list b (t mod length b) u = ring_list b t u"
  by (simp add: ring_list_def mod_add_left_eq)

lemma ring_list_drop: "n \<le> u \<Longrightarrow> drop n (ring_list b t u) = ring_list b (t + n) (u - n)"
  by (rule nth_equalityI) (auto simp: nth_ring_list add.assoc)

lemma ring_list_split:
  "n \<le> u \<Longrightarrow> ring_list b t u = ring_list b t n @ ring_list b (t + n) (u - n)"
  by (rule nth_equalityI) (auto simp: nth_ring_list nth_append add.assoc)

text \<open>A stretch that does not wrap is a plain slice of the storage.\<close>

lemma ring_list_contiguous:
  assumes "t mod length b + n \<le> length b"
  shows "ring_list b t n = slice (t mod length b) n b"
proof (rule nth_equalityI)
  show "length (ring_list b t n) = length (slice (t mod length b) n b)"
    using assms by simp
  fix i assume "i < length (ring_list b t n)"
  then have i: "i < n" by simp
  with assms have lt: "t mod length b + i < length b" by simp
  have "(t + i) mod length b = t mod length b + i"
    using lt by (metis mod_add_left_eq mod_less)
  with i lt assms show "ring_list b t n ! i = slice (t mod length b) n b ! i"
    by (simp add: nth_ring_list slice_def)
qed

text \<open>Writing \<open>n\<close> bytes behind the \<open>u\<close> used ones, in a stretch that does not wrap, appends them.\<close>

lemma ring_list_memcpy:
  assumes fit: "u + n \<le> length b" and cont: "(t + u) mod length b + n \<le> length b"
    and src: "n \<le> length src"
  shows "ring_list (memcpy b ((t + u) mod length b) src n) t (u + n) = ring_list b t u @ take n src"
proof (rule nth_equalityI)
  let ?N = "length b" and ?h = "(t + u) mod length b"
  have len: "length (memcpy b ?h src n) = ?N"
    using cont src by simp
  show "length (ring_list (memcpy b ?h src n) t (u + n)) = length (ring_list b t u @ take n src)"
    using src by simp
  fix i assume "i < length (ring_list (memcpy b ?h src n) t (u + n))"
  then have i: "i < u + n" by simp
  then have N0: "0 < ?N" using fit by linarith
  have lt: "(t + i) mod ?N < ?N" using N0 by simp
  have nth: "ring_list (memcpy b ?h src n) t (u + n) ! i =
      memcpy b ?h src n ! ((t + i) mod ?N)"
    using i len by (simp add: nth_ring_list)
  show "ring_list (memcpy b ?h src n) t (u + n) ! i = (ring_list b t u @ take n src) ! i"
  proof (cases "i < u")
    case True
    have "\<not> (?h \<le> (t + i) mod ?N \<and> (t + i) mod ?N < ?h + n)"
    proof
      assume in_range: "?h \<le> (t + i) mod ?N \<and> (t + i) mod ?N < ?h + n"
      then obtain d where d: "(t + i) mod ?N = ?h + d" "d < n"
        by (metis le_Suc_ex nat_add_left_cancel_less)
      have "(t + u + d) mod ?N = ?h + d"
        using d cont mod_add_left_eq [of "t + u" ?N d] by simp
      with d have "(t + i) mod ?N = (t + u + d) mod ?N" by simp
      moreover have "t + i < t + u + d" using True by simp
      ultimately have "?N \<le> (t + u + d) - (t + i)"
        by (metis diff_is_0_eq' dvd_imp_le leD less_imp_le mod_eq_dvd_iff_nat zero_less_diff)
      with True d fit show False by simp
    qed
    with True nth lt cont src show ?thesis
      by (auto simp: nth_memcpy nth_append nth_ring_list)
  next
    case False
    then have "i - u < n" using i by simp
    have "(t + i) mod ?N = (t + u + (i - u)) mod ?N" using False by simp
    also have "\<dots> = (?h + (i - u)) mod ?N" by (rule mod_add_left_eq [symmetric])
    also have "\<dots> = ?h + (i - u)"
      using cont \<open>i - u < n\<close> by simp
    finally have "(t + i) mod ?N = ?h + (i - u)" .
    moreover from this have "memcpy b ?h src n ! ((t + i) mod ?N) = src ! (i - u)"
      using nth_memcpy [OF cont src lt] \<open>i - u < n\<close> by simp
    ultimately show ?thesis
      using nth False i \<open>i - u < n\<close> by (simp add: nth_append)
  qed
qed

end
