(* ===== verification/Fifo.thy ===== *)
theory Fifo
  imports Prelude
begin

text \<open>
  The contract of a bounded byte queue, which both circular buffers of the program promise to
  their clients: the receive buffer of a TCP connection (\<^verbatim>\<open>src/lib/cbuf.c\<close>) and the shared-memory
  pipe between two stacks (\<^verbatim>\<open>src/net/fast_pipe.c\<close>). An operation returns \<open>None\<close> when the C
  function would not return; the laws say that on a well-formed queue it always does.
\<close>

datatype fifo_op = Put bytes | Get nat

text \<open>
  Run a sequence of operations from a queue and collect, next to the final queue, the bytes that
  the puts took and the bytes that the gets gave back.
\<close>

fun fifo_run ::
  "('q \<Rightarrow> bytes \<Rightarrow> ('q \<times> nat) option) \<Rightarrow> ('q \<Rightarrow> nat \<Rightarrow> ('q \<times> bytes) option) \<Rightarrow>
   'q \<Rightarrow> fifo_op list \<Rightarrow> ('q \<times> bytes \<times> bytes) option" where
  "fifo_run put get q [] = Some (q, [], [])"
| "fifo_run put get q (Put d # ops) =
     (case put q d of None \<Rightarrow> None
      | Some (q', n) \<Rightarrow>
          map_option (\<lambda>(r, i, out). (r, take n d @ i, out)) (fifo_run put get q' ops))"
| "fifo_run put get q (Get n # ops) =
     (case get q n of None \<Rightarrow> None
      | Some (q', d) \<Rightarrow> map_option (\<lambda>(r, i, out). (r, i, d @ out)) (fifo_run put get q' ops))"

locale byte_fifo =
  fixes inv :: "'q \<Rightarrow> bool"
    and cont :: "'q \<Rightarrow> bytes"
    and cap :: "'q \<Rightarrow> nat"
    and put :: "'q \<Rightarrow> bytes \<Rightarrow> ('q \<times> nat) option"
    and get :: "'q \<Rightarrow> nat \<Rightarrow> ('q \<times> bytes) option"
  assumes put_total: "inv q \<Longrightarrow> put q d \<noteq> None"
    and put_inv: "inv q \<Longrightarrow> put q d = Some (q', n) \<Longrightarrow> inv q'"
    and put_cont: "inv q \<Longrightarrow> put q d = Some (q', n) \<Longrightarrow> cont q' = cont q @ take n d"
    and put_cap: "inv q \<Longrightarrow> put q d = Some (q', n) \<Longrightarrow> cap q' = cap q"
    and get_total: "inv q \<Longrightarrow> get q n \<noteq> None"
    and get_inv: "inv q \<Longrightarrow> get q n = Some (q', d) \<Longrightarrow> inv q'"
    and get_cont: "inv q \<Longrightarrow> get q n = Some (q', d) \<Longrightarrow> cont q = d @ cont q'"
    and get_cap: "inv q \<Longrightarrow> get q n = Some (q', d) \<Longrightarrow> cap q' = cap q"
    and cont_le_cap: "inv q \<Longrightarrow> length (cont q) \<le> cap q"
begin

text \<open>
  The stream law: whatever the sequence of operations, it runs to the end, nothing is lost,
  duplicated or reordered, and the queue never holds more than its capacity.
\<close>

lemma stream:
  assumes "inv q"
  shows "\<exists>q' i out. fifo_run put get q ops = Some (q', i, out) \<and> inv q' \<and> cap q' = cap q \<and>
    cont q @ i = out @ cont q' \<and> length (cont q') \<le> cap q"
  using assms
proof (induction ops arbitrary: q)
  case Nil
  then show ?case by (simp add: cont_le_cap)
next
  case (Cons op ops)
  show ?case
  proof (cases op)
    case (Put d)
    obtain q1 n where q1: "put q d = Some (q1, n)"
      using put_total [OF Cons.prems] by fast
    obtain q' i out where run: "fifo_run put get q1 ops = Some (q', i, out)" "inv q'"
      "cap q' = cap q1" "cont q1 @ i = out @ cont q'" "length (cont q') \<le> cap q1"
      using Cons.IH [OF put_inv [OF Cons.prems q1]] by blast
    then show ?thesis
      using Put q1 put_cont [OF Cons.prems q1] put_cap [OF Cons.prems q1] by simp
  next
    case (Get n)
    obtain q1 d where q1: "get q n = Some (q1, d)"
      using get_total [OF Cons.prems] by fast
    obtain q' i out where run: "fifo_run put get q1 ops = Some (q', i, out)" "inv q'"
      "cap q' = cap q1" "cont q1 @ i = out @ cont q'" "length (cont q') \<le> cap q1"
      using Cons.IH [OF get_inv [OF Cons.prems q1]] by blast
    then show ?thesis
      using Get q1 get_cont [OF Cons.prems q1] get_cap [OF Cons.prems q1] by simp
  qed
qed

end

text \<open>
  The contract of a queue of packets: \<open>holds q ps\<close> says the queue \<open>q\<close> holds the packets \<open>ps\<close>, oldest
  first. A put may refuse a packet, and then changes nothing; a get may refuse too.
\<close>

datatype pq_op = PutP bytes | GetP nat

fun pq_run ::
  "('q \<Rightarrow> bytes \<Rightarrow> 'q \<times> bool) \<Rightarrow> ('q \<Rightarrow> nat \<Rightarrow> (bytes \<times> 'q) option) \<Rightarrow>
   'q \<Rightarrow> pq_op list \<Rightarrow> 'q \<times> bytes list \<times> bytes list" where
  "pq_run put get q [] = (q, [], [])"
| "pq_run put get q (PutP d # ops) =
     (case put q d of (q', ok) \<Rightarrow>
        case pq_run put get q' ops of (r, i, out) \<Rightarrow> (r, if ok then d # i else i, out))"
| "pq_run put get q (GetP n # ops) =
     (case get q n of None \<Rightarrow> pq_run put get q ops
      | Some (d, q') \<Rightarrow> case pq_run put get q' ops of (r, i, out) \<Rightarrow> (r, i, d # out))"

locale packet_queue =
  fixes holds :: "'q \<Rightarrow> bytes list \<Rightarrow> bool"
    and put :: "'q \<Rightarrow> bytes \<Rightarrow> 'q \<times> bool"
    and get :: "'q \<Rightarrow> nat \<Rightarrow> (bytes \<times> 'q) option"
  assumes put_accept: "holds q ps \<Longrightarrow> put q d = (q', True) \<Longrightarrow> holds q' (ps @ [d])"
    and put_refuse: "holds q ps \<Longrightarrow> put q d = (q', False) \<Longrightarrow> q' = q"
    and get_first: "holds q (p # ps) \<Longrightarrow> get q n = Some (d, q') \<Longrightarrow> d = p \<and> holds q' ps"
    and get_empty: "holds q [] \<Longrightarrow> get q n = None"
begin

lemma packet_stream:
  assumes "holds q ps" "pq_run put get q ops = (q', acc, out)"
  shows "\<exists>rest. holds q' rest \<and> ps @ acc = out @ rest"
  using assms
proof (induction ops arbitrary: q ps acc out)
  case (Cons op ops)
  show ?case
  proof (cases op)
    case (PutP d)
    obtain q1 ok i where q1: "put q d = (q1, ok)" and run: "pq_run put get q1 ops = (q', i, out)"
      and acc: "acc = (if ok then d # i else i)"
      using Cons.prems(2) PutP by (auto split: prod.splits)
    have "holds q1 (if ok then ps @ [d] else ps)"
    proof (cases ok)
      case True
      then show ?thesis using put_accept Cons.prems(1) q1 by auto
    next
      case False
      then have "q1 = q" using put_refuse Cons.prems(1) q1 by simp
      with False Cons.prems(1) show ?thesis by simp
    qed
    from Cons.IH [OF this run] acc show ?thesis by (cases ok) auto
  next
    case (GetP n)
    show ?thesis
    proof (cases "get q n")
      case None
      then show ?thesis using Cons.IH [OF Cons.prems(1)] Cons.prems(2) GetP by simp
    next
      case (Some dq)
      then obtain d q1 where dq: "get q n = Some (d, q1)" by (cases dq) auto
      then obtain p ps' where ps: "ps = p # ps'"
        using get_empty Cons.prems(1) by (cases ps) auto
      have d: "d = p" "holds q1 ps'" using get_first [of q p ps' n d q1] Cons.prems(1) dq ps by auto
      obtain out' where run: "pq_run put get q1 ops = (q', acc, out')" "out = d # out'"
        using Cons.prems(2) GetP dq by (auto split: prod.splits)
      from Cons.IH [OF d(2) run(1)] run(2) d ps show ?thesis by auto
    qed
  qed
qed auto

end

end
