(* ===== verification/Cbuf.thy ===== *)
theory Cbuf
  imports Fifo "HOL-Library.Signed_Division"
begin

text \<open>
  The circular buffer of \<^verbatim>\<open>src/lib/cbuf.c\<close> and \<^verbatim>\<open>src/include/cbuf.h\<close>, which holds the received
  text of a TCP connection. The structure keeps a write position and a read position that run on
  past the size; \<open>read_cbuf\<close> pulls both back by the size once the read position has passed it.
  The copying loops are \<open>partial_function\<close>s: a loop that makes no progress is \<open>None\<close>, and the
  theorems show that on a well-formed buffer both loops return.
\<close>

record cbuf =
  c_head :: int
  c_tail :: int
  c_size :: int
  c_buf :: bytes

definition alloc_cbuf :: "int \<Rightarrow> cbuf" where
  "alloc_cbuf sz = \<lparr>c_head = 0, c_tail = 0, c_size = sz, c_buf = replicate (nat sz) 0\<rparr>"

definition CBUFHEADPOS :: "cbuf \<Rightarrow> int" where
  "CBUFHEADPOS c = c_head c smod c_size c"

definition CBUFTAILPOS :: "cbuf \<Rightarrow> int" where
  "CBUFTAILPOS c = c_tail c smod c_size c"

definition CBUFUSED :: "cbuf \<Rightarrow> int" where
  "CBUFUSED c = c_head c - c_tail c"

definition CBUFFREE :: "cbuf \<Rightarrow> int" where
  "CBUFFREE c = c_size c - CBUFUSED c"

definition CBUFHEADRIGHT :: "cbuf \<Rightarrow> int" where
  "CBUFHEADRIGHT c =
     (if CBUFHEADPOS c \<ge> CBUFTAILPOS c then c_size c - CBUFHEADPOS c
      else CBUFTAILPOS c - CBUFHEADPOS c)"

definition CBUFTAILRIGHT :: "cbuf \<Rightarrow> int" where
  "CBUFTAILRIGHT c =
     (if CBUFHEADPOS c > CBUFTAILPOS c then CBUFUSED c else c_size c - CBUFTAILPOS c)"

partial_function (option) write_cbuf_loop :: "cbuf \<Rightarrow> bytes \<Rightarrow> int \<Rightarrow> cbuf option" where
  "write_cbuf_loop c buf len =
     (if len > 0 then
        (let onelen = min (CBUFHEADRIGHT c) len in
         write_cbuf_loop
           (c\<lparr>c_buf := memcpy (c_buf c) (nat (CBUFHEADPOS c)) buf (nat onelen),
              c_head := c_head c + onelen\<rparr>)
           (drop (nat onelen) buf) (len - onelen))
      else Some c)"

text \<open>The result is the buffer and the number of bytes written; a null buffer takes none.\<close>

definition write_cbuf :: "cbuf option \<Rightarrow> bytes \<Rightarrow> int \<Rightarrow> (cbuf option \<times> int) option" where
  "write_cbuf cb buf sz =
     (case cb of None \<Rightarrow> Some (None, 0)
      | Some c \<Rightarrow>
          (let wlen = min (CBUFFREE c) sz in
           map_option (\<lambda>c'. (Some c', wlen)) (write_cbuf_loop c buf wlen)))"

text \<open>The bytes copied so far stand for the part of the caller's buffer that is filled.\<close>

partial_function (option) read_cbuf_loop :: "cbuf \<Rightarrow> bytes \<Rightarrow> int \<Rightarrow> (cbuf \<times> bytes) option" where
  "read_cbuf_loop c acc len =
     (if len > 0 then
        (let onelen = min (CBUFTAILRIGHT c) len in
         read_cbuf_loop (c\<lparr>c_tail := c_tail c + onelen\<rparr>)
           (acc @ slice (nat (CBUFTAILPOS c)) (nat onelen) (c_buf c)) (len - onelen))
      else Some (c, acc))"

definition read_cbuf :: "cbuf option \<Rightarrow> int \<Rightarrow> (cbuf option \<times> bytes \<times> int) option" where
  "read_cbuf cb sz =
     (case cb of None \<Rightarrow> Some (None, [], 0)
      | Some c \<Rightarrow>
          (let rlen = min (CBUFUSED c) sz in
           map_option
             (\<lambda>(c', out).
                (Some (if c_tail c' \<ge> c_size c'
                       then c'\<lparr>c_head := c_head c' - c_size c', c_tail := c_tail c' - c_size c'\<rparr>
                       else c'), out, rlen))
             (read_cbuf_loop c [] rlen)))"

section \<open>Well-formed buffers and what they hold\<close>

definition cbuf_pos_inv :: "cbuf \<Rightarrow> bool" where
  "cbuf_pos_inv c \<longleftrightarrow>
     0 \<le> c_size c \<and> length (c_buf c) = nat (c_size c) \<and> 0 \<le> c_tail c \<and>
     c_tail c \<le> c_head c \<and> CBUFUSED c \<le> c_size c"

definition cbuf_inv :: "cbuf \<Rightarrow> bool" where
  "cbuf_inv c \<longleftrightarrow> cbuf_pos_inv c \<and> (c_tail c < c_size c \<or> c_size c = 0 \<and> c_tail c = 0)"

definition cbuf_list :: "cbuf \<Rightarrow> bytes" where
  "cbuf_list c = ring_list (c_buf c) (nat (c_tail c)) (nat (CBUFUSED c))"

lemma smod_nonneg: "0 \<le> a \<Longrightarrow> 0 \<le> b \<Longrightarrow> a smod b = a mod (b::int)"
  by (simp add: signed_modulo_int_def signed_divide_int_def sgn_if minus_div_mult_eq_mod)

lemma mod_nonneg: "0 \<le> a \<Longrightarrow> 0 \<le> b \<Longrightarrow> 0 \<le> a mod (b::int)"
  by (cases "b = 0") auto

lemma length_cbuf_list [simp]: "length (cbuf_list c) = nat (CBUFUSED c)"
  by (simp add: cbuf_list_def)

lemma alloc_cbuf_inv: "0 \<le> sz \<Longrightarrow> cbuf_inv (alloc_cbuf sz)"
  by (auto simp: cbuf_inv_def cbuf_pos_inv_def alloc_cbuf_def CBUFUSED_def)

lemma alloc_cbuf_list: "cbuf_list (alloc_cbuf sz) = []"
  by (simp add: cbuf_list_def alloc_cbuf_def CBUFUSED_def)

lemma alloc_cbuf_free: "CBUFFREE (alloc_cbuf sz) = sz"
  by (simp add: CBUFFREE_def CBUFUSED_def alloc_cbuf_def)

text \<open>The positions as naturals: the arithmetic of the copying steps is done there.\<close>

lemma cbuf_nat:
  assumes "cbuf_pos_inv c"
  shows "nat (c_head c) = nat (c_tail c) + nat (CBUFUSED c)"
    and "nat (CBUFHEADPOS c) = nat (c_head c) mod length (c_buf c)"
    and "nat (CBUFTAILPOS c) = nat (c_tail c) mod length (c_buf c)"
    and "0 \<le> CBUFHEADPOS c" and "0 \<le> CBUFTAILPOS c"
    and "nat (CBUFUSED c) \<le> length (c_buf c)"
  using assms
  by (auto simp: cbuf_pos_inv_def CBUFUSED_def CBUFHEADPOS_def CBUFTAILPOS_def smod_nonneg
      nat_mod_distrib nat_diff_distrib mod_nonneg)

lemma pos_lt_size:
  assumes "cbuf_pos_inv c" and "0 < c_size c"
  shows "CBUFHEADPOS c < c_size c" and "CBUFTAILPOS c < c_size c"
  using assms by (auto simp: cbuf_pos_inv_def CBUFHEADPOS_def CBUFTAILPOS_def smod_nonneg)


section \<open>Writing\<close>

lemma headright_pos: "cbuf_pos_inv c \<Longrightarrow> 0 < c_size c \<Longrightarrow> 0 < CBUFHEADRIGHT c"
  using pos_lt_size [of c] by (auto simp: CBUFHEADRIGHT_def)

lemma headright_fits:
  assumes "cbuf_pos_inv c" and "0 < c_size c" and "0 \<le> n" and "n \<le> CBUFHEADRIGHT c"
  shows "nat (c_head c) mod length (c_buf c) + nat n \<le> length (c_buf c)"
proof -
  have "CBUFHEADPOS c + n \<le> c_size c"
    using assms pos_lt_size [of c] by (auto simp: CBUFHEADRIGHT_def split: if_splits)
  then have "nat (CBUFHEADPOS c) + nat n \<le> nat (c_size c)"
    using assms cbuf_nat(4) [OF assms(1)] by linarith
  then show ?thesis
    using assms cbuf_nat(2) [OF assms(1)] by (simp add: cbuf_pos_inv_def)
qed

lemma write_step:
  assumes inv: "cbuf_pos_inv c" and n: "0 < n" "n \<le> CBUFHEADRIGHT c" "n \<le> CBUFFREE c"
    and src: "nat n \<le> length src"
    and c': "c' = c\<lparr>c_buf := memcpy (c_buf c) (nat (CBUFHEADPOS c)) src (nat n),
      c_head := c_head c + n\<rparr>"
  shows "cbuf_pos_inv c'" and "cbuf_list c' = cbuf_list c @ take (nat n) src"
    and "CBUFFREE c' = CBUFFREE c - n"
proof -
  let ?t = "nat (c_tail c)" and ?u = "nat (CBUFUSED c)" and ?N = "length (c_buf c)"
  have size: "0 < c_size c"
    using inv n by (auto simp: cbuf_pos_inv_def CBUFFREE_def CBUFUSED_def)
  have pos: "nat (CBUFHEADPOS c) = (?t + ?u) mod ?N"
    using cbuf_nat(1,2) [OF inv] by simp
  have fits: "(?t + ?u) mod ?N + nat n \<le> ?N"
    using headright_fits [OF inv size] n cbuf_nat(1) [OF inv] by simp
  then have len: "length (memcpy (c_buf c) ((?t + ?u) mod ?N) src (nat n)) = ?N"
    using src by simp
  show "cbuf_pos_inv c'"
    using inv n len by (auto simp: c' pos cbuf_pos_inv_def CBUFFREE_def CBUFUSED_def)
  show "CBUFFREE c' = CBUFFREE c - n"
    by (simp add: c' CBUFFREE_def CBUFUSED_def)
  have "?u + nat n \<le> ?N"
    using inv n by (auto simp: cbuf_pos_inv_def CBUFFREE_def CBUFUSED_def)
  then have "ring_list (memcpy (c_buf c) ((?t + ?u) mod ?N) src (nat n)) ?t (?u + nat n) =
      ring_list (c_buf c) ?t ?u @ take (nat n) src"
    using fits src by (rule ring_list_memcpy)
  moreover have "nat (CBUFUSED c') = ?u + nat n"
    using inv n by (auto simp: c' cbuf_pos_inv_def CBUFUSED_def)
  ultimately show "cbuf_list c' = cbuf_list c @ take (nat n) src"
    by (simp add: c' cbuf_list_def pos)
qed

lemma write_cbuf_loop_correct:
  assumes "cbuf_pos_inv c" and "len \<le> CBUFFREE c" and "nat len \<le> length src"
  shows "\<exists>c'. write_cbuf_loop c src len = Some c' \<and> cbuf_pos_inv c' \<and>
    cbuf_list c' = cbuf_list c @ take (nat len) src \<and> c_tail c' = c_tail c \<and> c_size c' = c_size c"
  using assms
proof (induction "nat len" arbitrary: c src len rule: less_induct)
  case less
  show ?case
  proof (cases "len > 0")
    case False
    then show ?thesis using less.prems by (simp add: write_cbuf_loop.simps)
  next
    case True
    define n where "n = min (CBUFHEADRIGHT c) len"
    define c' where "c' = c\<lparr>c_buf := memcpy (c_buf c) (nat (CBUFHEADPOS c)) src (nat n),
      c_head := c_head c + n\<rparr>"
    have "0 < c_size c"
      using less.prems True by (auto simp: cbuf_pos_inv_def CBUFFREE_def CBUFUSED_def)
    then have n: "0 < n" "n \<le> len"
      using headright_pos [OF less.prems(1)] True by (auto simp: n_def)
    have "n \<le> CBUFFREE c" "nat n \<le> length src" "n \<le> CBUFHEADRIGHT c"
      using n less.prems by (auto simp: n_def)
    note step = write_step [OF less.prems(1) n(1) this(3,1,2) c'_def]
    have "\<exists>c''. write_cbuf_loop c' (drop (nat n) src) (len - n) = Some c'' \<and> cbuf_pos_inv c'' \<and>
        cbuf_list c'' = cbuf_list c' @ take (nat (len - n)) (drop (nat n) src) \<and>
        c_tail c'' = c_tail c' \<and> c_size c'' = c_size c'"
      using n less.prems step by (intro less.hyps) auto
    moreover have "take (nat len) src = take (nat n) src @ take (nat (len - n)) (drop (nat n) src)"
      using n by (metis nat_add_distrib add_diff_cancel_left' add_diff_eq diff_ge_0_iff_ge
          less_imp_le take_add)
    ultimately show ?thesis
      using True step(2) by (subst write_cbuf_loop.simps) (auto simp: Let_def n_def c'_def)
  qed
qed


section \<open>Reading\<close>

lemma tailright_pos:
  "cbuf_pos_inv c \<Longrightarrow> 0 < CBUFUSED c \<Longrightarrow> 0 < CBUFTAILRIGHT c"
  using pos_lt_size [of c] by (auto simp: CBUFTAILRIGHT_def cbuf_pos_inv_def)

lemma mod_no_wrap:
  assumes "t mod N < (t + u) mod N" and "u \<le> (N::nat)"
  shows "t mod N + u \<le> N"
proof (rule ccontr)
  assume wrap: "\<not> t mod N + u \<le> N"
  have "0 < N" using assms by (cases N) auto
  then have tN: "t mod N < N" by simp
  have "(t + u) mod N = (t mod N + u) mod N" by (simp add: mod_add_left_eq)
  also have "\<dots> = t mod N + u - N"
    using wrap assms(2) tN by (simp add: le_mod_geq)
  finally show False using assms wrap by linarith
qed

lemma tailright_fits:
  assumes inv: "cbuf_pos_inv c" and used: "0 < CBUFUSED c" and n: "0 \<le> n" "n \<le> CBUFTAILRIGHT c"
  shows "nat (c_tail c) mod length (c_buf c) + nat n \<le> length (c_buf c)"
proof (cases "CBUFHEADPOS c > CBUFTAILPOS c")
  case True
  then have "nat (c_tail c) mod length (c_buf c) <
      (nat (c_tail c) + nat (CBUFUSED c)) mod length (c_buf c)"
    using cbuf_nat [OF inv] by (metis nat_less_eq_zless)
  then have "nat (c_tail c) mod length (c_buf c) + nat (CBUFUSED c) \<le> length (c_buf c)"
    using cbuf_nat(6) [OF inv] by (rule mod_no_wrap)
  with True n show ?thesis by (simp add: CBUFTAILRIGHT_def)
next
  case False
  with n have "CBUFTAILPOS c + n \<le> c_size c" by (simp add: CBUFTAILRIGHT_def)
  then have "nat (CBUFTAILPOS c) + nat n \<le> nat (c_size c)"
    using n cbuf_nat(5) [OF inv] by linarith
  then show ?thesis using cbuf_nat(3) [OF inv] inv by (simp add: cbuf_pos_inv_def)
qed

lemma read_step:
  assumes inv: "cbuf_pos_inv c" and n: "0 < n" "n \<le> CBUFTAILRIGHT c" "n \<le> CBUFUSED c"
    and c': "c' = c\<lparr>c_tail := c_tail c + n\<rparr>"
  shows "cbuf_pos_inv c'"
    and "slice (nat (CBUFTAILPOS c)) (nat n) (c_buf c) = take (nat n) (cbuf_list c)"
    and "cbuf_list c' = drop (nat n) (cbuf_list c)"
    and "CBUFUSED c' = CBUFUSED c - n"
proof -
  have used: "0 < CBUFUSED c" using n by simp
  show "cbuf_pos_inv c'"
    using inv n by (auto simp: c' cbuf_pos_inv_def CBUFUSED_def)
  show used': "CBUFUSED c' = CBUFUSED c - n"
    by (simp add: c' CBUFUSED_def)
  have "ring_list (c_buf c) (nat (c_tail c)) (nat n) =
      slice (nat (CBUFTAILPOS c)) (nat n) (c_buf c)"
    using ring_list_contiguous [OF tailright_fits [OF inv used]] n cbuf_nat(3) [OF inv] by simp
  moreover have "take (nat n) (cbuf_list c) = ring_list (c_buf c) (nat (c_tail c)) (nat n)"
    using n ring_list_split [of "nat n" "nat (CBUFUSED c)"] by (simp add: cbuf_list_def)
  ultimately show "slice (nat (CBUFTAILPOS c)) (nat n) (c_buf c) = take (nat n) (cbuf_list c)"
    by simp
  have "nat (c_tail c') = nat (c_tail c) + nat n"
    using inv n by (simp add: c' cbuf_pos_inv_def nat_add_distrib)
  moreover have "nat (CBUFUSED c') = nat (CBUFUSED c) - nat n"
    using used' n by (simp add: nat_diff_distrib)
  ultimately show "cbuf_list c' = drop (nat n) (cbuf_list c)"
    using n by (simp add: cbuf_list_def ring_list_drop) (simp add: c')
qed

lemma read_cbuf_loop_correct:
  assumes "cbuf_pos_inv c" and "len \<le> CBUFUSED c"
  shows "\<exists>c'. read_cbuf_loop c acc len = Some (c', acc @ take (nat len) (cbuf_list c)) \<and>
    cbuf_pos_inv c' \<and> cbuf_list c' = drop (nat len) (cbuf_list c) \<and>
    c_tail c' = c_tail c + max 0 len \<and> c_size c' = c_size c \<and> c_head c' = c_head c \<and>
    c_buf c' = c_buf c"
  using assms
proof (induction "nat len" arbitrary: c acc len rule: less_induct)
  case less
  show ?case
  proof (cases "len > 0")
    case False
    then show ?thesis using less.prems by (simp add: read_cbuf_loop.simps)
  next
    case True
    define n where "n = min (CBUFTAILRIGHT c) len"
    define c' where "c' = c\<lparr>c_tail := c_tail c + n\<rparr>"
    have n: "0 < n" "n \<le> len" "n \<le> CBUFTAILRIGHT c" "n \<le> CBUFUSED c"
      using tailright_pos [OF less.prems(1)] less.prems True by (auto simp: n_def)
    note step = read_step [OF less.prems(1) n(1,3,4) c'_def]
    let ?acc = "acc @ take (nat n) (cbuf_list c)"
    have IH: "\<exists>c''. read_cbuf_loop c' ?acc (len - n) =
          Some (c'', ?acc @ take (nat (len - n)) (cbuf_list c')) \<and>
        cbuf_pos_inv c'' \<and> cbuf_list c'' = drop (nat (len - n)) (cbuf_list c') \<and>
        c_tail c'' = c_tail c' + max 0 (len - n) \<and> c_size c'' = c_size c' \<and>
        c_head c'' = c_head c' \<and> c_buf c'' = c_buf c'"
      using n less.prems step by (intro less.hyps) auto
    have len: "nat len = nat n + nat (len - n)" using n by simp
    have parts: "take (nat len) xs = take (nat n) xs @ take (nat (len - n)) (drop (nat n) xs)"
      "drop (nat len) xs = drop (nat (len - n)) (drop (nat n) xs)" for xs :: bytes
      unfolding len by (simp_all add: take_add add.commute)
    have unfold: "read_cbuf_loop c acc len = read_cbuf_loop c' ?acc (len - n)"
      using True step(2) by (subst read_cbuf_loop.simps) (simp add: Let_def n_def c'_def)
    show ?thesis
      using IH n step(3) unfolding unfold parts by (auto simp: c'_def)
  qed
qed


section \<open>The contract of the two calls\<close>

lemma write_cbuf_correct:
  assumes "cbuf_inv c" and "0 \<le> n" and "nat n \<le> length buf"
  shows "\<exists>c'. write_cbuf (Some c) buf n = Some (Some c', min (CBUFFREE c) n) \<and> cbuf_inv c' \<and>
    cbuf_list c' = cbuf_list c @ take (nat (min (CBUFFREE c) n)) buf \<and> c_size c' = c_size c"
proof -
  from assms have inv: "cbuf_pos_inv c" by (simp add: cbuf_inv_def)
  have "nat (min (CBUFFREE c) n) \<le> length buf" using assms(3) by linarith
  from write_cbuf_loop_correct [OF inv _ this] obtain c' where
    "write_cbuf_loop c buf (min (CBUFFREE c) n) = Some c'" "cbuf_pos_inv c'"
    "cbuf_list c' = cbuf_list c @ take (nat (min (CBUFFREE c) n)) buf"
    "c_tail c' = c_tail c" "c_size c' = c_size c"
    by auto
  with assms(1) show ?thesis by (simp add: write_cbuf_def Let_def cbuf_inv_def)
qed

lemma rebase:
  assumes inv: "cbuf_pos_inv c" and tail: "c_tail c \<le> 2 * c_size c"
    and c': "c' = (if c_tail c \<ge> c_size c
      then c\<lparr>c_head := c_head c - c_size c, c_tail := c_tail c - c_size c\<rparr> else c)"
    and lt: "c_tail c < 2 * c_size c \<or> c_size c = 0 \<and> c_tail c = 0"
  shows "cbuf_inv c'" and "cbuf_list c' = cbuf_list c" and "c_size c' = c_size c"
proof -
  show "cbuf_inv c'"
    using inv lt by (auto simp: c' cbuf_inv_def cbuf_pos_inv_def CBUFUSED_def)
  show "c_size c' = c_size c" by (simp add: c')
  show "cbuf_list c' = cbuf_list c"
  proof (cases "c_tail c \<ge> c_size c")
    case True
    then have "nat (c_tail c) = nat (c_tail c - c_size c) + length (c_buf c)"
      using inv by (auto simp: cbuf_pos_inv_def nat_diff_distrib)
    then have "nat (c_tail c) mod length (c_buf c) =
        nat (c_tail c - c_size c) mod length (c_buf c)" by simp
    with True show ?thesis
      using ring_list_mod by (simp add: c' cbuf_list_def CBUFUSED_def) metis
  qed (simp add: c')
qed

lemma read_cbuf_correct:
  assumes "cbuf_inv c" and "0 \<le> n"
  shows "\<exists>c'. read_cbuf (Some c) n =
      Some (Some c', take (nat n) (cbuf_list c), min (CBUFUSED c) n) \<and>
    cbuf_inv c' \<and> cbuf_list c' = drop (nat n) (cbuf_list c) \<and> c_size c' = c_size c"
proof -
  from assms have inv: "cbuf_pos_inv c" by (simp add: cbuf_inv_def)
  let ?r = "min (CBUFUSED c) n"
  have used: "0 \<le> CBUFUSED c" using inv by (simp add: cbuf_pos_inv_def CBUFUSED_def)
  obtain c1 where c1: "read_cbuf_loop c [] ?r = Some (c1, take (nat ?r) (cbuf_list c))"
    "cbuf_pos_inv c1" "cbuf_list c1 = drop (nat ?r) (cbuf_list c)"
    "c_tail c1 = c_tail c + max 0 ?r" "c_size c1 = c_size c"
    using read_cbuf_loop_correct [OF inv, of ?r "[]"] by auto
  define c' where "c' = (if c_tail c1 \<ge> c_size c1
    then c1\<lparr>c_head := c_head c1 - c_size c1, c_tail := c_tail c1 - c_size c1\<rparr> else c1)"
  have "c_tail c1 < 2 * c_size c1 \<or> c_size c1 = 0 \<and> c_tail c1 = 0" "c_tail c1 \<le> 2 * c_size c1"
    using assms c1(4,5) used by (auto simp: cbuf_inv_def cbuf_pos_inv_def)
  note reb = rebase [OF c1(2) this(2) c'_def this(1)]
  have "take (nat ?r) (cbuf_list c) = take (nat n) (cbuf_list c)"
    "drop (nat ?r) (cbuf_list c) = drop (nat n) (cbuf_list c)"
    using assms(2) used by (auto simp: min_def)
  then show ?thesis
    using c1 reb by (auto simp: read_cbuf_def Let_def c'_def)
qed

definition cbuf_put :: "cbuf \<Rightarrow> bytes \<Rightarrow> (cbuf \<times> nat) option" where
  "cbuf_put c d =
     (case write_cbuf (Some c) d (int (length d)) of
        Some (Some c', n) \<Rightarrow> Some (c', nat n) | _ \<Rightarrow> None)"

definition cbuf_get :: "cbuf \<Rightarrow> nat \<Rightarrow> (cbuf \<times> bytes) option" where
  "cbuf_get c n =
     (case read_cbuf (Some c) (int n) of
        Some (Some c', d, _) \<Rightarrow> Some (c', d) | _ \<Rightarrow> None)"

lemma cbuf_put_spec:
  "cbuf_inv c \<Longrightarrow> \<exists>c' n. cbuf_put c d = Some (c', n) \<and> cbuf_inv c' \<and>
     cbuf_list c' = cbuf_list c @ take n d \<and> c_size c' = c_size c"
  using write_cbuf_correct [of c "int (length d)" d] by (auto simp: cbuf_put_def)

lemma cbuf_get_spec:
  "cbuf_inv c \<Longrightarrow> \<exists>c' d. cbuf_get c n = Some (c', d) \<and> cbuf_inv c' \<and>
     cbuf_list c = d @ cbuf_list c' \<and> c_size c' = c_size c"
  using read_cbuf_correct [of c "int n"] by (auto simp: cbuf_get_def)

lemma cbuf_put_D:
  "cbuf_inv c \<Longrightarrow> cbuf_put c d = Some (c', n) \<Longrightarrow>
     cbuf_inv c' \<and> cbuf_list c' = cbuf_list c @ take n d \<and> c_size c' = c_size c"
  using cbuf_put_spec [of c d] by auto

lemma cbuf_get_D:
  "cbuf_inv c \<Longrightarrow> cbuf_get c n = Some (c', d) \<Longrightarrow>
     cbuf_inv c' \<and> cbuf_list c = d @ cbuf_list c' \<and> c_size c' = c_size c"
  using cbuf_get_spec [of c n] by auto

lemma cbuf_put_total: "cbuf_inv c \<Longrightarrow> \<exists>c' n. cbuf_put c d = Some (c', n)"
  using cbuf_put_spec by blast

lemma cbuf_get_total: "cbuf_inv c \<Longrightarrow> \<exists>c' d. cbuf_get c n = Some (c', d)"
  using cbuf_get_spec by blast

interpretation cb: byte_fifo cbuf_inv cbuf_list "\<lambda>c. nat (c_size c)" cbuf_put cbuf_get
proof unfold_locales
  fix c assume "cbuf_inv c"
  then show "length (cbuf_list c) \<le> nat (c_size c)"
    by (auto simp: cbuf_inv_def cbuf_pos_inv_def nat_le_eq_zle)
qed (auto dest: cbuf_put_D cbuf_get_D simp: cbuf_put_total cbuf_get_total)

section \<open>Properties\<close>

text \<open>
  \<open>write_cbuf\<close> on a well-formed buffer returns, takes as many of the caller's bytes as there
  is room for, appends exactly those behind what the buffer holds, and keeps the buffer
  well-formed.
\<close>

theorem write_cbuf_appends:
  assumes "cbuf_inv c" and "0 \<le> n" and "nat n \<le> length buf"
  shows "\<exists>c'. write_cbuf (Some c) buf n = Some (Some c', min (CBUFFREE c) n) \<and> cbuf_inv c' \<and>
    cbuf_list c' = cbuf_list c @ take (nat (min (CBUFFREE c) n)) buf \<and> c_size c' = c_size c"
  using assms by (rule write_cbuf_correct)

theorem write_cbuf_appends_witness:
  "cbuf_inv (alloc_cbuf 2) \<and> (\<exists>c'. write_cbuf (Some (alloc_cbuf 2)) [7, 8, 9] 3 =
      Some (Some c', 2) \<and> cbuf_list c' = [7, 8])"
  using write_cbuf_appends [of "alloc_cbuf 2" 3 "[7, 8, 9]"] alloc_cbuf_inv [of 2]
  by (auto simp: alloc_cbuf_list alloc_cbuf_free)

text \<open>
  \<open>read_cbuf\<close> on a well-formed buffer returns, hands out the oldest bytes the buffer holds, as
  many as asked for or as there are, removes exactly those, and keeps the buffer well-formed.
\<close>

theorem read_cbuf_takes:
  assumes "cbuf_inv c" and "0 \<le> n"
  shows "\<exists>c'. read_cbuf (Some c) n =
      Some (Some c', take (nat n) (cbuf_list c), min (CBUFUSED c) n) \<and>
    cbuf_inv c' \<and> cbuf_list c' = drop (nat n) (cbuf_list c) \<and> c_size c' = c_size c"
  using assms by (rule read_cbuf_correct)

theorem read_cbuf_takes_witness:
  "\<exists>c'. read_cbuf (Some \<lparr>c_head = 5, c_tail = 2, c_size = 4, c_buf = [4, 1, 2, 3]\<rparr>) 2 =
     Some (Some c', [2, 3], 2) \<and> cbuf_list c' = [4]"
proof -
  let ?c = "\<lparr>c_head = 5, c_tail = 2, c_size = 4, c_buf = [4, 1, 2, 3]\<rparr>"
  have "cbuf_inv ?c" by (simp add: cbuf_inv_def cbuf_pos_inv_def CBUFUSED_def)
  moreover have "cbuf_list ?c = [2, 3, 4]"
    by (simp add: cbuf_list_def CBUFUSED_def ring_list_def upt_conv_Cons)
  ultimately show ?thesis
    using read_cbuf_takes [of ?c 2] by (auto simp: CBUFUSED_def)
qed

text \<open>
  C40: A buffer is a byte stream: starting from a well-formed buffer, any sequence of writes and
  reads runs to the end, and what was in the buffer followed by all accepted bytes is what was
  handed out followed by what is left, which never exceeds the size of the buffer.
\<close>

theorem cbuf_stream:
  assumes "cbuf_inv c"
  shows "\<exists>c' i out. fifo_run cbuf_put cbuf_get c ops = Some (c', i, out) \<and> cbuf_inv c' \<and>
    cbuf_list c @ i = out @ cbuf_list c' \<and> length (cbuf_list c') \<le> nat (c_size c)"
  using cb.stream [OF assms, of ops] by blast

theorem cbuf_stream_witness:
  "\<exists>c' i out. fifo_run cbuf_put cbuf_get (alloc_cbuf 3) [Put [1, 2], Get 1, Put [3, 4, 5]] =
     Some (c', i, out) \<and> i = out @ cbuf_list c'"
  using cbuf_stream [OF alloc_cbuf_inv, of 3 "[Put [1, 2], Get 1, Put [3, 4, 5]]"]
  by (auto simp: alloc_cbuf_list)

end
