(* ===== verification/Fast_Pipe.thy ===== *)
theory Fast_Pipe
  imports Fifo
begin

text \<open>
  The shared-memory pipe of \<^verbatim>\<open>src/net/fast_pipe.c\<close>, which carries the frames of the simulated
  ethernet interface of \<^verbatim>\<open>src/net/shm_eth.c\<close>. Indices are 32-bit words as in the code, and the
  comparisons of \<^verbatim>\<open>cb_put_packet\<close> and \<^verbatim>\<open>cb_get_packet\<close>, which the code makes in \<^verbatim>\<open>size_t\<close>, are made
  on naturals. An index may stay at the capacity, one behind the last byte, until the next access.

  The lemmas show the pipe is a bounded byte queue (it provides the contract of \<open>Fifo\<close>) and a queue of
  packets: a frame that was accepted comes out whole, once, in order. The last section does this for a
  writer and a reader that run concurrently, at the granularity of the accesses to the shared fields.
\<close>

record CB_T =
  capacity :: u32
  write_index :: u32
  used :: u32
  read_index :: u32
  cbdata :: bytes

definition cb_init :: "CB_T \<Rightarrow> u32 \<Rightarrow> CB_T" where
  "cb_init cb n = cb\<lparr>capacity := n, read_index := 0, used := 0, write_index := 0\<rparr>"

text \<open>The storage that \<^verbatim>\<open>malloc\<close> returns is the argument \<open>mem\<close>.\<close>

definition cb_new :: "bytes \<Rightarrow> u32 \<Rightarrow> CB_T" where
  "cb_new mem n =
     cb_init \<lparr>capacity = 0, write_index = 0, used = 0, read_index = 0, cbdata = take (unat n) mem\<rparr> n"

definition cb_push_data :: "CB_T \<Rightarrow> u32 \<Rightarrow> bytes \<Rightarrow> u32 \<Rightarrow> u32 \<times> CB_T" where
  "cb_push_data cb wi data len =
     (let copylen = len
      in if wi + copylen > capacity cb
         then let copylen = capacity cb - wi;
                  cb = cb\<lparr>cbdata := memcpy (cbdata cb) (unat wi) data (unat copylen)\<rparr>;
                  len = len - copylen;
                  cb = cb\<lparr>cbdata := memcpy (cbdata cb) 0 (drop (unat copylen) data) (unat len)\<rparr>
              in (len, cb)
         else (wi + len, cb\<lparr>cbdata := memcpy (cbdata cb) (unat wi) data (unat len)\<rparr>))"

definition cb_shift_data :: "CB_T \<Rightarrow> u32 \<Rightarrow> u32 \<Rightarrow> bytes \<times> u32" where
  "cb_shift_data cb ri buflen =
     (let tail_length = capacity cb - ri
      in if tail_length \<ge> buflen
         then (slice (unat ri) (unat buflen) (cbdata cb), ri + buflen)
         else (slice (unat ri) (unat tail_length) (cbdata cb) @
               slice 0 (unat (buflen - tail_length)) (cbdata cb), buflen - tail_length))"

definition cb_put :: "CB_T \<Rightarrow> bytes \<Rightarrow> u32 \<Rightarrow> CB_T \<times> bool" where
  "cb_put cb data len =
     (if used cb + len > capacity cb then (cb, False)
      else let (wi, cb) = cb_push_data cb (write_index cb) data len;
               cb = cb\<lparr>write_index := wi\<rparr>
           in (cb\<lparr>used := used cb + len\<rparr>, True))"

definition cb_get :: "CB_T \<Rightarrow> u32 \<Rightarrow> (bytes \<times> CB_T) option" where
  "cb_get cb len =
     (if used cb < len then None
      else let (data, ri) = cb_shift_data cb (read_index cb) len
           in Some (data, cb\<lparr>read_index := ri, used := used cb - len\<rparr>))"

text \<open>The four bytes of the length word, as the host stores them.\<close>

definition le32 :: "u32 \<Rightarrow> bytes" where
  "le32 v = wr32 0 v [0, 0, 0, 0]"

definition cb_put_packet :: "CB_T \<Rightarrow> bytes \<Rightarrow> u32 \<Rightarrow> CB_T \<times> bool" where
  "cb_put_packet cb data len =
     (if unat (capacity cb - used cb) < 4 + unat len then (cb, False)
      else let (wi, cb) = cb_push_data cb (write_index cb) (le32 len) 4;
               (wi, cb) = cb_push_data cb wi data len;
               cb = cb\<lparr>write_index := wi\<rparr>
           in (cb\<lparr>used := used cb + (4 + len)\<rparr>, True))"

definition cb_get_packet :: "CB_T \<Rightarrow> u32 \<Rightarrow> (bytes \<times> CB_T) option" where
  "cb_get_packet cb buflen =
     (if unat (used cb) < 4 then None
      else let (hd, ri) = cb_shift_data cb (read_index cb) 4;
               pktlen = rd32 hd 0
           in if unat (used cb) < unat pktlen + 4 \<or> pktlen > buflen then None
              else let (data, ri) = cb_shift_data cb ri pktlen;
                       cb = cb\<lparr>used := used cb - (pktlen + 4)\<rparr>
                   in Some (data, cb\<lparr>read_index := ri\<rparr>))"

section \<open>Moving bytes through the ring\<close>

text \<open>
  \<open>at_index c i t\<close>: the index \<open>i\<close> of the code stands for the ring position \<open>t\<close>.
\<close>

definition at_index :: "nat \<Rightarrow> u32 \<Rightarrow> nat \<Rightarrow> bool" where
  "at_index c i t \<longleftrightarrow> unat i \<le> c \<and> unat i mod c = t mod c"

lemma memcpy_0 [simp]: "off \<le> length dst \<Longrightarrow> memcpy dst off src 0 = dst"
  by (simp add: memcpy_def)

lemma push_nat:
  assumes c: "0 < length b" "w \<le> length b" "w mod length b = (t + u) mod length b"
    and fit: "u + length src \<le> length b"
  defines "k \<equiv> length b - w"
  shows "w + length src \<le> length b \<Longrightarrow>
      ring_list (memcpy b w src (length src)) t (u + length src) = ring_list b t u @ src"
    and "length b < w + length src \<Longrightarrow>
      ring_list (memcpy (memcpy b w src k) 0 (drop k src) (length src - k)) t (u + length src) =
        ring_list b t u @ src"
proof -
  let ?N = "length b"
  show "ring_list (memcpy b w src (length src)) t (u + length src) = ring_list b t u @ src"
    if "w + length src \<le> ?N"
  proof (cases "w = ?N")
    case True
    then have "src = []" using that by simp
    with True show ?thesis by simp
  next
    case False
    then have "w = (t + u) mod ?N" using c by simp
    then show ?thesis using ring_list_memcpy [of u "length src" b t src] fit that by simp
  qed
  show "ring_list (memcpy (memcpy b w src k) 0 (drop k src) (length src - k)) t (u + length src) =
      ring_list b t u @ src" if "?N < w + length src"
  proof -
    let ?b1 = "memcpy b w src k"
    have k: "k \<le> length src" "w + k = ?N" using that c by (auto simp: k_def)
    have len: "length ?b1 = ?N" using k by simp
    have first: "ring_list ?b1 t (u + k) = ring_list b t u @ take k src"
    proof (cases "w = ?N")
      case True
      then show ?thesis using k by simp
    next
      case False
      then have "w = (t + u) mod ?N" using c by simp
      then show ?thesis using ring_list_memcpy [of u k b t src] fit k by simp
    qed
    have "(t + (u + k)) mod ?N = (w + k) mod ?N"
      using c(3) by (metis add.assoc mod_add_left_eq)
    then have zero: "(t + (u + k)) mod length ?b1 = 0" using k len by simp
    have "ring_list (memcpy ?b1 0 (drop k src) (length src - k)) t (u + k + (length src - k)) =
        ring_list ?b1 t (u + k) @ take (length src - k) (drop k src)"
      using ring_list_memcpy [of "u + k" "length src - k" ?b1 t "drop k src"] zero fit k len by simp
    moreover have "u + k + (length src - k) = u + length src" using k by simp
    ultimately show ?thesis using first k by simp
  qed
qed

lemma shift_nat:
  assumes "0 < length b" "r \<le> length b" "n \<le> length b"
  shows "r + n \<le> length b \<Longrightarrow> slice r n b = ring_list b r n"
    and "length b < r + n \<Longrightarrow>
      slice r (length b - r) b @ slice 0 (n - (length b - r)) b = ring_list b r n"
proof -
  let ?N = "length b"
  have part: "slice r m b = ring_list b r m" if "r + m \<le> ?N" for m
  proof (cases "r = ?N")
    case True
    then show ?thesis using that by (simp add: slice_def)
  next
    case False
    then show ?thesis using ring_list_contiguous [of r b m] that assms by simp
  qed
  then show "r + n \<le> ?N \<Longrightarrow> slice r n b = ring_list b r n" .
  assume *: "?N < r + n"
  let ?k = "?N - r"
  have "ring_list b r n = ring_list b r ?k @ ring_list b (r + ?k) (n - ?k)"
    using * assms by (intro ring_list_split) simp
  moreover have "ring_list b (r + ?k) (n - ?k) = slice 0 (n - ?k) b"
    using ring_list_contiguous [of "r + ?k" b "n - ?k"] assms by simp
  ultimately show "slice r ?k b @ slice 0 (n - ?k) b = ring_list b r n"
    using part [of ?k] assms by simp
qed

lemma cb_push_data_correct:
  assumes cap: "unat (capacity cb) = length (cbdata cb)" "0 < length (cbdata cb)"
      "length (cbdata cb) < 2147483648"
    and wi: "at_index (length (cbdata cb)) wi (t + u)"
    and len: "length data = unat len" and fit: "u + unat len \<le> length (cbdata cb)"
  shows "\<exists>wi' b'. cb_push_data cb wi data len = (wi', cb\<lparr>cbdata := b'\<rparr>) \<and>
    length b' = length (cbdata cb) \<and> at_index (length (cbdata cb)) wi' (t + u + unat len) \<and>
    ring_list b' t (u + unat len) = ring_list (cbdata cb) t u @ data"
proof -
  let ?b = "cbdata cb" let ?N = "length ?b" let ?w = "unat wi" let ?k = "?N - ?w"
  have w: "?w \<le> ?N" "?w mod ?N = (t + u) mod ?N" using wi by (auto simp: at_index_def)
  have sum: "unat (wi + len) = ?w + unat len"
    using w fit cap by (simp add: unat_word_ariths)
  have gt: "wi + len > capacity cb \<longleftrightarrow> ?N < ?w + unat len"
    by (simp add: word_less_nat_alt sum cap)
  have pos: "(?w + unat len) mod ?N = (t + u + unat len) mod ?N"
    using w(2) by (metis mod_add_left_eq)
  note push = push_nat [OF cap(2) w, of data]
  show ?thesis
  proof (cases "?N < ?w + unat len")
    case False
    then have "cb_push_data cb wi data len = (wi + len, cb\<lparr>cbdata := memcpy ?b ?w data (unat len)\<rparr>)"
      by (simp add: cb_push_data_def gt)
    moreover have "at_index ?N (wi + len) (t + u + unat len)"
      using False pos by (simp add: at_index_def sum)
    ultimately show ?thesis using push(1) fit len False w by auto
  next
    case True
    have k: "unat (capacity cb - wi) = ?k"
      using w cap by (simp add: unat_sub word_le_nat_alt)
    have kl: "?k \<le> unat len" using True by simp
    then have l: "unat (len - (capacity cb - wi)) = unat len - ?k"
      by (simp add: unat_sub word_le_nat_alt k)
    let ?b' = "memcpy (memcpy ?b ?w data ?k) 0 (drop ?k data) (unat len - ?k)"
    have "cb_push_data cb wi data len = (len - (capacity cb - wi), cb\<lparr>cbdata := ?b'\<rparr>)"
      using True by (simp add: cb_push_data_def gt Let_def k l)
    moreover have "length ?b' = ?N" using w kl fit len by simp
    moreover have "at_index ?N (len - (capacity cb - wi)) (t + u + unat len)"
    proof -
      have "?w + unat len = ?N + (unat len - ?k)" using kl w by simp
      then have "(unat len - ?k) mod ?N = (?w + unat len) mod ?N" by (simp only: mod_add_self1)
      then show ?thesis using pos fit by (simp add: at_index_def l)
    qed
    ultimately show ?thesis using push(2) fit len True by auto
  qed
qed

lemma cb_shift_data_correct:
  assumes cap: "unat (capacity cb) = length (cbdata cb)" "0 < length (cbdata cb)"
      "length (cbdata cb) < 2147483648"
    and ri: "at_index (length (cbdata cb)) ri t" and n: "unat n \<le> length (cbdata cb)"
  shows "\<exists>ri'. cb_shift_data cb ri n = (ring_list (cbdata cb) t (unat n), ri') \<and>
    at_index (length (cbdata cb)) ri' (t + unat n)"
proof -
  let ?b = "cbdata cb" let ?N = "length ?b" let ?r = "unat ri" let ?k = "?N - ?r"
  have r: "?r \<le> ?N" "?r mod ?N = t mod ?N" using ri by (auto simp: at_index_def)
  have k: "unat (capacity cb - ri) = ?k"
    using r cap by (simp add: unat_sub word_le_nat_alt)
  have sum: "unat (ri + n) = ?r + unat n"
    using r n cap by (simp add: unat_word_ariths)
  have pos: "(?r + unat n) mod ?N = (t + unat n) mod ?N"
    using r(2) by (metis mod_add_left_eq)
  have ring: "ring_list ?b ?r m = ring_list ?b t m" for m
    using r(2) ring_list_mod by metis
  note shift = shift_nat [OF cap(2) r(1) n]
  show ?thesis
  proof (cases "?r + unat n \<le> ?N")
    case True
    then have "n \<le> capacity cb - ri" using r by (simp add: word_le_nat_alt k)
    then have "cb_shift_data cb ri n = (slice ?r (unat n) ?b, ri + n)"
      by (simp add: cb_shift_data_def)
    moreover have "at_index ?N (ri + n) (t + unat n)"
      using True pos by (simp add: at_index_def sum)
    ultimately show ?thesis using shift(1) True ring by simp
  next
    case False
    then have kn: "?k < unat n" using r by linarith
    then have "\<not> n \<le> capacity cb - ri" by (simp add: word_le_nat_alt k)
    moreover have l: "unat (n - (capacity cb - ri)) = unat n - ?k"
      using kn by (simp add: unat_sub word_le_nat_alt k)
    ultimately have "cb_shift_data cb ri n =
        (slice ?r ?k ?b @ slice 0 (unat n - ?k) ?b, n - (capacity cb - ri))"
      by (simp add: cb_shift_data_def Let_def k)
    moreover have "at_index ?N (n - (capacity cb - ri)) (t + unat n)"
    proof -
      have "?r + unat n = ?N + (unat n - ?k)" using kn r by simp
      then have "(unat n - ?k) mod ?N = (?r + unat n) mod ?N" by (simp only: mod_add_self1)
      then show ?thesis using pos n by (simp add: at_index_def l)
    qed
    ultimately show ?thesis using shift(2) False ring by simp
  qed
qed

section \<open>The pipe as a queue of bytes and of packets\<close>

definition cb_inv :: "CB_T \<Rightarrow> bool" where
  "cb_inv cb \<longleftrightarrow>
     unat (capacity cb) = length (cbdata cb) \<and> 0 < length (cbdata cb) \<and>
     length (cbdata cb) < 2147483648 \<and> unat (used cb) \<le> length (cbdata cb) \<and>
     unat (read_index cb) \<le> length (cbdata cb) \<and>
     at_index (length (cbdata cb)) (write_index cb) (unat (read_index cb) + unat (used cb))"

definition cb_list :: "CB_T \<Rightarrow> bytes" where
  "cb_list cb = ring_list (cbdata cb) (unat (read_index cb)) (unat (used cb))"

lemma cb_new_inv:
  "0 < unat n \<Longrightarrow> unat n < 2147483648 \<Longrightarrow> unat n \<le> length mem \<Longrightarrow>
   cb_inv (cb_new mem n) \<and> cb_list (cb_new mem n) = []"
  by (simp add: cb_new_def cb_init_def cb_inv_def cb_list_def at_index_def)

lemma at_index_self: "unat i \<le> c \<Longrightarrow> at_index c i (unat i)"
  by (simp add: at_index_def)

lemma cb_invD:
  assumes "cb_inv cb"
  shows "unat (capacity cb) = length (cbdata cb)" "0 < length (cbdata cb)"
    "length (cbdata cb) < 2147483648" "unat (used cb) \<le> length (cbdata cb)"
    "at_index (length (cbdata cb)) (read_index cb) (unat (read_index cb))"
    "at_index (length (cbdata cb)) (write_index cb) (unat (read_index cb) + unat (used cb))"
  using assms by (auto simp: cb_inv_def at_index_def)

lemma unat_used_add:
  "unat (used cb) + n \<le> c \<Longrightarrow> c < 4294967296 \<Longrightarrow> unat m = n \<Longrightarrow> unat (used cb + m) = unat (used cb) + n"
  by (simp add: unat_word_ariths)

lemma cb_put_correct:
  assumes inv: "cb_inv cb" and len: "length data = unat len" "unat len < 2147483648"
  shows "if unat (used cb) + unat len \<le> length (cbdata cb)
    then \<exists>cb'. cb_put cb data len = (cb', True) \<and> cb_inv cb' \<and> capacity cb' = capacity cb \<and>
      cb_list cb' = cb_list cb @ data
    else cb_put cb data len = (cb, False)"
proof -
  note cap = cb_invD [OF inv]
  have u: "unat (used cb + len) = unat (used cb) + unat len"
    using cap len by (simp add: unat_word_ariths)
  have full: "used cb + len > capacity cb \<longleftrightarrow> length (cbdata cb) < unat (used cb) + unat len"
    by (simp add: word_less_nat_alt u cap)
  show ?thesis
  proof (cases "unat (used cb) + unat len \<le> length (cbdata cb)")
    case True
    from cb_push_data_correct [OF cap(1-3,6) len(1) True] obtain wi b
      where *: "cb_push_data cb (write_index cb) data len = (wi, cb\<lparr>cbdata := b\<rparr>)"
        "length b = length (cbdata cb)"
        "at_index (length (cbdata cb)) wi (unat (read_index cb) + unat (used cb) + unat len)"
        "ring_list b (unat (read_index cb)) (unat (used cb) + unat len) =
          ring_list (cbdata cb) (unat (read_index cb)) (unat (used cb)) @ data"
      by blast
    show ?thesis
      using True * inv by (simp add: cb_put_def full Let_def cb_inv_def cb_list_def u add.assoc
          del: length_greater_0_conv)
  next
    case False
    then show ?thesis by (simp add: cb_put_def full)
  qed
qed

lemma cb_get_correct:
  assumes inv: "cb_inv cb"
  shows "if unat n \<le> unat (used cb)
    then \<exists>data cb'. cb_get cb n = Some (data, cb') \<and> cb_inv cb' \<and> capacity cb' = capacity cb \<and>
      cb_list cb = data @ cb_list cb' \<and> length data = unat n
    else cb_get cb n = None"
proof (cases "unat n \<le> unat (used cb)")
  case True
  note cap = cb_invD [OF inv]
  have n: "unat n \<le> length (cbdata cb)" using True cap(4) by simp
  from cb_shift_data_correct [OF cap(1-3,5) n] obtain ri
    where *: "cb_shift_data cb (read_index cb) n =
          (ring_list (cbdata cb) (unat (read_index cb)) (unat n), ri)"
      "at_index (length (cbdata cb)) ri (unat (read_index cb) + unat n)"
    by blast
  let ?N = "length (cbdata cb)" let ?r = "unat (read_index cb)" let ?u = "unat (used cb)"
  have u: "unat (used cb - n) = ?u - unat n"
    using True by (simp add: unat_sub word_le_nat_alt)
  have ri: "unat ri \<le> ?N" "unat ri mod ?N = (?r + unat n) mod ?N" using *(2) by (auto simp: at_index_def)
  have "(unat ri + (?u - unat n)) mod ?N = (?r + unat n + (?u - unat n)) mod ?N"
    using ri(2) by (metis mod_add_left_eq)
  then have "(unat ri + (?u - unat n)) mod ?N = (?r + ?u) mod ?N" using True by simp
  moreover have "ring_list (cbdata cb) (unat ri) m = ring_list (cbdata cb) (?r + unat n) m" for m
    using ri(2) ring_list_mod by metis
  ultimately show ?thesis
    using True * inv ri u ring_list_split [OF True, of "cbdata cb" ?r]
    by (auto simp: cb_get_def word_less_nat_alt cb_inv_def cb_list_def at_index_def)
next
  case False
  then show ?thesis by (simp add: cb_get_def word_less_nat_alt)
qed

text \<open>A client that passes lengths below 2 GB, seen through the queue contract.\<close>

definition fp_put :: "CB_T \<Rightarrow> bytes \<Rightarrow> (CB_T \<times> nat) option" where
  "fp_put cb d =
     (if length d < 2147483648
      then case cb_put cb d (of_nat (length d)) of (cb, ok) \<Rightarrow> Some (cb, if ok then length d else 0)
      else Some (cb, 0))"

definition fp_get :: "CB_T \<Rightarrow> nat \<Rightarrow> (CB_T \<times> bytes) option" where
  "fp_get cb n =
     (if n < 2147483648
      then case cb_get cb (of_nat n) of None \<Rightarrow> Some (cb, []) | Some (d, cb) \<Rightarrow> Some (cb, d)
      else Some (cb, []))"

lemma unat_of_nat_u32: "n < 2147483648 \<Longrightarrow> unat (of_nat n :: u32) = n"
  by (simp add: unat_of_nat take_bit_nat_eq_self)

lemma fp_put_D:
  assumes "cb_inv q" "fp_put q d = Some (q', n)"
  shows "cb_inv q'" "cb_list q' = cb_list q @ take n d" "capacity q' = capacity q"
  using assms cb_put_correct [of q d "of_nat (length d)"]
  by (auto simp: fp_put_def unat_of_nat_u32 split: if_splits prod.splits)

lemma fp_get_D:
  assumes "cb_inv q" "fp_get q n = Some (q', d)"
  shows "cb_inv q'" "cb_list q = d @ cb_list q'" "capacity q' = capacity q"
  using assms cb_get_correct [of q "of_nat n"]
  by (auto simp: fp_get_def unat_of_nat_u32 split: if_splits option.splits)

lemma cb_list_le: "cb_inv cb \<Longrightarrow> length (cb_list cb) \<le> unat (capacity cb)"
  by (simp add: cb_list_def cb_inv_def)

lemma fp_total: "fp_put q d \<noteq> None" "fp_get q n \<noteq> None"
  by (auto simp: fp_put_def fp_get_def split: option.splits prod.splits)

interpretation fp: byte_fifo cb_inv cb_list "\<lambda>cb. unat (capacity cb)" fp_put fp_get
  by unfold_locales (auto dest: fp_put_D fp_get_D simp: cb_list_le fp_total)

text \<open>A packet in the ring is its length word followed by its bytes.\<close>

definition frame :: "bytes \<Rightarrow> bytes" where
  "frame d = le32 (of_nat (length d)) @ d"

abbreviation frames :: "bytes list \<Rightarrow> bytes" where
  "frames ps \<equiv> concat (map frame ps)"

lemma length_le32 [simp]: "length (le32 v) = 4"
  by (simp add: le32_def)

lemma rd32_le32 [simp]: "rd32 (le32 v) 0 = v"
  by (simp add: le32_def)

lemma length_frame [simp]: "length (frame d) = 4 + length d"
  by (simp add: frame_def)

lemma push_packet_correct:
  assumes cap: "unat (capacity cb) = length (cbdata cb)" "0 < length (cbdata cb)"
      "length (cbdata cb) < 2147483648"
    and wi: "at_index (length (cbdata cb)) wi (t + u)"
    and len: "length d = unat len" and fit: "u + 4 + unat len \<le> length (cbdata cb)"
  shows "\<exists>wi\<^sub>1 b\<^sub>1 wi\<^sub>2 b\<^sub>2. cb_push_data cb wi (le32 len) 4 = (wi\<^sub>1, cb\<lparr>cbdata := b\<^sub>1\<rparr>) \<and>
    cb_push_data (cb\<lparr>cbdata := b\<^sub>1\<rparr>) wi\<^sub>1 d len = (wi\<^sub>2, cb\<lparr>cbdata := b\<^sub>2\<rparr>) \<and>
    length b\<^sub>2 = length (cbdata cb) \<and>
    at_index (length (cbdata cb)) wi\<^sub>2 (t + u + 4 + unat len) \<and>
    ring_list b\<^sub>2 t (u + 4 + unat len) = ring_list (cbdata cb) t u @ frame d"
proof -
  have "length (le32 len) = unat (4 :: u32)" "u + unat (4 :: u32) \<le> length (cbdata cb)"
    using fit by simp_all
  from cb_push_data_correct [OF cap wi this] obtain wi\<^sub>1 b\<^sub>1
    where 1: "cb_push_data cb wi (le32 len) 4 = (wi\<^sub>1, cb\<lparr>cbdata := b\<^sub>1\<rparr>)"
      "length b\<^sub>1 = length (cbdata cb)" "at_index (length b\<^sub>1) wi\<^sub>1 (t + (u + 4))"
      "ring_list b\<^sub>1 t (u + 4) = ring_list (cbdata cb) t u @ le32 len"
    by (auto simp: add.assoc)
  let ?cb = "cb\<lparr>cbdata := b\<^sub>1\<rparr>"
  have "\<exists>wi' b'. cb_push_data ?cb wi\<^sub>1 d len = (wi', ?cb\<lparr>cbdata := b'\<rparr>) \<and>
    length b' = length (cbdata ?cb) \<and> at_index (length (cbdata ?cb)) wi' (t + (u + 4) + unat len) \<and>
    ring_list b' t (u + 4 + unat len) = ring_list (cbdata ?cb) t (u + 4) @ d"
    by (rule cb_push_data_correct) (use cap 1 len fit in simp_all)
  then obtain wi\<^sub>2 b\<^sub>2
    where 2: "cb_push_data ?cb wi\<^sub>1 d len = (wi\<^sub>2, cb\<lparr>cbdata := b\<^sub>2\<rparr>)"
      "length b\<^sub>2 = length (cbdata cb)" "at_index (length (cbdata cb)) wi\<^sub>2 (t + u + 4 + unat len)"
      "ring_list b\<^sub>2 t (u + 4 + unat len) = ring_list (cbdata cb) t u @ le32 len @ d"
    using 1 by (auto simp: add.assoc)
  have "frame d = le32 len @ d" by (simp add: frame_def len)
  with 1 2 show ?thesis by fastforce
qed

lemma frames_at:
  assumes "ring_list b t u = frames (p # ps)"
  shows "ring_list b t 4 = le32 (of_nat (length p))" "ring_list b (t + 4) (length p) = p"
    "ring_list b (t + (4 + length p)) (u - (4 + length p)) = frames ps" "4 + length p \<le> u"
proof -
  let ?n = "length p"
  have u: "u = 4 + ?n + length (frames ps)" using arg_cong [OF assms, of length] by simp
  then show le: "4 + ?n \<le> u" by simp
  have 1: "ring_list b t u = ring_list b t 4 @ ring_list b (t + 4) (u - 4)"
    using le by (intro ring_list_split) simp
  have 2: "ring_list b (t + 4) (u - 4) = ring_list b (t + 4) ?n @ ring_list b (t + 4 + ?n) (u - 4 - ?n)"
    using le by (intro ring_list_split) simp
  have eq: "ring_list b t 4 @ ring_list b (t + 4) ?n @ ring_list b (t + 4 + ?n) (u - 4 - ?n) =
      le32 (of_nat ?n) @ p @ frames ps"
    using assms 1 2 by (simp add: frame_def)
  from eq show "ring_list b t 4 = le32 (of_nat ?n)" by (simp add: append_eq_append_conv)
  from eq show "ring_list b (t + 4) ?n = p"
    by (simp add: append_eq_append_conv)
  from eq show "ring_list b (t + (4 + ?n)) (u - (4 + ?n)) = frames ps"
    by (simp add: append_eq_append_conv add.assoc)
qed

text \<open>
  \<open>cb_holds cb ps\<close>: the pipe is well formed and holds exactly the packets \<open>ps\<close>, oldest first.
\<close>

definition cb_holds :: "CB_T \<Rightarrow> bytes list \<Rightarrow> bool" where
  "cb_holds cb ps \<longleftrightarrow> cb_inv cb \<and> cb_list cb = frames ps"

lemma cb_holds_used: "cb_holds cb ps \<Longrightarrow> unat (used cb) = length (frames ps)"
  unfolding cb_holds_def cb_list_def by (metis length_ring_list)

lemma cb_put_packet_correct:
  assumes holds: "cb_holds cb ps" and len: "length d = unat len"
  shows "if length (frames ps) + 4 + length d \<le> unat (capacity cb)
    then \<exists>cb'. cb_put_packet cb d len = (cb', True) \<and> cb_holds cb' (ps @ [d]) \<and> capacity cb' = capacity cb
    else cb_put_packet cb d len = (cb, False)"
proof -
  have inv: "cb_inv cb" using holds by (simp add: cb_holds_def)
  note cap = cb_invD [OF inv] and u = cb_holds_used [OF holds]
  have "unat (capacity cb - used cb) = length (cbdata cb) - unat (used cb)"
    using cap by (simp add: unat_sub word_le_nat_alt)
  then have room: "unat (capacity cb - used cb) < 4 + unat len \<longleftrightarrow>
      \<not> unat (used cb) + 4 + unat len \<le> length (cbdata cb)"
    using cap(4) by linarith
  show ?thesis
  proof (cases "unat (used cb) + 4 + unat len \<le> length (cbdata cb)")
    case True
    from push_packet_correct [OF cap(1-3,6) len True] obtain wi\<^sub>1 b\<^sub>1 wi\<^sub>2 b\<^sub>2
      where *: "cb_push_data cb (write_index cb) (le32 len) 4 = (wi\<^sub>1, cb\<lparr>cbdata := b\<^sub>1\<rparr>)"
        "cb_push_data (cb\<lparr>cbdata := b\<^sub>1\<rparr>) wi\<^sub>1 d len = (wi\<^sub>2, cb\<lparr>cbdata := b\<^sub>2\<rparr>)"
        "length b\<^sub>2 = length (cbdata cb)"
        "at_index (length (cbdata cb)) wi\<^sub>2 (unat (read_index cb) + unat (used cb) + 4 + unat len)"
        "ring_list b\<^sub>2 (unat (read_index cb)) (unat (used cb) + 4 + unat len) =
          ring_list (cbdata cb) (unat (read_index cb)) (unat (used cb)) @ frame d"
      by blast
    have v: "unat (used cb + (4 + len)) = unat (used cb) + 4 + unat len"
      using True cap by (simp add: unat_word_ariths)
    have "cb_put_packet cb d len =
        (cb\<lparr>cbdata := b\<^sub>2, write_index := wi\<^sub>2, used := used cb + (4 + len)\<rparr>, True)"
      using True * by (simp add: cb_put_packet_def room)
    moreover have "cb_holds (cb\<lparr>cbdata := b\<^sub>2, write_index := wi\<^sub>2, used := used cb + (4 + len)\<rparr>) (ps @ [d])"
      using True * holds cap
      by (simp add: cb_holds_def cb_inv_def cb_list_def v add.assoc del: length_greater_0_conv)
    ultimately show ?thesis using True u len cap(1) by simp
  next
    case False
    then show ?thesis using u len cap(1) by (simp add: cb_put_packet_def room)
  qed
qed

lemma shift_packet_correct:
  assumes cap: "unat (capacity cb) = length (cbdata cb)" "0 < length (cbdata cb)"
      "length (cbdata cb) < 2147483648"
    and ri: "at_index (length (cbdata cb)) ri t" and u: "u \<le> length (cbdata cb)"
    and ring: "ring_list (cbdata cb) t u = frames (p # ps)"
  shows "\<exists>ri\<^sub>1 ri\<^sub>2. cb_shift_data cb ri 4 = (le32 (of_nat (length p)), ri\<^sub>1) \<and>
    at_index (length (cbdata cb)) ri\<^sub>1 (t + 4) \<and>
    cb_shift_data cb ri\<^sub>1 (of_nat (length p)) = (p, ri\<^sub>2) \<and>
    at_index (length (cbdata cb)) ri\<^sub>2 (t + (4 + length p)) \<and> unat (of_nat (length p) :: u32) = length p"
proof -
  note at = frames_at [OF ring]
  have n: "unat (of_nat (length p) :: u32) = length p" using at(4) u cap(3) by (simp add: unat_of_nat_u32)
  have "unat (4 :: u32) \<le> length (cbdata cb)" using at(4) u by simp
  from cb_shift_data_correct [OF cap ri this] obtain ri\<^sub>1
    where 1: "cb_shift_data cb ri 4 = (ring_list (cbdata cb) t 4, ri\<^sub>1)"
      "at_index (length (cbdata cb)) ri\<^sub>1 (t + 4)" by auto
  have "unat (of_nat (length p) :: u32) \<le> length (cbdata cb)" using at(4) u n by simp
  from cb_shift_data_correct [OF cap 1(2) this] obtain ri\<^sub>2
    where 2: "cb_shift_data cb ri\<^sub>1 (of_nat (length p)) = (ring_list (cbdata cb) (t + 4) (length p), ri\<^sub>2)"
      "at_index (length (cbdata cb)) ri\<^sub>2 (t + 4 + length p)" by (auto simp: n)
  from 1 2 at n show ?thesis by (auto simp: add.assoc)
qed

lemma cb_get_packet_correct:
  assumes holds: "cb_holds cb (p # ps)"
  shows "if length p \<le> unat buflen
    then \<exists>cb'. cb_get_packet cb buflen = Some (p, cb') \<and> cb_holds cb' ps \<and> capacity cb' = capacity cb
    else cb_get_packet cb buflen = None"
proof -
  have inv: "cb_inv cb" using holds by (simp add: cb_holds_def)
  note cap = cb_invD [OF inv]
  let ?N = "length (cbdata cb)" let ?r = "unat (read_index cb)" let ?u = "unat (used cb)"
  have ring: "ring_list (cbdata cb) ?r ?u = frames (p # ps)"
    using holds by (simp add: cb_holds_def cb_list_def)
  note at = frames_at [OF ring]
  from shift_packet_correct [OF cap(1-3,5,4) ring] obtain ri\<^sub>1 ri\<^sub>2
    where *: "cb_shift_data cb (read_index cb) 4 = (le32 (of_nat (length p)), ri\<^sub>1)"
      "cb_shift_data cb ri\<^sub>1 (of_nat (length p)) = (p, ri\<^sub>2)"
      "at_index ?N ri\<^sub>2 (?r + (4 + length p))" "unat (of_nat (length p) :: u32) = length p"
    by blast
  show ?thesis
  proof (cases "length p \<le> unat buflen")
    case False
    then show ?thesis
      using * at(4) by (simp add: cb_get_packet_def word_less_nat_alt)
  next
    case True
    let ?m = "of_nat (length p) + 4 :: u32"
    let ?cb = "cb\<lparr>used := used cb - ?m, read_index := ri\<^sub>2\<rparr>"
    have m: "unat ?m = 4 + length p" using *(4) at(4) cap by (simp add: unat_word_ariths)
    then have um: "unat (used cb - ?m) = ?u - (4 + length p)"
      using at(4) by (simp add: unat_sub word_le_nat_alt)
    have ri: "unat ri\<^sub>2 \<le> ?N" "unat ri\<^sub>2 mod ?N = (?r + (4 + length p)) mod ?N"
      using *(3) by (auto simp: at_index_def)
    have "(unat ri\<^sub>2 + (?u - (4 + length p))) mod ?N = (?r + (4 + length p) + (?u - (4 + length p))) mod ?N"
      using ri(2) by (metis mod_add_left_eq)
    also have "?r + (4 + length p) + (?u - (4 + length p)) = ?r + ?u" using at(4) by simp
    finally have wi: "at_index ?N (write_index cb) (unat ri\<^sub>2 + (?u - (4 + length p)))"
      using cap(6) by (simp add: at_index_def)
    have "ring_list (cbdata cb) (unat ri\<^sub>2) k = ring_list (cbdata cb) (?r + (4 + length p)) k" for k
      using ri(2) ring_list_mod by metis
    then have "cb_holds ?cb ps"
      using cap ri(1) um wi at(3) by (simp add: cb_holds_def cb_inv_def cb_list_def)
    moreover have "cb_get_packet cb buflen = Some (p, ?cb)"
      using * True at(4) by (simp add: cb_get_packet_def word_less_nat_alt)
    ultimately show ?thesis using True by simp
  qed
qed

lemma cb_get_packet_empty: "cb_holds cb [] \<Longrightarrow> cb_get_packet cb buflen = None"
  by (frule cb_holds_used) (simp add: cb_get_packet_def)

text \<open>
  An accepted packet is appended whole, and a packet is refused exactly when its bytes and its
  length word do not fit in the free space; a refused packet changes nothing.
\<close>

theorem cb_put_packet_appends:
  assumes "cb_holds cb ps" and "length d = unat len"
  shows "if length (frames ps) + 4 + length d \<le> unat (capacity cb)
    then \<exists>cb'. cb_put_packet cb d len = (cb', True) \<and> cb_holds cb' (ps @ [d]) \<and> capacity cb' = capacity cb
    else cb_put_packet cb d len = (cb, False)"
  using assms by (rule cb_put_packet_correct)

definition sample_cb :: CB_T where
  "sample_cb = cb_new (replicate 16 0) 16"

lemma sample_cb_holds: "cb_holds sample_cb []"
  using cb_new_inv [of 16 "replicate 16 0"] by (simp add: sample_cb_def cb_holds_def)

theorem cb_put_packet_appends_witness:
  "\<exists>cb'. cb_put_packet sample_cb [1, 2, 3] 3 = (cb', True) \<and> cb_holds cb' [[1, 2, 3]]"
proof -
  have "unat (capacity sample_cb) = 16" by code_simp
  then show ?thesis using cb_put_packet_appends [OF sample_cb_holds, of "[1, 2, 3]" 3] by auto
qed

text \<open>
  A reader with a large enough buffer gets the oldest packet, and only that one is removed; when
  the oldest packet is larger than the buffer the reader gets nothing, now and, since nothing
  changes, every time it asks again with that buffer.
\<close>

theorem cb_get_packet_takes:
  assumes "cb_holds cb (p # ps)"
  shows "if length p \<le> unat buflen
    then \<exists>cb'. cb_get_packet cb buflen = Some (p, cb') \<and> cb_holds cb' ps \<and> capacity cb' = capacity cb
    else cb_get_packet cb buflen = None"
  using assms by (rule cb_get_packet_correct)

lemma sample_cb_holds1: "cb_holds (fst (cb_put_packet sample_cb [1, 2, 3] 3)) [[1, 2, 3]]"
proof -
  have "unat (capacity sample_cb) = 16" by code_simp
  then show ?thesis using cb_put_packet_correct [OF sample_cb_holds, of "[1, 2, 3]" 3] by auto
qed

theorem cb_get_packet_takes_witness:
  "cb_get_packet (fst (cb_put_packet sample_cb [1, 2, 3] 3)) 2 = None \<and>
   (\<exists>cb'. cb_get_packet (fst (cb_put_packet sample_cb [1, 2, 3] 3)) 9 = Some ([1, 2, 3], cb'))"
  using cb_get_packet_takes [OF sample_cb_holds1, of 2] cb_get_packet_takes [OF sample_cb_holds1, of 9]
  by auto

definition pp_put :: "CB_T \<Rightarrow> bytes \<Rightarrow> CB_T \<times> bool" where
  "pp_put cb d = (if length d < 2147483648 then cb_put_packet cb d (of_nat (length d)) else (cb, False))"

definition pp_get :: "CB_T \<Rightarrow> nat \<Rightarrow> (bytes \<times> CB_T) option" where
  "pp_get cb n = cb_get_packet cb (of_nat n)"

interpretation pp: packet_queue cb_holds pp_put pp_get
proof unfold_locales
  fix cb cb' ps d
  assume "cb_holds cb ps"
  from cb_put_packet_correct [OF this, of d "of_nat (length d)"]
  show "pp_put cb d = (cb', True) \<Longrightarrow> cb_holds cb' (ps @ [d])" and "pp_put cb d = (cb', False) \<Longrightarrow> cb' = cb"
    by (auto simp: pp_put_def unat_of_nat_u32 split: if_splits)
next
  fix cb p ps n d cb'
  assume "cb_holds cb (p # ps)" "pp_get cb n = Some (d, cb')"
  then show "d = p \<and> cb_holds cb' ps"
    using cb_get_packet_correct [of cb p ps "of_nat n"] by (auto simp: pp_get_def split: if_splits)
next
  fix cb n assume "cb_holds cb []"
  then show "pp_get cb n = None" by (simp add: pp_get_def cb_get_packet_empty)
qed

section \<open>A concurrent writer and reader\<close>

text \<open>
  The two sides run in different processes and share the structure. The step relation splits
  \<open>cb_put_packet\<close> and \<open>cb_get_packet\<close> at their accesses to the shared fields \<open>used\<close>, \<open>write_index\<close> and
  \<open>read_index\<close>; the position of each side in its function is a program counter with the local
  variables. \<open>sent\<close> and \<open>received\<close> record the packets for which the two calls have returned true.
\<close>

datatype writer_pc =
    W_Idle
  | W_Room bytes \<comment> \<open>the check of the free space has passed\<close>
  | W_Pushed bytes u32 \<comment> \<open>length word and bytes are written; local \<open>write_index\<close>\<close>
  | W_Indexed bytes \<comment> \<open>\<open>cb->write_index\<close> is stored\<close>

datatype reader_pc =
    R_Idle
  | R_Head \<comment> \<open>\<open>used\<close> was at least 4\<close>
  | R_Len u32 u32 \<comment> \<open>\<open>pktlen\<close> and local \<open>read_index\<close>, both checks passed\<close>
  | R_Copied bytes u32 u32 \<comment> \<open>the bytes are in the caller's buffer\<close>
  | R_Freed bytes u32 \<comment> \<open>\<open>used\<close> is decremented\<close>

record pipe =
  ring :: CB_T
  wpc :: writer_pc
  rpc :: reader_pc
  sent :: "bytes list"
  received :: "bytes list"

inductive pipe_step :: "pipe \<Rightarrow> pipe \<Rightarrow> bool" where
  W_Check: "wpc s = W_Idle \<Longrightarrow> length d < 2147483648 \<Longrightarrow>
    \<not> unat (capacity (ring s) - used (ring s)) < 4 + unat (of_nat (length d) :: u32) \<Longrightarrow>
    pipe_step s (s\<lparr>wpc := W_Room d\<rparr>)"
| W_Push: "wpc s = W_Room d \<Longrightarrow>
    cb_push_data (ring s) (write_index (ring s)) (le32 (of_nat (length d))) 4 = (wi, cb) \<Longrightarrow>
    cb_push_data cb wi d (of_nat (length d)) = (wi', cb') \<Longrightarrow>
    pipe_step s (s\<lparr>ring := cb', wpc := W_Pushed d wi'\<rparr>)"
| W_Index: "wpc s = W_Pushed d wi \<Longrightarrow>
    pipe_step s (s\<lparr>ring := (ring s)\<lparr>write_index := wi\<rparr>, wpc := W_Indexed d\<rparr>)"
| W_Publish: "wpc s = W_Indexed d \<Longrightarrow>
    pipe_step s (s\<lparr>ring := (ring s)\<lparr>used := used (ring s) + (4 + of_nat (length d))\<rparr>, wpc := W_Idle,
      sent := sent s @ [d]\<rparr>)"
| R_Check: "rpc s = R_Idle \<Longrightarrow> \<not> unat (used (ring s)) < 4 \<Longrightarrow> pipe_step s (s\<lparr>rpc := R_Head\<rparr>)"
| R_Length: "rpc s = R_Head \<Longrightarrow>
    cb_shift_data (ring s) (read_index (ring s)) 4 = (h, ri) \<Longrightarrow>
    \<not> (unat (used (ring s)) < unat (rd32 h 0) + 4 \<or> rd32 h 0 > buflen) \<Longrightarrow>
    pipe_step s (s\<lparr>rpc := R_Len (rd32 h 0) ri\<rparr>)"
| R_Refuse: "rpc s = R_Head \<Longrightarrow>
    cb_shift_data (ring s) (read_index (ring s)) 4 = (h, ri) \<Longrightarrow>
    unat (used (ring s)) < unat (rd32 h 0) + 4 \<or> rd32 h 0 > buflen \<Longrightarrow>
    pipe_step s (s\<lparr>rpc := R_Idle\<rparr>)"
| R_Copy: "rpc s = R_Len n ri \<Longrightarrow> cb_shift_data (ring s) ri n = (d, ri') \<Longrightarrow>
    pipe_step s (s\<lparr>rpc := R_Copied d n ri'\<rparr>)"
| R_Free: "rpc s = R_Copied d n ri \<Longrightarrow>
    pipe_step s (s\<lparr>ring := (ring s)\<lparr>used := used (ring s) - (n + 4)\<rparr>,
      rpc := R_Freed d ri\<rparr>)"
| R_Index: "rpc s = R_Freed d ri \<Longrightarrow>
    pipe_step s (s\<lparr>ring := (ring s)\<lparr>read_index := ri\<rparr>, rpc := R_Idle, received := received s @ [d]\<rparr>)"

text \<open>
  The invariant. The reader's position is its local index once the space is given back; \<open>ps\<close> are the
  packets published and not yet given back.
\<close>

definition reader_pos :: "pipe \<Rightarrow> u32" where
  "reader_pos s = (case rpc s of R_Freed d ri \<Rightarrow> ri | _ \<Rightarrow> read_index (ring s))"

fun writer_ok :: "CB_T \<Rightarrow> nat \<Rightarrow> writer_pc \<Rightarrow> bool" where
  "writer_ok cb t W_Idle \<longleftrightarrow> at_index (length (cbdata cb)) (write_index cb) (t + unat (used cb))"
| "writer_ok cb t (W_Room d) \<longleftrightarrow>
     at_index (length (cbdata cb)) (write_index cb) (t + unat (used cb)) \<and>
     unat (used cb) + 4 + length d \<le> length (cbdata cb)"
| "writer_ok cb t (W_Pushed d wi) \<longleftrightarrow>
     at_index (length (cbdata cb)) wi (t + unat (used cb) + 4 + length d) \<and>
     unat (used cb) + 4 + length d \<le> length (cbdata cb) \<and>
     ring_list (cbdata cb) (t + unat (used cb)) (4 + length d) = frame d"
| "writer_ok cb t (W_Indexed d) \<longleftrightarrow>
     at_index (length (cbdata cb)) (write_index cb) (t + unat (used cb) + 4 + length d) \<and>
     unat (used cb) + 4 + length d \<le> length (cbdata cb) \<and>
     ring_list (cbdata cb) (t + unat (used cb)) (4 + length d) = frame d"

fun reader_ok :: "CB_T \<Rightarrow> nat \<Rightarrow> bytes list \<Rightarrow> reader_pc \<Rightarrow> bool" where
  "reader_ok cb t ps R_Idle \<longleftrightarrow> True"
| "reader_ok cb t ps R_Head \<longleftrightarrow> ps \<noteq> []"
| "reader_ok cb t ps (R_Len n ri) \<longleftrightarrow>
     ps \<noteq> [] \<and> n = of_nat (length (hd ps)) \<and> at_index (length (cbdata cb)) ri (t + 4)"
| "reader_ok cb t ps (R_Copied d n ri) \<longleftrightarrow>
     ps \<noteq> [] \<and> d = hd ps \<and> n = of_nat (length d) \<and>
     at_index (length (cbdata cb)) ri (t + (4 + length d))"
| "reader_ok cb t ps (R_Freed d ri) \<longleftrightarrow> True"

fun in_hand :: "reader_pc \<Rightarrow> bytes list" where
  "in_hand (R_Freed d ri) = [d]"
| "in_hand _ = []"

definition pipe_inv :: "pipe \<Rightarrow> bytes list \<Rightarrow> bool" where
  "pipe_inv s ps \<longleftrightarrow>
     (let cb = ring s; t = unat (reader_pos s) in
      unat (capacity cb) = length (cbdata cb) \<and> 0 < length (cbdata cb) \<and>
      length (cbdata cb) < 2147483648 \<and> unat (used cb) \<le> length (cbdata cb) \<and>
      t \<le> length (cbdata cb) \<and> ring_list (cbdata cb) t (unat (used cb)) = frames ps \<and>
      writer_ok cb t (wpc s) \<and> reader_ok cb t ps (rpc s) \<and>
      sent s = received s @ in_hand (rpc s) @ ps)"

lemma at_index_shift:
  assumes "at_index N ri (t + k)" "k \<le> u"
  shows "at_index N wi (unat ri + (u - k) + m) = at_index N wi (t + u + m)"
proof -
  have "(unat ri + ((u - k) + m)) mod N = ((t + k) + ((u - k) + m)) mod N"
    using assms(1) unfolding at_index_def by (metis mod_add_left_eq)
  moreover have "(t + k) + ((u - k) + m) = t + u + m" using assms(2) by simp
  ultimately show ?thesis by (simp add: at_index_def add.assoc)
qed

lemma ring_list_shift:
  assumes "at_index (length b) ri (t + k)" "k \<le> u"
  shows "ring_list b (unat ri + (u - k)) m = ring_list b (t + u) m"
proof -
  have "(unat ri + (u - k)) mod length b = ((t + k) + (u - k)) mod length b"
    using assms(1) unfolding at_index_def by (metis mod_add_left_eq)
  moreover have "(t + k) + (u - k) = t + u" using assms(2) by simp
  ultimately show ?thesis using ring_list_mod by metis
qed

lemma ring_list_at_index: "at_index (length b) ri t \<Longrightarrow> ring_list b (unat ri) m = ring_list b t m"
  unfolding at_index_def using ring_list_mod by metis

lemma writer_ok_shift:
  assumes "at_index (length (cbdata cb)) ri (t + k)" "k \<le> unat (used cb)"
    and "unat u' = unat (used cb) - k" "writer_ok cb t w"
  shows "writer_ok (cb\<lparr>used := u'\<rparr>) (unat ri) w"
  using assms at_index_shift [OF assms(1,2), of _ 0] at_index_shift [OF assms(1,2), of _ "4 + _"]
    ring_list_shift [OF assms(1,2)]
  by (cases w) (auto simp: add.assoc)

lemma W_Push_inv:
  assumes inv: "pipe_inv s ps" and pc: "wpc s = W_Room d"
    and push: "cb_push_data (ring s) (write_index (ring s)) (le32 (of_nat (length d))) 4 = (wi, cb)"
      "cb_push_data cb wi d (of_nat (length d)) = (wi', cb')"
  shows "pipe_inv (s\<lparr>ring := cb', wpc := W_Pushed d wi'\<rparr>) ps"
proof -
  let ?cb = "ring s" let ?t = "unat (reader_pos s)" let ?u = "unat (used ?cb)" let ?n = "length d"
  have cap: "unat (capacity ?cb) = length (cbdata ?cb)" "0 < length (cbdata ?cb)"
      "length (cbdata ?cb) < 2147483648"
    and wi: "at_index (length (cbdata ?cb)) (write_index ?cb) (?t + ?u)"
    and fit: "?u + 4 + ?n \<le> length (cbdata ?cb)"
    and ps: "ring_list (cbdata ?cb) ?t ?u = frames ps"
    using inv pc by (auto simp: pipe_inv_def Let_def)
  have n: "unat (of_nat ?n :: u32) = ?n" using fit cap(3) by (simp add: unat_of_nat_u32)
  have "?u + 4 + unat (of_nat ?n :: u32) \<le> length (cbdata ?cb)" using fit n by simp
  from push_packet_correct [OF cap wi n [symmetric] this] push obtain b
    where b: "cb' = ?cb\<lparr>cbdata := b\<rparr>" "length b = length (cbdata ?cb)"
      "at_index (length b) wi' (?t + ?u + 4 + ?n)"
      "ring_list b ?t (?u + (4 + ?n)) = frames ps @ frame d"
    using n ps by (auto simp: add.assoc)
  have "ring_list b ?t (?u + (4 + ?n)) = ring_list b ?t ?u @ ring_list b (?t + ?u) (4 + ?n)"
    using ring_list_split [of ?u "?u + (4 + ?n)" b ?t] by simp
  moreover have "length (frames ps) = ?u" using arg_cong [OF ps, of length] by simp
  ultimately have "ring_list b ?t ?u = frames ps" "ring_list b (?t + ?u) (4 + ?n) = frame d"
    using b(4) by simp_all
  then show ?thesis
    using inv pc b fit by (cases "rpc s") (auto simp: pipe_inv_def Let_def reader_pos_def)
qed

lemma W_Publish_inv:
  assumes inv: "pipe_inv s ps" and pc: "wpc s = W_Indexed d"
  shows "pipe_inv (s\<lparr>ring := (ring s)\<lparr>used := used (ring s) + (4 + of_nat (length d))\<rparr>, wpc := W_Idle,
    sent := sent s @ [d]\<rparr>) (ps @ [d])"
proof -
  let ?cb = "ring s" let ?t = "unat (reader_pos s)" let ?u = "unat (used ?cb)" let ?n = "length d"
  have cap: "length (cbdata ?cb) < 2147483648" and fit: "?u + 4 + ?n \<le> length (cbdata ?cb)"
    and d: "ring_list (cbdata ?cb) (?t + ?u) (4 + ?n) = frame d"
    and ps: "ring_list (cbdata ?cb) ?t ?u = frames ps"
    using inv pc by (auto simp: pipe_inv_def Let_def)
  have "unat (of_nat ?n :: u32) = ?n" using fit cap by (simp add: unat_of_nat_u32)
  then have u: "unat (used ?cb + (4 + of_nat ?n)) = ?u + (4 + ?n)"
    using fit cap by (simp add: unat_word_ariths)
  have "ring_list (cbdata ?cb) ?t (?u + (4 + ?n)) = frames (ps @ [d])"
    using ring_list_split [of ?u "?u + (4 + ?n)" "cbdata ?cb" ?t] d ps by simp
  then show ?thesis
    using inv pc fit u by (cases "rpc s") (auto simp: pipe_inv_def Let_def reader_pos_def add.assoc hd_append)
qed

lemma pipe_invD:
  assumes "pipe_inv s ps"
  shows "unat (capacity (ring s)) = length (cbdata (ring s))" "0 < length (cbdata (ring s))"
    "length (cbdata (ring s)) < 2147483648" "unat (used (ring s)) \<le> length (cbdata (ring s))"
    "ring_list (cbdata (ring s)) (unat (reader_pos s)) (unat (used (ring s))) = frames ps"
    "at_index (length (cbdata (ring s))) (reader_pos s) (unat (reader_pos s))"
    "writer_ok (ring s) (unat (reader_pos s)) (wpc s)"
    "reader_ok (ring s) (unat (reader_pos s)) ps (rpc s)"
    "sent s = received s @ in_hand (rpc s) @ ps"
  using assms by (auto simp: pipe_inv_def Let_def at_index_def)

lemma R_Check_inv:
  assumes inv: "pipe_inv s ps" and pc: "rpc s = R_Idle" and u: "\<not> unat (used (ring s)) < 4"
  shows "pipe_inv (s\<lparr>rpc := R_Head\<rparr>) ps"
proof -
  have "length (frames ps) = unat (used (ring s))"
    using arg_cong [OF pipe_invD(5) [OF inv], of length] by simp
  then have "ps \<noteq> []" using u by auto
  then show ?thesis using inv pc by (auto simp: pipe_inv_def Let_def reader_pos_def)
qed

lemma R_Length_inv:
  assumes inv: "pipe_inv s ps" and pc: "rpc s = R_Head"
    and h: "cb_shift_data (ring s) (read_index (ring s)) 4 = (h, ri)"
  shows "pipe_inv (s\<lparr>rpc := R_Len (rd32 h 0) ri\<rparr>) ps"
proof -
  obtain p ps' where ps: "ps = p # ps'" using pipe_invD(8) [OF inv] pc by (cases ps) auto
  have r: "reader_pos s = read_index (ring s)" using pc by (simp add: reader_pos_def)
  note * = pipe_invD [OF inv, unfolded ps]
  from shift_packet_correct [OF *(1-3,6,4,5)] h r
  have "h = le32 (of_nat (length p))" "at_index (length (cbdata (ring s))) ri (unat (reader_pos s) + 4)"
    by auto
  then show ?thesis using inv pc ps by (auto simp: pipe_inv_def Let_def reader_pos_def)
qed

lemma R_Copy_inv:
  assumes inv: "pipe_inv s ps" and pc: "rpc s = R_Len n ri"
    and d: "cb_shift_data (ring s) ri n = (d, ri')"
  shows "pipe_inv (s\<lparr>rpc := R_Copied d n ri'\<rparr>) ps"
proof -
  obtain p ps' where ps: "ps = p # ps'" using pipe_invD(8) [OF inv] pc by (cases ps) auto
  note * = pipe_invD [OF inv, unfolded ps]
  let ?t = "unat (reader_pos s)" let ?b = "cbdata (ring s)"
  have n: "n = of_nat (length p)" and ri: "at_index (length ?b) ri (?t + 4)" using *(8) pc by auto
  note at = frames_at [OF *(5)]
  have un: "unat n = length p" using n at(4) *(3,4) by (simp add: unat_of_nat_u32)
  have "unat n \<le> length ?b" using un at(4) *(4) by simp
  from cb_shift_data_correct [OF *(1-3) ri this] d at(2) un
  have "d = p" "at_index (length ?b) ri' (?t + (4 + length d))" by (auto simp: add.assoc)
  then show ?thesis using inv pc ps n by (auto simp: pipe_inv_def Let_def reader_pos_def)
qed

lemma R_Free_inv:
  assumes inv: "pipe_inv s ps" and pc: "rpc s = R_Copied d n ri"
  shows "pipe_inv (s\<lparr>ring := (ring s)\<lparr>used := used (ring s) - (n + 4)\<rparr>, rpc := R_Freed d ri\<rparr>) (tl ps)"
proof -
  obtain p ps' where ps: "ps = p # ps'" using pipe_invD(8) [OF inv] pc by (cases ps) auto
  note * = pipe_invD [OF inv, unfolded ps]
  let ?t = "unat (reader_pos s)" let ?b = "cbdata (ring s)" let ?u = "unat (used (ring s))"
  let ?k = "4 + length p"
  have d: "d = p" and n: "n = of_nat (length p)" and ri: "at_index (length ?b) ri (?t + ?k)"
    using *(8) pc by auto
  note at = frames_at [OF *(5)]
  have "unat (n + 4) = ?k"
    using n at(4) *(3,4) unat_of_nat_u32 [of "length p"] by (simp add: unat_word_ariths)
  then have u: "unat (used (ring s) - (n + 4)) = ?u - ?k"
    using at(4) by (simp add: unat_sub word_le_nat_alt)
  have "writer_ok ((ring s)\<lparr>used := used (ring s) - (n + 4)\<rparr>) (unat ri) (wpc s)"
    using writer_ok_shift [OF ri at(4) u *(7)] .
  moreover have "ring_list ?b (unat ri) (?u - ?k) = frames ps'"
    using at(3) ring_list_at_index [OF ri] by simp
  moreover have "unat ri \<le> length ?b" using ri by (simp add: at_index_def)
  ultimately show ?thesis
    using *(1-4,9) pc d u ps by (auto simp: pipe_inv_def Let_def reader_pos_def)
qed

lemma pipe_step_inv: "pipe_step s t \<Longrightarrow> pipe_inv s ps \<Longrightarrow> \<exists>ps'. pipe_inv t ps'"
proof (induction rule: pipe_step.induct)
  case (W_Check s d)
  then have "unat (used (ring s)) + 4 + length d \<le> length (cbdata (ring s))"
    using pipe_invD(1,4) [OF W_Check.prems]
    by (simp add: unat_sub word_le_nat_alt unat_of_nat_u32)
  then show ?case
    using W_Check by (cases "rpc s") (auto simp: pipe_inv_def Let_def reader_pos_def intro!: exI [of _ ps])
next
  case (W_Push s d wi cb wi' cb')
  then show ?case by (auto intro: W_Push_inv)
next
  case (W_Index s d wi)
  then show ?case
    by (cases "rpc s") (auto simp: pipe_inv_def Let_def reader_pos_def intro!: exI [of _ ps])
next
  case (W_Publish s d)
  then show ?case by (auto intro: W_Publish_inv)
next
  case (R_Refuse s h ri buflen)
  then show ?case by (auto simp: pipe_inv_def Let_def reader_pos_def intro!: exI [of _ ps])
next
  case (R_Free s d n ri)
  then show ?case by (auto intro: R_Free_inv)
next
  case (R_Index s d ri)
  then show ?case by (cases "wpc s") (auto simp: pipe_inv_def Let_def reader_pos_def intro!: exI [of _ ps])
qed (auto intro: R_Check_inv R_Length_inv R_Copy_inv)

definition new_pipe :: "bytes \<Rightarrow> u32 \<Rightarrow> pipe" where
  "new_pipe mem n = \<lparr>ring = cb_new mem n, wpc = W_Idle, rpc = R_Idle, sent = [], received = []\<rparr>"

lemma new_pipe_inv:
  "0 < unat n \<Longrightarrow> unat n < 2147483648 \<Longrightarrow> unat n \<le> length mem \<Longrightarrow> pipe_inv (new_pipe mem n) []"
  using cb_new_inv [of n mem]
  by (auto simp: new_pipe_def pipe_inv_def Let_def reader_pos_def cb_inv_def cb_list_def)

lemma pipe_reach_inv:
  "pipe_step\<^sup>*\<^sup>* s t \<Longrightarrow> pipe_inv s ps \<Longrightarrow> \<exists>ps'. pipe_inv t ps'"
  by (induction rule: rtranclp_induct) (auto dest: pipe_step_inv)

text \<open>
  C8: with one writer and one reader running concurrently, in every interleaving of their accesses to
  the shared fields, the packets the reader has received are a prefix of those the writer has sent:
  no packet is lost in between, duplicated, reordered or torn. Between two calls of the reader the
  outstanding packets fit in the capacity.
\<close>

theorem pipe_concurrent_fifo:
  assumes "0 < unat n" and "unat n < 2147483648" and "unat n \<le> length mem"
    and "pipe_step\<^sup>*\<^sup>* (new_pipe mem n) s"
  shows "\<exists>rest. sent s = received s @ rest \<and> (rpc s = R_Idle \<longrightarrow> length (frames rest) \<le> unat n)"
proof -
  have cap: "capacity (ring t) = n" if "pipe_step\<^sup>*\<^sup>* (new_pipe mem n) t" for t
    using that
  proof (induction rule: rtranclp_induct)
    case base
    then show ?case by (simp add: new_pipe_def cb_new_def cb_init_def)
  next
    case (step t t')
    from step(2,3) show ?case
      by (induction rule: pipe_step.induct) (auto simp: cb_push_data_def Let_def split: if_splits)
  qed
  obtain ps where ps: "pipe_inv s ps"
    using pipe_reach_inv [OF assms(4) new_pipe_inv [OF assms(1-3)]] by blast
  have "length (frames ps) = unat (used (ring s))"
    using arg_cong [OF pipe_invD(5) [OF ps], of length] by simp
  then have "length (frames ps) \<le> unat n"
    using pipe_invD(1,4) [OF ps] cap [OF assms(4)] by simp
  then show ?thesis
    using pipe_invD(9) [OF ps] by (cases "rpc s") (auto intro!: exI [of _ "in_hand (rpc s) @ ps"])
qed

theorem pipe_concurrent_fifo_witness:
  "\<exists>s. pipe_step\<^sup>*\<^sup>* (new_pipe (replicate 8 0) 8) s \<and> wpc s = W_Room [7] \<and>
     (\<exists>rest. sent s = received s @ rest)"
proof -
  let ?p = "new_pipe (replicate 8 0) 8"
  have "wpc ?p = W_Idle" "unat (of_nat (length [7 :: u8]) :: u32) = 1"
    "unat (capacity (ring ?p) - used (ring ?p)) = 8" by code_simp+
  then have "pipe_step ?p (?p\<lparr>wpc := W_Room [7]\<rparr>)" by (intro pipe_step.W_Check) auto
  then have r: "pipe_step\<^sup>*\<^sup>* ?p (?p\<lparr>wpc := W_Room [7]\<rparr>)" by (rule r_into_rtranclp)
  from pipe_concurrent_fifo [OF _ _ _ r]
  have "\<exists>rest. sent (?p\<lparr>wpc := W_Room [7]\<rparr>) = received (?p\<lparr>wpc := W_Room [7]\<rparr>) @ rest" by auto
  with r show ?thesis by (intro exI [of _ "?p\<lparr>wpc := W_Room [7]\<rparr>"]) simp
qed

end
