(* ===== verification/Linked_List.thy ===== *)
theory Linked_List
  imports Prelude "HOL-Library.Monad_Syntax"
begin

text \<open>
  The linked lists of \<^verbatim>\<open>src/include/list.h\<close>, on the level of pointers. The other theories model the queues, tables and chains
  of the stack as lists; here the functions that keep them in memory are shown to implement lists.
\<close>

section \<open>The contract of a store of lists\<close>

text \<open>
  A store holds lists, each under the address of its head. A node is in at most one list. \<open>add\<close> puts a free node at the
  front of a list, \<open>del\<close> takes a node out of the list it is in, and \<open>walk\<close> visits the nodes of a list in order. All
  three fail with \<open>None\<close> where the code would dereference a NULL pointer.
\<close>

datatype list_op = Add nat nat | Del nat

type_synonym lists = "nat \<rightharpoonup> nat list"

definition in_list :: "lists \<Rightarrow> nat \<Rightarrow> nat \<Rightarrow> bool" where
  "in_list L h n \<longleftrightarrow> (\<exists>xs. L h = Some xs \<and> n \<in> set xs)"

fun list_spec :: "list_op \<Rightarrow> lists \<Rightarrow> lists" where
  "list_spec (Add n h) L = L(h := map_option (Cons n) (L h))"
| "list_spec (Del n) L = map_option (remove1 n) \<circ> L"

fun list_run :: "(nat \<Rightarrow> nat \<Rightarrow> 'm \<Rightarrow> 'm option) \<Rightarrow> (nat \<Rightarrow> 'm \<Rightarrow> 'm option) \<Rightarrow> list_op list \<Rightarrow> 'm \<Rightarrow> 'm option" where
  "list_run add del [] m = Some m"
| "list_run add del (Add n h # ops) m = Option.bind (add n h m) (list_run add del ops)"
| "list_run add del (Del n # ops) m = Option.bind (del n m) (list_run add del ops)"

text \<open>What the callers see to: a node is added to an existing list while it is in none, and taken out of a list it is in.\<close>

fun list_legal :: "(nat \<Rightarrow> lists \<Rightarrow> bool) \<Rightarrow> list_op list \<Rightarrow> lists \<Rightarrow> bool" where
  "list_legal unused [] L = True"
| "list_legal unused (Add n h # ops) L = (unused n L \<and> h \<in> dom L \<and> list_legal unused ops (list_spec (Add n h) L))"
| "list_legal unused (Del n # ops) L = ((\<exists>h. in_list L h n) \<and> list_legal unused ops (list_spec (Del n) L))"

locale list_store =
  fixes add :: "nat \<Rightarrow> nat \<Rightarrow> 'm \<Rightarrow> 'm option" and del :: "nat \<Rightarrow> 'm \<Rightarrow> 'm option" and walk :: "'m \<Rightarrow> nat \<Rightarrow> nat list option"
    and holds :: "'m \<Rightarrow> lists \<Rightarrow> bool" and unused :: "nat \<Rightarrow> lists \<Rightarrow> bool"
  assumes add_front: "holds m L \<Longrightarrow> unused n L \<Longrightarrow> h \<in> dom L \<Longrightarrow> \<exists>t. add n h m = Some t \<and> holds t (list_spec (Add n h) L)"
    and del_node: "holds m L \<Longrightarrow> in_list L h n \<Longrightarrow> \<exists>t. del n m = Some t \<and> holds t (list_spec (Del n) L)"
    and walk_all: "holds m L \<Longrightarrow> L h = Some xs \<Longrightarrow> walk m h = Some xs"
begin

lemma run_refines:
  assumes "holds m L" "list_legal unused ops L"
  shows "\<exists>t. list_run add del ops m = Some t \<and> holds t (fold list_spec ops L)"
  using assms
proof (induction ops arbitrary: m L)
  case (Cons q ops)
  obtain t where "list_run add del (q # ops) m = list_run add del ops t" "holds t (list_spec q L)" "list_legal unused ops (list_spec q L)"
  proof (cases q)
    case (Add n h)
    then show ?thesis using Cons.prems add_front [of m L n h] that by auto
  next
    case (Del n)
    then show ?thesis using Cons.prems del_node [of m L _ n] that by fastforce
  qed
  then show ?case using Cons.IH by simp
qed simp

lemma run_walks:
  assumes "holds m L" "list_legal unused ops L" "fold list_spec ops L h = Some xs"
  shows "\<exists>t. list_run add del ops m = Some t \<and> walk t h = Some xs"
  using run_refines [OF assms(1,2)] assms(3) walk_all by blast

end

text \<open>
  A store that can append as well: a list that is filled at the back and walked from the front is a queue.
\<close>

fun append_all :: "(nat \<Rightarrow> nat \<Rightarrow> 'm \<Rightarrow> 'm option) \<Rightarrow> nat \<Rightarrow> nat list \<Rightarrow> 'm \<Rightarrow> 'm option" where
  "append_all add_tail h [] m = Some m"
| "append_all add_tail h (n # ns) m = Option.bind (add_tail n h m) (append_all add_tail h ns)"

locale deque_store = list_store +
  fixes add_tail :: "nat \<Rightarrow> nat \<Rightarrow> 'a \<Rightarrow> 'a option"
  assumes add_back: "holds m L \<Longrightarrow> unused n L \<Longrightarrow> L h = Some xs \<Longrightarrow> \<exists>t. add_tail n h m = Some t \<and> holds t (L(h \<mapsto> xs @ [n]))"
    and unused_other: "unused n L \<Longrightarrow> L h = Some xs \<Longrightarrow> n \<noteq> k \<Longrightarrow> unused n (L(h \<mapsto> xs @ [k]))"
begin

lemma queue_order:
  assumes "holds m L" "L h = Some xs" "distinct ns" "\<forall>n \<in> set ns. unused n L"
  shows "\<exists>t. append_all add_tail h ns m = Some t \<and> holds t (L(h \<mapsto> xs @ ns)) \<and> walk t h = Some (xs @ ns)"
  using assms
proof (induction ns arbitrary: m L xs)
  case Nil
  then show ?case using walk_all by (simp add: fun_upd_idem)
next
  case (Cons n ns)
  then obtain t where t: "add_tail n h m = Some t" "holds t (L(h \<mapsto> xs @ [n]))" using add_back by force
  have "(L(h \<mapsto> xs @ [n])) h = Some (xs @ [n])" "distinct ns" using Cons.prems by simp_all
  moreover have "\<forall>j \<in> set ns. unused j (L(h \<mapsto> xs @ [n]))" using Cons.prems by (auto intro!: unused_other)
  ultimately obtain u where "append_all add_tail h ns t = Some u" "holds u (L(h \<mapsto> xs @ [n], h \<mapsto> (xs @ [n]) @ ns))" "walk u h = Some ((xs @ [n]) @ ns)"
    using Cons.IH [OF t(2)] by blast
  then show ?case using t(1) by (auto simp only: append_all.simps Option.bind.simps fun_upd_upd append_assoc append_Cons append_Nil)
qed

end

section \<open>Doubly linked lists\<close>

text \<open>
  \<^verbatim>\<open>struct list_head\<close>: the memory gives each address its two members. A pointer is an address or NULL.
\<close>

type_synonym ptr = "nat option"

record list_mem =
  prev_of :: "nat \<Rightarrow> ptr"
  next_of :: "nat \<Rightarrow> ptr"

definition get_prev :: "ptr \<Rightarrow> list_mem \<Rightarrow> ptr option" where
  "get_prev p m = map_option (prev_of m) p"

definition get_next :: "ptr \<Rightarrow> list_mem \<Rightarrow> ptr option" where
  "get_next p m = map_option (next_of m) p"

definition set_prev :: "ptr \<Rightarrow> ptr \<Rightarrow> list_mem \<Rightarrow> list_mem option" where
  "set_prev p v m = map_option (\<lambda>a. m\<lparr>prev_of := (prev_of m)(a := v)\<rparr>) p"

definition set_next :: "ptr \<Rightarrow> ptr \<Rightarrow> list_mem \<Rightarrow> list_mem option" where
  "set_next p v m = map_option (\<lambda>a. m\<lparr>next_of := (next_of m)(a := v)\<rparr>) p"

lemmas list_access = get_prev_def get_next_def set_prev_def set_next_def

definition list_init :: "nat \<Rightarrow> list_mem \<Rightarrow> list_mem" where
  "list_init h m = m\<lparr>next_of := (next_of m)(h := Some h), prev_of := (prev_of m)(h := Some h)\<rparr>"

definition list_add_between :: "nat \<Rightarrow> ptr \<Rightarrow> ptr \<Rightarrow> list_mem \<Rightarrow> list_mem option" where
  "list_add_between n p q m =
     do { m \<leftarrow> set_prev (Some n) p m;
          m \<leftarrow> set_next (Some n) q m;
          m \<leftarrow> set_prev q (Some n) m;
          set_next p (Some n) m }"

definition list_add :: "nat \<Rightarrow> nat \<Rightarrow> list_mem \<Rightarrow> list_mem option" where
  "list_add n h m = do { q \<leftarrow> get_next (Some h) m; list_add_between n (Some h) q m }"

definition list_add_tail :: "nat \<Rightarrow> nat \<Rightarrow> list_mem \<Rightarrow> list_mem option" where
  "list_add_tail n h m = do { p \<leftarrow> get_prev (Some h) m; list_add_between n p (Some h) m }"

definition list_del_between :: "ptr \<Rightarrow> ptr \<Rightarrow> list_mem \<Rightarrow> list_mem option" where
  "list_del_between p q m = do { m \<leftarrow> set_next p q m; set_prev q p m }"

definition list_del :: "nat \<Rightarrow> list_mem \<Rightarrow> list_mem option" where
  "list_del n m =
     do { p \<leftarrow> get_prev (Some n) m;
          q \<leftarrow> get_next (Some n) m;
          m \<leftarrow> list_del_between p q m;
          m \<leftarrow> set_prev (Some n) None m;
          set_next (Some n) None m }"

definition list_del_init :: "nat \<Rightarrow> list_mem \<Rightarrow> list_mem option" where
  "list_del_init n m =
     do { p \<leftarrow> get_prev (Some n) m;
          q \<leftarrow> get_next (Some n) m;
          m \<leftarrow> list_del_between p q m;
          m \<leftarrow> set_prev (Some n) (Some n) m;
          set_next (Some n) (Some n) m }"

definition list_empty :: "nat \<Rightarrow> list_mem \<Rightarrow> bool" where
  "list_empty h m \<longleftrightarrow> next_of m h = Some h"

text \<open>
  The loop macros. \<open>list_for_each\<close> and \<open>list_for_each_reverse\<close> return the entries they visit;
  \<open>list_for_each_safe\<close> runs a body that may change the list, and reads the successor of an entry before its body.
\<close>

partial_function (option) list_walk :: "list_mem \<Rightarrow> nat \<Rightarrow> ptr \<Rightarrow> nat list option" where
  [code]: "list_walk m h p =
     (if p = Some h then Some []
      else case p of None \<Rightarrow> None
        | Some a \<Rightarrow> do { q \<leftarrow> get_next p m; xs \<leftarrow> list_walk m h q; Some (a # xs) })"

definition list_for_each :: "list_mem \<Rightarrow> nat \<Rightarrow> nat list option" where
  "list_for_each m h = list_walk m h (next_of m h)"

partial_function (option) list_walk_back :: "list_mem \<Rightarrow> nat \<Rightarrow> ptr \<Rightarrow> nat list option" where
  [code]: "list_walk_back m h p =
     (if p = Some h then Some []
      else case p of None \<Rightarrow> None
        | Some a \<Rightarrow> do { q \<leftarrow> get_prev p m; xs \<leftarrow> list_walk_back m h q; Some (a # xs) })"

definition list_for_each_reverse :: "list_mem \<Rightarrow> nat \<Rightarrow> nat list option" where
  "list_for_each_reverse m h = list_walk_back m h (prev_of m h)"

partial_function (option) list_walk_safe ::
  "(nat \<Rightarrow> list_mem \<Rightarrow> list_mem option) \<Rightarrow> nat \<Rightarrow> ptr \<Rightarrow> ptr \<Rightarrow> list_mem \<Rightarrow> list_mem option" where
  [code]: "list_walk_safe body h p q m =
     (if p = Some h then Some m
      else case p of None \<Rightarrow> None
        | Some a \<Rightarrow>
            do { m \<leftarrow> body a m;
                 r \<leftarrow> get_next q m;
                 list_walk_safe body h q r m })"

definition list_for_each_safe :: "(nat \<Rightarrow> list_mem \<Rightarrow> list_mem option) \<Rightarrow> nat \<Rightarrow> list_mem \<Rightarrow> list_mem option" where
  "list_for_each_safe body h m =
     do { p \<leftarrow> get_next (Some h) m; q \<leftarrow> get_next p m; list_walk_safe body h p q m }"

subsection \<open>Rings\<close>

text \<open>\<open>links m a xs b\<close>: the members lead from \<open>a\<close> over the nodes \<open>xs\<close> to \<open>b\<close>, and back.\<close>

fun links :: "list_mem \<Rightarrow> nat \<Rightarrow> nat list \<Rightarrow> nat \<Rightarrow> bool" where
  "links m a [] b = (next_of m a = Some b \<and> prev_of m b = Some a)"
| "links m a (x # xs) b = (next_of m a = Some x \<and> prev_of m x = Some a \<and> links m x xs b)"

lemma links_append: "links m a (xs @ y # ys) b \<longleftrightarrow> links m a xs y \<and> links m y ys b"
  by (induction xs arbitrary: a) simp_all

lemma links_ends:
  assumes "links m a xs b"
  shows "next_of m a = Some (hd (xs @ [b]))" "prev_of m b = Some (last (a # xs))"
proof -
  show "next_of m a = Some (hd (xs @ [b]))" using assms by (cases xs) simp_all
  show "prev_of m b = Some (last (a # xs))" using assms by (induction xs arbitrary: a) auto
qed

lemma links_cong:
  assumes "\<forall>x \<in> set (a # xs). next_of t x = next_of m x" "\<forall>x \<in> set (xs @ [b]). prev_of t x = prev_of m x"
  shows "links t a xs b = links m a xs b"
  using assms by (induction xs arbitrary: a) auto

text \<open>The lists of a memory are rings through their heads, and share no node.\<close>

definition nodes_of :: "lists \<Rightarrow> nat \<Rightarrow> nat set" where
  "nodes_of L h = (case L h of None \<Rightarrow> {} | Some xs \<Rightarrow> set (h # xs))"

definition rings :: "list_mem \<Rightarrow> lists \<Rightarrow> bool" where
  "rings m L \<longleftrightarrow> (\<forall>h xs. L h = Some xs \<longrightarrow> links m h xs h \<and> distinct (h # xs)) \<and>
     (\<forall>h k. h \<noteq> k \<longrightarrow> nodes_of L h \<inter> nodes_of L k = {})"

definition ring_free :: "nat \<Rightarrow> lists \<Rightarrow> bool" where
  "ring_free n L \<longleftrightarrow> (\<forall>h. n \<notin> nodes_of L h)"

lemma rings_cong:
  assumes "rings m L" and "\<And>h x. h \<noteq> k \<Longrightarrow> x \<in> nodes_of L h \<Longrightarrow> next_of t x = next_of m x \<and> prev_of t x = prev_of m x"
    and "links t k xs k" "distinct (k # xs)" and "\<And>h. h \<noteq> k \<Longrightarrow> nodes_of L h \<inter> set (k # xs) = {}"
  shows "rings t (L(k \<mapsto> xs))"
proof -
  have "links t h ys h \<and> distinct (h # ys)" if h: "(L(k \<mapsto> xs)) h = Some ys" for h ys
  proof (cases "h = k")
    case False
    then have "L h = Some ys" "nodes_of L h = set (h # ys)" using h by (simp_all add: nodes_of_def)
    moreover from this have "links t h ys h = links m h ys h"
      using assms(2) [OF False] by (intro links_cong) auto
    ultimately show ?thesis using assms(1) by (auto simp: rings_def)
  qed (use h assms(3,4) in auto)
  moreover have "nodes_of (L(k \<mapsto> xs)) h \<inter> nodes_of (L(k \<mapsto> xs)) j = {}" if "h \<noteq> j" for h j
    using that assms(1) assms(5) [of h] assms(5) [of j] by (auto simp: rings_def nodes_of_def)
  ultimately show ?thesis by (simp add: rings_def)
qed

lemma links_new_end:
  assumes "links m a ys b" "\<forall>x \<in> set (butlast (a # ys)). next_of t x = next_of m x" "\<forall>x \<in> set ys. prev_of t x = prev_of m x"
    and "next_of t (last (a # ys)) = Some n" "prev_of t n = Some (last (a # ys))"
  shows "links t a ys n"
  using assms by (induction ys arbitrary: a) (auto split: if_splits)

definition same_at :: "nat \<Rightarrow> list_mem \<Rightarrow> list_mem \<Rightarrow> bool" where
  "same_at x m t \<longleftrightarrow> next_of t x = next_of m x \<and> prev_of t x = prev_of m x"

lemma links_split:
  assumes "links m a (ys @ zs) b"
  shows "links m a ys (hd (zs @ [b]))"
  using assms by (cases zs; simp add: links_append)

lemma list_add_between_links:
  assumes r: "links m h (ys @ zs) h" "distinct (h # ys @ zs)" "n \<notin> set (h # ys @ zs)"
  shows "\<exists>t. list_add_between n (Some (last (h # ys))) (Some (hd (zs @ [h]))) m = Some t \<and> links t h (ys @ n # zs) h \<and>
    (\<forall>x. x \<notin> set (n # h # ys @ zs) \<longrightarrow> same_at x m t)"
proof -
  let ?p = "last (h # ys)" and ?q = "hd (zs @ [h])"
  define t where "t = m\<lparr>prev_of := (prev_of m)(n := Some ?p, ?q := Some n), next_of := (next_of m)(n := Some ?q, ?p := Some n)\<rparr>"
  have p: "?p \<in> set (h # ys)" "?q \<in> set (zs @ [h])" by (rule last_in_set, simp) (rule hd_in_set, simp)
  have "links t h ys n"
  proof (rule links_new_end [OF links_split [OF r(1)]])
    have "?p \<notin> set (butlast (h # ys))" using r(2) append_butlast_last_id [of "h # ys"] distinct_append [of "butlast (h # ys)" "[?p]"] by auto
    then show "\<forall>x \<in> set (butlast (h # ys)). next_of t x = next_of m x" using r(3) in_set_butlastD [of _ "h # ys"] by (fastforce simp: t_def)
  qed (use r p in \<open>auto simp: t_def\<close>)
  moreover have "links t n zs h"
  proof (cases zs)
    case (Cons z zs')
    then have "links m z zs' h" using r(1) by (simp add: links_append)
    moreover have "links t z zs' h = links m z zs' h"
      using r p(1) Cons by (intro links_cong) (auto simp: t_def)
    ultimately show ?thesis using r p Cons by (auto simp: t_def)
  qed (use r p in \<open>auto simp: t_def\<close>)
  moreover have "list_add_between n (Some ?p) (Some ?q) m = Some t"
    by (simp add: list_add_between_def list_access t_def)
  moreover have "\<forall>x. x \<notin> set (n # h # ys @ zs) \<longrightarrow> same_at x m t" using p by (auto simp: t_def same_at_def)
  ultimately show ?thesis by (auto simp: links_append)
qed

lemma list_del_links:
  assumes r: "links m h (ys @ n # zs) h" "distinct (h # ys @ n # zs)"
  defines "t v \<equiv> m\<lparr>next_of := (next_of m)(last (h # ys) := Some (hd (zs @ [h])), n := v),
      prev_of := (prev_of m)(hd (zs @ [h]) := Some (last (h # ys)), n := v)\<rparr>"
  shows "list_del n m = Some (t None)" "list_del_init n m = Some (t (Some n))" "links (t v) h (ys @ zs) h"
    "x \<notin> set (h # ys @ n # zs) \<Longrightarrow> same_at x m (t v)"
proof -
  let ?p = "last (h # ys)" and ?q = "hd (zs @ [h])"
  have n: "prev_of m n = Some ?p" "next_of m n = Some ?q"
    using r(1) links_ends [of m h ys n] links_ends [of m n zs h] by (simp_all add: links_append)
  have p: "?p \<in> set (h # ys)" "?q \<in> set (zs @ [h])" by (rule last_in_set, simp) (rule hd_in_set, simp)
  then have pn: "?p \<noteq> n" "?q \<noteq> n" using r(2) by auto
  show "list_del n m = Some (t None)" "list_del_init n m = Some (t (Some n))"
    by (simp_all add: list_del_def list_del_init_def list_del_between_def list_access n t_def)
  have "links (t v) h ys ?q"
  proof (rule links_new_end)
    show "links m h ys n" using r(1) by (simp add: links_append)
    have "?p \<notin> set (butlast (h # ys))" using r(2) append_butlast_last_id [of "h # ys"] distinct_append [of "butlast (h # ys)" "[?p]"] by auto
    then show "\<forall>x \<in> set (butlast (h # ys)). next_of (t v) x = next_of m x"
      using r(2) in_set_butlastD [of _ "h # ys"] by (fastforce simp: t_def)
  qed (use r p pn in \<open>auto simp: t_def\<close>)
  moreover have "links (t v) z zs' h" if z: "zs = z # zs'" for z zs'
  proof -
    have "links m z zs' h" using r(1) by (simp add: links_append z)
    moreover have "links (t v) z zs' h = links m z zs' h" using r(2) p(1) pn by (intro links_cong) (auto simp: t_def z)
    ultimately show ?thesis by simp
  qed
  ultimately show "links (t v) h (ys @ zs) h"
    by (cases zs) (simp_all add: links_append)
  show "x \<notin> set (h # ys @ n # zs) \<Longrightarrow> same_at x m (t v)" using p by (auto simp: t_def same_at_def)
qed

lemma rings_list:
  assumes "rings m L" "L h = Some xs"
  shows "links m h xs h" "distinct (h # xs)" "nodes_of L h = set (h # xs)" "k \<noteq> h \<Longrightarrow> nodes_of L k \<inter> set (h # xs) = {}"
proof -
  show "links m h xs h" "distinct (h # xs)" using assms by (auto simp: rings_def)
  show n: "nodes_of L h = set (h # xs)" using assms(2) by (simp add: nodes_of_def)
  show "k \<noteq> h \<Longrightarrow> nodes_of L k \<inter> set (h # xs) = {}" using assms(1) unfolding rings_def n [symmetric] by blast
qed

lemma rings_insert:
  assumes "rings m L" "L h = Some (ys @ zs)" "ring_free n L"
  shows "\<exists>t. list_add_between n (Some (last (h # ys))) (Some (hd (zs @ [h]))) m = Some t \<and> rings t (L(h \<mapsto> ys @ n # zs))"
proof -
  note r = rings_list [OF assms(1,2)]
  have n: "n \<notin> set (h # ys @ zs)" using assms(3) r(3) by (auto simp: ring_free_def)
  obtain t where t: "list_add_between n (Some (last (h # ys))) (Some (hd (zs @ [h]))) m = Some t" "links t h (ys @ n # zs) h"
    "\<forall>x. x \<notin> set (n # h # ys @ zs) \<longrightarrow> same_at x m t"
    using list_add_between_links [OF r(1,2) n] by blast
  have "rings t (L(h \<mapsto> ys @ n # zs))"
  proof (rule rings_cong [OF assms(1)])
    show "next_of t x = next_of m x \<and> prev_of t x = prev_of m x" if "k \<noteq> h" "x \<in> nodes_of L k" for k x
      using that r(4) [OF that(1)] t(3) assms(3) by (auto simp: same_at_def ring_free_def)
    show "nodes_of L k \<inter> set (h # ys @ n # zs) = {}" if "k \<noteq> h" for k
      using r(4) [OF that] assms(3) by (auto simp: ring_free_def)
  qed (use t r(2) n in auto)
  with t(1) show ?thesis by blast
qed

lemma rings_remove:
  assumes "rings m L" "L h = Some (ys @ n # zs)"
  shows "\<exists>t. list_del n m = Some t \<and> rings t (L(h \<mapsto> ys @ zs))"
    "\<exists>t. list_del_init n m = Some t \<and> rings t (L(h \<mapsto> ys @ zs, n \<mapsto> []))"
proof -
  note r = rings_list [OF assms]
  define t where "t v = m\<lparr>next_of := (next_of m)(last (h # ys) := Some (hd (zs @ [h])), n := v),
      prev_of := (prev_of m)(hd (zs @ [h]) := Some (last (h # ys)), n := v)\<rparr>" for v
  note d = list_del_links [OF r(1,2), folded t_def]
  have t: "rings (t v) (L(h \<mapsto> ys @ zs))" for v
  proof (rule rings_cong [OF assms(1)])
    show "next_of (t v) x = next_of m x \<and> prev_of (t v) x = prev_of m x" if "k \<noteq> h" "x \<in> nodes_of L k" for k x
      using that r(4) [OF that(1)] d(4) [of x v] by (auto simp: same_at_def)
    show "nodes_of L k \<inter> set (h # ys @ zs) = {}" if "k \<noteq> h" for k using r(4) [OF that] by auto
  qed (use r(2) d(3) in auto)
  then show "\<exists>t. list_del n m = Some t \<and> rings t (L(h \<mapsto> ys @ zs))" using d(1) by blast
  have "rings (t (Some n)) (L(h \<mapsto> ys @ zs, n \<mapsto> []))"
  proof (rule rings_cong [OF t])
    show "links (t (Some n)) n [] n" by (simp add: t_def)
    show "nodes_of (L(h \<mapsto> ys @ zs)) k \<inter> set [n] = {}" if "k \<noteq> n" for k
      using r(2) r(4) [of k] that by (auto simp: nodes_of_def)
  qed simp_all
  then show "\<exists>t. list_del_init n m = Some t \<and> rings t (L(h \<mapsto> ys @ zs, n \<mapsto> []))" using d(2) by blast
qed

lemma list_walk_links: "links m a xs h \<Longrightarrow> h \<notin> set xs \<Longrightarrow> list_walk m h (next_of m a) = Some xs"
proof (induction xs arbitrary: a)
  case (Cons x xs)
  then show ?case by (subst list_walk.simps) (auto simp: list_access)
qed (simp add: list_walk.simps)

lemma list_walk_back_links: "links m h xs b \<Longrightarrow> h \<notin> set xs \<Longrightarrow> list_walk_back m h (prev_of m b) = Some (rev xs)"
proof (induction xs arbitrary: b rule: rev_induct)
  case (snoc x xs)
  then show ?case by (subst list_walk_back.simps) (auto simp: list_access links_append)
qed (simp add: list_walk_back.simps)

lemma rings_walk:
  assumes "rings m L" "L h = Some xs"
  shows "list_for_each m h = Some xs" "list_for_each_reverse m h = Some (rev xs)"
  using rings_list [OF assms]
  by (simp_all add: list_for_each_def list_for_each_reverse_def list_walk_links list_walk_back_links)

lemma list_empty_iff: "rings m L \<Longrightarrow> L h = Some xs \<Longrightarrow> list_empty h m \<longleftrightarrow> xs = []"
  using rings_list [of m L h xs] links_ends(1) [of m h xs h] by (cases xs) (auto simp: list_empty_def)

lemma remove_elsewhere:
  assumes "\<And>k. k \<noteq> h \<Longrightarrow> \<forall>ys. L k = Some ys \<longrightarrow> n \<notin> set ys" "L h = Some xs"
  shows "list_spec (Del n) L = L(h \<mapsto> remove1 n xs)"
proof
  show "list_spec (Del n) L k = (L(h \<mapsto> remove1 n xs)) k" for k
    using assms by (cases "L k") (auto simp: remove1_idem)
qed

interpretation ring: deque_store list_add list_del list_for_each rings ring_free list_add_tail
proof
  fix m :: list_mem and L :: lists and n h :: nat
  assume r: "rings m L" "ring_free n L"
  show "\<exists>t. list_add n h m = Some t \<and> rings t (list_spec (Add n h) L)" if "h \<in> dom L"
  proof -
    from that obtain xs where xs: "L h = Some xs" by blast
    with r(1) have "next_of m h = Some (hd (xs @ [h]))" using rings_list(1) links_ends(1) by blast
    then show ?thesis using rings_insert [OF r(1), of h "[]" xs n] r(2) xs by (simp add: list_add_def list_access)
  qed
  show "\<exists>t. list_add_tail n h m = Some t \<and> rings t (L(h \<mapsto> xs @ [n]))" if "L h = Some xs" for xs
  proof -
    from r(1) that have "prev_of m h = Some (last (h # xs))" using rings_list(1) links_ends(2) by blast
    then show ?thesis using rings_insert [OF r(1), of h xs "[]" n] r(2) that by (simp add: list_add_tail_def list_access)
  qed
next
  fix m :: list_mem and L :: lists and n h :: nat
  assume r: "rings m L" "in_list L h n"
  then obtain ys zs where xs: "L h = Some (ys @ n # zs)" by (auto simp: in_list_def dest: split_list)
  have n: "n \<notin> set ys" using rings_list(2) [OF r(1) xs] by auto
  have "\<forall>ys. L k = Some ys \<longrightarrow> n \<notin> set ys" if "k \<noteq> h" for k
    using rings_list(4) [OF r(1) xs that] by (auto simp: nodes_of_def)
  then have "list_spec (Del n) L = L(h \<mapsto> remove1 n (ys @ n # zs))" using xs by (rule remove_elsewhere)
  then show "\<exists>t. list_del n m = Some t \<and> rings t (list_spec (Del n) L)"
    using rings_remove(1) [OF r(1) xs] n by (simp add: remove1_append)
next
  show "rings m L \<Longrightarrow> L h = Some xs \<Longrightarrow> list_for_each m h = Some xs" for m L h xs by (rule rings_walk(1))
  show "ring_free n L \<Longrightarrow> L h = Some xs \<Longrightarrow> n \<noteq> k \<Longrightarrow> ring_free n (L(h \<mapsto> xs @ [k]))" for n L h xs k
    by (auto simp: ring_free_def nodes_of_def split: option.splits if_splits)
qed

subsection \<open>Deleting while walking\<close>

lemma list_walk_safe_filter:
  assumes "rings m L" "L h = Some (ys @ zs)" "\<forall>z \<in> set (take 1 zs). q = next_of m z"
  shows "\<exists>t. list_walk_safe (\<lambda>n m. if P n then list_del n m else Some m) h (Some (hd (zs @ [h]))) q m = Some t \<and>
    rings t (L(h \<mapsto> ys @ filter (\<lambda>n. \<not> P n) zs))"
  using assms
proof (induction zs arbitrary: m L ys q)
  case Nil
  then show ?case by (subst list_walk_safe.simps) (simp add: fun_upd_idem)
next
  case (Cons z zs)
  let ?body = "\<lambda>n m. if P n then list_del n m else Some m" and ?ys = "if P z then ys else ys @ [z]"
  have r: "distinct (h # ys @ z # zs)" "links m h (ys @ z # zs) h" using rings_list [OF Cons.prems(1,2)] by blast+
  then have q: "q = Some (hd (zs @ [h]))" using Cons.prems(3) links_ends(1) [of m z zs h] by (simp add: links_append)
  obtain u where u: "?body z m = Some u" "rings u (L(h \<mapsto> ?ys @ zs))"
    using Cons.prems(1,2) rings_remove(1) [OF Cons.prems(1,2)] by (cases "P z") (auto simp: fun_upd_idem)
  define v where "v = next_of u (hd (zs @ [h]))"
  have "\<forall>x \<in> set (take 1 zs). v = next_of u x" by (cases zs) (simp_all add: v_def)
  then obtain t where t: "list_walk_safe ?body h (Some (hd (zs @ [h]))) v u = Some t"
    "rings t (L(h \<mapsto> ?ys @ zs, h \<mapsto> ?ys @ filter (\<lambda>n. \<not> P n) zs))"
    using Cons.IH [OF u(2) fun_upd_same] by blast
  have "list_walk_safe ?body h (Some z) q m = list_walk_safe ?body h q v u"
    using r(1) u(1) by (subst list_walk_safe.simps) (simp add: q v_def list_access)
  moreover have "?ys @ filter (\<lambda>n. \<not> P n) zs = ys @ filter (\<lambda>n. \<not> P n) (z # zs)" by simp
  ultimately show ?case using t unfolding q fun_upd_upd append_Cons list.sel by metis
qed

lemma list_for_each_safe_filter:
  assumes "rings m L" "L h = Some xs"
  shows "\<exists>t. list_for_each_safe (\<lambda>n m. if P n then list_del n m else Some m) h m = Some t \<and> rings t (L(h \<mapsto> filter (\<lambda>n. \<not> P n) xs))"
proof -
  have "next_of m h = Some (hd (xs @ [h]))" using rings_list(1) [OF assms] links_ends(1) by blast
  moreover have "\<forall>z \<in> set (take 1 xs). next_of m (hd (xs @ [h])) = next_of m z" by (cases xs) simp_all
  ultimately show ?thesis
    using list_walk_safe_filter [of m L h "[]" xs "next_of m (hd (xs @ [h]))" P] assms by (simp add: list_for_each_safe_def list_access)
qed

section \<open>Hash chains\<close>

text \<open>
  \<^verbatim>\<open>struct hlist_head\<close> and \<^verbatim>\<open>struct hlist_node\<close>. The member \<^verbatim>\<open>pprev\<close> holds the address of the pointer that leads to the node: the
  member \<^verbatim>\<open>first\<close> of a head or the member \<^verbatim>\<open>next\<close> of a node.
\<close>

datatype hslot = First nat | Next nat

record hlist_mem =
  first :: "nat \<Rightarrow> ptr"
  hnext :: "nat \<Rightarrow> ptr"
  pprev :: "nat \<Rightarrow> hslot option"

fun read_slot :: "hlist_mem \<Rightarrow> hslot \<Rightarrow> ptr" where
  "read_slot m (First h) = first m h"
| "read_slot m (Next n) = hnext m n"

fun write_slot :: "hslot option \<Rightarrow> ptr \<Rightarrow> hlist_mem \<Rightarrow> hlist_mem option" where
  "write_slot None v m = None"
| "write_slot (Some (First h)) v m = Some (m\<lparr>first := (first m)(h := v)\<rparr>)"
| "write_slot (Some (Next n)) v m = Some (m\<lparr>hnext := (hnext m)(n := v)\<rparr>)"

text \<open>The assignments \<^verbatim>\<open>n->next = v\<close> and \<^verbatim>\<open>n->pprev = v\<close>, and \<^verbatim>\<open>if (p) p->pprev = v\<close>.\<close>

definition set_hnext :: "nat \<Rightarrow> ptr \<Rightarrow> hlist_mem \<Rightarrow> hlist_mem" where
  "set_hnext n v m = m\<lparr>hnext := (hnext m)(n := v)\<rparr>"

definition set_pprev :: "nat \<Rightarrow> hslot option \<Rightarrow> hlist_mem \<Rightarrow> hlist_mem" where
  "set_pprev n v m = m\<lparr>pprev := (pprev m)(n := v)\<rparr>"

definition set_pprev_if :: "ptr \<Rightarrow> hslot option \<Rightarrow> hlist_mem \<Rightarrow> hlist_mem" where
  "set_pprev_if p v m = (case p of None \<Rightarrow> m | Some a \<Rightarrow> set_pprev a v m)"

definition hlist_unhashed :: "nat \<Rightarrow> hlist_mem \<Rightarrow> bool" where
  "hlist_unhashed n m \<longleftrightarrow> pprev m n = None"

definition hlist_empty :: "nat \<Rightarrow> hlist_mem \<Rightarrow> bool" where
  "hlist_empty h m \<longleftrightarrow> first m h = None"

definition hlist_head_init :: "nat \<Rightarrow> hlist_mem \<Rightarrow> hlist_mem" where
  "hlist_head_init h m = m\<lparr>first := (first m)(h := None)\<rparr>"

definition hlist_node_init :: "nat \<Rightarrow> hlist_mem \<Rightarrow> hlist_mem" where
  "hlist_node_init n m = set_pprev n None (set_hnext n None m)"

definition hlist_unlink :: "nat \<Rightarrow> hlist_mem \<Rightarrow> hlist_mem option" where
  "hlist_unlink n m =
     do { m \<leftarrow> write_slot (pprev m n) (hnext m n) m;
          Some (set_pprev_if (hnext m n) (pprev m n) m) }"

definition hlist_del :: "nat \<Rightarrow> hlist_mem \<Rightarrow> hlist_mem option" where
  "hlist_del n m = do { m \<leftarrow> hlist_unlink n m; Some (set_pprev n None (set_hnext n None m)) }"

definition hlist_add_head :: "nat \<Rightarrow> nat \<Rightarrow> hlist_mem \<Rightarrow> hlist_mem option" where
  "hlist_add_head n h m =
     (let m = set_hnext n (first m h) m;
          m = set_pprev n (Some (First h)) m;
          m = set_pprev_if (first m h) (Some (Next n)) m
      in Some (m\<lparr>first := (first m)(h := Some n)\<rparr>))"

definition hlist_add_before :: "nat \<Rightarrow> nat \<Rightarrow> hlist_mem \<Rightarrow> hlist_mem option" where
  "hlist_add_before n x m =
     (let m = set_hnext n (Some x) m;
          m = set_pprev n (pprev m x) m
      in do { m \<leftarrow> write_slot (pprev m x) (Some n) m;
              Some (set_pprev x (Some (Next n)) m) })"

definition hlist_add_after :: "nat \<Rightarrow> nat \<Rightarrow> hlist_mem \<Rightarrow> hlist_mem" where
  "hlist_add_after n x m =
     (let m = set_hnext x (hnext m n) m;
          m = set_pprev x (Some (Next n)) m;
          m = set_pprev_if (hnext m n) (Some (Next x)) m
      in set_hnext n (Some x) m)"

partial_function (option) hlist_walk :: "hlist_mem \<Rightarrow> ptr \<Rightarrow> nat list option" where
  [code]: "hlist_walk m p =
     (case p of None \<Rightarrow> Some []
      | Some a \<Rightarrow> do { xs \<leftarrow> hlist_walk m (hnext m a); Some (a # xs) })"

definition hlist_for_each :: "hlist_mem \<Rightarrow> nat \<Rightarrow> nat list option" where
  "hlist_for_each m h = hlist_walk m (first m h)"

subsection \<open>Chains\<close>

text \<open>\<open>chain m s xs e\<close>: the pointer at \<open>s\<close> leads over the nodes \<open>xs\<close> to the pointer value \<open>e\<close>.\<close>

fun chain :: "hlist_mem \<Rightarrow> hslot \<Rightarrow> nat list \<Rightarrow> ptr \<Rightarrow> bool" where
  "chain m s [] e = (read_slot m s = e)"
| "chain m s (x # xs) e = (read_slot m s = Some x \<and> pprev m x = Some s \<and> chain m (Next x) xs e)"

fun last_slot :: "hslot \<Rightarrow> nat list \<Rightarrow> hslot" where
  "last_slot s [] = s"
| "last_slot s (x # xs) = last_slot (Next x) xs"

lemma last_slot_eq: "last_slot s xs = (if xs = [] then s else Next (last xs))"
  by (induction xs arbitrary: s) auto

lemma chain_append:
  "chain m s (ys @ z # zs) e \<longleftrightarrow> chain m s ys (Some z) \<and> pprev m z = Some (last_slot s ys) \<and> chain m (Next z) zs e"
  by (induction ys arbitrary: s) auto

lemma chain_end: "chain m s xs e \<Longrightarrow> read_slot m (last_slot s xs) = e"
  by (induction xs arbitrary: s) auto

lemma chain_cong:
  assumes "\<forall>x \<in> set (s # map Next xs). read_slot t x = read_slot m x" "\<forall>x \<in> set xs. pprev t x = pprev m x"
  shows "chain t s xs e = chain m s xs e"
  using assms by (induction xs arbitrary: s) auto

text \<open>Moving the end of a chain.\<close>

lemma chain_new_end:
  assumes "chain m s xs e" "\<forall>x \<in> set (butlast (s # map Next xs)). read_slot t x = read_slot m x" "\<forall>x \<in> set xs. pprev t x = pprev m x"
    and "read_slot t (last_slot s xs) = v"
  shows "chain t s xs v"
  using assms by (induction xs arbitrary: s) (auto split: if_splits)

definition hchains :: "hlist_mem \<Rightarrow> lists \<Rightarrow> bool" where
  "hchains m L \<longleftrightarrow> (\<forall>h xs. L h = Some xs \<longrightarrow> chain m (First h) xs None \<and> distinct xs) \<and>
     (\<forall>h k xs ys. h \<noteq> k \<longrightarrow> L h = Some xs \<longrightarrow> L k = Some ys \<longrightarrow> set xs \<inter> set ys = {})"

definition hlist_free :: "nat \<Rightarrow> lists \<Rightarrow> bool" where
  "hlist_free n L \<longleftrightarrow> (\<forall>h. \<not> in_list L h n)"

lemma hchains_cong:
  assumes "hchains m L" "L k = Some old"
    and "\<And>h x. h \<noteq> k \<Longrightarrow> in_list L h x \<Longrightarrow> hnext t x = hnext m x \<and> pprev t x = pprev m x"
    and "\<And>h. h \<noteq> k \<Longrightarrow> first t h = first m h"
    and "chain t (First k) xs None" "distinct xs" and "\<And>h x. h \<noteq> k \<Longrightarrow> x \<in> set xs \<Longrightarrow> \<not> in_list L h x"
  shows "hchains t (L(k \<mapsto> xs))"
proof -
  have "chain t (First h) ys None \<and> distinct ys" if h: "(L(k \<mapsto> xs)) h = Some ys" for h ys
  proof (cases "h = k")
    case False
    then have "L h = Some ys" using h by simp
    moreover from this False have "chain t (First h) ys None = chain m (First h) ys None"
      using assms(3) [OF False] assms(4) [OF False] by (intro chain_cong) (auto simp: in_list_def)
    ultimately show ?thesis using assms(1) by (simp add: hchains_def)
  qed (use h assms(5,6) in auto)
  moreover have "set ys \<inter> set zs = {}" if "h \<noteq> j" "(L(k \<mapsto> xs)) h = Some ys" "(L(k \<mapsto> xs)) j = Some zs" for h j ys zs
    using that assms(1) assms(7) [of h] assms(7) [of j] by (auto simp: hchains_def in_list_def split: if_splits)
  ultimately show ?thesis unfolding hchains_def by blast
qed

lemma hchains_list:
  assumes "hchains m L" "L h = Some xs"
  shows "chain m (First h) xs None" "distinct xs" "in_list L k x \<Longrightarrow> k \<noteq> h \<Longrightarrow> x \<notin> set xs" "in_list L h x \<longleftrightarrow> x \<in> set xs"
  using assms unfolding hchains_def in_list_def by (blast, blast, blast, simp)

text \<open>
  A node behind \<open>ys\<close>: the memory after an insertion, whatever function did it, and after a deletion.
\<close>

definition inserted :: "nat \<Rightarrow> hslot \<Rightarrow> ptr \<Rightarrow> hlist_mem \<Rightarrow> hlist_mem" where
  "inserted n s e m = the (write_slot (Some s) (Some n) (set_pprev_if e (Some (Next n)) (set_pprev n (Some s) (set_hnext n e m))))"

definition unlinked :: "nat \<Rightarrow> hslot \<Rightarrow> ptr \<Rightarrow> hlist_mem \<Rightarrow> hlist_mem" where
  "unlinked n s e m = set_pprev n None (set_hnext n None (set_pprev_if e (Some s) (the (write_slot (Some s) e m))))"

lemma write_slot_fields:
  "read_slot (the (write_slot (Some s) v m)) x = (if x = s then v else read_slot m x)" "pprev (the (write_slot (Some s) v m)) = pprev m"
  "hnext (the (write_slot (Some s) v m)) a = (if s = Next a then v else hnext m a)"
  "first (the (write_slot (Some s) v m)) a = (if s = First a then v else first m a)"
  by (cases s; cases x; simp)+

lemma set_fields [simp]:
  "pprev (set_pprev_if e v m) a = (if e = Some a then v else pprev m a)" "hnext (set_pprev_if e v m) = hnext m"
  "first (set_pprev_if e v m) = first m" "pprev (set_pprev n v m) = (pprev m)(n := v)" "hnext (set_pprev n v m) = hnext m"
  "first (set_pprev n v m) = first m" "pprev (set_hnext n p m) = pprev m" "hnext (set_hnext n p m) = (hnext m)(n := p)"
  "first (set_hnext n p m) = first m"
  by (auto simp: set_pprev_if_def set_pprev_def set_hnext_def split: option.split)

lemma read_set [simp]:
  "read_slot (set_pprev_if e v m) x = read_slot m x" "read_slot (set_pprev n v m) x = read_slot m x"
  "read_slot (set_hnext n p m) x = (if x = Next n then p else read_slot m x)"
  by (cases x; simp)+

lemma butlast_slots: "x \<in> set (butlast (s # map Next xs)) \<Longrightarrow> distinct xs \<Longrightarrow> \<forall>y \<in> set xs. s \<noteq> Next y \<Longrightarrow> x \<noteq> last_slot s xs"
  by (induction xs arbitrary: s) (auto split: if_splits simp: last_slot_eq)

lemma slot_in: "x \<in> set (butlast (s # map Next xs)) \<Longrightarrow> x = s \<or> (\<exists>y \<in> set xs. x = Next y)"
  using in_set_butlastD [of x "s # map Next xs"] by auto

lemma last_slot_in: "last_slot s xs = s \<or> (\<exists>y \<in> set xs. last_slot s xs = Next y)"
  by (simp add: last_slot_eq)

lemma chain_inserted:
  assumes c: "chain m (First h) (ys @ zs) None" "distinct (ys @ zs)" "n \<notin> set (ys @ zs)"
  defines "t \<equiv> inserted n (last_slot (First h) ys) (read_slot m (last_slot (First h) ys)) m"
  shows "chain t (First h) (ys @ n # zs) None" "x \<notin> set (n # ys @ zs) \<Longrightarrow> hnext t x = hnext m x \<and> pprev t x = pprev m x"
    "k \<noteq> h \<Longrightarrow> first t k = first m k"
proof -
  let ?s = "last_slot (First h) ys"
  note f = write_slot_fields t_def inserted_def
  have l: "?s \<noteq> Next x" if "x \<notin> set ys" for x using last_slot_in [of "First h" ys] that by auto
  have sl: "hnext t x = hnext m x" if "x \<notin> set ys" "x \<noteq> n" for x using l [OF that(1)] that(2) by (simp add: f)
  have l': "?s \<noteq> First k" if "k \<noteq> h" for k using last_slot_in [of "First h" ys] that by auto
  have e: "read_slot m ?s = (case zs of [] \<Rightarrow> None | z # _ \<Rightarrow> Some z)" "chain m (First h) ys (read_slot m ?s)"
    using c(1) chain_end [of m "First h" ys] by (cases zs; auto simp: chain_append)+
  have "chain t (First h) ys (Some n)"
  proof (rule chain_new_end [OF e(2)])
    show "\<forall>x \<in> set (butlast (First h # map Next ys)). read_slot t x = read_slot m x"
      using butlast_slots [of _ "First h" ys] slot_in [of _ "First h" ys] c(2,3) by (fastforce simp: f)
    show "\<forall>x \<in> set ys. pprev t x = pprev m x" using c(2,3) by (cases zs) (auto simp: f e)
  qed (simp add: f)
  moreover have "chain t (Next n) zs None"
  proof (cases zs)
    case (Cons z zs')
    then have z: "chain m (Next z) zs' None" using c(1) by (simp add: chain_append)
    moreover have "chain t (Next z) zs' None = chain m (Next z) zs' None"
    proof (rule chain_cong)
      show "\<forall>x \<in> set (Next z # map Next zs'). read_slot t x = read_slot m x" using sl c Cons by auto
      show "\<forall>x \<in> set zs'. pprev t x = pprev m x" using c Cons by (auto simp: f e)
    qed
    ultimately show ?thesis using Cons l c by (auto simp: f e)
  qed (use l c in \<open>auto simp: f e\<close>)
  moreover have "pprev t n = Some ?s" using c by (cases zs) (auto simp: f e)
  ultimately show "chain t (First h) (ys @ n # zs) None" by (simp add: chain_append)
  show "x \<notin> set (n # ys @ zs) \<Longrightarrow> hnext t x = hnext m x \<and> pprev t x = pprev m x" using l by (cases zs) (auto simp: f e)
  show "k \<noteq> h \<Longrightarrow> first t k = first m k" using l' by (simp add: f)
qed

lemma chain_unlinked:
  assumes c: "chain m (First h) (ys @ n # zs) None" "distinct (ys @ n # zs)"
  defines "t \<equiv> unlinked n (last_slot (First h) ys) (hnext m n) m"
  shows "chain t (First h) (ys @ zs) None" "x \<notin> set (ys @ n # zs) \<Longrightarrow> hnext t x = hnext m x \<and> pprev t x = pprev m x"
    "k \<noteq> h \<Longrightarrow> first t k = first m k" "hlist_del n m = Some t"
proof -
  let ?s = "last_slot (First h) ys"
  note f = write_slot_fields t_def unlinked_def
  have l: "?s \<noteq> Next x" if "x \<notin> set ys" for x using last_slot_in [of "First h" ys] that by auto
  have sl: "hnext t x = hnext m x" if "x \<notin> set ys" "x \<noteq> n" for x using l [OF that(1)] that(2) by (simp add: f)
  have l': "?s \<noteq> First k" if "k \<noteq> h" for k using last_slot_in [of "First h" ys] that by auto
  have e: "hnext m n = (case zs of [] \<Rightarrow> None | z # _ \<Rightarrow> Some z)" "chain m (First h) ys (Some n)" "pprev m n = Some ?s"
    using c(1) by (cases zs; auto simp: chain_append)+
  have ys: "chain t (First h) ys (hnext m n)"
  proof (rule chain_new_end [OF e(2)])
    show "\<forall>x \<in> set (butlast (First h # map Next ys)). read_slot t x = read_slot m x"
      using butlast_slots [of _ "First h" ys] slot_in [of _ "First h" ys] c(2) by (fastforce simp: f)
    show "\<forall>x \<in> set ys. pprev t x = pprev m x" using c(2) by (cases zs) (auto simp: f e)
    show "read_slot t ?s = hnext m n" using l c(2) by (simp add: f)
  qed
  show "chain t (First h) (ys @ zs) None"
  proof (cases zs)
    case (Cons z zs')
    then have z: "chain m (Next z) zs' None" using c(1) by (simp add: chain_append)
    moreover have "chain t (Next z) zs' None = chain m (Next z) zs' None"
    proof (rule chain_cong)
      show "\<forall>x \<in> set (Next z # map Next zs'). read_slot t x = read_slot m x" using sl c Cons by auto
      show "\<forall>x \<in> set zs'. pprev t x = pprev m x" using c Cons by (auto simp: f e)
    qed
    ultimately show ?thesis using Cons c ys by (simp add: chain_append f e)
  qed (use ys e in simp)
  show "x \<notin> set (ys @ n # zs) \<Longrightarrow> hnext t x = hnext m x \<and> pprev t x = pprev m x" using l by (cases zs) (auto simp: f e)
  show "k \<noteq> h \<Longrightarrow> first t k = first m k" using l' by (simp add: f)
  obtain u where u: "write_slot (Some ?s) (hnext m n) m = Some u" by (cases ?s) auto
  have "hnext u n = hnext m n" "pprev u n = Some ?s"
    using write_slot_fields(2,3) [of ?s "hnext m n" m] e(3) by (simp_all add: u)
  then show "hlist_del n m = Some t" by (simp add: hlist_del_def hlist_unlink_def e(3) u t_def unlinked_def)
qed

lemma hchains_inserted:
  assumes "hchains m L" "L h = Some (ys @ zs)" "hlist_free n L"
  shows "hchains (inserted n (last_slot (First h) ys) (read_slot m (last_slot (First h) ys)) m) (L(h \<mapsto> ys @ n # zs))"
proof -
  note r = hchains_list [OF assms(1,2)]
  have n: "n \<notin> set (ys @ zs)" "\<not> in_list L k n" for k using assms(3) r(4) [of n] by (simp_all add: hlist_free_def)
  note t = chain_inserted [OF r(1,2) n(1)]
  show ?thesis
  proof (rule hchains_cong [OF assms(1,2) _ _ t(1)])
    show "hnext (inserted n (last_slot (First h) ys) (read_slot m (last_slot (First h) ys)) m) x = hnext m x \<and>
        pprev (inserted n (last_slot (First h) ys) (read_slot m (last_slot (First h) ys)) m) x = pprev m x"
      if "k \<noteq> h" "in_list L k x" for k x
      using t(2) [of x] r(3) [of k x] n(2) [of k] that by (cases "x = n") auto
    show "distinct (ys @ n # zs)" using r(2) n(1) by auto
    show "\<not> in_list L k x" if "k \<noteq> h" "x \<in> set (ys @ n # zs)" for k x using r(3) [of k x] n that by auto
  qed (rule t(3))
qed

lemma hlist_inserts:
  assumes "hchains m L" "L h = Some (ys @ zs)" "hlist_free n L"
  shows "ys = [] \<Longrightarrow> hlist_add_head n h m = Some (inserted n (last_slot (First h) ys) (read_slot m (last_slot (First h) ys)) m)"
    "zs = x # zs' \<Longrightarrow> hlist_add_before n x m = Some (inserted n (last_slot (First h) ys) (read_slot m (last_slot (First h) ys)) m)"
    "ys = ys' @ [x] \<Longrightarrow> hlist_add_after x n m = inserted n (last_slot (First h) ys) (read_slot m (last_slot (First h) ys)) m"
proof -
  note r = hchains_list [OF assms(1,2)]
  have n: "n \<notin> set (ys @ zs)" using assms(3) r(4) [of n] by (simp add: hlist_free_def)
  show "ys = [] \<Longrightarrow> hlist_add_head n h m = Some (inserted n (last_slot (First h) ys) (read_slot m (last_slot (First h) ys)) m)"
    by (simp add: hlist_add_head_def inserted_def Let_def)
  show "hlist_add_before n x m = Some (inserted n (last_slot (First h) ys) (read_slot m (last_slot (First h) ys)) m)" if "zs = x # zs'"
  proof -
    have x: "pprev m x = Some (last_slot (First h) ys)" "read_slot m (last_slot (First h) ys) = Some x" "x \<noteq> n"
      using r(1) n that chain_end [of m "First h" ys] by (auto simp: chain_append)
    then show ?thesis
      by (cases "last_slot (First h) ys") (simp_all add: hlist_add_before_def inserted_def Let_def set_pprev_if_def set_pprev_def set_hnext_def)
  qed
  show "hlist_add_after x n m = inserted n (last_slot (First h) ys) (read_slot m (last_slot (First h) ys)) m" if "ys = ys' @ [x]"
  proof -
    have "x \<noteq> n" "last_slot (First h) ys = Next x" using n that by (auto simp: last_slot_eq)
    then show ?thesis by (simp add: hlist_add_after_def inserted_def Let_def set_hnext_def)
  qed
qed

lemma hlist_walk_chain: "chain m s xs None \<Longrightarrow> hlist_walk m (read_slot m s) = Some xs"
proof (induction xs arbitrary: s)
  case (Cons x xs)
  then have "hlist_walk m (hnext m x) = Some xs" using Cons.IH [of "Next x"] by simp
  then show ?case using Cons.prems by (subst hlist_walk.simps) simp
qed (simp add: hlist_walk.simps)

interpretation hchain: list_store hlist_add_head hlist_del hlist_for_each hchains hlist_free
proof
  fix m :: hlist_mem and L :: lists and n h :: nat
  assume r: "hchains m L" "hlist_free n L" "h \<in> dom L"
  then obtain xs where xs: "L h = Some ([] @ xs)" by auto
  show "\<exists>t. hlist_add_head n h m = Some t \<and> hchains t (list_spec (Add n h) L)"
    using hlist_inserts(1) [OF r(1) xs r(2) refl] hchains_inserted [OF r(1) xs r(2)] xs by simp
next
  fix m :: hlist_mem and L :: lists and n h :: nat
  assume r: "hchains m L" "in_list L h n"
  then obtain ys zs where xs: "L h = Some (ys @ n # zs)" by (auto simp: in_list_def dest: split_list)
  note l = hchains_list [OF r(1) xs]
  have "\<forall>ys. L k = Some ys \<longrightarrow> n \<notin> set ys" if "k \<noteq> h" for k using l(3) [of k n] that by (auto simp: in_list_def)
  then have s: "list_spec (Del n) L = L(h \<mapsto> remove1 n (ys @ n # zs))" using xs by (rule remove_elsewhere)
  note t = chain_unlinked [OF l(1,2)]
  have "hchains (unlinked n (last_slot (First h) ys) (hnext m n) m) (L(h \<mapsto> ys @ zs))"
    by (rule hchains_cong [OF r(1) xs _ _ t(1)]) (use t(2,3) l(2,3) in auto)
  then show "\<exists>t. hlist_del n m = Some t \<and> hchains t (list_spec (Del n) L)"
    using t(4) l(2) unfolding s by (auto simp: remove1_append)
next
  show "hchains m L \<Longrightarrow> L h = Some xs \<Longrightarrow> hlist_for_each m h = Some xs" for m L h xs
    using hlist_walk_chain [of m "First h" xs] by (simp add: hlist_for_each_def hchains_def)
qed

section \<open>The properties\<close>

text \<open>
  C14: the doubly linked lists of \<^verbatim>\<open>list.h\<close> implement lists. From a memory whose lists are rings, every legal sequence of
  \<^verbatim>\<open>list_add\<close> and \<^verbatim>\<open>list_del\<close> runs without a NULL dereference, and afterwards a list is walked forwards in the order of the
  specification, backwards in the reverse order, and found empty exactly when it is. Nodes appended with \<^verbatim>\<open>list_add_tail\<close>
  come last, in order. A walk with \<^verbatim>\<open>list_for_each_entry_safe\<close> may delete the entries it visits: it ends, and keeps exactly the
  others.
\<close>

theorem list_head_refines:
  assumes "rings m L" "list_legal ring_free ops L" "fold list_spec ops L h = Some xs"
    and "distinct ns" "\<forall>n \<in> set ns. ring_free n (fold list_spec ops L)"
  shows "\<exists>t u v. list_run list_add list_del ops m = Some t \<and> list_for_each t h = Some xs \<and> list_for_each_reverse t h = Some (rev xs) \<and>
    (list_empty h t \<longleftrightarrow> xs = []) \<and>
    append_all list_add_tail h ns t = Some u \<and> list_for_each u h = Some (xs @ ns) \<and>
    list_for_each_safe (\<lambda>n m. if P n then list_del n m else Some m) h t = Some v \<and> list_for_each v h = Some (filter (\<lambda>n. \<not> P n) xs)"
proof -
  obtain t where t: "list_run list_add list_del ops m = Some t" "rings t (fold list_spec ops L)"
    using ring.run_refines [OF assms(1,2)] by blast
  then show ?thesis
    using rings_walk [OF t(2) assms(3)] list_empty_iff [OF t(2) assms(3)] ring.queue_order [OF t(2) assms(3-5)]
      list_for_each_safe_filter [OF t(2) assms(3), of P] rings_walk(1) [where h = h and L = "f(h \<mapsto> ys)" and xs = ys for f ys]
    by (simp, metis)
qed

text \<open>Two lists with the heads 0 and 1.\<close>

definition two_rings :: list_mem where
  "two_rings = list_init 1 (list_init 0 \<lparr>prev_of = \<lambda>_. None, next_of = \<lambda>_. None\<rparr>)"

theorem list_head_refines_witness:
  "\<exists>t u v. list_run list_add list_del [Add 5 0, Add 6 1, Add 7 0, Del 5, Add 5 1] two_rings = Some t \<and> list_for_each t 1 = Some [5, 6] \<and>
    list_for_each_reverse t 1 = Some [6, 5] \<and> append_all list_add_tail 1 [8, 9] t = Some u \<and> list_for_each u 1 = Some [5, 6, 8, 9] \<and>
    list_for_each_safe (\<lambda>n m. if n = 5 then list_del n m else Some m) 1 t = Some v \<and> list_for_each v 1 = Some [6]"
proof -
  let ?L = "[0 \<mapsto> [], 1 \<mapsto> []] :: lists" and ?ops = "[Add 5 0, Add 6 1, Add 7 0, Del 5, Add 5 1]"
  have 1: "rings two_rings ?L" by (auto simp: rings_def two_rings_def list_init_def nodes_of_def split: if_splits)
  have 2: "list_legal ring_free ?ops ?L" by (auto simp: ring_free_def nodes_of_def in_list_def)
  have L: "fold list_spec ?ops ?L = [0 \<mapsto> [7], 1 \<mapsto> [5, 6]]" by (rule ext) simp
  have 3: "\<forall>n \<in> set [8, 9]. ring_free n (fold list_spec ?ops ?L)" unfolding L by (auto simp: ring_free_def nodes_of_def)
  have 4: "fold list_spec ?ops ?L 1 = Some [5, 6]" unfolding L by simp
  show ?thesis using list_head_refines [OF 1 2 4 _ 3, of "\<lambda>n. n = 5"] by auto
qed

text \<open>
  C15: the hash chains of \<^verbatim>\<open>list.h\<close> implement lists. Every legal sequence of \<^verbatim>\<open>hlist_add_head\<close> and \<^verbatim>\<open>hlist_del\<close> runs without a
  NULL dereference, whatever the place of the deleted nodes, and a chain is then walked in the order of the specification;
  \<^verbatim>\<open>hlist_add_before\<close> and \<^verbatim>\<open>hlist_add_after\<close> put a node next to one that is in the chain.
\<close>

theorem hlist_refines:
  assumes "hchains m L" "list_legal hlist_free ops L" "fold list_spec ops L h = Some (ys @ x # zs)" "hlist_free n (fold list_spec ops L)"
  shows "\<exists>t u. list_run hlist_add_head hlist_del ops m = Some t \<and> hlist_for_each t h = Some (ys @ x # zs) \<and> \<not> hlist_empty h t \<and>
    hlist_add_before n x t = Some u \<and> hlist_for_each u h = Some (ys @ n # x # zs) \<and>
    hlist_for_each (hlist_add_after x n t) h = Some (ys @ x # n # zs)"
proof -
  let ?L = "fold list_spec ops L"
  obtain t where t: "list_run hlist_add_head hlist_del ops m = Some t" "hchains t ?L"
    using hchain.run_refines [OF assms(1,2)] by blast
  have a: "?L h = Some ((ys @ [x]) @ zs)" using assms(3) by simp
  have "\<not> hlist_empty h t" using hchains_list(1) [OF t(2) assms(3)] by (cases ys) (simp_all add: hlist_empty_def)
  moreover have "hlist_for_each (hlist_add_after x n t) h = Some ((ys @ [x]) @ n # zs)"
    using hlist_inserts(3) [OF t(2) a assms(4) refl] hchain.walk_all [OF hchains_inserted [OF t(2) a assms(4)] fun_upd_same] by simp
  ultimately show ?thesis
    using t hlist_inserts(2) [OF t(2) assms(3,4) refl] hchain.walk_all [OF hchains_inserted [OF t(2) assms(3,4)] fun_upd_same]
      hchain.walk_all [OF t(2) assms(3)] by simp
qed

theorem hlist_refines_witness:
  "\<exists>t u. list_run hlist_add_head hlist_del [Add 5 0, Add 6 0, Add 7 0, Del 6] (hlist_head_init 0 \<lparr>first = \<lambda>_. None, hnext = \<lambda>_. None, pprev = \<lambda>_. None\<rparr>) =
      Some t \<and> hlist_for_each t 0 = Some [7, 5] \<and>
    hlist_add_before 8 5 t = Some u \<and> hlist_for_each u 0 = Some [7, 8, 5] \<and> hlist_for_each (hlist_add_after 5 8 t) 0 = Some [7, 5, 8]"
proof -
  let ?L = "[0 \<mapsto> []] :: lists" and ?ops = "[Add 5 0, Add 6 0, Add 7 0, Del 6]"
    and ?m = "hlist_head_init 0 \<lparr>first = \<lambda>_. None, hnext = \<lambda>_. None, pprev = \<lambda>_. None\<rparr>"
  have 1: "hchains ?m ?L" by (auto simp: hchains_def hlist_head_init_def split: if_splits)
  have 2: "list_legal hlist_free ?ops ?L" by (auto simp: hlist_free_def in_list_def)
  have L: "fold list_spec ?ops ?L = [0 \<mapsto> [7, 5]]" by (rule ext) simp
  have 3: "fold list_spec ?ops ?L 0 = Some ([7] @ 5 # [])" unfolding L by simp
  have 4: "hlist_free 8 (fold list_spec ?ops ?L)" unfolding L by (auto simp: hlist_free_def in_list_def)
  show ?thesis using hlist_refines [OF 1 2 3 4] by auto
qed

end
