(* ===== verification/Endian.thy ===== *)
theory Endian
  imports Prelude
begin

text \<open>
  Byte order conversion on the little-endian host, \<^verbatim>\<open>_htons\<close> and \<^verbatim>\<open>_htonl\<close> of
  \<^verbatim>\<open>src/include/netif.h\<close>. The source uses the same function for both directions
  (\<^verbatim>\<open>_ntohs\<close> and \<^verbatim>\<open>_ntohl\<close> are macros for them).
\<close>

definition htons :: "u16 \<Rightarrow> u16" where
  "htons host = drop_bit 8 host OR (push_bit 8 host AND 0xff00)"

definition htonl :: "u32 \<Rightarrow> u32" where
  "htonl host =
     push_bit 24 (host AND 0x000000ff) OR
     push_bit 8 (host AND 0x0000ff00) OR
     drop_bit 8 (host AND 0x00ff0000) OR
     drop_bit 24 (host AND 0xff000000)"

abbreviation (input) ntohs :: "u16 \<Rightarrow> u16" where
  "ntohs \<equiv> htons"

abbreviation (input) ntohl :: "u32 \<Rightarrow> u32" where
  "ntohl \<equiv> htonl"

lemma mask_bytes:
  "(0xff00 :: u16) = push_bit 8 (mask 8)"
  "(0x000000ff :: u32) = mask 8"
  "(0x0000ff00 :: u32) = push_bit 8 (mask 8)"
  "(0x00ff0000 :: u32) = push_bit 16 (mask 8)"
  "(0xff000000 :: u32) = push_bit 24 (mask 8)"
  by (simp_all add: mask_eq_exp_minus_1 push_bit_eq_mult)

lemma bit_mk16: "n < 16 \<Longrightarrow> bit (mk16 lo hi) n = (if n < 8 then bit lo n else bit hi (n - 8))"
  by (simp add: mk16_def bit_simps) (auto dest: bit_imp_le_length)

lemma bit_mk32: "n < 32 \<Longrightarrow> bit (mk32 lo hi) n = (if n < 16 then bit lo n else bit hi (n - 16))"
  by (simp add: mk32_def bit_simps) (auto dest: bit_imp_le_length)

lemma bit_htons: "n < 16 \<Longrightarrow> bit (htons v) n = bit v (if n < 8 then n + 8 else n - 8)"
  unfolding htons_def mask_bytes
  by (simp add: bit_simps) (auto simp: add.commute dest: bit_imp_le_length)

lemma bit_htonl:
  "n < 32 \<Longrightarrow> bit (htonl v) n =
     bit v (if n < 8 then n + 24 else if n < 16 then n + 8 else if n < 24 then n - 8 else n - 24)"
  unfolding htonl_def mask_bytes
  by (simp add: bit_simps) (auto simp: add.commute)

lemma htons_mk16 [simp]: "htons (mk16 a b) = mk16 b a"
  by (rule bit_word_eqI) (auto simp: bit_htons bit_mk16)

lemma htons_htons [simp]: "htons (htons v) = v"
  by (metis htons_mk16 mk16_lo8_hi8)

lemma htons_0 [simp]: "htons 0 = 0"
  by (simp add: htons_def)

lemma htons_eq_iff [simp]: "htons a = htons b \<longleftrightarrow> a = b"
  by (metis htons_htons)

lemma htons_eq_0_iff [simp]: "htons a = 0 \<longleftrightarrow> a = 0"
  by (metis htons_0 htons_htons)

lemma lo8_htons [simp]: "lo8 (htons v) = hi8 v"
  by (metis htons_mk16 lo8_mk16 mk16_lo8_hi8)

lemma hi8_htons [simp]: "hi8 (htons v) = lo8 v"
  by (metis htons_mk16 hi8_mk16 mk16_lo8_hi8)

lemma htonl_mk32 [simp]: "htonl (mk32 lo hi) = mk32 (htons hi) (htons lo)"
  by (rule bit_word_eqI) (auto simp: bit_htonl bit_htons bit_mk32 add.commute)

lemma htonl_htonl [simp]: "htonl (htonl v) = v"
  by (metis htonl_mk32 htons_htons mk32_lo16_hi16)

lemma htonl_eq_iff [simp]: "htonl a = htonl b \<longleftrightarrow> a = b"
  by (metis htonl_htonl)

lemma htonl_0 [simp]: "htonl 0 = 0"
  by (simp add: htonl_def)

lemma lo16_htonl [simp]: "lo16 (htonl v) = htons (hi16 v)"
  by (metis htonl_mk32 lo16_mk32 mk32_lo16_hi16)

lemma hi16_htonl [simp]: "hi16 (htonl v) = htons (lo16 v)"
  by (metis htonl_mk32 hi16_mk32 mk32_lo16_hi16)

section \<open>Properties\<close>

text \<open>
  Network order: a header field that is filled with \<open>_htonl(v)\<close> (\<open>_htons(v)\<close> for the short
  ones) holds the bytes of \<open>v\<close> most significant first, and reading the field back with the same
  function gives \<open>v\<close>.
\<close>

theorem htonl_is_network_order:
  assumes "i + 3 < length bs"
  shows "map (rd8 (wr32 i (htonl v) bs)) [i, i + 1, i + 2, i + 3] =
      [hi8 (hi16 v), lo8 (hi16 v), hi8 (lo16 v), lo8 (lo16 v)] \<and>
    ntohl (rd32 (wr32 i (htonl v) bs) i) = v \<and>
    map (rd8 (wr16 i (htons w) bs)) [i, i + 1] = [hi8 w, lo8 w] \<and>
    ntohs (rd16 (wr16 i (htons w) bs) i) = w"
proof -
  have "map (rd8 (wr32 i (htonl v) bs)) [i, i + 1, i + 2, i + 3] =
      [hi8 (hi16 v), lo8 (hi16 v), hi8 (lo16 v), lo8 (lo16 v)]"
    using assms by (simp add: wr32_def rd8_wr16)
  then show ?thesis using assms by (simp add: rd8_wr16)
qed

theorem htonl_is_network_order_witness:
  "map (rd8 (wr32 0 (htonl 0x0a000001) [0, 0, 0, 0])) [0, 0 + 1, 0 + 2, 0 + 3] =
     [hi8 (hi16 0x0a000001), lo8 (hi16 0x0a000001), hi8 (lo16 0x0a000001), lo8 (lo16 0x0a000001)]"
  using htonl_is_network_order [of 0 "[0, 0, 0, 0]" "0x0a000001"] by (auto simp del: add_0)

end
