(* ===== verification/Lib.thy ===== *)
theory Lib
  imports Endian
begin

text \<open>
  The text forms of addresses: \<^verbatim>\<open>str2ip\<close>, \<^verbatim>\<open>parse_ip_mask\<close> and \<^verbatim>\<open>parse_ip_port\<close> of \<^verbatim>\<open>src/lib/lib.c\<close> and
  \<^verbatim>\<open>ipnfmt\<close> of \<^verbatim>\<open>src/arp/arp_cache.c\<close>, over the parts of \<^verbatim>\<open>sscanf\<close>, \<^verbatim>\<open>atoi\<close> and \<^verbatim>\<open>snprintf\<close> they use. The
  conversion \<^verbatim>\<open>%u\<close> skips white space, takes an optional sign and at least one digit, converts with
  \<^verbatim>\<open>strtoul\<close> (64 bits, the largest value on overflow) and stores the low 32 bits. Strings are character
  lists without the terminating zero.
\<close>

section \<open>The C library functions\<close>

definition isdigit :: "char \<Rightarrow> bool" where
  "isdigit c \<longleftrightarrow> c \<in> set ''0123456789''"

definition isspace :: "char \<Rightarrow> bool" where
  "isspace c \<longleftrightarrow> c \<in> {CHR '' '', CHR 0x09, CHR 0x0A, CHR 0x0B, CHR 0x0C, CHR 0x0D}"

definition digit :: "char \<Rightarrow> nat" where
  "digit c = (if isdigit c then nat (of_char c - (48 :: int)) else 0)"

definition dec_value :: "string \<Rightarrow> nat" where
  "dec_value ds = fold (\<lambda>c n. 10 * n + digit c) ds 0"

text \<open>The optional sign, the digits and the rest of a number.\<close>

definition sign_split :: "string \<Rightarrow> bool \<times> string" where
  "sign_split s =
     (case s of
        [] \<Rightarrow> (False, [])
      | c # cs \<Rightarrow> if c = CHR ''-'' then (True, cs) else if c = CHR ''+'' then (False, cs) else (False, c # cs))"

definition scan_u :: "string \<Rightarrow> (u32 \<times> string) option" where
  "scan_u s =
     (let (neg, s) = sign_split (dropWhile isspace s);
          ds = takeWhile isdigit s;
          n = dec_value ds
      in if ds = [] then None
         else Some (of_int (if n > 2 ^ 64 - 1 then 2 ^ 64 - 1 else if neg then - int n else int n),
           dropWhile isdigit s))"

text \<open>A format of \<open>%u\<close> fields separated by single characters: the values stored before a mismatch.\<close>

fun sscanf_u :: "string \<Rightarrow> string \<Rightarrow> u32 list" where
  "sscanf_u [] s = (case scan_u s of None \<Rightarrow> [] | Some (n, s) \<Rightarrow> [n])"
| "sscanf_u (sep # seps) s =
     (case scan_u s of
        None \<Rightarrow> []
      | Some (n, s) \<Rightarrow> n # (case s of [] \<Rightarrow> [] | c # s \<Rightarrow> if c = sep then sscanf_u seps s else []))"

definition atoi :: "string \<Rightarrow> u32" where
  "atoi s =
     (let (neg, s) = sign_split (dropWhile isspace s);
          n = int (dec_value (takeWhile isdigit s))
      in of_int (if neg then max (- (2 ^ 63)) (- n) else min (2 ^ 63 - 1) n))"

fun dec :: "nat \<Rightarrow> string" where
  "dec n = (if n < 10 then [''0123456789'' ! n] else dec (n div 10) @ [''0123456789'' ! (n mod 10)])"

declare dec.simps [simp del]

section \<open>The functions of the program\<close>

definition mk_ip :: "u32 \<Rightarrow> u32 \<Rightarrow> u32 \<Rightarrow> u32 \<Rightarrow> u32" where
  "mk_ip a b c d = a OR push_bit 8 b OR push_bit 16 c OR push_bit 24 d"

definition str2ip :: "string \<Rightarrow> u32 option" where
  "str2ip str =
     (case sscanf_u ''...'' str of
        [a, b, c, d] \<Rightarrow> if a > 255 \<or> b > 255 \<or> c > 255 \<or> d > 255 then None else Some (mk_ip a b c d)
      | _ \<Rightarrow> None)"

text \<open>
  The shift \<^verbatim>\<open>1 << (32-m)\<close> is undefined for a mask of length 0; \<open>ub\<close> is the value it has there.
\<close>

definition parse_ip_mask :: "u32 \<Rightarrow> string \<Rightarrow> (u32 \<times> u32) option" where
  "parse_ip_mask ub str =
     (case sscanf_u ''.../'' str of
        [a, b, c, d, m] \<Rightarrow>
          if a > 255 \<or> b > 255 \<or> c > 255 \<or> d > 255 \<or> m > 32 then None
          else Some (mk_ip a b c d, htonl (NOT ((if m = 0 then ub else push_bit (32 - unat m) 1) - 1)))
      | _ \<Rightarrow> None)"

text \<open>The port is \<open>None\<close> where the function leaves the caller's variable as it is.\<close>

definition parse_ip_port :: "string \<Rightarrow> (u32 \<times> u16 option) option" where
  "parse_ip_port str =
     (let colon = CHR 0x3A \<in> set str;
          host = takeWhile (\<lambda>c. c \<noteq> CHR 0x3A) str;
          port = (if colon then Some (htons (ucast (atoi (tl (dropWhile (\<lambda>c. c \<noteq> CHR 0x3A) str))))) else None)
      in case str2ip host of None \<Rightarrow> None | Some addr \<Rightarrow> Some (addr, port))"

definition ipnfmt :: "u32 \<Rightarrow> string" where
  "ipnfmt ip =
     dec (unat (ip AND 0xff)) @ ''.'' @ dec (unat (drop_bit 8 ip AND 0xff)) @ ''.'' @
     dec (unat (drop_bit 16 ip AND 0xff)) @ ''.'' @ dec (unat (drop_bit 24 ip AND 0xff))"

section \<open>Numbers\<close>

lemma digit_nth [simp]: "n < 10 \<Longrightarrow> digit (''0123456789'' ! n) = n" "n < 10 \<Longrightarrow> isdigit (''0123456789'' ! n)"
proof -
  assume "n < 10"
  then have "n \<in> {0, 1, 2, 3, 4, 5, 6, 7, 8, 9}" by auto
  then show "digit (''0123456789'' ! n) = n" "isdigit (''0123456789'' ! n)"
    by (auto simp: digit_def isdigit_def)
qed

lemma dec_value_snoc [simp]: "dec_value (ds @ [c]) = 10 * dec_value ds + digit c"
  by (simp add: dec_value_def)

lemma dec_value_dec [simp]: "dec_value (dec n) = n"
proof (induction n rule: dec.induct)
  case (1 n)
  then show ?case
    by (subst dec.simps) (auto simp: dec_value_def [of "[_]"])
qed

lemma dec_digits: "\<forall>c \<in> set (dec n). isdigit c"
proof (induction n rule: dec.induct)
  case (1 n)
  then show ?case by (subst dec.simps) auto
qed

lemma dec_nonempty [simp]: "dec n \<noteq> []"
  by (subst dec.simps) simp

lemma isdigit_plain: "isdigit c \<Longrightarrow> \<not> isspace c \<and> c \<noteq> CHR ''-'' \<and> c \<noteq> CHR ''+''"
  by (auto simp: isdigit_def isspace_def)

lemma scan_u_dec:
  assumes "n < 4294967296" "rest = [] \<or> \<not> isdigit (hd rest)"
  shows "scan_u (dec n @ rest) = Some (of_nat n, rest)"
proof -
  obtain c cs where c: "dec n = c # cs" by (cases "dec n") auto
  have dc: "isdigit c" using dec_digits [of n] c by simp
  have tw: "takeWhile isdigit (dec n @ rest) = dec n" "dropWhile isdigit (dec n @ rest) = rest"
    using dec_digits [of n] assms(2) by (cases rest; auto simp: takeWhile_append dropWhile_append)+
  have "dropWhile isspace (dec n @ rest) = dec n @ rest" "sign_split (dec n @ rest) = (False, dec n @ rest)"
    using isdigit_plain [OF dc] c by (simp_all add: sign_split_def)
  then show ?thesis
    using tw assms(1) by (simp add: scan_u_def)
qed

section \<open>Round trips\<close>

definition octet :: "nat \<Rightarrow> u32 \<Rightarrow> u32" where
  "octet k ip = drop_bit k ip AND 0xff"

lemma octet_bits: "bit (octet k ip) i = (i < 8 \<and> bit ip (k + i))"
proof -
  have "(0xff :: u32) = mask 8" by (simp add: mask_eq_exp_minus_1)
  then have "octet k ip = take_bit 8 (drop_bit k ip)" by (simp only: octet_def take_bit_eq_mask)
  then show ?thesis by (auto simp: bit_simps dest: bit_imp_le_length)
qed

lemma octet_le: "octet k ip \<le> 255"
  unfolding octet_def by (rule word_and_le1)

lemma octet_in_range: "\<not> octet k ip > 255"
  using octet_le [of k ip] by (simp add: not_less)

lemma mk_ip_octets: "mk_ip (octet 0 ip) (octet 8 ip) (octet 16 ip) (octet 24 ip) = ip"
proof (rule bit_word_eqI)
  fix n assume "n < LENGTH(32)"
  then have "n < 32" by simp
  then consider "n < 8" | "8 \<le> n" "n < 16" | "16 \<le> n" "n < 24" | "24 \<le> n" "n < 32" by linarith
  then show "bit (mk_ip (octet 0 ip) (octet 8 ip) (octet 16 ip) (octet 24 ip)) n = bit ip n"
    unfolding mk_ip_def bit_or_iff bit_push_bit_iff octet_bits by cases auto
qed

lemma scan_octet:
  assumes "rest = [] \<or> \<not> isdigit (hd rest)"
  shows "scan_u (dec (unat (octet k ip)) @ rest) = Some (octet k ip, rest)"
proof -
  have "unat (octet k ip) \<le> 255" using octet_le [of k ip] by (simp add: word_le_nat_alt)
  then show ?thesis using scan_u_dec [OF _ assms, of "unat (octet k ip)"] by simp
qed

lemma scan_octet_sep: "\<not> isdigit c \<Longrightarrow> scan_u (dec (unat (octet k ip)) @ c # rest) = Some (octet k ip, c # rest)"
  by (simp add: scan_octet)

lemma ipnfmt_octets:
  "ipnfmt ip = dec (unat (octet 0 ip)) @ ''.'' @ dec (unat (octet 8 ip)) @ ''.'' @
     dec (unat (octet 16 ip)) @ ''.'' @ dec (unat (octet 24 ip))"
  by (simp add: ipnfmt_def octet_def)

lemma not_digit: "\<not> isdigit CHR ''.''" "\<not> isdigit CHR ''/''"
  by (simp_all add: isdigit_def)

lemma sscanf_ipnfmt: "sscanf_u ''...'' (ipnfmt ip) = [octet 0 ip, octet 8 ip, octet 16 ip, octet 24 ip]"
  unfolding ipnfmt_octets using scan_octet [of "[]" 24 ip]
  by (simp add: scan_octet_sep not_digit)

lemma sscanf_ipnfmt_mask:
  assumes "m < 4294967296"
  shows "sscanf_u ''.../'' (ipnfmt ip @ ''/'' @ dec m) =
    [octet 0 ip, octet 8 ip, octet 16 ip, octet 24 ip, of_nat m]"
  unfolding ipnfmt_octets using scan_u_dec [OF assms, of "[]"]
  by (simp add: scan_octet_sep not_digit)

lemma str2ip_ipnfmt: "str2ip (ipnfmt ip) = Some ip"
  unfolding str2ip_def sscanf_ipnfmt by (simp add: octet_in_range mk_ip_octets)



end
