(* ===== verification/Headers.thy ===== *)
theory Headers
  imports Endian
begin

text \<open>
  The packed header structures of \<^verbatim>\<open>src/include/ether.h\<close>, \<^verbatim>\<open>arp.h\<close>, \<^verbatim>\<open>ip.h\<close>, \<^verbatim>\<open>icmp.h\<close>,
  \<^verbatim>\<open>udp.h\<close> and \<^verbatim>\<open>tcp.h\<close> as views of the bytes of a packet buffer (\<open>pk_data\<close>): one load and one
  store per field, at the offset the structure gives it. The ethernet header starts at 0 and the
  IP and ARP headers at 14; the transport headers start at the offset \<open>off\<close>, which the code takes
  from the header length (\<open>ipdata\<close>) or from the structure (\<open>ip_data\<close>, 34). A field holds what the
  C field holds: its bytes read as a little-endian word, whatever byte order the code keeps there.
\<close>

section \<open>struct ether\<close>

abbreviation (input) ETH_HRD_SZ :: nat where "ETH_HRD_SZ \<equiv> 14"
abbreviation (input) ETH_ALEN :: nat where "ETH_ALEN \<equiv> 6"
abbreviation (input) ETH_P_IP :: u16 where "ETH_P_IP \<equiv> 0x0800"
abbreviation (input) ETH_P_ARP :: u16 where "ETH_P_ARP \<equiv> 0x0806"
abbreviation (input) ETH_P_RARP :: u16 where "ETH_P_RARP \<equiv> 0x8035"

definition hwaddr_at :: "nat \<Rightarrow> bytes \<Rightarrow> bytes" where
  "hwaddr_at off d = map (\<lambda>i. rd8 d (off + i)) [0..<6]"

definition hwacpy :: "nat \<Rightarrow> bytes \<Rightarrow> bytes \<Rightarrow> bytes" where
  "hwacpy off src d =
     wr8 (off + 5) (rd8 src 5) (wr8 (off + 4) (rd8 src 4) (wr8 (off + 3) (rd8 src 3)
       (wr8 (off + 2) (rd8 src 2) (wr8 (off + 1) (rd8 src 1) (wr8 off (rd8 src 0) d)))))"

abbreviation (input) eth_dst :: "bytes \<Rightarrow> bytes" where "eth_dst d \<equiv> hwaddr_at 0 d"
abbreviation (input) eth_src :: "bytes \<Rightarrow> bytes" where "eth_src d \<equiv> hwaddr_at 6 d"
abbreviation (input) eth_pro :: "bytes \<Rightarrow> u16" where "eth_pro d \<equiv> rd16 d 12"
abbreviation (input) set_eth_pro :: "u16 \<Rightarrow> bytes \<Rightarrow> bytes" where "set_eth_pro v d \<equiv> wr16 12 v d"

definition is_eth_multicast :: "bytes \<Rightarrow> bool" where
  "is_eth_multicast hwa \<longleftrightarrow> rd8 hwa 0 AND 0x01 \<noteq> 0"

definition is_eth_broadcast :: "bytes \<Rightarrow> bool" where
  "is_eth_broadcast hwa \<longleftrightarrow>
     rd8 hwa 0 AND rd8 hwa 1 AND rd8 hwa 2 AND rd8 hwa 3 AND rd8 hwa 4 AND rd8 hwa 5 = 0xff"

section \<open>struct arp\<close>

abbreviation (input) ARP_HRD_SZ :: nat where "ARP_HRD_SZ \<equiv> 28"
abbreviation (input) arp_hrd :: "bytes \<Rightarrow> u16" where "arp_hrd d \<equiv> rd16 d 14"
abbreviation (input) arp_pro :: "bytes \<Rightarrow> u16" where "arp_pro d \<equiv> rd16 d 16"
abbreviation (input) arp_hrdlen :: "bytes \<Rightarrow> u8" where "arp_hrdlen d \<equiv> rd8 d 18"
abbreviation (input) arp_prolen :: "bytes \<Rightarrow> u8" where "arp_prolen d \<equiv> rd8 d 19"
abbreviation (input) arp_op :: "bytes \<Rightarrow> u16" where "arp_op d \<equiv> rd16 d 20"
abbreviation (input) arp_sha :: "bytes \<Rightarrow> bytes" where "arp_sha d \<equiv> hwaddr_at 22 d"
abbreviation (input) arp_sip :: "bytes \<Rightarrow> u32" where "arp_sip d \<equiv> rd32 d 28"
abbreviation (input) arp_tha :: "bytes \<Rightarrow> bytes" where "arp_tha d \<equiv> hwaddr_at 32 d"
abbreviation (input) arp_tip :: "bytes \<Rightarrow> u32" where "arp_tip d \<equiv> rd32 d 38"

definition arp_hton :: "bytes \<Rightarrow> bytes" where
  "arp_hton d =
     (let d = wr16 14 (htons (arp_hrd d)) d;
          d = wr16 16 (htons (arp_pro d)) d
      in wr16 20 (htons (arp_op d)) d)"

section \<open>struct ip\<close>

abbreviation (input) IP_HRD_SZ :: nat where "IP_HRD_SZ \<equiv> 20"
abbreviation (input) IP_FRAG_DF :: u16 where "IP_FRAG_DF \<equiv> 0x4000"
abbreviation (input) IP_FRAG_MF :: u16 where "IP_FRAG_MF \<equiv> 0x2000"
abbreviation (input) IP_FRAG_OFF :: u16 where "IP_FRAG_OFF \<equiv> 0x1fff"
abbreviation (input) IP_P_ICMP :: u8 where "IP_P_ICMP \<equiv> 1"
abbreviation (input) IP_P_TCP :: u8 where "IP_P_TCP \<equiv> 6"
abbreviation (input) IP_P_UDP :: u8 where "IP_P_UDP \<equiv> 17"

abbreviation (input) ip_verhlen :: "bytes \<Rightarrow> u8" where "ip_verhlen d \<equiv> rd8 d 14"
abbreviation (input) ip_len :: "bytes \<Rightarrow> u16" where "ip_len d \<equiv> rd16 d 16"
abbreviation (input) ip_id :: "bytes \<Rightarrow> u16" where "ip_id d \<equiv> rd16 d 18"
abbreviation (input) ip_fragoff :: "bytes \<Rightarrow> u16" where "ip_fragoff d \<equiv> rd16 d 20"
abbreviation (input) ip_ttl :: "bytes \<Rightarrow> u8" where "ip_ttl d \<equiv> rd8 d 22"
abbreviation (input) ip_pro :: "bytes \<Rightarrow> u8" where "ip_pro d \<equiv> rd8 d 23"
abbreviation (input) ip_cksum :: "bytes \<Rightarrow> u16" where "ip_cksum d \<equiv> rd16 d 24"
abbreviation (input) ip_src :: "bytes \<Rightarrow> u32" where "ip_src d \<equiv> rd32 d 26"
abbreviation (input) ip_dst :: "bytes \<Rightarrow> u32" where "ip_dst d \<equiv> rd32 d 30"
abbreviation (input) set_ip_tos :: "u8 \<Rightarrow> bytes \<Rightarrow> bytes" where "set_ip_tos v d \<equiv> wr8 15 v d"
abbreviation (input) set_ip_len :: "u16 \<Rightarrow> bytes \<Rightarrow> bytes" where "set_ip_len v d \<equiv> wr16 16 v d"
abbreviation (input) set_ip_id :: "u16 \<Rightarrow> bytes \<Rightarrow> bytes" where "set_ip_id v d \<equiv> wr16 18 v d"
abbreviation (input) set_ip_fragoff :: "u16 \<Rightarrow> bytes \<Rightarrow> bytes" where "set_ip_fragoff v d \<equiv> wr16 20 v d"
abbreviation (input) set_ip_ttl :: "u8 \<Rightarrow> bytes \<Rightarrow> bytes" where "set_ip_ttl v d \<equiv> wr8 22 v d"
abbreviation (input) set_ip_pro :: "u8 \<Rightarrow> bytes \<Rightarrow> bytes" where "set_ip_pro v d \<equiv> wr8 23 v d"
abbreviation (input) set_ip_cksum :: "u16 \<Rightarrow> bytes \<Rightarrow> bytes" where "set_ip_cksum v d \<equiv> wr16 24 v d"
abbreviation (input) set_ip_src :: "u32 \<Rightarrow> bytes \<Rightarrow> bytes" where "set_ip_src v d \<equiv> wr32 26 v d"
abbreviation (input) set_ip_dst :: "u32 \<Rightarrow> bytes \<Rightarrow> bytes" where "set_ip_dst v d \<equiv> wr32 30 v d"

text \<open>The first byte holds the two bit fields, the header length in its low half.\<close>

definition ip_hlen :: "bytes \<Rightarrow> u8" where
  "ip_hlen d = ip_verhlen d AND 0x0f"

definition ip_ver :: "bytes \<Rightarrow> u8" where
  "ip_ver d = drop_bit 4 (ip_verhlen d)"

definition set_ip_hlen :: "u8 \<Rightarrow> bytes \<Rightarrow> bytes" where
  "set_ip_hlen v d = wr8 14 ((ip_verhlen d AND 0xf0) OR (v AND 0x0f)) d"

definition set_ip_ver :: "u8 \<Rightarrow> bytes \<Rightarrow> bytes" where
  "set_ip_ver v d = wr8 14 ((ip_verhlen d AND 0x0f) OR push_bit 4 v) d"

text \<open>\<open>iphlen\<close>, \<open>ipdlen\<close> (host order length) and \<open>ipndlen\<close> (network order length) are C ints.\<close>

definition iphlen :: "bytes \<Rightarrow> nat" where
  "iphlen d = 4 * unat (ip_hlen d)"

definition ipdlen :: "bytes \<Rightarrow> int" where
  "ipdlen d = int (unat (ip_len d)) - int (iphlen d)"

definition ipndlen :: "bytes \<Rightarrow> int" where
  "ipndlen d = int (unat (ntohs (ip_len d))) - int (iphlen d)"

definition ipdata :: "bytes \<Rightarrow> nat" where
  "ipdata d = 14 + iphlen d"

definition ipoff :: "bytes \<Rightarrow> nat" where
  "ipoff d = 8 * unat (ip_fragoff d AND IP_FRAG_OFF)"

definition ip_ntoh :: "bytes \<Rightarrow> bytes" where
  "ip_ntoh d =
     (let d = set_ip_len (ntohs (ip_len d)) d;
          d = set_ip_id (ntohs (ip_id d)) d
      in set_ip_fragoff (ntohs (ip_fragoff d)) d)"

definition MULTICAST :: "u32 \<Rightarrow> bool" where
  "MULTICAST netip \<longleftrightarrow> 0x000000f0 AND netip = 0x000000e0"

definition BROADCAST :: "u32 \<Rightarrow> bool" where
  "BROADCAST netip \<longleftrightarrow> 0xff000000 AND netip = 0xff000000 \<or> 0xff000000 AND netip = 0x00000000"

definition equsubnet :: "u32 \<Rightarrow> u32 \<Rightarrow> u32 \<Rightarrow> bool" where
  "equsubnet m ip1 ip2 \<longleftrightarrow> m AND ip1 = m AND ip2"

section \<open>struct icmp, struct udp, struct tcp\<close>

abbreviation (input) ICMP_HRD_SZ :: nat where "ICMP_HRD_SZ \<equiv> 8"
abbreviation (input) icmp_type :: "nat \<Rightarrow> bytes \<Rightarrow> u8" where "icmp_type off d \<equiv> rd8 d off"
abbreviation (input) icmp_code :: "nat \<Rightarrow> bytes \<Rightarrow> u8" where "icmp_code off d \<equiv> rd8 d (off + 1)"
abbreviation (input) icmp_cksum :: "nat \<Rightarrow> bytes \<Rightarrow> u16" where "icmp_cksum off d \<equiv> rd16 d (off + 2)"

abbreviation (input) UDP_HRD_SZ :: nat where "UDP_HRD_SZ \<equiv> 8"
abbreviation (input) udp_src :: "nat \<Rightarrow> bytes \<Rightarrow> u16" where "udp_src off d \<equiv> rd16 d off"
abbreviation (input) udp_dst :: "nat \<Rightarrow> bytes \<Rightarrow> u16" where "udp_dst off d \<equiv> rd16 d (off + 2)"
abbreviation (input) udp_length :: "nat \<Rightarrow> bytes \<Rightarrow> u16" where "udp_length off d \<equiv> rd16 d (off + 4)"
abbreviation (input) udp_checksum :: "nat \<Rightarrow> bytes \<Rightarrow> u16" where "udp_checksum off d \<equiv> rd16 d (off + 6)"

abbreviation (input) TCP_HRD_SZ :: nat where "TCP_HRD_SZ \<equiv> 20"
abbreviation (input) tcp_src :: "nat \<Rightarrow> bytes \<Rightarrow> u16" where "tcp_src off d \<equiv> rd16 d off"
abbreviation (input) tcp_dst :: "nat \<Rightarrow> bytes \<Rightarrow> u16" where "tcp_dst off d \<equiv> rd16 d (off + 2)"
abbreviation (input) tcp_seq :: "nat \<Rightarrow> bytes \<Rightarrow> u32" where "tcp_seq off d \<equiv> rd32 d (off + 4)"
abbreviation (input) tcp_ackn :: "nat \<Rightarrow> bytes \<Rightarrow> u32" where "tcp_ackn off d \<equiv> rd32 d (off + 8)"
abbreviation (input) tcp_flags :: "nat \<Rightarrow> bytes \<Rightarrow> u16" where "tcp_flags off d \<equiv> rd16 d (off + 12)"
abbreviation (input) tcp_window :: "nat \<Rightarrow> bytes \<Rightarrow> u16" where "tcp_window off d \<equiv> rd16 d (off + 14)"
abbreviation (input) tcp_checksum :: "nat \<Rightarrow> bytes \<Rightarrow> u16" where "tcp_checksum off d \<equiv> rd16 d (off + 16)"
abbreviation (input) tcp_urgptr :: "nat \<Rightarrow> bytes \<Rightarrow> u16" where "tcp_urgptr off d \<equiv> rd16 d (off + 18)"

text \<open>The bit fields of the 16 bits at offset 12, lowest first.\<close>

definition tcp_doff :: "nat \<Rightarrow> bytes \<Rightarrow> nat" where
  "tcp_doff off d = unat (drop_bit 4 (tcp_flags off d) AND 0xf)"

abbreviation (input) tcp_fin :: "nat \<Rightarrow> bytes \<Rightarrow> bool" where "tcp_fin off d \<equiv> bit (tcp_flags off d) 8"
abbreviation (input) tcp_syn :: "nat \<Rightarrow> bytes \<Rightarrow> bool" where "tcp_syn off d \<equiv> bit (tcp_flags off d) 9"
abbreviation (input) tcp_rst :: "nat \<Rightarrow> bytes \<Rightarrow> bool" where "tcp_rst off d \<equiv> bit (tcp_flags off d) 10"
abbreviation (input) tcp_psh :: "nat \<Rightarrow> bytes \<Rightarrow> bool" where "tcp_psh off d \<equiv> bit (tcp_flags off d) 11"
abbreviation (input) tcp_ack :: "nat \<Rightarrow> bytes \<Rightarrow> bool" where "tcp_ack off d \<equiv> bit (tcp_flags off d) 12"
abbreviation (input) tcp_urg :: "nat \<Rightarrow> bytes \<Rightarrow> bool" where "tcp_urg off d \<equiv> bit (tcp_flags off d) 13"

definition tcphlen :: "nat \<Rightarrow> bytes \<Rightarrow> nat" where
  "tcphlen off d = 4 * tcp_doff off d"

section \<open>Lemmas on the views\<close>

lemma length_hwacpy [simp, buf_simps]: "length (hwacpy off src d) = length d"
  by (simp add: hwacpy_def)

lemma length_hwaddr_at [simp]: "length (hwaddr_at off d) = 6"
  by (simp add: hwaddr_at_def)

lemma length_ip_ntoh [simp, buf_simps]: "length (ip_ntoh d) = length d"
  by (simp add: ip_ntoh_def Let_def)

lemma length_arp_hton [simp, buf_simps]: "length (arp_hton d) = length d"
  by (simp add: arp_hton_def Let_def)

lemma rd8_hwacpy:
  "rd8 (hwacpy off src d) i =
     (if off \<le> i \<and> i < off + 6 \<and> i < length d then rd8 src (i - off) else rd8 d i)"
  by (auto simp: hwacpy_def rd8_wr8 numeral_eq_Suc Suc_le_eq less_Suc_eq le_less_Suc_eq
      simp flip: Suc_le_eq)

text \<open>Evaluation of the views on literal bytes.\<close>

lemmas eval_simps = rd8_def rd16_def rd32_def mk16_def mk32_def wr8_def wr16_def wr32_def lo8_def hi8_def
  lo16_def hi16_def htons_def htonl_def hwaddr_at_def hwacpy_def upt_rec MULTICAST_def BROADCAST_def

end
