(* ===== verification/Net_State.thy ===== *)
theory Net_State
  imports Headers
begin

text \<open>
  The state of the lower half of the stack and the packet buffers: \<^verbatim>\<open>struct pkbuf\<close>,
  \<^verbatim>\<open>struct netdev\<close> and \<^verbatim>\<open>struct netstats\<close> of \<^verbatim>\<open>src/include/netif.h\<close>, \<^verbatim>\<open>struct rtentry\<close> of
  \<^verbatim>\<open>src/include/route.h\<close>, \<^verbatim>\<open>struct arpentry\<close> of \<^verbatim>\<open>src/include/arp.h\<close>, and the operations of
  \<^verbatim>\<open>src/net/pkb.c\<close>. Objects the code reaches by pointer live in heaps indexed by natural numbers;
  a pointer that may be NULL is an option. The state record is extensible, and every operation
  works on any extension of it, so the components above add their own tables.

  What ends the process in the C code, and what the C standard leaves undefined, is recorded in the
  field \<open>fault\<close> (the first one is kept); the theorems on an operation show it keeps \<open>fault\<close> clear.
  \<^verbatim>\<open>malloc\<close> is taken to succeed.
\<close>

section \<open>Structures\<close>

datatype fault =
    Exit_Failure \<comment> \<open>\<^verbatim>\<open>exit(EXIT_FAILURE)\<close>, \<^verbatim>\<open>perrx\<close>\<close>
  | Double_Free \<comment> \<open>\<^verbatim>\<open>free\<close> of a block that is not allocated\<close>
  | Null_Deref
  | Out_Of_Bounds
  | Assert_Failure
  | Out_Of_Fuel \<comment> \<open>a loop or a recursion that the model cuts off\<close>

record rtentry =
  rt_net :: u32
  rt_netmask :: u32
  rt_gw :: u32
  rt_flags :: u32
  rt_metric :: int
  rt_dev :: nat

record pkbuf =
  pk_pro :: u16
  pk_type :: u16
  pk_len :: int
  pk_refcnt :: int
  pk_indev :: "nat option"
  pk_rtdst :: "rtentry option"
  pk_sk :: "nat option"
  pk_data :: bytes
  pk_live :: bool

abbreviation (input) PKT_NONE :: u16 where "PKT_NONE \<equiv> 0"
abbreviation (input) PKT_LOCALHOST :: u16 where "PKT_LOCALHOST \<equiv> 1"
abbreviation (input) PKT_OTHERHOST :: u16 where "PKT_OTHERHOST \<equiv> 2"
abbreviation (input) PKT_MULTICAST :: u16 where "PKT_MULTICAST \<equiv> 3"
abbreviation (input) PKT_BROADCAST :: u16 where "PKT_BROADCAST \<equiv> 4"

record netstats =
  rx_packets :: u64
  tx_packets :: u64
  rx_errors :: u64
  tx_errors :: u64
  rx_bytes :: u64
  tx_bytes :: u64

datatype netdev_ops = No_Ops | Loop_Ops | Veth_Ops | Peth_Ops | Shmeth_Ops

record netdev =
  net_mtu :: int
  net_ipaddr :: u32
  net_mask :: u32
  net_hwaddr :: bytes
  net_name :: string
  net_ops :: netdev_ops
  net_stats :: netstats

definition LOCALNET :: "netdev \<Rightarrow> u32" where
  "LOCALNET dev = net_ipaddr dev AND net_mask dev"

datatype arp_state = ARP_FREE | ARP_WAITING | ARP_RESOLVED

record arpentry =
  ae_list :: "nat list"
  ae_dev :: "nat option"
  ae_retry :: int
  ae_ttl :: int
  ae_state :: arp_state
  ae_pro :: u16
  ae_ipaddr :: u32
  ae_hwaddr :: bytes

text \<open>
  \<open>wire\<close> is the sequence of frames handed to the outside, with the device that sent them: what the
  \<^verbatim>\<open>write\<close> system call of a driver received.
\<close>

record net_state =
  fault :: "fault option"
  pk_heap :: "nat \<Rightarrow> pkbuf"
  pk_next :: nat
  alloc_pkbs :: int
  free_pkbs :: int
  dev_heap :: "nat \<Rightarrow> netdev"
  dev_next :: nat
  net_devices :: "nat list"
  loop :: nat
  arp_cache :: "arpentry list"
  arp_next :: nat
  wire :: "(nat \<times> bytes) list"

definition set_fault :: "fault \<Rightarrow> 'a net_state_scheme \<Rightarrow> 'a net_state_scheme" where
  "set_fault e s = (case fault s of None \<Rightarrow> s\<lparr>fault := Some e\<rparr> | Some _ \<Rightarrow> s)"

text \<open>The buffer at an address, and an assignment to its fields.\<close>

definition pkb :: "'a net_state_scheme \<Rightarrow> nat \<Rightarrow> pkbuf" where
  "pkb s p = pk_heap s p"

definition upd_pkb :: "nat \<Rightarrow> (pkbuf \<Rightarrow> pkbuf) \<Rightarrow> 'a net_state_scheme \<Rightarrow> 'a net_state_scheme" where
  "upd_pkb p f s = s\<lparr>pk_heap := (pk_heap s)(p := f (pk_heap s p))\<rparr>"

abbreviation (input) data_of :: "'a net_state_scheme \<Rightarrow> nat \<Rightarrow> bytes" where
  "data_of s p \<equiv> pk_data (pkb s p)"

abbreviation (input) upd_data :: "nat \<Rightarrow> (bytes \<Rightarrow> bytes) \<Rightarrow> 'a net_state_scheme \<Rightarrow> 'a net_state_scheme" where
  "upd_data p f \<equiv> upd_pkb p (pk_data_update f)"

definition dev :: "'a net_state_scheme \<Rightarrow> nat \<Rightarrow> netdev" where
  "dev s n = dev_heap s n"

definition upd_dev :: "nat \<Rightarrow> (netdev \<Rightarrow> netdev) \<Rightarrow> 'a net_state_scheme \<Rightarrow> 'a net_state_scheme" where
  "upd_dev n f s = s\<lparr>dev_heap := (dev_heap s)(n := f (dev_heap s n))\<rparr>"

section \<open>pkb.c\<close>

abbreviation (input) MAX_PKBS :: int where "MAX_PKBS \<equiv> 200000"

definition pkb_safe :: "'a net_state_scheme \<Rightarrow> 'a net_state_scheme" where
  "pkb_safe s = (if alloc_pkbs s - free_pkbs s > MAX_PKBS then set_fault Exit_Failure s else s)"

text \<open>A block cut to \<open>len\<close> bytes; bytes that a growing \<^verbatim>\<open>realloc\<close> adds read as zero.\<close>

definition pkb_trim :: "nat \<Rightarrow> int \<Rightarrow> 'a net_state_scheme \<Rightarrow> 'a net_state_scheme" where
  "pkb_trim p len s =
     upd_pkb p (\<lambda>b. b\<lparr>pk_len := len,
       pk_data := take (nat len) (pk_data b) @ replicate (nat len - length (pk_data b)) 0\<rparr>) s"

definition new_pkb :: "pkbuf \<Rightarrow> 'a net_state_scheme \<Rightarrow> nat \<times> 'a net_state_scheme" where
  "new_pkb b s =
     (pk_next s, pkb_safe (s\<lparr>pk_heap := (pk_heap s)(pk_next s := b), pk_next := pk_next s + 1,
        alloc_pkbs := alloc_pkbs s + 1\<rparr>))"

definition alloc_pkb :: "int \<Rightarrow> 'a net_state_scheme \<Rightarrow> nat \<times> 'a net_state_scheme" where
  "alloc_pkb sz s =
     new_pkb \<lparr>pk_pro = 0xffff, pk_type = 0, pk_len = sz, pk_refcnt = 1, pk_indev = None,
       pk_rtdst = None, pk_sk = None, pk_data = replicate (nat sz) 0, pk_live = True\<rparr> s"

definition alloc_netdev_pkb :: "nat \<Rightarrow> 'a net_state_scheme \<Rightarrow> nat \<times> 'a net_state_scheme" where
  "alloc_netdev_pkb nd s = alloc_pkb (net_mtu (dev s nd) + int ETH_HRD_SZ) s"

text \<open>
  \<open>copy_pkb\<close> allocates and copies \<open>pk_len\<close> bytes counted from the start of the structure, whose
  header takes 52 bytes on a 64-bit host: the last 52 bytes of the packet are not in the copy. With
  \<open>pk_len\<close> below 52 the header itself does not fit in the block.
\<close>

abbreviation (input) SIZEOF_PKBUF :: nat where "SIZEOF_PKBUF \<equiv> 52"

definition copy_pkb :: "nat \<Rightarrow> 'a net_state_scheme \<Rightarrow> nat \<times> 'a net_state_scheme" where
  "copy_pkb p s =
     (let b = pkb s p;
          s = (if nat (pk_len b) < SIZEOF_PKBUF then set_fault Out_Of_Bounds s else s)
      in new_pkb (b\<lparr>pk_refcnt := 1, pk_data := take (nat (pk_len b) - SIZEOF_PKBUF) (pk_data b),
           pk_live := True\<rparr>) s)"

definition free_pkb :: "nat \<Rightarrow> 'a net_state_scheme \<Rightarrow> 'a net_state_scheme" where
  "free_pkb p s =
     (let s = (if pk_live (pkb s p) then s else set_fault Double_Free s);
          s = upd_pkb p (\<lambda>b. b\<lparr>pk_refcnt := pk_refcnt b - 1\<rparr>) s
      in if pk_refcnt (pkb s p) \<le> 0
         then upd_pkb p (\<lambda>b. b\<lparr>pk_live := False\<rparr>) (s\<lparr>free_pkbs := free_pkbs s + 1\<rparr>)
         else s)"

definition get_pkb :: "nat \<Rightarrow> 'a net_state_scheme \<Rightarrow> 'a net_state_scheme" where
  "get_pkb p s = upd_pkb p (\<lambda>b. b\<lparr>pk_refcnt := pk_refcnt b + 1\<rparr>) s"

section \<open>What the operations leave alone\<close>

lemma upd_pkb_simps [simp]:
  "fault (upd_pkb p f s) = fault s" "pk_next (upd_pkb p f s) = pk_next s"
  "alloc_pkbs (upd_pkb p f s) = alloc_pkbs s" "free_pkbs (upd_pkb p f s) = free_pkbs s"
  "dev_heap (upd_pkb p f s) = dev_heap s" "dev_next (upd_pkb p f s) = dev_next s"
  "net_devices (upd_pkb p f s) = net_devices s"
  "loop (upd_pkb p f s) = loop s" "arp_cache (upd_pkb p f s) = arp_cache s"
  "arp_next (upd_pkb p f s) = arp_next s" "wire (upd_pkb p f s) = wire s"
  "dev (upd_pkb p f s) n = dev s n" "net_state.more (upd_pkb p f s) = net_state.more s"
  by (simp_all add: upd_pkb_def dev_def)

lemma pkb_upd_pkb [simp]: "pkb (upd_pkb p f s) q = (if q = p then f (pkb s p) else pkb s q)"
  by (simp add: upd_pkb_def pkb_def)

lemma upd_pkb_upd_pkb [simp]: "upd_pkb p f (upd_pkb p g s) = upd_pkb p (\<lambda>b. f (g b)) s"
  by (simp add: upd_pkb_def)

lemma upd_dev_simps [simp]:
  "fault (upd_dev n f s) = fault s" "pk_heap (upd_dev n f s) = pk_heap s"
  "pk_next (upd_dev n f s) = pk_next s"
  "alloc_pkbs (upd_dev n f s) = alloc_pkbs s" "free_pkbs (upd_dev n f s) = free_pkbs s"
  "dev_next (upd_dev n f s) = dev_next s" "net_devices (upd_dev n f s) = net_devices s"
  "loop (upd_dev n f s) = loop s" "arp_cache (upd_dev n f s) = arp_cache s"
  "arp_next (upd_dev n f s) = arp_next s" "wire (upd_dev n f s) = wire s"
  "pkb (upd_dev n f s) p = pkb s p" "net_state.more (upd_dev n f s) = net_state.more s"
  by (simp_all add: upd_dev_def pkb_def)

lemma dev_upd_dev [simp]: "dev (upd_dev n f s) m = (if m = n then f (dev s n) else dev s m)"
  by (simp add: upd_dev_def dev_def)

lemma set_fault_simps [simp]:
  "pk_heap (set_fault e s) = pk_heap s" "pk_next (set_fault e s) = pk_next s"
  "alloc_pkbs (set_fault e s) = alloc_pkbs s" "free_pkbs (set_fault e s) = free_pkbs s"
  "dev_heap (set_fault e s) = dev_heap s" "dev_next (set_fault e s) = dev_next s"
  "net_devices (set_fault e s) = net_devices s" "loop (set_fault e s) = loop s"
  "arp_cache (set_fault e s) = arp_cache s" "arp_next (set_fault e s) = arp_next s"
  "wire (set_fault e s) = wire s" "pkb (set_fault e s) p = pkb s p" "dev (set_fault e s) n = dev s n"
  "net_state.more (set_fault e s) = net_state.more s" "fault (set_fault e s) \<noteq> None"
  by (simp_all add: set_fault_def pkb_def dev_def split: option.split)

lemma pkb_safe_simps [simp]:
  "pk_heap (pkb_safe s) = pk_heap s" "pk_next (pkb_safe s) = pk_next s"
  "alloc_pkbs (pkb_safe s) = alloc_pkbs s" "free_pkbs (pkb_safe s) = free_pkbs s"
  "dev_heap (pkb_safe s) = dev_heap s" "dev_next (pkb_safe s) = dev_next s"
  "net_devices (pkb_safe s) = net_devices s" "loop (pkb_safe s) = loop s"
  "arp_cache (pkb_safe s) = arp_cache s" "arp_next (pkb_safe s) = arp_next s"
  "wire (pkb_safe s) = wire s" "pkb (pkb_safe s) p = pkb s p" "dev (pkb_safe s) n = dev s n"
  "net_state.more (pkb_safe s) = net_state.more s"
  by (simp_all add: pkb_safe_def)

lemma free_pkb_simps [simp]:
  "pk_next (free_pkb p s) = pk_next s" "alloc_pkbs (free_pkb p s) = alloc_pkbs s"
  "dev_heap (free_pkb p s) = dev_heap s" "dev_next (free_pkb p s) = dev_next s"
  "net_devices (free_pkb p s) = net_devices s" "loop (free_pkb p s) = loop s"
  "arp_cache (free_pkb p s) = arp_cache s" "arp_next (free_pkb p s) = arp_next s"
  "wire (free_pkb p s) = wire s" "dev (free_pkb p s) n = dev s n"
  "net_state.more (free_pkb p s) = net_state.more s"
  "q \<noteq> p \<Longrightarrow> pkb (free_pkb p s) q = pkb s q"
  "pk_live (pkb s p) \<Longrightarrow> fault (free_pkb p s) = fault s"
  by (auto simp: free_pkb_def Let_def upd_pkb_def pkb_def dev_def)

lemma free_pkb_fields [simp]:
  "pk_pro (pkb (free_pkb p s) q) = pk_pro (pkb s q)" "pk_type (pkb (free_pkb p s) q) = pk_type (pkb s q)"
  "pk_len (pkb (free_pkb p s) q) = pk_len (pkb s q)" "pk_data (pkb (free_pkb p s) q) = pk_data (pkb s q)"
  "pk_indev (pkb (free_pkb p s) q) = pk_indev (pkb s q)"
  "pk_rtdst (pkb (free_pkb p s) q) = pk_rtdst (pkb s q)" "pk_sk (pkb (free_pkb p s) q) = pk_sk (pkb s q)"
  by (auto simp: free_pkb_def Let_def upd_pkb_def pkb_def)

lemma free_pkb_live:
  "pk_live (pkb (free_pkb p s) p) \<longleftrightarrow> pk_live (pkb s p) \<and> 1 < pk_refcnt (pkb s p)"
  "pk_refcnt (pkb (free_pkb p s) p) = pk_refcnt (pkb s p) - 1"
  "free_pkbs (free_pkb p s) = (if pk_refcnt (pkb s p) \<le> 1 then free_pkbs s + 1 else free_pkbs s)"
  by (auto simp: free_pkb_def Let_def upd_pkb_def pkb_def)

section \<open>The accounting of packet buffers\<close>

text \<open>
  The two counters of \<^verbatim>\<open>pkb.c\<close> differ by the number of allocated buffers, each allocated buffer has a
  positive reference count, and addresses not yet handed out are free.
\<close>

definition live_pkbs :: "'a net_state_scheme \<Rightarrow> nat set" where
  "live_pkbs s = {p. p < pk_next s \<and> pk_live (pkb s p)}"

definition pkb_inv :: "'a net_state_scheme \<Rightarrow> bool" where
  "pkb_inv s \<longleftrightarrow>
     (\<forall>p. pk_live (pkb s p) \<longrightarrow> p < pk_next s \<and> 0 < pk_refcnt (pkb s p)) \<and>
     int (card (live_pkbs s)) = alloc_pkbs s - free_pkbs s"

lemma finite_live_pkbs [simp]: "finite (live_pkbs s)"
  by (simp add: live_pkbs_def)

lemma pkb_invD:
  "pkb_inv s \<Longrightarrow> pk_live (pkb s p) \<Longrightarrow> p < pk_next s"
  "pkb_inv s \<Longrightarrow> pk_live (pkb s p) \<Longrightarrow> 0 < pk_refcnt (pkb s p)"
  by (auto simp: pkb_inv_def)

lemma new_pkb_simps [simp]:
  "fst (new_pkb b s) = pk_next s"
  "pkb (snd (new_pkb b s)) q = (if q = pk_next s then b else pkb s q)"
  "pk_next (snd (new_pkb b s)) = Suc (pk_next s)"
  "alloc_pkbs (snd (new_pkb b s)) = alloc_pkbs s + 1" "free_pkbs (snd (new_pkb b s)) = free_pkbs s"
  "dev_heap (snd (new_pkb b s)) = dev_heap s" "dev_next (snd (new_pkb b s)) = dev_next s"
  "net_devices (snd (new_pkb b s)) = net_devices s" "loop (snd (new_pkb b s)) = loop s"
  "arp_cache (snd (new_pkb b s)) = arp_cache s" "arp_next (snd (new_pkb b s)) = arp_next s"
  "wire (snd (new_pkb b s)) = wire s" "dev (snd (new_pkb b s)) n = dev s n"
  "net_state.more (snd (new_pkb b s)) = net_state.more s"
  by (simp_all add: new_pkb_def) (simp_all add: pkb_def dev_def)

lemma live_pkbs_new:
  assumes "pk_live b"
  shows "live_pkbs (snd (new_pkb b s)) = insert (pk_next s) (live_pkbs s)"
  using assms by (auto simp: live_pkbs_def)

lemma new_pkb_inv:
  assumes "pkb_inv s" "pk_live b" "pk_refcnt b = 1"
  shows "pkb_inv (snd (new_pkb b s))"
proof -
  have "pk_next s \<notin> live_pkbs s" by (simp add: live_pkbs_def)
  then show ?thesis
    using assms unfolding pkb_inv_def live_pkbs_new [OF assms(2)] by (auto simp: less_Suc_eq)
qed

lemma new_pkb_fault:
  assumes "alloc_pkbs s - free_pkbs s < MAX_PKBS"
  shows "fault (snd (new_pkb b s)) = fault s"
  using assms by (simp add: new_pkb_def pkb_safe_def)

lemma alloc_pkb_inv: "pkb_inv s \<Longrightarrow> pkb_inv (snd (alloc_pkb n s))"
  by (simp add: alloc_pkb_def new_pkb_inv)

lemma copy_pkb_inv: "pkb_inv s \<Longrightarrow> pkb_inv (snd (copy_pkb p s))"
  unfolding copy_pkb_def Let_def
  by (rule new_pkb_inv) (auto simp: pkb_inv_def live_pkbs_def)

lemma live_pkbs_get [simp]: "live_pkbs (get_pkb p s) = live_pkbs s"
  by (auto simp: live_pkbs_def get_pkb_def split: if_splits)

lemma get_pkb_inv: "pkb_inv s \<Longrightarrow> pkb_inv (get_pkb p s)"
  unfolding pkb_inv_def live_pkbs_get by (auto simp: get_pkb_def)

lemma live_pkbs_free:
  assumes "pkb_inv s" "pk_live (pkb s p)"
  shows "live_pkbs (free_pkb p s) =
    (if pk_refcnt (pkb s p) = 1 then live_pkbs s - {p} else live_pkbs s)"
proof -
  have "0 < pk_refcnt (pkb s p)" using assms by (rule pkb_invD)
  then have "pk_live (pkb (free_pkb p s) q) \<longleftrightarrow>
      pk_live (pkb s q) \<and> (q = p \<longrightarrow> pk_refcnt (pkb s p) \<noteq> 1)" for q
    by (cases "q = p") (auto simp: free_pkb_live)
  then show ?thesis by (auto simp: live_pkbs_def)
qed

lemma free_pkb_inv:
  assumes "pkb_inv s" "pk_live (pkb s p)"
  shows "pkb_inv (free_pkb p s)"
proof -
  have pos: "0 < pk_refcnt (pkb s p)" and lt: "p < pk_next s"
    using assms by (auto dest: pkb_invD)
  have "p \<in> live_pkbs s" using assms lt by (simp add: live_pkbs_def)
  then have card: "0 < card (live_pkbs s)" "card (live_pkbs s - {p}) = card (live_pkbs s) - 1"
    by (auto simp: card_gt_0_iff)
  have "pk_live (pkb (free_pkb p s) q) \<Longrightarrow> q < pk_next s \<and> 0 < pk_refcnt (pkb (free_pkb p s) q)" for q
    using assms(1) by (cases "q = p") (auto simp: free_pkb_live pkb_inv_def)
  moreover have "int (card (live_pkbs (free_pkb p s))) = alloc_pkbs s - free_pkbs (free_pkb p s)"
    using assms(1) card pos by (auto simp: live_pkbs_free [OF assms] free_pkb_live pkb_inv_def)
  ultimately show ?thesis by (simp add: pkb_inv_def)
qed

text \<open>A client of the buffers: it only frees, copies and references buffers it holds.\<close>

inductive pkb_step :: "'a net_state_scheme \<Rightarrow> 'a net_state_scheme \<Rightarrow> bool" where
  Alloc: "pkb_step s (snd (alloc_pkb n s))"
| Copy: "pk_live (pkb s p) \<Longrightarrow> SIZEOF_PKBUF \<le> nat (pk_len (pkb s p)) \<Longrightarrow>
    pkb_step s (snd (copy_pkb p s))"
| Free: "pk_live (pkb s p) \<Longrightarrow> pkb_step s (free_pkb p s)"
| Get: "pk_live (pkb s p) \<Longrightarrow> pkb_step s (get_pkb p s)"

lemma pkb_step_inv: "pkb_step s t \<Longrightarrow> pkb_inv s \<Longrightarrow> pkb_inv t"
  by (induction rule: pkb_step.induct)
    (simp_all add: alloc_pkb_inv copy_pkb_inv free_pkb_inv get_pkb_inv)

lemma pkb_step_fault:
  assumes "pkb_step s t" "alloc_pkbs s - free_pkbs s < MAX_PKBS"
  shows "fault t = fault s"
  using assms
  by (induction rule: pkb_step.induct)
    (auto simp: alloc_pkb_def copy_pkb_def Let_def new_pkb_fault get_pkb_def)

lemma pkb_steps_inv: "pkb_step\<^sup>*\<^sup>* s t \<Longrightarrow> pkb_inv s \<Longrightarrow> pkb_inv t"
  by (induction rule: rtranclp_induct) (auto intro: pkb_step_inv)

definition pkb_init :: "net_state \<Rightarrow> bool" where
  "pkb_init s \<longleftrightarrow> (\<forall>p. \<not> pk_live (pkb s p)) \<and> pk_next s = 0 \<and> alloc_pkbs s = 0 \<and> free_pkbs s = 0"


definition empty_net :: net_state where
  "empty_net =
     \<lparr>fault = None, pk_heap = \<lambda>_. \<lparr>pk_pro = 0, pk_type = 0, pk_len = 0, pk_refcnt = 0, pk_indev = None,
        pk_rtdst = None, pk_sk = None, pk_data = [], pk_live = False\<rparr>, pk_next = 0,
      alloc_pkbs = 0, free_pkbs = 0,
      dev_heap = \<lambda>_. \<lparr>net_mtu = 0, net_ipaddr = 0, net_mask = 0, net_hwaddr = replicate 6 0,
        net_name = [], net_ops = No_Ops, net_stats = \<lparr>rx_packets = 0, tx_packets = 0, rx_errors = 0,
        tx_errors = 0, rx_bytes = 0, tx_bytes = 0\<rparr>\<rparr>, dev_next = 0, net_devices = [], loop = 0,
      arp_cache = [], arp_next = 0, wire = []\<rparr>"


end
