(* ===== verification/Netdev.thy ===== *)
theory Netdev
  imports Net_State
begin

text \<open>
  The net device layer: \<^verbatim>\<open>src/net/netdev.c\<close>, the loopback device of \<^verbatim>\<open>src/net/loop.c\<close>, the transmit and
  receive functions of the tap device of \<^verbatim>\<open>src/net/veth.c\<close> and the ethernet part of \<^verbatim>\<open>src/net/net.c\<close>.

  The function pointers of \<^verbatim>\<open>struct netdev_ops\<close> are arguments: \<open>xmit n p\<close> is the call
  \<^verbatim>\<open>dev->net_ops->xmit(dev, pkb)\<close> for the device \<open>n\<close> and the buffer \<open>p\<close> (every caller ignores its
  result). The locale \<open>net_device\<close> is the contract of a driver towards the protocols above it, and
  the tap driver is shown to meet it for every behaviour of the \<^verbatim>\<open>write\<close> system call.
\<close>

section \<open>netdev.c\<close>

abbreviation (input) NETDEV_NLEN :: nat where "NETDEV_NLEN \<equiv> 16"

definition netdev_alloc ::
  "string \<Rightarrow> netdev_ops \<Rightarrow> (nat \<Rightarrow> 'a net_state_scheme \<Rightarrow> 'a net_state_scheme) option \<Rightarrow>
   'a net_state_scheme \<Rightarrow> nat \<times> 'a net_state_scheme" where
  "netdev_alloc devstr netops init s =
     (let n = dev_next s;
          nd = \<lparr>net_mtu = 0, net_ipaddr = 0, net_mask = 0, net_hwaddr = replicate ETH_ALEN 0,
            net_name = [], net_ops = No_Ops, net_stats = \<lparr>rx_packets = 0, tx_packets = 0, rx_errors = 0,
            tx_errors = 0, rx_bytes = 0, tx_bytes = 0\<rparr>\<rparr>;
          s = s\<lparr>dev_heap := (dev_heap s)(n := nd), dev_next := n + 1, net_devices := net_devices s @ [n]\<rparr>;
          s = upd_dev n (\<lambda>d. d\<lparr>net_name := take (NETDEV_NLEN - 1) devstr\<rparr>) s;
          s = upd_dev n (\<lambda>d. d\<lparr>net_ops := netops\<rparr>) s;
          s = (case init of None \<Rightarrow> s | Some f \<Rightarrow> f n s)
      in (n, s))"

definition netdev_free ::
  "nat \<Rightarrow> (nat \<Rightarrow> 'a net_state_scheme \<Rightarrow> 'a net_state_scheme) option \<Rightarrow>
   'a net_state_scheme \<Rightarrow> 'a net_state_scheme" where
  "netdev_free n exit s =
     (let s = (case exit of None \<Rightarrow> s | Some f \<Rightarrow> f n s)
      in s\<lparr>net_devices := remove1 n (net_devices s)\<rparr>)"

definition netdev_tx ::
  "(nat \<Rightarrow> nat \<Rightarrow> 'a net_state_scheme \<Rightarrow> 'a net_state_scheme) \<Rightarrow>
   nat \<Rightarrow> nat \<Rightarrow> int \<Rightarrow> u16 \<Rightarrow> bytes \<Rightarrow> 'a net_state_scheme \<Rightarrow> 'a net_state_scheme" where
  "netdev_tx xmit n p len proto dst s =
     (let s = upd_data p (set_eth_pro (htons proto)) s;
          s = upd_data p (hwacpy 0 dst) s;
          s = upd_data p (hwacpy 6 (net_hwaddr (dev s n))) s;
          s = upd_pkb p (\<lambda>b. b\<lparr>pk_len := len + int ETH_HRD_SZ\<rparr>) s;
          s = xmit n p s
      in free_pkb p s)"

definition local_address :: "'a net_state_scheme \<Rightarrow> u32 \<Rightarrow> bool" where
  "local_address s addr \<longleftrightarrow>
     (if addr = 0 then True
      else if LOCALNET (dev s (loop s)) = net_mask (dev s (loop s)) AND addr then True
      else (\<exists>n \<in> set (net_devices s). net_ipaddr (dev s n) = addr))"

section \<open>loop.c\<close>

abbreviation (input) LOOPBACK_MTU :: int where "LOOPBACK_MTU \<equiv> 1500"
abbreviation (input) LOOPBACK_IPADDR :: u32 where "LOOPBACK_IPADDR \<equiv> 0x0100007F"
abbreviation (input) LOOPBACK_NETMASK :: u32 where "LOOPBACK_NETMASK \<equiv> 0x000000FF"

definition loop_dev_init :: "nat \<Rightarrow> 'a net_state_scheme \<Rightarrow> 'a net_state_scheme" where
  "loop_dev_init n =
     upd_dev n (\<lambda>d. d\<lparr>net_mtu := LOOPBACK_MTU, net_ipaddr := LOOPBACK_IPADDR, net_mask := LOOPBACK_NETMASK\<rparr>)"

definition upd_stats :: "nat \<Rightarrow> (netstats \<Rightarrow> netstats) \<Rightarrow> 'a net_state_scheme \<Rightarrow> 'a net_state_scheme" where
  "upd_stats n f = upd_dev n (\<lambda>d. d\<lparr>net_stats := f (net_stats d)\<rparr>)"

definition loop_recv ::
  "(nat \<Rightarrow> nat \<Rightarrow> 'a net_state_scheme \<Rightarrow> 'a net_state_scheme) \<Rightarrow>
   nat \<Rightarrow> nat \<Rightarrow> 'a net_state_scheme \<Rightarrow> 'a net_state_scheme" where
  "loop_recv net_in n p s =
     (let s = upd_stats n (\<lambda>st. st\<lparr>rx_packets := rx_packets st + 1,
            rx_bytes := rx_bytes st + word_of_int (pk_len (pkb s p))\<rparr>) s
      in net_in n p s)"

definition loop_xmit ::
  "(nat \<Rightarrow> nat \<Rightarrow> 'a net_state_scheme \<Rightarrow> 'a net_state_scheme) \<Rightarrow>
   nat \<Rightarrow> nat \<Rightarrow> 'a net_state_scheme \<Rightarrow> 'a net_state_scheme" where
  "loop_xmit net_in n p s =
     (let s = get_pkb p s;
          s = loop_recv net_in n p s
      in upd_stats n (\<lambda>st. st\<lparr>tx_packets := tx_packets st + 1,
           tx_bytes := tx_bytes st + word_of_int (pk_len (pkb s p))\<rparr>) s)"

definition loop_init :: "'a net_state_scheme \<Rightarrow> 'a net_state_scheme" where
  "loop_init s = (let (n, s) = netdev_alloc ''lo'' Loop_Ops (Some loop_dev_init) s in s\<lparr>loop := n\<rparr>)"

definition loop_exit :: "'a net_state_scheme \<Rightarrow> 'a net_state_scheme" where
  "loop_exit s = netdev_free (loop s) None s"

definition netdev_init :: "'a net_state_scheme \<Rightarrow> 'a net_state_scheme" where
  "netdev_init s = (let s = s\<lparr>net_devices := []\<rparr> in loop_init s)"

definition netdev_exit :: "'a net_state_scheme \<Rightarrow> 'a net_state_scheme" where
  "netdev_exit s = loop_exit s"

section \<open>veth.c\<close>

text \<open>
  \<open>wr\<close> is the result of \<^verbatim>\<open>write\<close> on the tap file for the bytes of a frame, \<open>rd\<close> what \<^verbatim>\<open>read\<close> delivers: its
  result and the bytes it stored. A frame that was written whole is on the wire.
\<close>

definition veth_xmit ::
  "(bytes \<Rightarrow> int) \<Rightarrow> nat \<Rightarrow> nat \<Rightarrow> 'a net_state_scheme \<Rightarrow> 'a net_state_scheme" where
  "veth_xmit wr n p s =
     (let f = take (nat (pk_len (pkb s p))) (data_of s p);
          l = wr f
      in if l \<noteq> pk_len (pkb s p)
         then upd_stats n (\<lambda>st. st\<lparr>tx_errors := tx_errors st + 1\<rparr>) s
         else upd_stats n (\<lambda>st. st\<lparr>tx_packets := tx_packets st + 1, tx_bytes := tx_bytes st + word_of_int l\<rparr>)
           (s\<lparr>wire := wire s @ [(n, f)]\<rparr>))"

definition veth_recv ::
  "int \<times> bytes \<Rightarrow> nat \<Rightarrow> nat \<Rightarrow> 'a net_state_scheme \<Rightarrow> int \<times> 'a net_state_scheme" where
  "veth_recv rd veth p s =
     (let (l, bs) = rd
      in if l \<le> 0 then (l, upd_stats veth (\<lambda>st. st\<lparr>rx_errors := rx_errors st + 1\<rparr>) s)
         else (l, upd_pkb p (\<lambda>b. b\<lparr>pk_len := l\<rparr>)
           (upd_stats veth (\<lambda>st. st\<lparr>rx_packets := rx_packets st + 1, rx_bytes := rx_bytes st + word_of_int l\<rparr>)
             (upd_data p (\<lambda>d. memcpy d 0 bs (nat l)) s))))"

definition veth_rx ::
  "(nat \<Rightarrow> nat \<Rightarrow> 'a net_state_scheme \<Rightarrow> 'a net_state_scheme) \<Rightarrow>
   int \<times> bytes \<Rightarrow> nat \<Rightarrow> 'a net_state_scheme \<Rightarrow> 'a net_state_scheme" where
  "veth_rx net_in rd veth s =
     (let (p, s) = alloc_netdev_pkb veth s;
          (l, s) = veth_recv rd veth p s
      in if l > 0 then net_in veth p s else free_pkb p s)"

section \<open>net.c: the ethernet header\<close>

definition eth_init :: "nat \<Rightarrow> nat \<Rightarrow> 'a net_state_scheme \<Rightarrow> bool \<times> 'a net_state_scheme" where
  "eth_init n p s =
     (if pk_len (pkb s p) < int ETH_HRD_SZ then (False, free_pkb p s)
      else let d = data_of s p;
               ty = (if is_eth_multicast (eth_dst d)
                     then if is_eth_broadcast (eth_dst d) then PKT_BROADCAST else PKT_MULTICAST
                     else if eth_dst d = hwaddr_at 0 (net_hwaddr (dev s n)) then PKT_LOCALHOST
                     else PKT_OTHERHOST)
           in (True, upd_pkb p (\<lambda>b. b\<lparr>pk_type := ty, pk_pro := ntohs (eth_pro d)\<rparr>) s))"

section \<open>The contract of a driver\<close>

text \<open>
  A driver that hands frames to the outside: transmitting keeps every buffer, the protocol state and
  the addresses of the devices, and puts the frame on the wire or loses it. The loopback device is
  not of this kind, it enters the stack again.
\<close>

definition frame_of :: "'a net_state_scheme \<Rightarrow> nat \<Rightarrow> bytes" where
  "frame_of s p = take (nat (pk_len (pkb s p))) (data_of s p)"

locale net_device =
  fixes xmit :: "nat \<Rightarrow> nat \<Rightarrow> 'a net_state_scheme \<Rightarrow> 'a net_state_scheme"
  assumes xmit_pkb: "pkb (xmit n p s) q = pkb s q"
    and xmit_pool: "pk_next (xmit n p s) = pk_next s" "alloc_pkbs (xmit n p s) = alloc_pkbs s"
      "free_pkbs (xmit n p s) = free_pkbs s"
    and xmit_fault: "fault (xmit n p s) = fault s"
    and xmit_arp: "arp_cache (xmit n p s) = arp_cache s" "arp_next (xmit n p s) = arp_next s"
    and xmit_devs: "net_devices (xmit n p s) = net_devices s" "loop (xmit n p s) = loop s"
      "dev_next (xmit n p s) = dev_next s"
    and xmit_dev: "dev (xmit n p s) m = (dev s m)\<lparr>net_stats := net_stats (dev (xmit n p s) m)\<rparr>"
    and xmit_more: "net_state.more (xmit n p s) = net_state.more s"
    and xmit_wire: "wire (xmit n p s) = wire s \<or> wire (xmit n p s) = wire s @ [(n, frame_of s p)]"
begin

lemmas xmit_simps = xmit_pkb xmit_pool xmit_fault xmit_arp xmit_devs xmit_more

lemma xmit_dev_fields:
  "net_mtu (dev (xmit n p s) m) = net_mtu (dev s m)" "net_ipaddr (dev (xmit n p s) m) = net_ipaddr (dev s m)"
  "net_mask (dev (xmit n p s) m) = net_mask (dev s m)" "net_hwaddr (dev (xmit n p s) m) = net_hwaddr (dev s m)"
  by (subst xmit_dev, simp)+

lemma netdev_tx_simps:
  "arp_cache (netdev_tx xmit n p len proto dst s) = arp_cache s"
  "arp_next (netdev_tx xmit n p len proto dst s) = arp_next s"
  "net_devices (netdev_tx xmit n p len proto dst s) = net_devices s"
  "loop (netdev_tx xmit n p len proto dst s) = loop s"
  "dev_next (netdev_tx xmit n p len proto dst s) = dev_next s"
  "pk_next (netdev_tx xmit n p len proto dst s) = pk_next s"
  "alloc_pkbs (netdev_tx xmit n p len proto dst s) = alloc_pkbs s"
  "net_state.more (netdev_tx xmit n p len proto dst s) = net_state.more s"
  "net_mtu (dev (netdev_tx xmit n p len proto dst s) m) = net_mtu (dev s m)"
  "net_ipaddr (dev (netdev_tx xmit n p len proto dst s) m) = net_ipaddr (dev s m)"
  "net_mask (dev (netdev_tx xmit n p len proto dst s) m) = net_mask (dev s m)"
  "net_hwaddr (dev (netdev_tx xmit n p len proto dst s) m) = net_hwaddr (dev s m)"
  "q \<noteq> p \<Longrightarrow> pkb (netdev_tx xmit n p len proto dst s) q = pkb s q"
  "pk_live (pkb s p) \<Longrightarrow> fault (netdev_tx xmit n p len proto dst s) = fault s"
  by (simp_all add: netdev_tx_def Let_def xmit_simps xmit_dev_fields)

lemma netdev_tx_wire:
  "wire (netdev_tx xmit n p len proto dst s) = wire s \<or>
   wire (netdev_tx xmit n p len proto dst s) = wire s @ [(n, take (nat (len + 14))
     (hwacpy 6 (net_hwaddr (dev s n)) (hwacpy 0 dst (set_eth_pro (htons proto) (data_of s p)))))]"
  unfolding netdev_tx_def Let_def free_pkb_simps
  using xmit_wire [of n p "upd_pkb p (\<lambda>b. b\<lparr>pk_len := len + 14\<rparr>)
    (upd_pkb p (pk_data_update (hwacpy 6 (net_hwaddr (dev s n))))
      (upd_pkb p (pk_data_update (hwacpy 0 dst)) (upd_pkb p (pk_data_update (wr16 12 (htons proto))) s)))"]
  by (simp add: frame_of_def)

lemma netdev_tx_pkb:
  "pk_refcnt (pkb (netdev_tx xmit n p len proto dst s) p) = pk_refcnt (pkb s p) - 1"
  "pk_live (pkb (netdev_tx xmit n p len proto dst s) p) \<longleftrightarrow> pk_live (pkb s p) \<and> 1 < pk_refcnt (pkb s p)"
  "free_pkbs (netdev_tx xmit n p len proto dst s) =
     (if pk_refcnt (pkb s p) \<le> 1 then free_pkbs s + 1 else free_pkbs s)"
  by (simp_all add: netdev_tx_def Let_def free_pkb_live xmit_simps)

lemma live_cong:
  assumes "\<And>q. pk_live (pkb s q) = pk_live (pkb t q)" "pk_next s = pk_next t"
  shows "live_pkbs s = live_pkbs t"
  using assms by (simp add: live_pkbs_def)

lemma pkb_inv_cong:
  assumes "\<And>q. pk_live (pkb s q) = pk_live (pkb t q)" "\<And>q. pk_refcnt (pkb s q) = pk_refcnt (pkb t q)"
    "pk_next s = pk_next t" "alloc_pkbs s = alloc_pkbs t" "free_pkbs s = free_pkbs t"
  shows "pkb_inv s = pkb_inv t"
  using assms live_cong [OF assms(1,3)] by (simp add: pkb_inv_def)

lemma netdev_tx_inv:
  assumes "pkb_inv s" "pk_live (pkb s p)"
  shows "pkb_inv (netdev_tx xmit n p len proto dst s)"
  unfolding netdev_tx_def Let_def
proof (rule free_pkb_inv)
  let ?t = "xmit n p (upd_pkb p (\<lambda>b. b\<lparr>pk_len := len + int ETH_HRD_SZ\<rparr>)
    (upd_data p (hwacpy 6 (net_hwaddr (dev (upd_data p (hwacpy 0 dst) (upd_data p (wr16 12 (htons proto)) s)) n)))
      (upd_data p (hwacpy 0 dst) (upd_data p (wr16 12 (htons proto)) s))))"
  show "pkb_inv ?t" using assms(1) pkb_inv_cong [of ?t s] by (simp add: xmit_simps)
  show "pk_live (pkb ?t p)" using assms(2) by (simp add: xmit_simps)
qed

end

lemma upd_stats_simps [simp]:
  "fault (upd_stats n f s) = fault s" "pkb (upd_stats n f s) p = pkb s p"
  "pk_next (upd_stats n f s) = pk_next s" "alloc_pkbs (upd_stats n f s) = alloc_pkbs s"
  "free_pkbs (upd_stats n f s) = free_pkbs s" "dev_next (upd_stats n f s) = dev_next s"
  "net_devices (upd_stats n f s) = net_devices s" "loop (upd_stats n f s) = loop s"
  "arp_cache (upd_stats n f s) = arp_cache s" "arp_next (upd_stats n f s) = arp_next s"
  "wire (upd_stats n f s) = wire s" "net_state.more (upd_stats n f s) = net_state.more s"
  "dev (upd_stats n f s) m = (if m = n then (dev s n)\<lparr>net_stats := f (net_stats (dev s n))\<rparr> else dev s m)"
  by (simp_all add: upd_stats_def)

lemma wire_update_simps [simp]:
  "pkb (s\<lparr>wire := w\<rparr>) p = pkb s p" "dev (s\<lparr>wire := w\<rparr>) n = dev s n"
  by (simp_all add: pkb_def dev_def)

interpretation veth: net_device "veth_xmit wr" for wr
  by unfold_locales (auto simp: veth_xmit_def Let_def frame_of_def)

text \<open>A driver that accepts every frame whose buffer holds the bytes its length says.\<close>

locale reliable_device = net_device +
  assumes xmit_sends: "pk_len (pkb s p) = int (length (frame_of s p)) \<Longrightarrow>
    wire (xmit n p s) = wire s @ [(n, frame_of s p)]"
begin

lemma netdev_tx_sends:
  assumes "0 \<le> len" "len + 14 \<le> int (length (data_of s p))"
  shows "wire (netdev_tx xmit n p len proto dst s) = wire s @ [(n, take (nat (len + 14))
     (hwacpy 6 (net_hwaddr (dev s n)) (hwacpy 0 dst (set_eth_pro (htons proto) (data_of s p)))))]"
  unfolding netdev_tx_def Let_def free_pkb_simps
  using assms xmit_sends [of "upd_pkb p (\<lambda>b. b\<lparr>pk_len := len + 14\<rparr>)
    (upd_pkb p (pk_data_update (hwacpy 6 (net_hwaddr (dev s n))))
      (upd_pkb p (pk_data_update (hwacpy 0 dst)) (upd_pkb p (pk_data_update (wr16 12 (htons proto))) s)))" p n]
  by (simp add: frame_of_def)

end

interpretation veth_ok: reliable_device "veth_xmit (\<lambda>f. int (length f))"
  by unfold_locales (simp add: veth_xmit_def Let_def frame_of_def)

lemma rd8_eth_frame:
  "i < length d \<Longrightarrow> rd8 (hwacpy 6 src (hwacpy 0 dst (set_eth_pro v d))) i =
    (if i < 6 then rd8 dst i else if i < 12 then rd8 src (i - 6) else rd8 (set_eth_pro v d) i)"
  by (auto simp: rd8_hwacpy)

lemma drop_eth_frame: "drop 14 (hwacpy 6 src (hwacpy 0 dst (set_eth_pro v d))) = drop 14 d"
proof (rule nth_equalityI)
  fix i assume "i < length (drop 14 (hwacpy 6 src (hwacpy 0 dst (set_eth_pro v d))))"
  then have i: "14 + i < length d" by simp
  then have "rd8 (hwacpy 6 src (hwacpy 0 dst (set_eth_pro v d))) (14 + i) = rd8 d (14 + i)"
    by (simp add: rd8_eth_frame rd8_wr16)
  with i show "drop 14 (hwacpy 6 src (hwacpy 0 dst (set_eth_pro v d))) ! i = drop 14 d ! i" by (simp add: rd8_def)
qed simp

text \<open>
  A packet given to \<open>netdev_tx\<close> on the tap device leaves it as one ethernet frame with the
  destination, the device's own address and the protocol in network order in front of the payload,
  and the buffer is released once.
\<close>

theorem netdev_tx_frame:
  assumes "0 \<le> len" and "len + 14 \<le> int (length (data_of s p))" and "pk_live (pkb s p)"
  shows "let t = netdev_tx (veth_xmit (\<lambda>f. int (length f))) n p len proto dst s;
      d = hwacpy 6 (net_hwaddr (dev s n)) (hwacpy 0 dst (set_eth_pro (htons proto) (data_of s p)))
    in wire t = wire s @ [(n, take (nat (len + 14)) d)] \<and>
      pk_refcnt (pkb t p) = pk_refcnt (pkb s p) - 1 \<and> fault t = fault s \<and>
      eth_dst d = hwaddr_at 0 dst \<and> eth_src d = hwaddr_at 0 (net_hwaddr (dev s n)) \<and>
      ntohs (eth_pro d) = proto \<and> drop 14 d = drop 14 (data_of s p)"
proof -
  let ?d = "hwacpy 6 (net_hwaddr (dev s n)) (hwacpy 0 dst (set_eth_pro (htons proto) (data_of s p)))"
  have len: "14 \<le> length (data_of s p)" using assms by linarith
  note b = rd8_eth_frame [of _ "data_of s p" "net_hwaddr (dev s n)" dst "htons proto"]
  have "eth_dst ?d = hwaddr_at 0 dst" "eth_src ?d = hwaddr_at 0 (net_hwaddr (dev s n))"
    using len b by (auto simp: hwaddr_at_def)
  moreover have "ntohs (eth_pro ?d) = proto"
  proof -
    have "eth_pro ?d = eth_pro (set_eth_pro (htons proto) (data_of s p))"
      using len by (simp add: rd16_def b)
    then show ?thesis using len by simp
  qed
  moreover have "drop 14 ?d = drop 14 (data_of s p)" by (rule drop_eth_frame)
  ultimately show ?thesis
    using assms veth_ok.netdev_tx_sends veth.netdev_tx_pkb(1) veth.netdev_tx_simps(14)
    unfolding Let_def by auto
qed

definition sample_tx :: net_state where
  "sample_tx = snd (alloc_pkb 20 (snd (netdev_alloc ''veth'' Veth_Ops None empty_net)))"

theorem netdev_tx_frame_witness:
  "wire (netdev_tx (veth_xmit (\<lambda>f. int (length f))) 0 0 6 0x0806 (replicate 6 0xff) sample_tx) =
     [(0, replicate 6 0xff @ replicate 6 0 @ [8, 6] @ replicate 6 0)]"
proof -
  have 1: "6 + 14 \<le> int (length (data_of sample_tx 0))" and 2: "pk_live (pkb sample_tx 0)"
    and 3: "wire sample_tx = []"
    and 4: "take (nat (6 + 14)) (hwacpy 6 (net_hwaddr (dev sample_tx 0)) (hwacpy 0 (replicate 6 0xff)
      (set_eth_pro (htons 0x0806) (data_of sample_tx 0)))) = replicate 6 0xff @ replicate 6 0 @ [8, 6] @ replicate 6 0"
    by code_simp+
  from netdev_tx_frame [OF _ 1 2, of 0 "0x0806" "replicate 6 0xff"] 3
  show ?thesis unfolding Let_def 4 by simp
qed

end
