(* ===== verification/Route.thy ===== *)
theory Route
  imports Netdev
begin

text \<open>
  The routing table of \<^verbatim>\<open>src/ip/route.c\<close>: a list kept in descending order of the netmask word, searched
  for the first match. Entries are immutable once they are in the list, so a buffer carries a copy
  of its route. The lemmas show that the search is a longest-prefix match for every table that the
  program builds from contiguous netmasks, although the words compared are in network byte order.
\<close>

record rt_state = net_state +
  rt_head :: "rtentry list"

abbreviation (input) RT_NONE :: u32 where "RT_NONE \<equiv> 0"
abbreviation (input) RT_LOCALHOST :: u32 where "RT_LOCALHOST \<equiv> 1"
abbreviation (input) RT_DEFAULT :: u32 where "RT_DEFAULT \<equiv> 2"

definition rt_match :: "u32 \<Rightarrow> rtentry \<Rightarrow> bool" where
  "rt_match ipaddr rt \<longleftrightarrow> rt_netmask rt AND ipaddr = rt_netmask rt AND rt_net rt"

definition rt_lookup :: "u32 \<Rightarrow> 'a rt_state_scheme \<Rightarrow> rtentry option" where
  "rt_lookup ipaddr s = find (rt_match ipaddr) (rt_head s)"

fun rt_remove :: "u32 \<Rightarrow> u32 \<Rightarrow> rtentry list \<Rightarrow> rtentry list" where
  "rt_remove ip nm [] = []"
| "rt_remove ip nm (rt # rts) =
     (if rt_netmask rt = nm \<and> rt_net rt = ip then rts else rt # rt_remove ip nm rts)"

definition rt_delete :: "u32 \<Rightarrow> u32 \<Rightarrow> 'a rt_state_scheme \<Rightarrow> 'a rt_state_scheme" where
  "rt_delete ip nm s = s\<lparr>rt_head := rt_remove ip nm (rt_head s)\<rparr>"

definition rt_alloc :: "u32 \<Rightarrow> u32 \<Rightarrow> u32 \<Rightarrow> int \<Rightarrow> u32 \<Rightarrow> nat \<Rightarrow> rtentry" where
  "rt_alloc net netmask gw metric flags n =
     \<lparr>rt_net = net, rt_netmask = netmask, rt_gw = gw, rt_flags = flags, rt_metric = metric, rt_dev = n\<rparr>"

fun rt_insert :: "rtentry \<Rightarrow> rtentry list \<Rightarrow> rtentry list" where
  "rt_insert rt [] = [rt]"
| "rt_insert rt (rte # rts) =
     (if rt_netmask rt \<ge> rt_netmask rte then rt # rte # rts else rte # rt_insert rt rts)"

definition rt_add ::
  "u32 \<Rightarrow> u32 \<Rightarrow> u32 \<Rightarrow> int \<Rightarrow> u32 \<Rightarrow> nat \<Rightarrow> 'a rt_state_scheme \<Rightarrow> 'a rt_state_scheme" where
  "rt_add net netmask gw metric flags n s =
     s\<lparr>rt_head := rt_insert (rt_alloc net netmask gw metric flags n) (rt_head s)\<rparr>"

text \<open>The build without \<^verbatim>\<open>CONFIG_TOP1\<close>: only the loopback net is routed at the start.\<close>

definition rt_init :: "'a rt_state_scheme \<Rightarrow> 'a rt_state_scheme" where
  "rt_init s =
     rt_add (LOCALNET (dev s (loop s))) (net_mask (dev s (loop s))) 0 0 RT_LOCALHOST (loop s) s"

text \<open>\<open>rt_output\<close> on a packet in network order; the result is the C function's.\<close>

definition rt_output :: "nat \<Rightarrow> 'a rt_state_scheme \<Rightarrow> int \<times> 'a rt_state_scheme" where
  "rt_output p s =
     (case rt_lookup (ip_dst (data_of s p)) s of
        None \<Rightarrow> (- 1, s)
      | Some rt \<Rightarrow>
          let s = upd_pkb p (\<lambda>b. b\<lparr>pk_rtdst := Some rt\<rparr>) s;
              s = upd_data p (set_ip_src (net_ipaddr (dev s (rt_dev rt)))) s
          in (0, s))"

section \<open>The order of the table\<close>

definition rt_sorted :: "rtentry list \<Rightarrow> bool" where
  "rt_sorted = sorted_wrt (\<lambda>a b. rt_netmask a \<ge> rt_netmask b)"

lemma set_rt_insert [simp]: "set (rt_insert rt rts) = insert rt (set rts)"
  by (induction rts) auto

lemma rt_insert_sorted: "rt_sorted rts \<Longrightarrow> rt_sorted (rt_insert rt rts)"
  by (induction rts) (auto simp: rt_sorted_def)

lemma set_rt_remove: "set (rt_remove ip nm rts) \<subseteq> set rts"
  by (induction rts) auto

lemma rt_remove_sorted: "rt_sorted rts \<Longrightarrow> rt_sorted (rt_remove ip nm rts)"
  by (induction rts) (auto simp: rt_sorted_def dest: subsetD [OF set_rt_remove])

lemma find_sorted:
  assumes "rt_sorted rts" "find P rts = Some rt"
  shows "rt \<in> set rts \<and> P rt \<and> (\<forall>rt' \<in> set rts. P rt' \<longrightarrow> rt_netmask rt' \<le> rt_netmask rt)"
  using assms by (induction rts) (auto simp: rt_sorted_def split: if_splits)

text \<open>The operations a program applies to its table.\<close>

datatype rt_op = Rt_Add u32 u32 u32 int u32 nat | Rt_Delete u32 u32

fun rt_run :: "rt_op list \<Rightarrow> 'a rt_state_scheme \<Rightarrow> 'a rt_state_scheme" where
  "rt_run [] s = s"
| "rt_run (Rt_Add net nm gw metric flags n # ops) s = rt_run ops (rt_add net nm gw metric flags n s)"
| "rt_run (Rt_Delete ip nm # ops) s = rt_run ops (rt_delete ip nm s)"

lemma rt_run_sorted: "rt_sorted (rt_head s) \<Longrightarrow> rt_sorted (rt_head (rt_run ops s))"
  by (induction ops s rule: rt_run.induct)
    (simp_all add: rt_add_def rt_delete_def rt_insert_sorted rt_remove_sorted)

fun adds_mask :: "u32 set \<Rightarrow> rt_op \<Rightarrow> bool" where
  "adds_mask M (Rt_Add net nm gw metric flags n) \<longleftrightarrow> nm \<in> M"
| "adds_mask M (Rt_Delete ip nm) \<longleftrightarrow> True"

lemma rt_run_masks:
  "\<forall>rt \<in> set (rt_head s). rt_netmask rt \<in> M \<Longrightarrow> \<forall>op \<in> set ops. adds_mask M op \<Longrightarrow>
   \<forall>rt \<in> set (rt_head (rt_run ops s)). rt_netmask rt \<in> M"
proof (induction ops s rule: rt_run.induct)
  case (2 net nm gw metric flags n ops s)
  then show ?case by (simp add: rt_add_def rt_alloc_def)
next
  case (3 ip nm ops s)
  then show ?case using set_rt_remove by (fastforce simp: rt_delete_def)
qed simp

section \<open>Contiguous netmasks\<close>

text \<open>The netmask of a prefix of \<open>m\<close> bits, as the host reads it.\<close>

definition netmask :: "nat \<Rightarrow> u32" where
  "netmask m = htonl (NOT (mask (32 - m)))"

lemma htonl_and: "htonl (a AND b) = htonl a AND htonl b"
  by (rule bit_word_eqI) (auto simp: bit_htonl bit_and_iff)

lemma netmask_less:
  assumes "i < j" "j \<le> 32"
  shows "netmask i < netmask j"
proof -
  have "NOT (mask (32 - i)) AND NOT (mask (32 - j)) = (NOT (mask (32 - i)) :: u32)"
    using assms by (intro bit_word_eqI) (auto simp: bit_simps)
  then have "netmask i AND netmask j = netmask i" by (simp add: netmask_def flip: htonl_and)
  then have "netmask i \<le> netmask j" by (metis word_and_le1)
  moreover have "netmask i \<noteq> netmask j"
  proof
    assume "netmask i = netmask j"
    then have "NOT (mask (32 - i)) = (NOT (mask (32 - j)) :: u32)"
      unfolding netmask_def by (metis htonl_htonl)
    then have "bit (NOT (mask (32 - i)) :: u32) (32 - j) = bit (NOT (mask (32 - j)) :: u32) (32 - j)" by simp
    then show False using assms by (simp add: bit_simps)
  qed
  ultimately show ?thesis by simp
qed

lemma netmask_le_iff: "i \<le> 32 \<Longrightarrow> j \<le> 32 \<Longrightarrow> netmask i \<le> netmask j \<longleftrightarrow> i \<le> j"
  using netmask_less [of i j] netmask_less [of j i] by (cases i j rule: linorder_cases) auto

text \<open>
  C12: routing is longest-prefix match. For every table that starts empty and is changed by \<open>rt_add\<close>
  with contiguous netmasks and by \<open>rt_delete\<close>, in any order, \<open>rt_lookup\<close> returns an entry of the
  table that matches the address and whose prefix is at least as long as that of every other match;
  it returns nothing only if no entry matches.
\<close>

theorem rt_lookup_longest_prefix:
  assumes "rt_head s = []"
    and "\<forall>op \<in> set ops. adds_mask (netmask ` {0..32}) op"
  shows "case rt_lookup ip (rt_run ops s) of
      None \<Rightarrow> \<forall>rt \<in> set (rt_head (rt_run ops s)). \<not> rt_match ip rt
    | Some rt \<Rightarrow> rt \<in> set (rt_head (rt_run ops s)) \<and> rt_match ip rt \<and>
        (\<exists>m\<le>32. rt_netmask rt = netmask m \<and>
          (\<forall>rt' \<in> set (rt_head (rt_run ops s)). rt_match ip rt' \<longrightarrow> (\<exists>m'\<le>m. rt_netmask rt' = netmask m')))"
proof (cases "rt_lookup ip (rt_run ops s)")
  case None
  then have "\<forall>rt \<in> set (rt_head (rt_run ops s)). \<not> rt_match ip rt" by (auto simp: rt_lookup_def find_None_iff)
  with None show ?thesis by simp
next
  case (Some rt)
  let ?t = "rt_head (rt_run ops s)"
  have "rt_sorted ?t" using assms(1) by (intro rt_run_sorted) (simp add: rt_sorted_def)
  from find_sorted [OF this] Some
  have rt: "rt \<in> set ?t" "rt_match ip rt" "\<forall>rt' \<in> set ?t. rt_match ip rt' \<longrightarrow> rt_netmask rt' \<le> rt_netmask rt"
    by (auto simp: rt_lookup_def)
  have M: "\<forall>rt \<in> set ?t. rt_netmask rt \<in> netmask ` {0..32}"
    using assms by (intro rt_run_masks) auto
  obtain m where m: "m \<le> 32" "rt_netmask rt = netmask m" using M rt(1) by auto
  have "\<exists>m'\<le>m. rt_netmask rt' = netmask m'" if rt': "rt' \<in> set ?t" "rt_match ip rt'" for rt'
  proof -
    obtain m' where m': "m' \<le> 32" "rt_netmask rt' = netmask m'" using M rt'(1) by auto
    then have "m' \<le> m" using rt(3) rt' m netmask_le_iff [of m' m] by auto
    with m' show ?thesis by blast
  qed
  with rt m Some show ?thesis by auto
qed

definition sample_routes :: "rt_op list" where
  "sample_routes = [Rt_Add 0 (netmask 0) 0x0200000a 0 RT_DEFAULT 1, Rt_Add 0x0000000a (netmask 8) 0 0 RT_NONE 1,
     Rt_Add 0x0100000a (netmask 32) 0 0 RT_LOCALHOST 0, Rt_Add 0x0000a8c0 (netmask 24) 0 0 RT_NONE 2,
     Rt_Delete 0x0000a8c0 (netmask 24)]"

definition empty_rt :: rt_state where
  "empty_rt = net_state.extend empty_net \<lparr>rt_head = []\<rparr>"

lemma netmask_values: "netmask 0 = 0" "netmask 8 = 0xff" "netmask 24 = 0xffffff" "netmask 32 = 0xffffffff"
  by (simp_all add: netmask_def htonl_def mask_eq_exp_minus_1)

theorem rt_lookup_longest_prefix_witness:
  "(\<exists>rt. rt_lookup 0x0500000a (rt_run sample_routes empty_rt) = Some rt \<and> rt_netmask rt = netmask 8) \<and>
   (\<exists>rt. rt_lookup 0x0100000a (rt_run sample_routes empty_rt) = Some rt \<and> rt_netmask rt = netmask 32 \<and>
     rt_match 0x0100000a rt)"
proof -
  have h: "rt_head empty_rt = []" by (simp add: empty_rt_def net_state.extend_def)
  have m: "\<forall>op \<in> set sample_routes. adds_mask (netmask ` {0..32}) op"
    by (simp add: sample_routes_def)
  have "map_option rt_netmask (rt_lookup 0x0500000a (rt_run sample_routes empty_rt)) = Some (netmask 8) \<and>
    map_option rt_netmask (rt_lookup 0x0100000a (rt_run sample_routes empty_rt)) = Some (netmask 32)"
    by (simp add: sample_routes_def netmask_values rt_add_def rt_alloc_def rt_delete_def rt_lookup_def rt_match_def h)
  then show ?thesis
    using rt_lookup_longest_prefix [OF h m, of "0x0100000a"] by auto
qed

end
