(* ===== verification/Shell.thy ===== *)
theory Shell
  imports Lib Route
begin

text \<open>
  The shell: \<^verbatim>\<open>src/shell/shell.c\<close> and the commands of \<^verbatim>\<open>src/shell/net_command.c\<close> that change the stack. A line is split in its
  buffer, looked up in the table of commands, and run at once or by a second thread.
\<close>

section \<open>The command line\<close>

text \<open>
  A line is split in place: \<^verbatim>\<open>get_arg\<close> overwrites the blanks before an argument with zeros and returns a pointer into the
  buffer. Buffers are lists of characters, pointers into them are indices; reading behind the end and writing
  behind the sixteen entries of \<^verbatim>\<open>argv\<close> are errors.
\<close>

datatype shell_error = Line_Overrun | Argv_Overflow

abbreviation NUL :: char where "NUL \<equiv> CHR 0x00"

definition isblank :: "char \<Rightarrow> bool" where
  "isblank c \<longleftrightarrow> c = CHR '' '' \<or> c = CHR 0x09"

definition arg_at :: "string \<Rightarrow> nat \<Rightarrow> string" where
  "arg_at buf p = takeWhile (\<lambda>c. c \<noteq> NUL) (drop p buf)"

text \<open>\<open>None\<close> is the end of the input; otherwise the line that \<^verbatim>\<open>readline\<close> returned.\<close>

definition get_line :: "string option \<Rightarrow> nat \<Rightarrow> string \<Rightarrow> nat \<times> string" where
  "get_line inp bufsz buf =
     (let buf = (case inp of
            None \<Rightarrow> ''exit'' @ NUL # drop 5 buf
          | Some s \<Rightarrow> take (bufsz - 1) (s @ replicate (bufsz - 1) NUL) @ [NUL])
      in (length (arg_at buf 0), buf))"

function skip_blank :: "string \<Rightarrow> nat \<Rightarrow> shell_error + string \<times> nat" where
  "skip_blank buf p =
     (if p < length buf
      then if isblank (buf ! p) then skip_blank (buf[p := NUL]) (Suc p) else Inr (buf, p)
      else Inl Line_Overrun)"
  by pat_completeness auto

termination by (relation "measure (\<lambda>(buf, p). length buf - p)") auto

function skip_word :: "string \<Rightarrow> nat \<Rightarrow> shell_error + nat" where
  "skip_word buf p =
     (if p < length buf
      then if buf ! p \<noteq> NUL \<and> \<not> isblank (buf ! p) then skip_word buf (Suc p) else Inr p
      else Inl Line_Overrun)"
  by pat_completeness auto

termination by (relation "measure (\<lambda>(buf, p). length buf - p)") auto

declare skip_blank.simps [simp del] skip_word.simps [simp del]

definition get_arg :: "string \<Rightarrow> nat \<Rightarrow> shell_error + nat option \<times> string \<times> nat" where
  "get_arg buf p =
     (case skip_blank buf p of
        Inl e \<Rightarrow> Inl e
      | Inr (buf, p) \<Rightarrow>
          if buf ! p = NUL then Inr (None, buf, p)
          else case skip_word buf p of Inl e \<Rightarrow> Inl e | Inr q \<Rightarrow> Inr (Some p, buf, q))"

function parse_line_loop :: "string \<Rightarrow> nat \<Rightarrow> nat list \<Rightarrow> shell_error + nat list \<times> string" where
  "parse_line_loop buf p argv =
     (case get_arg buf p of
        Inl e \<Rightarrow> Inl e
      | Inr (None, buf, p) \<Rightarrow> Inr (argv, buf)
      | Inr (Some a, buf, p) \<Rightarrow>
          if length argv < 16 then parse_line_loop buf p (argv @ [a]) else Inl Argv_Overflow)"
  by pat_completeness auto

termination by (relation "measure (\<lambda>(buf, p, argv). 16 - length argv)") auto

declare parse_line_loop.simps [simp del]

definition parse_line :: "string \<Rightarrow> nat \<Rightarrow> shell_error + nat list \<times> string" where
  "parse_line buf len = (if len = 0 then Inr ([], buf) else parse_line_loop buf 0 [])"

lemma words_shrinks: "dropWhile isblank s \<noteq> [] \<Longrightarrow> length (dropWhile (\<lambda>c. \<not> isblank c) (dropWhile isblank s)) < length s"
proof -
  assume a: "dropWhile isblank s \<noteq> []"
  then obtain c t where t: "dropWhile isblank s = c # t" by (cases "dropWhile isblank s") auto
  then have c: "\<not> isblank c" using hd_dropWhile [OF a] by simp
  have "length (dropWhile (\<lambda>c. \<not> isblank c) t) \<le> length t" by (rule length_dropWhile_le)
  also have "\<dots> < length s" using length_dropWhile_le [of isblank s] t(1) by simp
  finally show ?thesis using t c by simp
qed

text \<open>What it is meant to compute: the words of the line.\<close>

function words :: "string \<Rightarrow> string list" where
  "words s =
     (let t = dropWhile isblank s
      in if t = [] then [] else takeWhile (\<lambda>c. \<not> isblank c) t # words (dropWhile (\<lambda>c. \<not> isblank c) t))"
  by pat_completeness auto

termination by (relation "measure length") (use words_shrinks in auto)

declare words.simps [simp del]

lemma skip_blank_eq:
  assumes "\<forall>c \<in> set bs. isblank c" "\<not> isblank c"
  shows "skip_blank (pre @ bs @ c # post) (length pre) = Inr (pre @ replicate (length bs) NUL @ c # post, length pre + length bs)"
  using assms(1)
proof (induction bs arbitrary: pre)
  case Nil
  then show ?case using assms(2) by (subst skip_blank.simps) simp
next
  case (Cons b bs)
  then show ?case using Cons.IH [of "pre @ [NUL]"]
    by (subst skip_blank.simps) (simp add: list_update_append)
qed

lemma skip_word_eq:
  assumes "\<forall>c \<in> set w. c \<noteq> NUL \<and> \<not> isblank c" "c = NUL \<or> isblank c"
  shows "skip_word (pre @ w @ c # post) (length pre) = Inr (length pre + length w)"
  using assms(1)
proof (induction w arbitrary: pre)
  case Nil
  then show ?case using assms(2) by (subst skip_word.simps) auto
next
  case (Cons b w)
  then show ?case using Cons.IH [of "pre @ [b]"] by (subst skip_word.simps) simp
qed

lemma get_arg_none:
  assumes "\<forall>c \<in> set bs. isblank c"
  shows "get_arg (pre @ bs @ NUL # post) (length pre) =
    Inr (None, pre @ replicate (length bs) NUL @ NUL # post, length pre + length bs)"
  using skip_blank_eq [OF assms, of NUL pre post] by (simp add: get_arg_def isblank_def nth_append)

lemma get_arg_some:
  assumes "\<forall>c \<in> set bs. isblank c" "w \<noteq> []" "\<forall>c \<in> set w. c \<noteq> NUL \<and> \<not> isblank c" "d = NUL \<or> isblank d"
  shows "get_arg (pre @ bs @ w @ d # post) (length pre) =
    Inr (Some (length pre + length bs), pre @ replicate (length bs) NUL @ w @ d # post, length pre + length bs + length w)"
proof -
  obtain c w' where w: "w = c # w'" using assms(2) by (cases w) auto
  then have "skip_blank (pre @ bs @ w @ d # post) (length pre) = Inr (pre @ replicate (length bs) NUL @ w @ d # post, length pre + length bs)"
    using skip_blank_eq [OF assms(1), of c pre "w' @ d # post"] assms(3) by simp
  moreover have "skip_word (pre @ replicate (length bs) NUL @ w @ d # post) (length pre + length bs) = Inr (length pre + length bs + length w)"
    using skip_word_eq [OF assms(3,4), of "pre @ replicate (length bs) NUL" post] by simp
  ultimately show ?thesis using assms(3) by (simp add: get_arg_def w nth_append)
qed

lemma parse_line_loop_words:
  assumes "NUL \<notin> set rest" "length argv \<le> 16"
  shows "if length argv + length (words rest) \<le> 16
    then \<exists>rest' new. parse_line_loop (pre @ rest @ NUL # post) (length pre) argv = Inr (argv @ new, pre @ rest' @ NUL # post) \<and>
      length rest' = length rest \<and> (rest \<noteq> [] \<longrightarrow> isblank (hd rest) \<longrightarrow> hd rest' = NUL) \<and>
      map (arg_at (pre @ rest' @ NUL # post)) new = words rest
    else parse_line_loop (pre @ rest @ NUL # post) (length pre) argv = Inl Argv_Overflow"
  using assms
proof (induction rest arbitrary: pre argv rule: words.induct)
  case (1 s)
  define bs where "bs = takeWhile isblank s"
  define t where "t = dropWhile isblank s"
  have s: "s = bs @ t" by (simp add: bs_def t_def)
  have bs: "\<forall>c \<in> set bs. isblank c" by (auto simp: bs_def dest: set_takeWhileD)
  have first: "hd (replicate (length bs) NUL @ xs) = NUL" if "s \<noteq> []" "isblank (hd s)" for xs
    using that by (cases s) (auto simp: bs_def)
  show ?case
  proof (cases "t = []")
    case True
    then have "words s = []" by (subst words.simps) (simp add: t_def)
    moreover have "parse_line_loop (pre @ bs @ NUL # post) (length pre) argv = Inr (argv, pre @ replicate (length bs) NUL @ NUL # post)"
      by (subst parse_line_loop.simps) (simp only: get_arg_none [OF bs] sum.case option.case prod.case)
    moreover have "hd (replicate (length bs) NUL) = NUL" if "s \<noteq> []" "isblank (hd s)" using first [OF that, of "[]"] by simp
    ultimately show ?thesis using 1(3) unfolding s True append_Nil2
      by (simp add: exI [of _ "replicate (length bs) NUL"])
  next
    case False
    define w where "w = takeWhile (\<lambda>c. \<not> isblank c) t"
    define r where "r = dropWhile (\<lambda>c. \<not> isblank c) t"
    have t: "t = w @ r" unfolding w_def r_def by (rule takeWhile_dropWhile_id [symmetric])
    have "\<not> isblank (hd t)" using False hd_dropWhile [of isblank s] by (simp add: t_def)
    then have w: "w \<noteq> []" using False by (cases t) (simp_all add: w_def)
    have wc: "\<forall>c \<in> set w. c \<noteq> NUL \<and> \<not> isblank c" using 1(2) by (auto simp: s t) (auto simp: w_def dest: set_takeWhileD)
    have ws: "words s = w # words r" using False by (subst words.simps) (simp add: t_def [symmetric] w_def r_def)
    have rb: "r = [] \<or> isblank (hd r)" using hd_dropWhile [of "\<lambda>c. \<not> isblank c" t] by (auto simp: r_def)
    let ?pre = "pre @ replicate (length bs) NUL @ w" and ?a = "length pre + length bs"
    have step: "parse_line_loop (pre @ s @ NUL # post) (length pre) argv =
      (if length argv < 16 then parse_line_loop (?pre @ r @ NUL # post) (length ?pre) (argv @ [?a]) else Inl Argv_Overflow)"
    proof -
      obtain d post' where d: "r @ NUL # post = d # post'" "d = NUL \<or> isblank d" using rb by (cases r) auto
      have "get_arg (pre @ s @ NUL # post) (length pre) = Inr (Some ?a, ?pre @ r @ NUL # post, length ?pre)"
        using get_arg_some [OF bs w wc d(2), of pre post'] by (simp add: s t d(1) add.assoc)
      then show ?thesis by (subst parse_line_loop.simps) (simp only: sum.case option.case prod.case)
    qed
    have IH: "length argv < 16 \<Longrightarrow> if length (argv @ [?a]) + length (words r) \<le> 16
      then \<exists>rest' new. parse_line_loop (?pre @ r @ NUL # post) (length ?pre) (argv @ [?a]) = Inr ((argv @ [?a]) @ new, ?pre @ rest' @ NUL # post) \<and>
        length rest' = length r \<and> (r \<noteq> [] \<longrightarrow> isblank (hd r) \<longrightarrow> hd rest' = NUL) \<and>
        map (arg_at (?pre @ rest' @ NUL # post)) new = words r
      else parse_line_loop (?pre @ r @ NUL # post) (length ?pre) (argv @ [?a]) = Inl Argv_Overflow"
    proof -
      assume "length argv < 16"
      then show ?thesis using 1(1) [OF refl, folded t_def, OF False, folded r_def, of "argv @ [?a]" ?pre] 1(2) by (simp add: s t)
    qed
    show ?thesis
    proof (cases "length argv + length (words s) \<le> 16")
      case True
      then have l: "length argv < 16" "length (argv @ [?a]) + length (words r) \<le> 16" by (simp_all add: ws)
      obtain rest' new where n: "parse_line_loop (?pre @ r @ NUL # post) (length ?pre) (argv @ [?a]) = Inr ((argv @ [?a]) @ new, ?pre @ rest' @ NUL # post)"
        "length rest' = length r" "r \<noteq> [] \<longrightarrow> isblank (hd r) \<longrightarrow> hd rest' = NUL" "map (arg_at (?pre @ rest' @ NUL # post)) new = words r"
        using IH [OF l(1), unfolded if_P [OF l(2)]] by blast
      obtain x where "rest' @ NUL # post = NUL # x" using n(2,3) rb by (cases rest') auto
      then have "arg_at (?pre @ rest' @ NUL # post) ?a = w" using wc by (simp add: arg_at_def takeWhile_append)
      then have "parse_line_loop (pre @ s @ NUL # post) (length pre) argv =
          Inr (argv @ ?a # new, pre @ (replicate (length bs) NUL @ w @ rest') @ NUL # post) \<and>
        length (replicate (length bs) NUL @ w @ rest') = length s \<and>
        (s \<noteq> [] \<longrightarrow> isblank (hd s) \<longrightarrow> hd (replicate (length bs) NUL @ w @ rest') = NUL) \<and>
        map (arg_at (pre @ (replicate (length bs) NUL @ w @ rest') @ NUL # post)) (?a # new) = words s"
        using n l first unfolding step ws by (simp add: s t)
      then show ?thesis unfolding if_P [OF True] by blast
    next
      case False
      then show ?thesis using step IH by (simp add: ws split: if_splits)
    qed
  qed
qed

text \<open>
  C17: splitting the command line. For whatever line the user types, \<^verbatim>\<open>parse_line\<close> on the buffer that \<^verbatim>\<open>get_line\<close> filled
  returns pointers to exactly the blank-separated words of its first 255 characters, each terminated by a zero; when
  there are more than sixteen words it writes behind the end of \<^verbatim>\<open>argv\<close>.
\<close>

theorem parse_line_words:
  assumes "NUL \<notin> set line"
  shows "let (len, buf) = get_line (Some line) 256 old; ws = words (take 255 line) in
    if length ws \<le> 16 then \<exists>argv buf'. parse_line buf len = Inr (argv, buf') \<and> map (arg_at buf') argv = ws
    else parse_line buf len = Inl Argv_Overflow"
proof -
  define s where "s = take 255 line"
  define k where "k = 255 - length s"
  have s: "NUL \<notin> set s" using assms by (auto simp: s_def dest: in_set_takeD)
  have buf: "take 255 (line @ replicate 255 NUL) @ [NUL] = s @ NUL # replicate k NUL"
    by (simp add: s_def k_def min_def replicate_append_same)
  have "takeWhile (\<lambda>c. c \<noteq> NUL) (s @ NUL # replicate k NUL) = s" using s by (simp add: takeWhile_append)
  then have g: "get_line (Some line) 256 old = (length s, s @ NUL # replicate k NUL)"
    unfolding get_line_def arg_at_def Let_def option.case drop_0 by (simp add: buf del: take_append)
  have e: "parse_line (s @ NUL # replicate k NUL) (length s) = parse_line_loop (s @ NUL # replicate k NUL) 0 []"
  proof (cases "s = []")
    case True
    have "get_arg (NUL # replicate k NUL) 0 = Inr (None, NUL # replicate k NUL, 0)"
      using get_arg_none [of "[]" "[]" "replicate k NUL"] by simp
    then show ?thesis using True by (subst parse_line_loop.simps) (simp add: parse_line_def)
  qed (simp add: parse_line_def)
  show ?thesis
    using parse_line_loop_words [OF s, of "[]" "[]" "replicate k NUL"] unfolding g Let_def prod.case s_def [symmetric]
    by (simp add: e split: if_splits) blast
qed

theorem parse_line_words_witness:
  "\<exists>argv buf'. parse_line (snd (get_line (Some ''debug  -n ip '') 256 [])) (fst (get_line (Some ''debug  -n ip '') 256 [])) = Inr (argv, buf') \<and>
    map (arg_at buf') argv = [''debug'', ''-n'', ''ip'']"
proof -
  have "words (take 255 ''debug  -n ip '') = [''debug'', ''-n'', ''ip'']" by (simp add: words.simps isblank_def)
  then show ?thesis using parse_line_words [of "''debug  -n ip ''" "[]"] by (simp add: case_prod_beta)
qed

section \<open>The commands\<close>

datatype cmd_func = Builtin_Help | Builtin_Clear | Builtin_Exit | Netdebug | Ping2 | Arpcache | Route_Cmd | Ifconfig | Stat | Ping | Snc | Perf |
  Attach_Dev | Attach_Shmeth_Dev

record command =
  cmd_new :: bool
  cmd_num :: int
  cmd_func :: "cmd_func option"
  cmd_str :: string

abbreviation (input) CMD_NONUM :: int where "CMD_NONUM \<equiv> - 1"

text \<open>The table of a build without \<^verbatim>\<open>CONFIG_DPDK\<close>; the last entry marks the end. The help texts are left out.\<close>

definition cmds :: "command list" where
  "cmds =
     [\<lparr>cmd_new = False, cmd_num = CMD_NONUM, cmd_func = Some Builtin_Help, cmd_str = ''help''\<rparr>,
      \<lparr>cmd_new = False, cmd_num = CMD_NONUM, cmd_func = Some Builtin_Clear, cmd_str = ''clear''\<rparr>,
      \<lparr>cmd_new = False, cmd_num = CMD_NONUM, cmd_func = Some Builtin_Exit, cmd_str = ''exit''\<rparr>,
      \<lparr>cmd_new = False, cmd_num = CMD_NONUM, cmd_func = Some Netdebug, cmd_str = ''debug''\<rparr>,
      \<lparr>cmd_new = False, cmd_num = CMD_NONUM, cmd_func = Some Ping2, cmd_str = ''ping2''\<rparr>,
      \<lparr>cmd_new = False, cmd_num = 1, cmd_func = Some Arpcache, cmd_str = ''arpcache''\<rparr>,
      \<lparr>cmd_new = False, cmd_num = CMD_NONUM, cmd_func = Some Route_Cmd, cmd_str = ''route''\<rparr>,
      \<lparr>cmd_new = False, cmd_num = 1, cmd_func = Some Ifconfig, cmd_str = ''ifconfig''\<rparr>,
      \<lparr>cmd_new = False, cmd_num = 1, cmd_func = Some Stat, cmd_str = ''stat''\<rparr>,
      \<lparr>cmd_new = True, cmd_num = CMD_NONUM, cmd_func = Some Ping, cmd_str = ''ping''\<rparr>,
      \<lparr>cmd_new = True, cmd_num = CMD_NONUM, cmd_func = Some Snc, cmd_str = ''snc''\<rparr>,
      \<lparr>cmd_new = True, cmd_num = CMD_NONUM, cmd_func = Some Perf, cmd_str = ''perf''\<rparr>,
      \<lparr>cmd_new = False, cmd_num = CMD_NONUM, cmd_func = Some Attach_Dev, cmd_str = ''attach_dev''\<rparr>,
      \<lparr>cmd_new = False, cmd_num = CMD_NONUM, cmd_func = Some Attach_Shmeth_Dev, cmd_str = ''attach_shmeth_dev''\<rparr>,
      \<lparr>cmd_new = False, cmd_num = 0, cmd_func = None, cmd_str = []\<rparr>]"

fun find_cmd :: "command list \<Rightarrow> string \<Rightarrow> command option" where
  "find_cmd [] name = None"
| "find_cmd (c # cs) name =
     (if cmd_num c = 0 then None else if cmd_str c = name then Some c else find_cmd cs name)"

text \<open>What becomes of a line: an error message, a command for the worker thread, or one that runs at once.\<close>

datatype dispatch = Not_Found | Bad_Count command | Hand_Over command "string list" | Run_Now command "string list"

definition parse_args :: "string list \<Rightarrow> dispatch" where
  "parse_args argv =
     (case find_cmd cmds (hd argv) of
        None \<Rightarrow> Not_Found
      | Some cmd \<Rightarrow>
          if cmd_num cmd \<noteq> CMD_NONUM \<and> cmd_num cmd \<noteq> int (length argv) then Bad_Count cmd
          else if cmd_new cmd then Hand_Over cmd argv
          else Run_Now cmd argv)"

text \<open>One round of \<^verbatim>\<open>shell_master\<close>: a line that holds no word is ignored.\<close>

definition shell_line :: "string option \<Rightarrow> string \<Rightarrow> shell_error + dispatch option \<times> string" where
  "shell_line inp linebuf =
     (let (linelen, linebuf) = get_line inp 256 linebuf
      in case parse_line linebuf linelen of
           Inl e \<Rightarrow> Inl e
         | Inr (argv, linebuf) \<Rightarrow> Inr (if argv = [] then None else Some (parse_args (map (arg_at linebuf) argv)), linebuf))"

subsection \<open>Debugging\<close>

definition debug_flag :: "string \<Rightarrow> u32 option" where
  "debug_flag a =
     (if a = ''dev'' then Some 0x01 else if a = ''l2'' then Some 0x02 else if a = ''arp'' then Some 0x04 else if a = ''ip'' then Some 0x08
      else if a = ''icmp'' then Some 0x10 else if a = ''udp'' then Some 0x20 else if a = ''tcp'' then Some 0x40
      else if a = ''tcpstate'' then Some 0x80 else if a = ''all'' then Some 0xffffffff else None)"

record debug_opts =
  noblock :: bool
  dclear :: bool
  debug :: u32

text \<open>The loop goes backwards from the last argument to the first behind the name, or to the name when there is none.\<close>

fun netdebug_loop :: "string list \<Rightarrow> nat \<Rightarrow> debug_opts \<Rightarrow> debug_opts option" where
  "netdebug_loop argv 0 r = Some r"
| "netdebug_loop argv (Suc argc) r =
     (let a = argv ! argc;
          next = (if a = ''-n'' then Some (r\<lparr>noblock := True\<rparr>)
                  else if a = ''-c'' then Some (r\<lparr>dclear := True\<rparr>)
                  else map_option (\<lambda>f. r\<lparr>debug := debug r OR f\<rparr>) (debug_flag a))
      in case next of
           None \<Rightarrow> None
         | Some r \<Rightarrow> if argc > 1 then netdebug_loop argv argc r else Some r)"

text \<open>\<open>None\<close> is the usage message. Otherwise the flags while the command blocks and those when it returns.\<close>

definition netdebug :: "string list \<Rightarrow> u32 \<Rightarrow> (u32 \<times> u32) option" where
  "netdebug argv net_debug =
     (case netdebug_loop argv (length argv) \<lparr>noblock = False, dclear = False, debug = 0\<rparr> of
        None \<Rightarrow> None
      | Some r \<Rightarrow>
          if dclear r
          then let nd = (if debug r \<noteq> 0 then net_debug AND NOT (debug r) else 0) in Some (nd, nd)
          else
            let nd = net_debug OR debug r
            in if noblock r then Some (nd, nd) else Some (nd, 0))"

lemma netdebug_set_clear:
  assumes "debug_flag f = Some b"
  shows "netdebug [''debug'', ''-n'', f] nd = Some (nd OR b, nd OR b)"
    "netdebug [''debug'', ''-c'', f] (nd OR b) = Some (nd AND NOT b, nd AND NOT b)"
    "netdebug [''debug'', f] nd = Some (nd OR b, 0)" "netdebug [''debug''] nd = None"
proof -
  have f: "f \<noteq> ''-n''" "f \<noteq> ''-c''" "b \<noteq> 0" using assms by (auto simp: debug_flag_def split: if_splits)
  have d: "debug_flag ''debug'' = None" by (simp add: debug_flag_def)
  have "(nd OR b) AND NOT b = nd AND NOT b" by (rule bit_word_eqI) (auto simp: bit_or_iff bit_and_iff bit_not_iff)
  then show "netdebug [''debug'', ''-n'', f] nd = Some (nd OR b, nd OR b)"
    "netdebug [''debug'', ''-c'', f] (nd OR b) = Some (nd AND NOT b, nd AND NOT b)"
    "netdebug [''debug'', f] nd = Some (nd OR b, 0)" "netdebug [''debug''] nd = None"
    using assms f d by (simp_all add: netdebug_def numeral_3_eq_3 numeral_2_eq_2 Let_def)
qed

subsection \<open>Routes\<close>

text \<open>
  The results of the parsers are not looked at: where the text is malformed the variables keep whatever value they
  had on the stack (\<open>jip\<close>, \<open>jmask\<close>, \<open>jgw\<close>).
\<close>

definition route_cmd :: "u32 \<Rightarrow> u32 \<Rightarrow> u32 \<Rightarrow> u32 \<Rightarrow> string list \<Rightarrow> 'a rt_state_scheme \<Rightarrow> 'a rt_state_scheme" where
  "route_cmd ub jip jmask jgw argv s =
     (if length argv = 1 then s
      else if length argv = 4 \<and> argv ! 1 = ''add''
      then
        let (ip, nm) = (case parse_ip_mask ub (argv ! 2) of None \<Rightarrow> (jip, jmask) | Some x \<Rightarrow> x);
            gw = (case str2ip (argv ! 3) of None \<Rightarrow> jgw | Some x \<Rightarrow> x)
        in case rt_lookup gw s of None \<Rightarrow> s | Some e \<Rightarrow> rt_add ip nm gw 10 RT_NONE (rt_dev e) s
      else if length argv = 3 \<and> argv ! 1 = ''delete''
      then
        let (ip, nm) = (case parse_ip_mask ub (argv ! 2) of None \<Rightarrow> (jip, jmask) | Some x \<Rightarrow> x)
        in rt_delete ip nm s
      else s)"

lemma rt_remove_insert: "rt_remove (rt_net rt) (rt_netmask rt) (rt_insert rt rts) = rts"
  by (induction rts) auto

text \<open>What \<^verbatim>\<open>route add\<close> entered, \<^verbatim>\<open>route delete\<close> takes out again.\<close>

lemma route_add_delete:
  assumes "parse_ip_mask ub net = Some (ip, nm)" "str2ip gw = Some g" "rt_lookup g s = Some e"
  shows "rt_head (route_cmd ub a b c [n, ''add'', net, gw] s) = rt_insert (rt_alloc ip nm g 10 RT_NONE (rt_dev e)) (rt_head s)"
    "route_cmd ub a b c [n, ''delete'', net] (route_cmd ub a b c [n, ''add'', net, gw] s) = s"
proof -
  have "rt_remove ip nm (rt_insert (rt_alloc ip nm g 10 0 (rt_dev e)) (rt_head s)) = rt_head s"
    using rt_remove_insert [of "rt_alloc ip nm g 10 0 (rt_dev e)" "rt_head s"] by (simp add: rt_alloc_def)
  then show "rt_head (route_cmd ub a b c [n, ''add'', net, gw] s) = rt_insert (rt_alloc ip nm g 10 RT_NONE (rt_dev e)) (rt_head s)"
    "route_cmd ub a b c [n, ''delete'', net] (route_cmd ub a b c [n, ''add'', net, gw] s) = s"
    using assms by (simp_all add: route_cmd_def rt_add_def rt_delete_def)
qed

section \<open>The two threads\<close>

text \<open>
  Commands with the flag \<^verbatim>\<open>cmd_new\<close> run in a worker thread. The master puts the command into \<^verbatim>\<open>pending_work\<close>, signals the worker and
  waits until the worker has cleared it. Neither thread takes the mutexes that go with the condition variables, so the
  statements of the two interleave freely; between the test of a loop condition and the start of the wait the
  other thread may run. A thread that waits on a condition variable goes on when it is signalled
  while it waits, or without reason (a spurious wakeup, which POSIX allows).
\<close>

datatype master_pc = M_Read | M_Signal | M_Check | M_Sleep | M_Wait | M_Exit_Signal | M_Done
datatype worker_pc = W_Loop | W_Check | W_Sleep | W_Wait | W_Woken | W_Run | W_Clear | W_Signal | W_Out

text \<open>\<open>given\<close> and \<open>ran\<close> are the histories of the commands that were handed over and of those that were run.\<close>

record 'c shell_sys =
  mpc :: master_pc
  wpc :: worker_pc
  pending_work :: "'c option"
  work_quit :: bool
  given :: "'c list"
  ran :: "'c list"

definition shell_init :: "'c shell_sys" where
  "shell_init = \<lparr>mpc = M_Read, wpc = W_Loop, pending_work = None, work_quit = False, given = [], ran = []\<rparr>"

definition signal_worker :: "'c shell_sys \<Rightarrow> 'c shell_sys" where
  "signal_worker s = (if wpc s = W_Wait then s\<lparr>wpc := W_Woken\<rparr> else s)"

definition signal_master :: "'c shell_sys \<Rightarrow> 'c shell_sys" where
  "signal_master s = (if mpc s = M_Wait then s\<lparr>mpc := M_Check\<rparr> else s)"

text \<open>The master: the thread of \<^verbatim>\<open>shell_master\<close> in \<^verbatim>\<open>parse_args\<close> and \<^verbatim>\<open>builtin_exit\<close>.\<close>

inductive master_step :: "'c shell_sys \<Rightarrow> 'c shell_sys \<Rightarrow> bool" where
  m_hand: "mpc s = M_Read \<Longrightarrow> master_step s (s\<lparr>mpc := M_Signal, pending_work := Some c, given := given s @ [c]\<rparr>)"
| m_signal: "mpc s = M_Signal \<Longrightarrow> master_step s (signal_worker (s\<lparr>mpc := M_Check\<rparr>))"
| m_check: "mpc s = M_Check \<Longrightarrow> master_step s (s\<lparr>mpc := if pending_work s = None then M_Read else M_Sleep\<rparr>)"
| m_sleep: "mpc s = M_Sleep \<Longrightarrow> master_step s (s\<lparr>mpc := M_Wait\<rparr>)"
| m_exit: "mpc s = M_Read \<Longrightarrow> master_step s (s\<lparr>mpc := M_Exit_Signal, work_quit := True\<rparr>)"
| m_exit_signal: "mpc s = M_Exit_Signal \<Longrightarrow> master_step s (signal_worker (s\<lparr>mpc := M_Done\<rparr>))"

text \<open>The worker: \<^verbatim>\<open>shell_worker\<close>. The pending command is run when both loop conditions were passed.\<close>

inductive worker_step :: "'c shell_sys \<Rightarrow> 'c shell_sys \<Rightarrow> bool" where
  w_loop: "wpc s = W_Loop \<Longrightarrow> worker_step s (s\<lparr>wpc := if work_quit s then W_Out else W_Check\<rparr>)"
| w_check: "wpc s = W_Check \<Longrightarrow> worker_step s (s\<lparr>wpc := if pending_work s = None then W_Sleep else W_Run\<rparr>)"
| w_sleep: "wpc s = W_Sleep \<Longrightarrow> worker_step s (s\<lparr>wpc := W_Wait\<rparr>)"
| w_woken: "wpc s = W_Woken \<Longrightarrow> worker_step s (s\<lparr>wpc := if work_quit s then W_Out else W_Check\<rparr>)"
| w_run: "wpc s = W_Run \<Longrightarrow> pending_work s = Some c \<Longrightarrow> worker_step s (s\<lparr>wpc := W_Clear, ran := ran s @ [c]\<rparr>)"
| w_clear: "wpc s = W_Clear \<Longrightarrow> worker_step s (s\<lparr>wpc := W_Signal, pending_work := None\<rparr>)"
| w_signal: "wpc s = W_Signal \<Longrightarrow> worker_step s (signal_master (s\<lparr>wpc := W_Loop\<rparr>))"

inductive spurious_step :: "'c shell_sys \<Rightarrow> 'c shell_sys \<Rightarrow> bool" where
  s_master: "mpc s = M_Wait \<Longrightarrow> spurious_step s (s\<lparr>mpc := M_Check\<rparr>)"
| s_worker: "wpc s = W_Wait \<Longrightarrow> spurious_step s (s\<lparr>wpc := W_Woken\<rparr>)"

inductive_cases master_cases: "master_step s t"
inductive_cases worker_cases: "worker_step s t"
inductive_cases spurious_cases: "spurious_step s t"

inductive shell_reach :: "'c shell_sys \<Rightarrow> bool" where
  r_init: "shell_reach shell_init"
| r_master: "shell_reach s \<Longrightarrow> master_step s t \<Longrightarrow> shell_reach t"
| r_worker: "shell_reach s \<Longrightarrow> worker_step s t \<Longrightarrow> shell_reach t"
| r_spurious: "shell_reach s \<Longrightarrow> spurious_step s t \<Longrightarrow> shell_reach t"

text \<open>
  The invariant: a command is pending only while the master is in \<^verbatim>\<open>parse_args\<close>, and it is the one command that was given and
  has not been run, unless the worker has run it and is about to clear it.
\<close>

definition shell_inv :: "'c shell_sys \<Rightarrow> bool" where
  "shell_inv s \<longleftrightarrow>
     (pending_work s \<noteq> None \<longrightarrow> mpc s \<in> {M_Signal, M_Check, M_Sleep, M_Wait}) \<and>
     (wpc s \<in> {W_Run, W_Clear} \<longrightarrow> pending_work s \<noteq> None) \<and>
     given s = ran s @ (case pending_work s of None \<Rightarrow> [] | Some c \<Rightarrow> if wpc s = W_Clear then [] else [c]) \<and>
     (wpc s = W_Clear \<longrightarrow> (\<exists>c. pending_work s = Some c \<and> ran s \<noteq> [] \<and> last (ran s) = c))"

lemmas shell_defs = shell_inv_def signal_worker_def signal_master_def

lemma master_step_inv: "master_step s t \<Longrightarrow> shell_inv s \<Longrightarrow> shell_inv t"
  by (erule master_cases) (auto simp: shell_defs split: option.splits if_splits)

lemma worker_step_inv: "worker_step s t \<Longrightarrow> shell_inv s \<Longrightarrow> shell_inv t"
  by (erule worker_cases) (auto simp: shell_defs split: option.splits if_splits)

lemma spurious_step_inv: "spurious_step s t \<Longrightarrow> shell_inv s \<Longrightarrow> shell_inv t"
  by (erule spurious_cases) (auto simp: shell_defs split: option.splits if_splits)

lemma shell_reach_inv: "shell_reach s \<Longrightarrow> shell_inv s"
proof (induction rule: shell_reach.induct)
  case r_init
  show ?case by (simp add: shell_inv_def shell_init_def)
qed (blast intro: master_step_inv worker_step_inv spurious_step_inv)+

text \<open>
  C18: in every interleaving of the two threads, spurious wakeups included, the worker runs the commands in the order in
  which they were handed over, none twice and none that was not given; and whenever the master reads the next line, each
  command that it handed over has been run exactly once.
\<close>

theorem shell_commands_once:
  assumes "shell_reach s"
  shows "(\<exists>rest. given s = ran s @ rest \<and> length rest \<le> 1) \<and> (mpc s = M_Read \<longrightarrow> ran s = given s)"
  using shell_reach_inv [OF assms] by (auto simp: shell_inv_def split: option.splits if_splits)

text \<open>
  The worker has looked for work and found none; before it starts to wait, the master hands a command over and signals.
\<close>

definition worker_misses :: "nat shell_sys" where
  "worker_misses = shell_init\<lparr>mpc := M_Check, wpc := W_Sleep, pending_work := Some 7, given := [7]\<rparr>"

definition both_wait :: "nat shell_sys" where
  "both_wait = worker_misses\<lparr>mpc := M_Wait, wpc := W_Wait\<rparr>"

lemma worker_misses_reach: "shell_reach worker_misses"
proof -
  let ?s = "shell_init :: nat shell_sys"
  have "shell_reach (?s\<lparr>wpc := W_Check\<rparr>)" using w_loop [of ?s] r_worker [OF r_init, of "?s\<lparr>wpc := W_Check\<rparr>"] by (simp add: shell_init_def)
  then have "shell_reach (?s\<lparr>wpc := W_Sleep\<rparr>)" using w_check [of "?s\<lparr>wpc := W_Check\<rparr>"] r_worker by (fastforce simp: shell_init_def)
  then have "shell_reach (?s\<lparr>mpc := M_Signal, wpc := W_Sleep, pending_work := Some 7, given := [7]\<rparr>)"
    using m_hand [of "?s\<lparr>wpc := W_Sleep\<rparr>" 7] r_master by (fastforce simp: shell_init_def)
  then show ?thesis
    using m_signal [of "?s\<lparr>mpc := M_Signal, wpc := W_Sleep, pending_work := Some 7, given := [7]\<rparr>"] r_master
    by (fastforce simp: shell_init_def worker_misses_def signal_worker_def)
qed

theorem shell_commands_once_witness: "\<exists>rest. given worker_misses = ran worker_misses @ rest \<and> length rest \<le> 1"
  using shell_commands_once [OF worker_misses_reach] by blast

lemma both_wait_reach: "shell_reach both_wait"
proof -
  have "shell_reach (worker_misses\<lparr>mpc := M_Sleep\<rparr>)"
    using m_check [of worker_misses] r_master [OF worker_misses_reach] by (fastforce simp: worker_misses_def)
  then have "shell_reach (worker_misses\<lparr>mpc := M_Wait\<rparr>)"
    using m_sleep [of "worker_misses\<lparr>mpc := M_Sleep\<rparr>"] r_master by (fastforce simp: worker_misses_def)
  then show ?thesis
    using w_sleep [of "worker_misses\<lparr>mpc := M_Wait\<rparr>"] r_worker by (fastforce simp: worker_misses_def both_wait_def)
qed

text \<open>
  C38: the hand-over can lose its signal. A state is reachable in which a command is pending and has not been run, and
  neither thread can take a step: both wait for a signal of the other.
\<close>

theorem shell_lost_wakeup:
  "shell_reach both_wait \<and> pending_work both_wait \<noteq> None \<and> ran both_wait = [] \<and>
   (\<nexists>t. master_step both_wait t) \<and> (\<nexists>t. worker_step both_wait t)"
  using both_wait_reach by (auto simp: both_wait_def worker_misses_def shell_init_def elim: master_cases worker_cases)

end
