(* ===== verification/Drivers.thy ===== *)
theory Drivers
  imports Route Lib Fast_Pipe "HOL-Library.Monad_Syntax"
begin

text \<open>
  The device drivers beside the tap interface's transfer functions, which are in the theory of the device layer: the packet socket
  of \<^verbatim>\<open>src/net/physical_eth.c\<close>, the shared memory link of \<^verbatim>\<open>src/net/shm_eth.c\<close> and \<^verbatim>\<open>src/net/shmeth_netdev.c\<close>, the
  configuration of the tap interface in \<^verbatim>\<open>src/net/tap.c\<close> and \<^verbatim>\<open>src/net/veth.c\<close>, and the attach commands of
  \<^verbatim>\<open>src/shell/net_command.c\<close>, which enter a device and its routes. What the kernel answers is an argument. The lemmas show that the
  shared memory link keeps the order and the content of frames in both directions, and which routes an attached device gets.
\<close>

section \<open>The packet socket: physical\_eth.c\<close>

text \<open>
  The results of the system calls of \<^verbatim>\<open>physical_eth_dev_init\<close>: the descriptor of \<^verbatim>\<open>socket\<close>, what the three \<^verbatim>\<open>ioctl\<close> calls store
  (\<open>None\<close> where they fail) and the result of \<^verbatim>\<open>bind\<close>.
\<close>

record eth_sys =
  sys_socket :: int
  sys_ifindex :: "int option"
  sys_mtu :: "int option"
  sys_hwaddr :: "bytes option"
  sys_bind :: int

record physical_eth_dev =
  pe_fd :: int
  pe_ip :: u32
  pe_mask :: u32
  pe_device_name :: string

definition physical_eth_dev_init ::
  "eth_sys \<Rightarrow> physical_eth_dev \<Rightarrow> nat \<Rightarrow> 'a net_state_scheme \<Rightarrow> int \<times> physical_eth_dev \<times> 'a net_state_scheme" where
  "physical_eth_dev_init sys priv n s =
     (let priv = priv\<lparr>pe_fd := sys_socket sys\<rparr>
      in if pe_fd priv < 0 then (- 1, priv, s)
         else case sys_ifindex sys of None \<Rightarrow> (- 1, priv, s)
         | Some dev_id \<Rightarrow> (case sys_mtu sys of None \<Rightarrow> (- 1, priv, s)
         | Some mtu \<Rightarrow>
             let s = upd_dev n (\<lambda>d. d\<lparr>net_mtu := mtu\<rparr>) s
             in case sys_hwaddr sys of None \<Rightarrow> (- 1, priv, s)
                | Some hw \<Rightarrow>
                    let s = upd_dev n (\<lambda>d. d\<lparr>net_hwaddr := hwacpy 0 hw (net_hwaddr d)\<rparr>) s
                    in if sys_bind sys < 0 then (- 1, priv, s)
                       else (0, priv, upd_dev n (\<lambda>d. d\<lparr>net_ipaddr := pe_ip priv, net_mask := pe_mask priv\<rparr>) s)))"

text \<open>
  The mask of \<^verbatim>\<open>maskbits\<close> leading ones. The shift is undefined when the number of bits is not between 1 and 32; \<open>ub\<close> is the
  value it has then. For one bit the \<^verbatim>\<open>int\<close> arithmetic is taken to wrap around.
\<close>

definition mask_of_bits :: "u32 \<Rightarrow> int \<Rightarrow> u32" where
  "mask_of_bits ub maskbits =
     htonl (NOT ((if 1 \<le> maskbits \<and> maskbits \<le> 32 then push_bit (nat (32 - maskbits)) 1 else ub) - 1))"

text \<open>The structure comes from \<^verbatim>\<open>malloc\<close>: where \<^verbatim>\<open>str2ip\<close> fails, the address is what the memory held (\<open>jip\<close>).\<close>

definition physical_eth_init ::
  "eth_sys \<Rightarrow> u32 \<Rightarrow> u32 \<Rightarrow> string \<Rightarrow> string \<Rightarrow> int \<Rightarrow> 'a net_state_scheme \<Rightarrow> nat \<times> 'a net_state_scheme" where
  "physical_eth_init sys jip ub device ipstr maskbits s =
     (let priv = \<lparr>pe_fd = 0, pe_ip = (case str2ip ipstr of None \<Rightarrow> jip | Some ip \<Rightarrow> ip), pe_mask = mask_of_bits ub maskbits,
            pe_device_name = take 16 device\<rparr>
      in netdev_alloc ''peth'' Peth_Ops (Some (\<lambda>n s. snd (snd (physical_eth_dev_init sys priv n s)))) s)"

definition physical_eth_dev_xmit :: "(bytes \<Rightarrow> int) \<Rightarrow> nat \<Rightarrow> nat \<Rightarrow> 'a net_state_scheme \<Rightarrow> 'a net_state_scheme" where
  "physical_eth_dev_xmit wr n p s =
     (let f = take (nat (pk_len (pkb s p))) (data_of s p);
          l = wr f
      in if l \<noteq> pk_len (pkb s p)
         then upd_stats n (\<lambda>st. st\<lparr>tx_errors := tx_errors st + 1\<rparr>) s
         else upd_stats n (\<lambda>st. st\<lparr>tx_packets := tx_packets st + 1, tx_bytes := tx_bytes st + word_of_int l\<rparr>)
           (s\<lparr>wire := wire s @ [(n, f)]\<rparr>))"

definition physical_eth_recv :: "int \<times> bytes \<Rightarrow> nat \<Rightarrow> nat \<Rightarrow> 'a net_state_scheme \<Rightarrow> int \<times> 'a net_state_scheme" where
  "physical_eth_recv rd n p s =
     (let (l, bs) = rd; s = upd_data p (\<lambda>d. memcpy d 0 bs (nat l)) s
      in if l \<le> 0 then (l, upd_stats n (\<lambda>st. st\<lparr>rx_errors := rx_errors st + 1\<rparr>) s)
         else (l, upd_pkb p (\<lambda>b. b\<lparr>pk_len := l\<rparr>)
           (upd_stats n (\<lambda>st. st\<lparr>rx_packets := rx_packets st + 1, rx_bytes := rx_bytes st + word_of_int l\<rparr>) s)))"

text \<open>One round of the endless loop of \<^verbatim>\<open>physical_eth_poll\<close>.\<close>

definition physical_eth_poll ::
  "(nat \<Rightarrow> nat \<Rightarrow> 'a net_state_scheme \<Rightarrow> 'a net_state_scheme) \<Rightarrow> int \<times> bytes \<Rightarrow> nat \<Rightarrow> 'a net_state_scheme \<Rightarrow> 'a net_state_scheme" where
  "physical_eth_poll net_in rd n s =
     (let (p, s) = alloc_netdev_pkb n s;
          (l, s) = physical_eth_recv rd n p s
      in if l > 0 then net_in n p s else free_pkb p s)"

interpretation peth: net_device "physical_eth_dev_xmit wr" for wr
  by unfold_locales (auto simp: physical_eth_dev_xmit_def Let_def frame_of_def)

section \<open>The pipe in shared memory: shm\_eth.c\<close>

datatype shmeth_side = SHMETH_SIDE_A | SHMETH_SIDE_B

text \<open>
  A segment of shared memory holds \<^verbatim>\<open>struct shmeth_internal_t\<close> and the two pipes. The kernel gives out segments filled with zeros;
  \<open>shm\<close> maps the identifiers of the segments to their contents.
\<close>

record shmeth_seg =
  magic :: u32
  mac_a :: bytes
  mac_b :: bytes
  cb_atob :: CB_T
  cb_btoa :: CB_T

type_synonym shm = "int \<Rightarrow> shmeth_seg"

record shmeth =
  sh_side :: shmeth_side
  shm_id :: int

abbreviation (input) SHM_MAGIC :: u32 where "SHM_MAGIC \<equiv> 0xd00ddaaa"
abbreviation (input) SHM_SIZE :: nat where "SHM_SIZE \<equiv> 2 * 1024 * 1024"

definition CB_CAPACITY :: nat where
  "CB_CAPACITY = (SHM_SIZE - 16) div 2 - 16"

definition string_hash :: "string \<Rightarrow> u32" where
  "string_hash cp = fold (\<lambda>c h. (33 * h) XOR of_nat (of_char c)) cp 5381"

text \<open>
  \<open>get key create\<close> is the result of \<^verbatim>\<open>shmget\<close>, \<open>ra\<close> and \<open>rb\<close> are the bytes that \<^verbatim>\<open>random\<close> gives for the two addresses. The result is
  the NULL pointer where both calls of \<^verbatim>\<open>shmget\<close> fail.
\<close>

definition shmeth_open :: "(u32 \<Rightarrow> bool \<Rightarrow> int) \<Rightarrow> bytes \<Rightarrow> bytes \<Rightarrow> string \<Rightarrow> shmeth_side \<Rightarrow> shm \<Rightarrow> shmeth option \<times> shm" where
  "shmeth_open get ra rb name sd m =
     (let key = string_hash name;
          i = get key True;
          i = (if i = - 1 then get key False else i)
      in if i = - 1 then (None, m)
         else
           let shmint = m i;
               shmint = (if magic shmint \<noteq> SHM_MAGIC
                 then shmint\<lparr>magic := SHM_MAGIC, mac_a := take 6 ra, mac_b := take 6 rb,
                   cb_atob := cb_init (cb_atob shmint) (of_nat CB_CAPACITY), cb_btoa := cb_init (cb_btoa shmint) (of_nat CB_CAPACITY)\<rparr>
                 else shmint)
           in (Some \<lparr>sh_side = sd, shm_id = i\<rparr>, m(i := shmint)))"

definition shmeth_get_mac :: "shmeth \<Rightarrow> shmeth_side \<Rightarrow> shm \<Rightarrow> bytes" where
  "shmeth_get_mac dv sd m = (if sd = SHMETH_SIDE_A then take 6 (mac_a (m (shm_id dv))) else take 6 (mac_b (m (shm_id dv))))"

definition shmeth_write_packet :: "shmeth \<Rightarrow> bytes \<Rightarrow> u32 \<Rightarrow> shm \<Rightarrow> bool \<times> shm" where
  "shmeth_write_packet dv data len m =
     (let seg = m (shm_id dv)
      in if sh_side dv = SHMETH_SIDE_A
         then let (cb, result) = cb_put_packet (cb_atob seg) data len in (result, m(shm_id dv := seg\<lparr>cb_atob := cb\<rparr>))
         else let (cb, result) = cb_put_packet (cb_btoa seg) data len in (result, m(shm_id dv := seg\<lparr>cb_btoa := cb\<rparr>)))"

definition shmeth_read_packet :: "shmeth \<Rightarrow> u32 \<Rightarrow> shm \<Rightarrow> (bytes \<times> shm) option" where
  "shmeth_read_packet dv buflen m =
     (let seg = m (shm_id dv)
      in if sh_side dv = SHMETH_SIDE_B
         then map_option (\<lambda>(d, cb). (d, m(shm_id dv := seg\<lparr>cb_atob := cb\<rparr>))) (cb_get_packet (cb_atob seg) buflen)
         else map_option (\<lambda>(d, cb). (d, m(shm_id dv := seg\<lparr>cb_btoa := cb\<rparr>))) (cb_get_packet (cb_btoa seg) buflen))"

section \<open>The device on the pipe: shmeth\_netdev.c\<close>

text \<open>\<open>ok\<close> is the result of \<^verbatim>\<open>shmeth_write_packet\<close>. The callers ignore the result of the function.\<close>

definition shmeth_dev_xmit :: "(bytes \<Rightarrow> bool) \<Rightarrow> nat \<Rightarrow> nat \<Rightarrow> 'a net_state_scheme \<Rightarrow> 'a net_state_scheme" where
  "shmeth_dev_xmit ok n p s =
     (let f = take (nat (pk_len (pkb s p))) (data_of s p)
      in if \<not> ok f then upd_stats n (\<lambda>st. st\<lparr>tx_errors := tx_errors st + 1\<rparr>) s
         else upd_stats n (\<lambda>st. st\<lparr>tx_packets := tx_packets st + 1, tx_bytes := tx_bytes st + word_of_int (pk_len (pkb s p))\<rparr>)
           (s\<lparr>wire := wire s @ [(n, f)]\<rparr>))"

interpretation shmdev: net_device "shmeth_dev_xmit ok" for ok
  by unfold_locales (auto simp: shmeth_dev_xmit_def Let_def frame_of_def)

text \<open>
  The receiving thread: one try to read a packet into the buffer \<open>p\<close>, and what follows when there is one. The thread then
  allocates the next buffer; when there is none it tries again.
\<close>

definition shmeth_rx_packet :: "shmeth \<Rightarrow> nat \<Rightarrow> nat \<Rightarrow> 'a net_state_scheme \<Rightarrow> shm \<Rightarrow> ('a net_state_scheme \<times> shm) option" where
  "shmeth_rx_packet dv n p s m =
     (case shmeth_read_packet dv (word_of_int (pk_len (pkb s p))) m of
        None \<Rightarrow> None
      | Some (d, m) \<Rightarrow>
          let s = upd_data p (\<lambda>b. memcpy b 0 d (length d)) s;
              s = upd_pkb p (\<lambda>b. b\<lparr>pk_len := int (length d)\<rparr>) s;
              s = upd_stats n (\<lambda>st. st\<lparr>rx_packets := rx_packets st + 1, rx_bytes := rx_bytes st + word_of_int (pk_len (pkb s p))\<rparr>) s
          in Some (s, m))"

definition shmeth_rx_poll ::
  "(nat \<Rightarrow> nat \<Rightarrow> 'a net_state_scheme \<Rightarrow> 'a net_state_scheme) \<Rightarrow> shmeth \<Rightarrow> nat \<Rightarrow> nat \<Rightarrow> 'a net_state_scheme \<Rightarrow> shm \<Rightarrow>
   nat \<times> 'a net_state_scheme \<times> shm" where
  "shmeth_rx_poll net_in dv n p s m =
     (case shmeth_rx_packet dv n p s m of
        None \<Rightarrow> (p, s, m)
      | Some (s, m) \<Rightarrow>
          let s = net_in n p s;
              (p, s) = alloc_netdev_pkb n s
          in (p, s, m))"

definition shmeth_dev_create ::
  "(u32 \<Rightarrow> bool \<Rightarrow> int) \<Rightarrow> bytes \<Rightarrow> bytes \<Rightarrow> u32 \<Rightarrow> string \<Rightarrow> string \<Rightarrow> string \<Rightarrow> int \<Rightarrow> shm \<Rightarrow> 'a net_state_scheme \<Rightarrow>
   (nat \<times> shmeth) option \<times> shm \<times> 'a net_state_scheme" where
  "shmeth_dev_create get ra rb ub devname sd ipstr maskbits m s =
     (let sd = (if sd = ''B'' \<or> sd = ''b'' then SHMETH_SIDE_B else SHMETH_SIDE_A);
          (h, m) = shmeth_open get ra rb devname sd m;
          (n, s) = netdev_alloc ''shmeth'' Shmeth_Ops (Some (\<lambda>_ s. s)) s;
          s = upd_dev n (\<lambda>d. d\<lparr>net_mtu := 1500\<rparr>) s
      in case h of
           None \<Rightarrow> (None, m, set_fault Null_Deref s)
         | Some dv \<Rightarrow>
             let s = upd_dev n (\<lambda>d. d\<lparr>net_hwaddr := shmeth_get_mac dv sd m\<rparr>) s;
                 s = (case str2ip ipstr of None \<Rightarrow> s | Some ip \<Rightarrow> upd_dev n (\<lambda>d. d\<lparr>net_ipaddr := ip\<rparr>) s);
                 s = upd_dev n (\<lambda>d. d\<lparr>net_mask := mask_of_bits ub maskbits\<rparr>) s
             in (Some (n, dv), m, s))"

section \<open>Two stacks on one pipe\<close>

text \<open>
  The transmissions of both sides and the tries of both receiving threads, in any order. Each event carries the state that its
  stack has reached by then, since both stacks do other things in between; the result has the frames that the two
  transmit functions counted as sent and those that the two threads pass to \<^verbatim>\<open>net_in\<close>.
\<close>

datatype 'a link_ev =
    Tx shmeth_side "'a net_state_scheme" nat
  | Poll shmeth_side "'a net_state_scheme" nat

fun other_side :: "shmeth_side \<Rightarrow> shmeth_side" where
  "other_side SHMETH_SIDE_A = SHMETH_SIDE_B"
| "other_side SHMETH_SIDE_B = SHMETH_SIDE_A"

definition link_tx :: "shmeth \<Rightarrow> nat \<Rightarrow> 'a net_state_scheme \<Rightarrow> nat \<Rightarrow> shm \<Rightarrow> bytes list \<times> shm" where
  "link_tx dv n a p m =
     (let (ok, m) = shmeth_write_packet dv (frame_of a p) (word_of_int (pk_len (pkb a p))) m;
          t = shmeth_dev_xmit (\<lambda>_. ok) n p a
      in (map snd (drop (length (wire a)) (wire t)), m))"

definition link_rx :: "shmeth \<Rightarrow> nat \<Rightarrow> 'a net_state_scheme \<Rightarrow> nat \<Rightarrow> shm \<Rightarrow> bytes list \<times> shm" where
  "link_rx dv n b p m = (case shmeth_rx_packet dv n p b m of None \<Rightarrow> ([], m) | Some (t, m) \<Rightarrow> ([frame_of t p], m))"

type_synonym frame_log = "shmeth_side \<Rightarrow> bytes list"

fun link_run :: "int \<Rightarrow> (shmeth_side \<Rightarrow> nat) \<Rightarrow> 'a link_ev list \<Rightarrow> shm \<Rightarrow> frame_log \<times> frame_log \<times> shm" where
  "link_run i nd [] m = (\<lambda>_. [], \<lambda>_. [], m)"
| "link_run i nd (Tx h a p # evs) m =
     (let (fs, m) = link_tx \<lparr>sh_side = h, shm_id = i\<rparr> (nd h) a p m;
          (tx, rx, m) = link_run i nd evs m
      in (tx(h := fs @ tx h), rx, m))"
| "link_run i nd (Poll h b p # evs) m =
     (let (fs, m) = link_rx \<lparr>sh_side = h, shm_id = i\<rparr> (nd h) b p m;
          (tx, rx, m) = link_run i nd evs m
      in (tx, rx(h := fs @ rx h), m))"

text \<open>A buffer with as many bytes as its length says, below the limits of the length word.\<close>

definition buf_ok :: "'a net_state_scheme \<Rightarrow> nat \<Rightarrow> bool" where
  "buf_ok s p \<longleftrightarrow> pk_len (pkb s p) = int (length (data_of s p)) \<and> length (data_of s p) < 2 ^ 32"

fun link_ok :: "'a link_ev \<Rightarrow> bool" where
  "link_ok (Tx h s p) = buf_ok s p"
| "link_ok (Poll h s p) = buf_ok s p"

definition written_by :: "shmeth_side \<Rightarrow> shmeth_seg \<Rightarrow> CB_T" where
  "written_by h g = (if h = SHMETH_SIDE_A then cb_atob g else cb_btoa g)"

definition link_holds :: "shmeth_seg \<Rightarrow> frame_log \<Rightarrow> bool" where
  "link_holds g q \<longleftrightarrow> (\<forall>h. cb_holds (written_by h g) (q h))"

lemma link_holds_both: "link_holds g q \<longleftrightarrow> cb_holds (cb_atob g) (q SHMETH_SIDE_A) \<and> cb_holds (cb_btoa g) (q SHMETH_SIDE_B)"
proof
  assume "link_holds g q"
  then show "cb_holds (cb_atob g) (q SHMETH_SIDE_A) \<and> cb_holds (cb_btoa g) (q SHMETH_SIDE_B)"
    unfolding link_holds_def using written_by_def [of SHMETH_SIDE_A g] written_by_def [of SHMETH_SIDE_B g, simplified] by metis
next
  assume b: "cb_holds (cb_atob g) (q SHMETH_SIDE_A) \<and> cb_holds (cb_btoa g) (q SHMETH_SIDE_B)"
  have "cb_holds (written_by h g) (q h)" for h using b by (cases h) (simp_all add: written_by_def)
  then show "link_holds g q" by (simp add: link_holds_def)
qed

lemma buf_ok_word: "buf_ok s p \<Longrightarrow> length (data_of s p) = unat (word_of_int (pk_len (pkb s p)) :: u32)"
  by (simp add: buf_ok_def unat_of_nat)

lemma link_tx_holds:
  assumes "link_holds (m i) q" "buf_ok a p"
  shows "\<exists>fs t. link_tx \<lparr>sh_side = h, shm_id = i\<rparr> n a p m = (fs, t) \<and> link_holds (t i) (q(h := q h @ fs))"
proof -
  let ?len = "word_of_int (pk_len (pkb a p)) :: u32"
  have d: "frame_of a p = data_of a p" using assms(2) by (simp add: frame_of_def buf_ok_def)
  obtain cb ok where put: "cb_put_packet (written_by h (m i)) (data_of a p) ?len = (cb, ok)" by fastforce
  have "cb_holds (written_by h (m i)) (q h)" using assms(1) by (simp add: link_holds_def)
  then have "cb_holds cb (q h @ (if ok then [data_of a p] else []))"
    using cb_put_packet_correct [of "written_by h (m i)" "q h" "data_of a p" ?len] buf_ok_word [OF assms(2)] put
    by (auto split: if_splits)
  moreover have "map snd (drop (length (wire a)) (wire (shmeth_dev_xmit (\<lambda>_. ok) n p a))) = (if ok then [data_of a p] else [])"
    using d by (simp add: shmeth_dev_xmit_def Let_def frame_of_def)
  moreover define m' where "m' = m(i := if h = SHMETH_SIDE_A then (m i)\<lparr>cb_atob := cb\<rparr> else (m i)\<lparr>cb_btoa := cb\<rparr>)"
  have "shmeth_write_packet \<lparr>sh_side = h, shm_id = i\<rparr> (data_of a p) ?len m = (ok, m')"
    using put by (cases h) (simp_all add: shmeth_write_packet_def Let_def written_by_def m'_def)
  ultimately show ?thesis
    using assms(1) by (cases h) (simp_all add: link_tx_def d Let_def link_holds_both m'_def)
qed

lemma link_rx_holds:
  assumes "link_holds (m i) q" "buf_ok b p"
  shows "\<exists>fs t r. link_rx \<lparr>sh_side = h, shm_id = i\<rparr> n b p m = (fs, t) \<and> q (other_side h) = fs @ r \<and> link_holds (t i) (q(other_side h := r))"
proof (cases "cb_get_packet (written_by (other_side h) (m i)) (word_of_int (pk_len (pkb b p)))")
  case None
  then have "link_rx \<lparr>sh_side = h, shm_id = i\<rparr> n b p m = ([], m)"
    by (cases h) (simp_all add: link_rx_def shmeth_rx_packet_def shmeth_read_packet_def Let_def written_by_def)
  with assms(1) show ?thesis by simp
next
  case (Some x)
  obtain d cb where x: "x = (d, cb)" by fastforce
  have holds: "cb_holds (written_by (other_side h) (m i)) (q (other_side h))" using assms(1) by (simp add: link_holds_def)
  obtain p' r where q: "q (other_side h) = p' # r"
    using holds Some cb_get_packet_empty [of "written_by (other_side h) (m i)"] by (cases "q (other_side h)") auto
  have r: "q (other_side h) = d # r" "cb_holds cb r" "length d \<le> length (data_of b p)"
    using cb_get_packet_correct [OF holds [unfolded q], of "word_of_int (pk_len (pkb b p))"] Some buf_ok_word [OF assms(2)] q
    by (auto simp: x split: if_splits)
  define t where "t = upd_stats n (\<lambda>st. st\<lparr>rx_packets := rx_packets st + 1, rx_bytes := rx_bytes st + word_of_int (int (length d))\<rparr>)
    (upd_pkb p (\<lambda>b. b\<lparr>pk_len := int (length d)\<rparr>) (upd_data p (\<lambda>b. memcpy b 0 d (length d)) b))"
  have "frame_of t p = d" using r(3) by (simp add: t_def frame_of_def memcpy_eq)
  moreover define m' where "m' = m(i := if h = SHMETH_SIDE_A then (m i)\<lparr>cb_btoa := cb\<rparr> else (m i)\<lparr>cb_atob := cb\<rparr>)"
  have "shmeth_rx_packet \<lparr>sh_side = h, shm_id = i\<rparr> n p b m = Some (t, m')"
    using Some unfolding x
    by (cases h) (simp_all add: shmeth_rx_packet_def shmeth_read_packet_def Let_def written_by_def t_def m'_def)
  moreover have "link_holds (m' i) (q(other_side h := r))"
    using assms(1) r(2) by (cases h) (simp_all add: link_holds_both m'_def)
  ultimately show ?thesis using r(1) by (simp add: link_rx_def)
qed

lemma link_run_fifo:
  assumes "link_holds (m i) q" "\<forall>e \<in> set evs. link_ok e" "link_run i nd evs m = (tx, rx, t)"
  shows "\<exists>rest. link_holds (t i) rest \<and> (\<forall>h. q h @ tx h = rx (other_side h) @ rest h)"
  using assms
proof (induction evs arbitrary: m q tx rx)
  case Nil
  then show ?case by auto
next
  case (Cons e evs)
  show ?case
  proof (cases e)
    case (Tx h a p)
    obtain fs u where u: "link_tx \<lparr>sh_side = h, shm_id = i\<rparr> (nd h) a p m = (fs, u)" "link_holds (u i) (q(h := q h @ fs))"
      using link_tx_holds [where m = m and i = i and q = q and h = h and n = "nd h", OF Cons.prems(1), of a p] Cons.prems(2) Tx by auto
    obtain tx' rx' where r: "link_run i nd evs u = (tx', rx', t)" "tx = tx'(h := fs @ tx' h)" "rx = rx'"
      using Cons.prems(3) u(1) Tx by (auto simp: Let_def split: prod.splits)
    have ok: "\<forall>e \<in> set evs. link_ok e" using Cons.prems(2) by simp
    obtain rest where rest: "link_holds (t i) rest" "\<forall>k. (q(h := q h @ fs)) k @ tx' k = rx' (other_side k) @ rest k"
      using Cons.IH [where m = u and q = "q(h := q h @ fs)", OF u(2) ok r(1)] by blast
    have "q k @ tx k = rx (other_side k) @ rest k" for k
      using rest(2) [rule_format, of k] r(2,3) by (cases "k = h") auto
    with rest(1) show ?thesis by blast
  next
    case (Poll h b p)
    obtain fs u x where u: "link_rx \<lparr>sh_side = h, shm_id = i\<rparr> (nd h) b p m = (fs, u)" "q (other_side h) = fs @ x" "link_holds (u i) (q(other_side h := x))"
      using link_rx_holds [where m = m and i = i and q = q and h = h and n = "nd h", OF Cons.prems(1), of b p] Cons.prems(2) Poll by auto
    obtain tx' rx' where r: "link_run i nd evs u = (tx', rx', t)" "tx = tx'" "rx = rx'(h := fs @ rx' h)"
      using Cons.prems(3) u(1) Poll by (auto simp: Let_def split: prod.splits)
    have ok: "\<forall>e \<in> set evs. link_ok e" using Cons.prems(2) by simp
    obtain rest where rest: "link_holds (t i) rest" "\<forall>k. (q(other_side h := x)) k @ tx' k = rx' (other_side k) @ rest k"
      using Cons.IH [where m = u and q = "q(other_side h := x)", OF u(3) ok r(1)] by blast
    have "q k @ tx k = rx (other_side k) @ rest k" for k
      using rest(2) [rule_format, of k] u(2) r(2,3) by (cases h; cases k) auto
    with rest(1) show ?thesis by blast
  qed
qed

lemma link_run_magic: "link_run i nd evs m = (tx, rx, t) \<Longrightarrow> magic (t i) = magic (m i)"
proof (induction evs arbitrary: m tx rx)
  case (Cons e evs)
  have mt: "magic (snd (link_tx \<lparr>sh_side = h, shm_id = i\<rparr> n a p m) i) = magic (m i)" for h n p and a :: "'a net_state_scheme"
    by (simp add: link_tx_def shmeth_write_packet_def Let_def case_prod_beta)
  have mr: "magic (snd (link_rx \<lparr>sh_side = h, shm_id = i\<rparr> n a p m) i) = magic (m i)" for h n p and a :: "'a net_state_scheme"
    by (auto simp: link_rx_def shmeth_rx_packet_def shmeth_read_packet_def Let_def split: option.splits)
  show ?case
  proof (cases e)
    case (Tx h a p)
    then show ?thesis using Cons mt [of h "nd h" a p] by (auto simp: Let_def split: prod.splits)
  next
    case (Poll h a p)
    then show ?thesis using Cons mr [of h "nd h" a p] by (auto simp: Let_def split: prod.splits)
  qed
qed simp

definition fresh_seg :: "shmeth_seg \<Rightarrow> bool" where
  "fresh_seg g \<longleftrightarrow> magic g \<noteq> SHM_MAGIC \<and> length (cbdata (cb_atob g)) = CB_CAPACITY \<and> length (cbdata (cb_btoa g)) = CB_CAPACITY"

lemma shmeth_open_first:
  assumes "shmeth_open get ra rb name h m = (Some dv, t)" "fresh_seg (m (shm_id dv))"
  shows "link_holds (t (shm_id dv)) (\<lambda>_. [])" "magic (t (shm_id dv)) = SHM_MAGIC" "sh_side dv = h"
    "shm_id dv = (if get (string_hash name) True = - 1 then get (string_hash name) False else get (string_hash name) True)"
proof -
  have c: "unat (of_nat CB_CAPACITY :: u32) = CB_CAPACITY" "0 < CB_CAPACITY" "CB_CAPACITY < 2147483648"
    by (simp_all add: CB_CAPACITY_def unat_of_nat)
  have "cb_holds (cb_init cb (of_nat CB_CAPACITY)) []" if "length (cbdata cb) = CB_CAPACITY" for cb
    using that c by (simp add: cb_holds_def cb_inv_def cb_list_def cb_init_def at_index_def)
  then show "link_holds (t (shm_id dv)) (\<lambda>_. [])" "magic (t (shm_id dv)) = SHM_MAGIC" "sh_side dv = h"
    "shm_id dv = (if get (string_hash name) True = - 1 then get (string_hash name) False else get (string_hash name) True)"
    using assms by (auto simp: shmeth_open_def Let_def fresh_seg_def link_holds_both split: if_splits)
qed

lemma shmeth_open_again:
  assumes "shmeth_open get ra rb name h m = (Some dv, t)" "magic (m (shm_id dv)) = SHM_MAGIC"
  shows "t = m"
  using assms by (auto simp: shmeth_open_def Let_def split: if_splits)

text \<open>
  C13: two stacks on one pipe. One side opens a fresh segment and may send before the other side opens it under the same
  name. Whatever the order of transmissions and receptions on both sides afterwards, and whatever the stacks do in
  between, the frames that a receiving thread passes to \<^verbatim>\<open>net_in\<close> are the frames that the transmit function of the
  other side counted as sent, whole, once and in order; what is missing is still in the pipe.
\<close>

theorem shmeth_link_fifo:
  fixes evs evs' :: "'a link_ev list"
  assumes "shmeth_open get ra rb name h m = (Some da, m1)" and "fresh_seg (m (shm_id da))"
    and "link_run (shm_id da) nd evs m1 = (tx, rx, m2)" and "\<forall>e \<in> set evs. link_ok e"
    and "shmeth_open get ra' rb' name (other_side h) m2 = (Some db, m3)"
    and "link_run (shm_id db) nd evs' m3 = (tx', rx', m4)" and "\<forall>e \<in> set evs'. link_ok e"
  shows "shm_id db = shm_id da \<and>
    (\<exists>rest. link_holds (m4 (shm_id da)) rest \<and> (\<forall>k. tx k @ tx' k = rx (other_side k) @ rx' (other_side k) @ rest k))"
proof -
  note a = shmeth_open_first [OF assms(1,2)]
  have b: "shm_id db = shm_id da"
    using assms(5) a(4) by (auto simp: shmeth_open_def Let_def split: if_splits)
  have "magic (m2 (shm_id db)) = SHM_MAGIC" using link_run_magic [OF assms(3)] a(2) b by simp
  then have m: "m3 = m2" using shmeth_open_again [OF assms(5)] by simp
  obtain q where q: "link_holds (m2 (shm_id da)) q" "\<forall>k. tx k = rx (other_side k) @ q k"
    using link_run_fifo [where i = "shm_id da" and m = m1, OF a(1) assms(4,3)] by auto
  obtain rest where "link_holds (m4 (shm_id da)) rest" "\<forall>k. q k @ tx' k = rx' (other_side k) @ rest k"
    using link_run_fifo [where i = "shm_id da" and m = m2, OF q(1) assms(7) assms(6) [unfolded b m]] by blast
  with q(2) b show ?thesis by (metis append.assoc)
qed

text \<open>A segment of zeros, and a stack with one buffer.\<close>

definition zero_shm :: shm where
  "zero_shm = (\<lambda>_. \<lparr>magic = 0, mac_a = replicate 6 0, mac_b = replicate 6 0,
     cb_atob = \<lparr>capacity = 0, write_index = 0, used = 0, read_index = 0, cbdata = replicate CB_CAPACITY 0\<rparr>,
     cb_btoa = \<lparr>capacity = 0, write_index = 0, used = 0, read_index = 0, cbdata = replicate CB_CAPACITY 0\<rparr>\<rparr>)"

definition one_buffer :: "bytes \<Rightarrow> net_state" where
  "one_buffer d = upd_data 0 (\<lambda>_. d) (snd (alloc_pkb (int (length d)) empty_net))"

lemma one_buffer_ok: "length d < 2 ^ 32 \<Longrightarrow> buf_ok (one_buffer d) 0"
  by (simp add: buf_ok_def one_buffer_def alloc_pkb_def new_pkb_def pkb_safe_def empty_net_def) (simp add: pkb_def)

theorem shmeth_link_fifo_witness:
  "\<exists>tx rx tx' rx' m4 rest. link_run 5 (\<lambda>_. 0) [Tx SHMETH_SIDE_A (one_buffer [1, 2]) 0]
      (snd (shmeth_open (\<lambda>_ _. 5) [1] [2] ''eth'' SHMETH_SIDE_A zero_shm)) = (tx, rx, m4) \<and>
    (\<forall>k. tx k @ tx' k = rx (other_side k) @ rx' (other_side k) @ rest k)"
proof -
  let ?get = "\<lambda>_ _. 5 :: int" and ?ev = "Tx SHMETH_SIDE_A (one_buffer [1, 2]) 0" and ?ev' = "Poll SHMETH_SIDE_B (one_buffer (replicate 1514 0)) 0"
  define da where "da = \<lparr>sh_side = SHMETH_SIDE_A, shm_id = 5\<rparr>"
  define db where "db = \<lparr>sh_side = SHMETH_SIDE_B, shm_id = 5\<rparr>"
  obtain m1 where m1: "shmeth_open ?get [1] [2] ''eth'' SHMETH_SIDE_A zero_shm = (Some da, m1)"
    by (simp add: shmeth_open_def Let_def da_def)
  obtain tx rx m2 where r: "link_run (shm_id da) (\<lambda>_. 0) [?ev] m1 = (tx, rx, m2)"
    by (cases "link_run (shm_id da) (\<lambda>_. 0) [?ev] m1") auto
  obtain m3 where m3: "shmeth_open ?get [3] [4] ''eth'' (other_side SHMETH_SIDE_A) m2 = (Some db, m3)"
    by (simp add: shmeth_open_def Let_def db_def)
  obtain tx' rx' m4 where r': "link_run (shm_id db) (\<lambda>_. 0) [?ev'] m3 = (tx', rx', m4)"
    by (cases "link_run (shm_id db) (\<lambda>_. 0) [?ev'] m3") auto
  have f: "fresh_seg (zero_shm (shm_id da))" by (simp add: fresh_seg_def zero_shm_def)
  have o: "\<forall>e \<in> set [?ev]. link_ok e" "\<forall>e \<in> set [?ev']. link_ok e" by (simp_all add: one_buffer_ok)
  have "\<exists>rest. \<forall>k. tx k @ tx' k = rx (other_side k) @ rx' (other_side k) @ rest k"
    using shmeth_link_fifo [OF m1 f r o(1) m3 r' o(2)] by blast
  then show ?thesis using r unfolding da_def m1 [unfolded da_def] by auto
qed

section \<open>The tap device: tap.c and veth.c\<close>

text \<open>
  The kernel behind the tap device is an argument: \<open>ioctl fd request ifr k\<close> is the result of the call, the structure it leaves
  and the kernel's next state. The functions end the process where they call \<^verbatim>\<open>perrx\<close>, which is the result \<open>None\<close>.
\<close>

datatype ioctl_req = TUNSETPERSIST bool | TUNSETIFF | TUNGETIFF | SIOCSIFNETMASK | SIOCGIFFLAGS | SIOCSIFFLAGS | SIOCGIFMTU | SIOCSIFADDR |
  SIOCGIFADDR | SIOCGIFHWADDR

record ifreq =
  ifr_name :: string
  ifr_flags :: u16
  ifr_addr :: u32
  ifr_mtu :: int
  ifr_hwaddr :: bytes

type_synonym 'k ioctl_fun = "int \<Rightarrow> ioctl_req \<Rightarrow> ifreq \<Rightarrow> 'k \<Rightarrow> int \<times> ifreq \<times> 'k"

definition zero_ifr :: ifreq where
  "zero_ifr = \<lparr>ifr_name = [], ifr_flags = 0, ifr_addr = 0, ifr_mtu = 0, ifr_hwaddr = replicate 14 0\<rparr>"

abbreviation (input) IFF_UP_RUNNING :: u16 where "IFF_UP_RUNNING \<equiv> 0x41"
abbreviation (input) IFF_TAP_NO_PI :: u16 where "IFF_TAP_NO_PI \<equiv> 0x1002"
abbreviation (input) IFNAMSIZ :: nat where "IFNAMSIZ \<equiv> 16"

definition setpersist_tap :: "int \<Rightarrow> 'k ioctl_fun \<Rightarrow> int \<Rightarrow> 'k \<Rightarrow> int \<times> 'k" where
  "setpersist_tap errno ioctl fd k =
     (if errno \<noteq> 0 then (0, k)
      else let (r, _, k) = ioctl fd (TUNSETPERSIST True) zero_ifr k in if r < 0 then (- 1, k) else (0, k))"

definition setnetmask_tap :: "'k ioctl_fun \<Rightarrow> int \<Rightarrow> string \<Rightarrow> u32 \<Rightarrow> 'k \<Rightarrow> 'k option" where
  "setnetmask_tap ioctl skfd name nm k =
     (let (r, _, k) = ioctl skfd SIOCSIFNETMASK (zero_ifr\<lparr>ifr_name := name, ifr_addr := nm\<rparr>) k in if r < 0 then None else Some k)"

definition setflags_tap :: "'k ioctl_fun \<Rightarrow> int \<Rightarrow> string \<Rightarrow> u16 \<Rightarrow> bool \<Rightarrow> 'k \<Rightarrow> 'k option" where
  "setflags_tap ioctl skfd name flags up k =
     (let (r, ifr, k) = ioctl skfd SIOCGIFFLAGS (zero_ifr\<lparr>ifr_name := name\<rparr>) k
      in if r < 0 then None
         else
           let ifr = ifr\<lparr>ifr_flags := if up then ifr_flags ifr OR flags else ifr_flags ifr AND NOT flags\<rparr>;
               (r, _, k) = ioctl skfd SIOCSIFFLAGS ifr k
           in if r < 0 then None else Some k)"

definition setdown_tap :: "'k ioctl_fun \<Rightarrow> int \<Rightarrow> string \<Rightarrow> 'k \<Rightarrow> 'k option" where
  "setdown_tap ioctl skfd name = setflags_tap ioctl skfd name IFF_UP_RUNNING False"

definition setup_tap :: "'k ioctl_fun \<Rightarrow> int \<Rightarrow> string \<Rightarrow> 'k \<Rightarrow> 'k option" where
  "setup_tap ioctl skfd name = setflags_tap ioctl skfd name IFF_UP_RUNNING True"

definition getmtu_tap :: "'k ioctl_fun \<Rightarrow> int \<Rightarrow> string \<Rightarrow> 'k \<Rightarrow> (int \<times> 'k) option" where
  "getmtu_tap ioctl skfd name k =
     (let (r, ifr, k) = ioctl skfd SIOCGIFMTU (zero_ifr\<lparr>ifr_name := name\<rparr>) k in if r < 0 then None else Some (ifr_mtu ifr, k))"

definition setipaddr_tap :: "'k ioctl_fun \<Rightarrow> int \<Rightarrow> string \<Rightarrow> u32 \<Rightarrow> 'k \<Rightarrow> 'k option" where
  "setipaddr_tap ioctl skfd name ipaddr k =
     (let (r, _, k) = ioctl skfd SIOCSIFADDR (zero_ifr\<lparr>ifr_name := name, ifr_addr := ipaddr\<rparr>) k in if r < 0 then None else Some k)"

definition getipaddr_tap :: "'k ioctl_fun \<Rightarrow> int \<Rightarrow> string \<Rightarrow> 'k \<Rightarrow> (u32 \<times> 'k) option" where
  "getipaddr_tap ioctl skfd name k =
     (let (r, ifr, k) = ioctl skfd SIOCGIFADDR (zero_ifr\<lparr>ifr_name := name\<rparr>) k in if r < 0 then None else Some (ifr_addr ifr, k))"

definition getname_tap :: "'k ioctl_fun \<Rightarrow> int \<Rightarrow> 'k \<Rightarrow> (string \<times> 'k) option" where
  "getname_tap ioctl tapfd k =
     (let (r, ifr, k) = ioctl tapfd TUNGETIFF zero_ifr k in if r < 0 then None else Some (ifr_name ifr, k))"

definition gethwaddr_tap :: "'k ioctl_fun \<Rightarrow> int \<Rightarrow> 'k \<Rightarrow> (bytes \<times> 'k) option" where
  "gethwaddr_tap ioctl tapfd k =
     (let (r, ifr, k) = ioctl tapfd SIOCGIFHWADDR zero_ifr k in if r < 0 then None else Some (take 6 (ifr_hwaddr ifr), k))"

text \<open>\<open>fd\<close> is the result of \<^verbatim>\<open>open\<close>.\<close>

definition alloc_tap :: "int \<Rightarrow> 'k ioctl_fun \<Rightarrow> string \<Rightarrow> 'k \<Rightarrow> int \<times> 'k" where
  "alloc_tap fd ioctl dv k =
     (if fd < 0 then (- 1, k)
      else
        let (r, _, k) = ioctl fd TUNSETIFF (zero_ifr\<lparr>ifr_flags := IFF_TAP_NO_PI, ifr_name := take IFNAMSIZ dv\<rparr>) k
        in if r < 0 then (- 1, k) else (fd, k))"

text \<open>The flag of the result tells that the descriptor was closed.\<close>

definition delete_tap :: "'k ioctl_fun \<Rightarrow> int \<Rightarrow> 'k \<Rightarrow> bool \<times> 'k" where
  "delete_tap ioctl tapfd k = (let (r, _, k) = ioctl tapfd (TUNSETPERSIST False) zero_ifr k in (\<not> r < 0, k))"

record tapdev =
  td_fd :: int
  td_name :: string
  td_mtu :: int
  td_hwaddr :: bytes
  td_ipaddr :: u32

abbreviation (input) FAKE_TAP_ADDR :: u32 where "FAKE_TAP_ADDR \<equiv> 0x0200000a"
abbreviation (input) FAKE_TAP_NETMASK :: u32 where "FAKE_TAP_NETMASK \<equiv> 0x00ffffff"
abbreviation (input) FAKE_IPADDR :: u32 where "FAKE_IPADDR \<equiv> 0x0100000a"
abbreviation (input) FAKE_NETMASK :: u32 where "FAKE_NETMASK \<equiv> 0x00ffffff"
abbreviation (input) FAKE_HWADDR :: bytes where "FAKE_HWADDR \<equiv> [0x00, 0x34, 0x45, 0x67, 0x89, 0xab]"

text \<open>The build with \<^verbatim>\<open>CONFIG_TOP2\<close>. \<open>fd\<close>, \<open>errno\<close> and \<open>skfd\<close> are the results of \<^verbatim>\<open>open\<close> and \<^verbatim>\<open>socket\<close>, and the variable after \<^verbatim>\<open>alloc_tap\<close>.\<close>

definition tap_dev_init :: "int \<Rightarrow> int \<Rightarrow> int \<Rightarrow> 'k ioctl_fun \<Rightarrow> 'k \<Rightarrow> (tapdev option \<times> 'k) option" where
  "tap_dev_init fd errno skfd ioctl k =
     (let (fd, k) = alloc_tap fd ioctl ''tap0'' k
      in if fd < 0 then Some (None, k)
         else
           let (r, k) = setpersist_tap errno ioctl fd k
           in if r < 0 then Some (None, k)
              else if skfd < 0 then None
              else
                do { (name, k) \<leftarrow> getname_tap ioctl fd k;
                     (mtu, k) \<leftarrow> getmtu_tap ioctl skfd name k;
                     (ha, k) \<leftarrow> gethwaddr_tap ioctl fd k;
                     k \<leftarrow> setipaddr_tap ioctl skfd name FAKE_TAP_ADDR k;
                     (ip, k) \<leftarrow> getipaddr_tap ioctl skfd name k;
                     k \<leftarrow> setnetmask_tap ioctl skfd name FAKE_TAP_NETMASK k;
                     k \<leftarrow> setup_tap ioctl skfd name k;
                     Some (Some \<lparr>td_fd = fd, td_name = name, td_mtu = mtu, td_hwaddr = ha, td_ipaddr = ip\<rparr>, k) })"

definition veth_dev_init ::
  "int \<Rightarrow> int \<Rightarrow> int \<Rightarrow> 'k ioctl_fun \<Rightarrow> 'k \<Rightarrow> nat \<Rightarrow> 'a net_state_scheme \<Rightarrow> (tapdev \<times> 'k \<times> 'a net_state_scheme) option" where
  "veth_dev_init fd errno skfd ioctl k n s =
     (case tap_dev_init fd errno skfd ioctl k of
        None \<Rightarrow> None
      | Some (None, k) \<Rightarrow> None
      | Some (Some tap, k) \<Rightarrow>
          let s = upd_dev n (\<lambda>d. d\<lparr>net_mtu := td_mtu tap, net_ipaddr := FAKE_IPADDR, net_mask := FAKE_NETMASK\<rparr>) s;
              s = upd_dev n (\<lambda>d. d\<lparr>net_hwaddr := hwacpy 0 FAKE_HWADDR (net_hwaddr d)\<rparr>) s
          in Some (tap, k, s))"

definition veth_dev_exit :: "'k ioctl_fun \<Rightarrow> tapdev \<Rightarrow> nat \<Rightarrow> nat \<Rightarrow> 'k \<Rightarrow> (bool \<times> 'k) option" where
  "veth_dev_exit ioctl tap veth n k = (if n \<noteq> veth then None else Some (delete_tap ioctl (td_fd tap) k))"

text \<open>
  A kernel with one interface, enough to run the initialisation: it keeps what was set last and reports it. The last component
  are the requests it refuses.
\<close>

record tap_kernel =
  k_addr :: u32
  k_mask :: u32
  k_flags :: u16
  k_refuse :: "ioctl_req set"

fun linux_ioctl :: "tap_kernel ioctl_fun" where
  "linux_ioctl fd r ifr k =
     (if r \<in> k_refuse k then (- 1, ifr, k)
      else case r of
        TUNGETIFF \<Rightarrow> (0, ifr\<lparr>ifr_name := ''tap0''\<rparr>, k)
      | SIOCSIFNETMASK \<Rightarrow> (0, ifr, k\<lparr>k_mask := ifr_addr ifr\<rparr>)
      | SIOCGIFFLAGS \<Rightarrow> (0, ifr\<lparr>ifr_flags := k_flags k\<rparr>, k)
      | SIOCSIFFLAGS \<Rightarrow> (0, ifr, k\<lparr>k_flags := ifr_flags ifr\<rparr>)
      | SIOCGIFMTU \<Rightarrow> (0, ifr\<lparr>ifr_mtu := 1500\<rparr>, k)
      | SIOCSIFADDR \<Rightarrow> (0, ifr, k\<lparr>k_addr := ifr_addr ifr\<rparr>)
      | SIOCGIFADDR \<Rightarrow> (0, ifr\<lparr>ifr_addr := k_addr k\<rparr>, k)
      | SIOCGIFHWADDR \<Rightarrow> (0, ifr\<lparr>ifr_hwaddr := [2, 0, 0, 0, 0, 9]\<rparr>, k)
      | _ \<Rightarrow> (0, ifr, k))"

text \<open>Raising the interface keeps its other flags, and taking it down again gives the flags without the two bits.\<close>

lemma setflags_linux:
  assumes "k_refuse k = {}"
  shows "setflags_tap linux_ioctl fd nm fl b k = Some (k\<lparr>k_flags := if b then k_flags k OR fl else k_flags k AND NOT fl\<rparr>)"
  using assms by (simp add: setflags_tap_def)

lemma setdown_setup:
  assumes "k_refuse k = {}" and "k_flags k AND IFF_UP_RUNNING = 0"
  shows "Option.bind (setup_tap linux_ioctl fd nm k) (setdown_tap linux_ioctl fd nm) = Some k"
proof -
  have "(k_flags k OR IFF_UP_RUNNING) AND NOT IFF_UP_RUNNING = k_flags k AND NOT IFF_UP_RUNNING"
    by (simp only: bit.conj_disj_distrib2 bit.conj_cancel_right bit.disj_zero_right)
  also have "\<dots> = k_flags k AND NOT IFF_UP_RUNNING OR k_flags k AND IFF_UP_RUNNING"
    by (simp only: assms bit.disj_zero_right)
  also have "\<dots> = k_flags k"
    by (simp only: bit.conj_disj_distrib [symmetric] bit.disj_cancel_left bit.conj_one_right)
  finally have "(k_flags k OR IFF_UP_RUNNING) AND NOT IFF_UP_RUNNING = k_flags k" .
  then show ?thesis
    using assms(1) by (simp add: setup_tap_def setdown_tap_def setflags_linux)
qed

lemmas tap_call_defs = alloc_tap_def setpersist_tap_def getname_tap_def getmtu_tap_def gethwaddr_tap_def setipaddr_tap_def getipaddr_tap_def
  setnetmask_tap_def setup_tap_def setflags_tap_def

lemma tap_dev_init_no_tun: "fd < 0 \<Longrightarrow> tap_dev_init fd e sk ioctl k = Some (None, k)"
  by (simp add: tap_dev_init_def alloc_tap_def)

lemma tap_dev_init_refused:
  assumes "k_refuse k = R" and "fd \<ge> 0" and "TUNSETIFF \<in> R"
  shows "tap_dev_init fd e sk linux_ioctl k = Some (None, k)"
  using assms by (simp add: tap_dev_init_def alloc_tap_def)

lemma tap_dev_init_linux:
  assumes "k_refuse k = {}" and "fd \<ge> 0" and "sk \<ge> 0"
  shows "tap_dev_init fd e sk linux_ioctl k =
           Some (Some \<lparr>td_fd = fd, td_name = ''tap0'', td_mtu = 1500, td_hwaddr = [2, 0, 0, 0, 0, 9], td_ipaddr = FAKE_TAP_ADDR\<rparr>,
                 k\<lparr>k_addr := FAKE_TAP_ADDR, k_mask := FAKE_TAP_NETMASK, k_flags := k_flags k OR IFF_UP_RUNNING\<rparr>)"
  using assms by (simp add: tap_dev_init_def tap_call_defs)

section \<open>The attach commands of net\_command.c\<close>

text \<open>
  The two routes both commands add: the own address on the loopback device and the network of the device. The dpdk command
  differs only in how the device is made.
\<close>

definition attach_routes :: "nat \<Rightarrow> 'a rt_state_scheme \<Rightarrow> 'a rt_state_scheme" where
  "attach_routes n s =
     (let s = rt_add (net_ipaddr (dev s n)) 0xffffffff 0 0 RT_LOCALHOST (loop s) s
      in rt_add (LOCALNET (dev s n)) (net_mask (dev s n)) 0 0 RT_NONE n s)"

definition attach_dev :: "eth_sys \<Rightarrow> u32 \<Rightarrow> u32 \<Rightarrow> string list \<Rightarrow> 'a rt_state_scheme \<Rightarrow> 'a rt_state_scheme" where
  "attach_dev sys jip ub argv s =
     (if length argv \<noteq> 4 then s
      else
        let (n, s) = physical_eth_init sys jip ub (argv ! 1) (argv ! 2) (sint (atoi (argv ! 3))) s
        in attach_routes n s)"

definition attach_shmeth_dev ::
  "(u32 \<Rightarrow> bool \<Rightarrow> int) \<Rightarrow> bytes \<Rightarrow> bytes \<Rightarrow> u32 \<Rightarrow> string list \<Rightarrow> shm \<Rightarrow> 'a rt_state_scheme \<Rightarrow> shmeth option \<times> shm \<times> 'a rt_state_scheme" where
  "attach_shmeth_dev get ra rb ub argv m s =
     (if length argv \<noteq> 5 then (None, m, s)
      else
        let (r, m, s) = shmeth_dev_create get ra rb ub (argv ! 1) (argv ! 2) (argv ! 3) (sint (atoi (argv ! 4))) m s
        in case r of None \<Rightarrow> (None, m, s) | Some (n, dv) \<Rightarrow> (Some dv, m, attach_routes n s))"

lemma mask_of_bits_netmask:
  assumes "1 \<le> b" and "b \<le> 32"
  shows "mask_of_bits ub b = netmask (nat b)"
proof -
  have "32 - nat b = nat (32 - b)" using assms by linarith
  moreover have "push_bit (nat (32 - b)) 1 - 1 = (mask (nat (32 - b)) :: u32)"
    by (simp add: mask_eq_exp_minus_1 push_bit_eq_mult)
  ultimately show ?thesis
    using assms by (simp only: mask_of_bits_def netmask_def if_True simp_thms)
qed

lemma netmask_32: "netmask 32 = 0xffffffff"
  by code_simp

lemma rt_insert_split:
  "rt_insert rt rts = takeWhile (\<lambda>e. rt_netmask rt < rt_netmask e) rts @ rt # dropWhile (\<lambda>e. rt_netmask rt < rt_netmask e) rts"
  by (induction rts) auto

lemma find_append_none: "find P xs = None \<Longrightarrow> find P (xs @ ys) = find P ys"
  by (induction xs) (auto split: if_splits)

lemma find_rt_insert_miss: "\<not> P rt \<Longrightarrow> find P (rt_insert rt rts) = find P rts"
  by (induction rts) auto

lemma find_rt_insert_hit:
  assumes "P rt" and "\<forall>e \<in> set rts. rt_netmask rt < rt_netmask e \<longrightarrow> \<not> P e"
  shows "find P (rt_insert rt rts) = Some rt"
proof -
  have "find P (takeWhile (\<lambda>e. rt_netmask rt < rt_netmask e) rts) = None"
    using assms(2) by (auto simp: find_None_iff dest: set_takeWhileD)
  then show ?thesis using assms(1) by (simp add: rt_insert_split find_append_none)
qed

lemma dev_rt_head [simp]: "dev (s\<lparr>rt_head := x\<rparr>) n = dev s n"
  by (simp add: dev_def)

lemma attach_routes_head:
  assumes "net_mask (dev s n) < 0xffffffff"
  shows "rt_head (attach_routes n s) =
           rt_alloc (net_ipaddr (dev s n)) 0xffffffff 0 0 RT_LOCALHOST (loop s) #
           rt_insert (rt_alloc (LOCALNET (dev s n)) (net_mask (dev s n)) 0 0 RT_NONE n) (rt_head s)"
proof -
  have ones: "- 1 = (0xffffffff :: u32)" by simp
  have top: "x \<le> (0xffffffff :: u32)" for x by (rule word_order.extremum [of x, unfolded ones])
  have "rt_insert r rts = r # rts" if "rt_netmask r = 0xffffffff" for r rts
    using that top by (cases rts) auto
  then show ?thesis using assms by (simp add: attach_routes_def rt_add_def Let_def rt_alloc_def not_le)
qed

lemma physical_eth_init_ok:
  assumes "sys_socket sys \<ge> 0" and "sys_ifindex sys = Some i" and "sys_mtu sys = Some mtu" and "sys_hwaddr sys = Some hw"
    and "sys_bind sys \<ge> 0" and "str2ip ipstr = Some a" and "1 \<le> b" and "b \<le> 32"
    and "physical_eth_init sys jip ub devname ipstr b s = (n, t)"
  shows "n = dev_next s" and "net_ipaddr (dev t n) = a" and "net_mask (dev t n) = netmask (nat b)" and "net_mtu (dev t n) = mtu"
    and "loop t = loop s" and "net_devices t = net_devices s @ [n]"
  using assms mask_of_bits_netmask [OF assms(7,8), of ub]
  by (auto simp: physical_eth_init_def netdev_alloc_def physical_eth_dev_init_def Let_def)

lemma physical_eth_init_head:
  "physical_eth_init sys jip ub devname ipstr b s = (n, t) \<Longrightarrow> rt_head t = rt_head s"
  by (auto simp: physical_eth_init_def netdev_alloc_def physical_eth_dev_init_def Let_def upd_dev_def split: option.splits if_splits)

text \<open>
  C25: attaching an interface makes its addresses reachable. When the system calls succeed and the arguments are an address and a
  prefix length from 1 to 31, \<open>attach_dev\<close> enters a new device; then the own address is routed to the loopback device as local,
  every other address of the network that no longer prefix of the old table covers is routed to the new device, directly, and
  the route of every address outside the network is what it was.
\<close>

theorem attach_dev_routes:
  assumes sys: "sys_socket sys \<ge> 0" "sys_ifindex sys = Some i" "sys_mtu sys = Some mtu" "sys_hwaddr sys = Some hw" "sys_bind sys \<ge> 0"
    and args: "str2ip ipstr = Some a" "b = sint (atoi bits)" "1 \<le> b" "b < 32"
    and t: "t = attach_dev sys jip ub [''attach'', devname, ipstr, bits] s"
  shows "net_devices t = net_devices s @ [dev_next s] \<and> net_ipaddr (dev t (dev_next s)) = a \<and>
         rt_lookup a t = Some (rt_alloc a 0xffffffff 0 0 RT_LOCALHOST (loop s)) \<and>
         (\<forall>x. x \<noteq> a \<and> netmask (nat b) AND x = netmask (nat b) AND a \<and>
               (\<forall>rt \<in> set (rt_head s). netmask (nat b) < rt_netmask rt \<longrightarrow> \<not> rt_match x rt) \<longrightarrow>
               rt_lookup x t = Some (rt_alloc (a AND netmask (nat b)) (netmask (nat b)) 0 0 RT_NONE (dev_next s))) \<and>
         (\<forall>x. netmask (nat b) AND x \<noteq> netmask (nat b) AND a \<longrightarrow> rt_lookup x t = rt_lookup x s)"
proof -
  obtain n u where u: "physical_eth_init sys jip ub devname ipstr b s = (n, u)" by fastforce
  note dv = physical_eth_init_ok [OF sys args(1,3) less_imp_le [OF args(4)] u]
  define nm where "nm = netmask (nat b)"
  have tu: "t = attach_routes n u" using u by (simp add: t attach_dev_def args(2))
  have nd: "net_devices t = net_devices u" "dev t (dev_next s) = dev u n"
    using dv(1) by (simp_all add: tu attach_routes_def rt_add_def Let_def)
  have "nm < 0xffffffff"
    using netmask_less [of "nat b" 32] args(3,4) by (simp add: nm_def netmask_32)
  then have head: "rt_head t = rt_alloc a 0xffffffff 0 0 RT_LOCALHOST (loop s) # rt_insert (rt_alloc (a AND nm) nm 0 0 RT_NONE n) (rt_head s)"
    using attach_routes_head [of u n] physical_eth_init_head [OF u] by (simp add: tu dv(2,3,5) LOCALNET_def nm_def)
  have host: "rt_match x (rt_alloc a 0xffffffff 0 0 RT_LOCALHOST (loop s)) \<longleftrightarrow> x = a" for x
  proof -
    have ones: "(0xffffffff :: u32) = - 1" by simp
    show ?thesis by (simp add: rt_match_def rt_alloc_def ones del: word_numeral_alt)
  qed
  have net: "rt_match x (rt_alloc (a AND nm) nm 0 0 RT_NONE n) \<longleftrightarrow> nm AND x = nm AND a" for x
    by (simp add: rt_match_def rt_alloc_def ac_simps)
  have 1: "rt_lookup a t = Some (rt_alloc a 0xffffffff 0 0 RT_LOCALHOST (loop s))"
    by (simp add: rt_lookup_def head host)
  have 2: "rt_lookup x t = Some (rt_alloc (a AND nm) nm 0 0 RT_NONE n)"
    if "x \<noteq> a" "nm AND x = nm AND a" "\<forall>rt \<in> set (rt_head s). nm < rt_netmask rt \<longrightarrow> \<not> rt_match x rt" for x
    using that find_rt_insert_hit [of "rt_match x" "rt_alloc (a AND nm) nm 0 0 RT_NONE n" "rt_head s"]
    by (simp add: rt_lookup_def head host net) (simp add: rt_alloc_def)
  have 3: "rt_lookup x t = rt_lookup x s" if "nm AND x \<noteq> nm AND a" for x
  proof -
    have "x \<noteq> a" using that by blast
    then show ?thesis using that find_rt_insert_miss [of "rt_match x" "rt_alloc (a AND nm) nm 0 0 RT_NONE n"]
      by (simp add: rt_lookup_def head host net)
  qed
  have "net_devices t = net_devices s @ [dev_next s] \<and> net_ipaddr (dev t (dev_next s)) = a" using nd dv(1,2,6) by simp
  then show ?thesis unfolding nm_def [symmetric] dv(1) [symmetric] using 1 2 3 by blast
qed

definition good_sys :: eth_sys where
  "good_sys = \<lparr>sys_socket = 3, sys_ifindex = Some 2, sys_mtu = Some 1500, sys_hwaddr = Some [2, 0, 0, 0, 0, 7], sys_bind = 0\<rparr>"

definition no_routes :: rt_state where
  "no_routes = net_state.extend empty_net \<lparr>rt_head = []\<rparr>"

theorem attach_dev_routes_witness:
  "let t = attach_dev good_sys 0 0 [''attach'', ''eth0'', ''10.0.0.1'', ''24''] no_routes
   in rt_lookup 0x0100000a t = Some (rt_alloc 0x0100000a 0xffffffff 0 0 RT_LOCALHOST (loop no_routes)) \<and>
      rt_lookup 0x0900000a t = Some (rt_alloc 0x0000000a 0x00ffffff 0 0 RT_NONE 0) \<and> rt_lookup 0x0100010a t = None"
proof -
  have sys: "sys_socket good_sys \<ge> 0" "sys_ifindex good_sys = Some 2" "sys_mtu good_sys = Some 1500"
    "sys_hwaddr good_sys = Some [2, 0, 0, 0, 0, 7]" "sys_bind good_sys \<ge> 0"
    by (simp_all add: good_sys_def)
  have ip: "str2ip ''10.0.0.1'' = Some 0x0100000a" and b: "24 = sint (atoi ''24'')" and nm: "netmask (nat 24) = 0x00ffffff"
    by code_simp+
  have e: "rt_head no_routes = []" "dev_next no_routes = 0" by (simp_all add: no_routes_def net_state.defs empty_net_def)
  have m: "rt_lookup x no_routes = None" for x by (simp add: rt_lookup_def e)
  have 1: "(0x00ffffff :: u32) AND 0x0900000a = 0x00ffffff AND 0x0100000a" "(0x0100000a :: u32) AND 0x00ffffff = 0x0000000a"
    "(0x00ffffff :: u32) AND 0x0100010a \<noteq> 0x00ffffff AND 0x0100000a"
    by simp_all
  show ?thesis
    using attach_dev_routes [OF sys ip b _ _ refl, of 0 0 "''eth0''" no_routes]
    unfolding Let_def nm e m by (simp add: m 1)
qed

end
