(* ===== verification/Arp.thy ===== *)
theory Arp
  imports Netdev
begin

text \<open>
  Address resolution: the cache of \<^verbatim>\<open>src/arp/arp_cache.c\<close> and the protocol of \<^verbatim>\<open>src/arp/arp.c\<close>. An entry of
  the static array is named by its index. The functions run under the cache lock or in the receive
  thread and are modelled as atomic; where the code gives up the lock to send a request it holds
  no reference into the array but the index.
\<close>

section \<open>arp_cache.c\<close>

abbreviation (input) ARP_CACHE_SZ :: nat where "ARP_CACHE_SZ \<equiv> 20"
abbreviation (input) ARP_TIMEOUT :: int where "ARP_TIMEOUT \<equiv> 600"
abbreviation (input) ARP_WAITTIME :: int where "ARP_WAITTIME \<equiv> 1"
abbreviation (input) ARP_REQ_RETRY :: int where "ARP_REQ_RETRY \<equiv> 4"
abbreviation (input) ARP_HRD_ETHER :: u16 where "ARP_HRD_ETHER \<equiv> 1"
abbreviation (input) ARP_OP_REQUEST :: u16 where "ARP_OP_REQUEST \<equiv> 1"
abbreviation (input) ARP_OP_REPLY :: u16 where "ARP_OP_REPLY \<equiv> 2"
abbreviation (input) IP_ALEN :: u8 where "IP_ALEN \<equiv> 4"

definition BRD_HWADDR :: bytes where
  "BRD_HWADDR = replicate ETH_ALEN 0xff"

abbreviation (input) ae :: "'a net_state_scheme \<Rightarrow> nat \<Rightarrow> arpentry" where
  "ae s i \<equiv> arp_cache s ! i"

definition upd_ae :: "nat \<Rightarrow> (arpentry \<Rightarrow> arpentry) \<Rightarrow> 'a net_state_scheme \<Rightarrow> 'a net_state_scheme" where
  "upd_ae i f s = s\<lparr>arp_cache := (arp_cache s)[i := f (arp_cache s ! i)]\<rparr>"

text \<open>
  The loop of \<open>arp_queue_send\<close> runs until the queue is empty. Its bound is the length of the queue at
  the start, which is enough for every driver that keeps the cache; if packets were left the
  model would say so.
\<close>

fun arp_queue_send_loop ::
  "(nat \<Rightarrow> nat \<Rightarrow> 'a net_state_scheme \<Rightarrow> 'a net_state_scheme) \<Rightarrow>
   nat \<Rightarrow> nat \<Rightarrow> 'a net_state_scheme \<Rightarrow> 'a net_state_scheme" where
  "arp_queue_send_loop xmit 0 i s = (if ae_list (ae s i) = [] then s else set_fault Out_Of_Fuel s)"
| "arp_queue_send_loop xmit (Suc k) i s =
     (case ae_list (ae s i) of
        [] \<Rightarrow> s
      | p # ps \<Rightarrow>
          let s = upd_ae i (\<lambda>a. a\<lparr>ae_list := ps\<rparr>) s;
              s = (case ae_dev (ae s i) of
                     None \<Rightarrow> set_fault Null_Deref s
                   | Some n \<Rightarrow> netdev_tx xmit n p (pk_len (pkb s p) - int ETH_HRD_SZ) (pk_pro (pkb s p))
                       (ae_hwaddr (ae s i)) s)
          in arp_queue_send_loop xmit k i s)"

definition arp_queue_send ::
  "(nat \<Rightarrow> nat \<Rightarrow> 'a net_state_scheme \<Rightarrow> 'a net_state_scheme) \<Rightarrow>
   nat \<Rightarrow> 'a net_state_scheme \<Rightarrow> 'a net_state_scheme" where
  "arp_queue_send xmit i s = arp_queue_send_loop xmit (length (ae_list (ae s i))) i s"

fun arp_queue_drop_loop :: "nat \<Rightarrow> nat list \<Rightarrow> 'a net_state_scheme \<Rightarrow> 'a net_state_scheme" where
  "arp_queue_drop_loop i [] s = s"
| "arp_queue_drop_loop i (p # ps) s =
     arp_queue_drop_loop i ps (free_pkb p (upd_ae i (\<lambda>a. a\<lparr>ae_list := ps\<rparr>) s))"

definition arp_queue_drop :: "nat \<Rightarrow> 'a net_state_scheme \<Rightarrow> 'a net_state_scheme" where
  "arp_queue_drop i s = arp_queue_drop_loop i (ae_list (ae s i)) s"

text \<open>The search from \<open>next\<close>, at most \<open>k\<close> steps: the free slot if there is one, and the new \<open>next\<close>.\<close>

fun arp_alloc_loop :: "nat \<Rightarrow> arpentry list \<Rightarrow> nat \<Rightarrow> nat option \<times> nat" where
  "arp_alloc_loop 0 c next = (None, next)"
| "arp_alloc_loop (Suc k) c next =
     (if ae_state (c ! next) = ARP_FREE then (Some next, next)
      else arp_alloc_loop k c ((next + 1) mod ARP_CACHE_SZ))"

definition arp_alloc :: "'a net_state_scheme \<Rightarrow> nat option \<times> 'a net_state_scheme" where
  "arp_alloc s =
     (case arp_alloc_loop ARP_CACHE_SZ (arp_cache s) (arp_next s) of
        (None, next) \<Rightarrow> (None, s\<lparr>arp_next := next\<rparr>)
      | (Some i, next) \<Rightarrow>
          let s = upd_ae i (\<lambda>a. a\<lparr>ae_dev := None, ae_retry := ARP_REQ_RETRY, ae_ttl := ARP_WAITTIME,
                ae_state := ARP_WAITING, ae_pro := ETH_P_IP, ae_list := []\<rparr>) s
          in (Some i, s\<lparr>arp_next := (next + 1) mod ARP_CACHE_SZ\<rparr>))"

definition arp_insert ::
  "nat \<Rightarrow> u16 \<Rightarrow> u32 \<Rightarrow> bytes \<Rightarrow> 'a net_state_scheme \<Rightarrow> int \<times> 'a net_state_scheme" where
  "arp_insert nd pro ipaddr hwaddr s =
     (case arp_alloc s of
        (None, s) \<Rightarrow> (- 1, s)
      | (Some i, s) \<Rightarrow>
          (0, upd_ae i (\<lambda>a. a\<lparr>ae_dev := Some nd, ae_pro := pro, ae_ttl := ARP_TIMEOUT, ae_ipaddr := ipaddr,
            ae_state := ARP_RESOLVED, ae_hwaddr := hwacpy 0 hwaddr (ae_hwaddr a)\<rparr>) s))"

definition arp_lookup :: "u16 \<Rightarrow> u32 \<Rightarrow> 'a net_state_scheme \<Rightarrow> nat option" where
  "arp_lookup pro ipaddr s =
     find (\<lambda>i. ae_state (ae s i) \<noteq> ARP_FREE \<and> ae_pro (ae s i) = pro \<and> ae_ipaddr (ae s i) = ipaddr)
       [0..<ARP_CACHE_SZ]"

text \<open>The function compares \<open>ae_pro\<close>, not \<open>ae_state\<close>, with the constant \<open>ARP_RESOLVED\<close>, 3.\<close>

definition arp_lookup_resolv :: "u16 \<Rightarrow> u32 \<Rightarrow> 'a net_state_scheme \<Rightarrow> nat option" where
  "arp_lookup_resolv pro ipaddr s =
     (case arp_lookup pro ipaddr s of
        None \<Rightarrow> None
      | Some i \<Rightarrow> if ae_pro (ae s i) = 3 then Some i else None)"

definition arp_cache_init :: "'a net_state_scheme \<Rightarrow> 'a net_state_scheme" where
  "arp_cache_init s = s\<lparr>arp_cache := map (\<lambda>a. a\<lparr>ae_state := ARP_FREE\<rparr>) (arp_cache s)\<rparr>"

section \<open>arp.c\<close>

definition arp_request ::
  "(nat \<Rightarrow> nat \<Rightarrow> 'a net_state_scheme \<Rightarrow> 'a net_state_scheme) \<Rightarrow>
   nat \<Rightarrow> 'a net_state_scheme \<Rightarrow> 'a net_state_scheme" where
  "arp_request xmit i s =
     (let (p, s) = alloc_pkb (int (ETH_HRD_SZ + ARP_HRD_SZ)) s
      in case ae_dev (ae s i) of
           None \<Rightarrow> set_fault Null_Deref s
         | Some n \<Rightarrow>
             let s = upd_data p (\<lambda>d.
                   let d = wr16 14 (htons ARP_HRD_ETHER) d;
                       d = wr16 16 (htons ETH_P_IP) d;
                       d = wr8 18 6 d;
                       d = wr8 19 IP_ALEN d;
                       d = wr16 20 (htons ARP_OP_REQUEST) d;
                       d = wr32 28 (net_ipaddr (dev s n)) d;
                       d = hwacpy 22 (net_hwaddr (dev s n)) d;
                       d = wr32 38 (ae_ipaddr (ae s i)) d
                   in hwacpy 32 BRD_HWADDR d) s
             in netdev_tx xmit n p (pk_len (pkb s p) - int ETH_HRD_SZ) ETH_P_ARP BRD_HWADDR s)"

definition arp_reply ::
  "(nat \<Rightarrow> nat \<Rightarrow> 'a net_state_scheme \<Rightarrow> 'a net_state_scheme) \<Rightarrow>
   nat \<Rightarrow> nat \<Rightarrow> 'a net_state_scheme \<Rightarrow> 'a net_state_scheme" where
  "arp_reply xmit n p s =
     (let s = upd_data p (\<lambda>d.
            let d = wr16 20 ARP_OP_REPLY d;
                d = hwacpy 32 (arp_sha d) d;
                d = wr32 38 (arp_sip d) d;
                d = hwacpy 22 (net_hwaddr (dev s n)) d;
                d = wr32 28 (net_ipaddr (dev s n)) d
            in arp_hton d) s
      in netdev_tx xmit n p (int ARP_HRD_SZ) ETH_P_ARP (eth_src (data_of s p)) s)"

definition arp_recv ::
  "(nat \<Rightarrow> nat \<Rightarrow> 'a net_state_scheme \<Rightarrow> 'a net_state_scheme) \<Rightarrow>
   nat \<Rightarrow> nat \<Rightarrow> 'a net_state_scheme \<Rightarrow> 'a net_state_scheme" where
  "arp_recv xmit n p s =
     (let d = data_of s p
      in if MULTICAST (arp_tip d) then free_pkb p s
         else if arp_tip d \<noteq> net_ipaddr (dev s n) then free_pkb p s
         else
           let s = (case arp_lookup (arp_pro d) (arp_sip d) s of
                  Some i \<Rightarrow>
                    let s = upd_ae i (\<lambda>a. a\<lparr>ae_hwaddr := hwacpy 0 (arp_sha d) (ae_hwaddr a)\<rparr>) s;
                        s = (if ae_state (ae s i) = ARP_WAITING then arp_queue_send xmit i s else s)
                    in upd_ae i (\<lambda>a. a\<lparr>ae_state := ARP_RESOLVED, ae_ttl := ARP_TIMEOUT\<rparr>) s
                | None \<Rightarrow>
                    if arp_op d = ARP_OP_REQUEST
                    then snd (arp_insert n (arp_pro d) (arp_sip d) (arp_sha d) s) else s)
           in if arp_op (data_of s p) = ARP_OP_REQUEST then arp_reply xmit n p s else free_pkb p s)"

definition arp_in ::
  "(nat \<Rightarrow> nat \<Rightarrow> 'a net_state_scheme \<Rightarrow> 'a net_state_scheme) \<Rightarrow>
   nat \<Rightarrow> nat \<Rightarrow> 'a net_state_scheme \<Rightarrow> 'a net_state_scheme" where
  "arp_in xmit n p s =
     (if pk_type (pkb s p) = PKT_OTHERHOST then free_pkb p s
      else if pk_len (pkb s p) < int (ETH_HRD_SZ + ARP_HRD_SZ) then free_pkb p s
      else if arp_sha (data_of s p) \<noteq> eth_src (data_of s p) then free_pkb p s
      else
        let s = upd_data p arp_hton s; d = data_of s p
        in if arp_hrd d \<noteq> ARP_HRD_ETHER \<or> arp_pro d \<noteq> ETH_P_IP \<or> arp_hrdlen d \<noteq> 6 \<or> arp_prolen d \<noteq> IP_ALEN
           then free_pkb p s
           else if arp_op d \<noteq> ARP_OP_REQUEST \<and> arp_op d \<noteq> ARP_OP_REPLY then free_pkb p s
           else arp_recv xmit n p s)"

section \<open>The cache timer\<close>

definition arp_timer_entry ::
  "(nat \<Rightarrow> nat \<Rightarrow> 'a net_state_scheme \<Rightarrow> 'a net_state_scheme) \<Rightarrow>
   int \<Rightarrow> nat \<Rightarrow> 'a net_state_scheme \<Rightarrow> 'a net_state_scheme" where
  "arp_timer_entry xmit delta i s =
     (if ae_state (ae s i) = ARP_FREE then s
      else
        let s = upd_ae i (\<lambda>a. a\<lparr>ae_ttl := ae_ttl a - delta\<rparr>) s
        in if ae_ttl (ae s i) \<le> 0
           then
             let s = (if ae_state (ae s i) = ARP_WAITING
                   then upd_ae i (\<lambda>a. a\<lparr>ae_retry := ae_retry a - 1\<rparr>) s else s)
             in if ae_state (ae s i) = ARP_WAITING \<and> ae_retry (ae s i) < 0 \<or> ae_state (ae s i) = ARP_RESOLVED
                then
                  let s = (if ae_state (ae s i) = ARP_WAITING then arp_queue_drop i s else s)
                  in upd_ae i (\<lambda>a. a\<lparr>ae_state := ARP_FREE\<rparr>) s
                else arp_request xmit i (upd_ae i (\<lambda>a. a\<lparr>ae_ttl := ARP_WAITTIME\<rparr>) s)
           else s)"

definition arp_timer ::
  "(nat \<Rightarrow> nat \<Rightarrow> 'a net_state_scheme \<Rightarrow> 'a net_state_scheme) \<Rightarrow>
   int \<Rightarrow> 'a net_state_scheme \<Rightarrow> 'a net_state_scheme" where
  "arp_timer xmit delta s = fold (arp_timer_entry xmit delta) [0..<ARP_CACHE_SZ] s"

section \<open>Finding, allocating and inserting\<close>

lemma upd_ae_simps [simp]:
  "fault (upd_ae i f s) = fault s" "pkb (upd_ae i f s) p = pkb s p"
  "pk_next (upd_ae i f s) = pk_next s" "alloc_pkbs (upd_ae i f s) = alloc_pkbs s"
  "free_pkbs (upd_ae i f s) = free_pkbs s" "dev_next (upd_ae i f s) = dev_next s"
  "net_devices (upd_ae i f s) = net_devices s" "loop (upd_ae i f s) = loop s"
  "arp_next (upd_ae i f s) = arp_next s" "wire (upd_ae i f s) = wire s"
  "net_state.more (upd_ae i f s) = net_state.more s" "dev (upd_ae i f s) n = dev s n"
  "arp_cache (upd_ae i f s) = (arp_cache s)[i := f (arp_cache s ! i)]"
  by (simp_all add: upd_ae_def pkb_def dev_def)

lemma arp_next_update_simps [simp]:
  "pkb (s\<lparr>arp_next := k\<rparr>) p = pkb s p" "dev (s\<lparr>arp_next := k\<rparr>) n = dev s n"
  by (simp_all add: pkb_def dev_def)

lemma arp_alloc_loop_correct:
  assumes "next < ARP_CACHE_SZ"
  shows "case arp_alloc_loop k c next of
      (None, m) \<Rightarrow> m = (next + k) mod ARP_CACHE_SZ \<and>
        (\<forall>j<k. ae_state (c ! ((next + j) mod ARP_CACHE_SZ)) \<noteq> ARP_FREE)
    | (Some i, m) \<Rightarrow> m = i \<and> i < ARP_CACHE_SZ \<and> ae_state (c ! i) = ARP_FREE"
  using assms
proof (induction k c "next" rule: arp_alloc_loop.induct)
  case (2 k c "next")
  show ?case
  proof (cases "ae_state (c ! next) = ARP_FREE")
    case False
    have "\<forall>j<Suc k. ae_state (c ! ((next + j) mod 20)) \<noteq> ARP_FREE"
      if "\<forall>j<k. ae_state (c ! (((next + 1) mod 20 + j) mod 20)) \<noteq> ARP_FREE"
    proof (intro allI impI)
      fix j assume "j < Suc k"
      with that False 2(2) show "ae_state (c ! ((next + j) mod 20)) \<noteq> ARP_FREE"
        by (cases j) (auto simp: mod_add_left_eq)
    qed
    moreover have "(Suc (next + k)) mod 20 = ((next + 1) mod 20 + k) mod 20"
      by (simp add: mod_add_left_eq)
    ultimately show ?thesis using 2(1) False by (auto split: prod.splits option.splits)
  qed (use 2 in auto)
qed auto

lemma mod_cover: "next < (n :: nat) \<Longrightarrow> i < n \<Longrightarrow> \<exists>j<n. (next + j) mod n = i"
proof (cases "next \<le> i")
  case True
  assume "i < n"
  with True show ?thesis by (intro exI [of _ "i - next"]) auto
next
  case False
  assume "next < n" "i < n"
  with False show ?thesis by (intro exI [of _ "n + i - next"]) auto
qed

lemma arp_alloc_correct:
  assumes "arp_next s < ARP_CACHE_SZ"
  shows "case arp_alloc s of
      (None, t) \<Rightarrow> t = s \<and> (\<forall>i<ARP_CACHE_SZ. ae_state (ae s i) \<noteq> ARP_FREE)
    | (Some i, t) \<Rightarrow> i < ARP_CACHE_SZ \<and> ae_state (ae s i) = ARP_FREE \<and> arp_next t < ARP_CACHE_SZ \<and>
        t = (upd_ae i (\<lambda>a. a\<lparr>ae_dev := None, ae_retry := ARP_REQ_RETRY, ae_ttl := ARP_WAITTIME,
          ae_state := ARP_WAITING, ae_pro := ETH_P_IP, ae_list := []\<rparr>) s)\<lparr>arp_next := arp_next t\<rparr>"
proof -
  obtain r m where r: "arp_alloc_loop 20 (arp_cache s) (arp_next s) = (r, m)" by fastforce
  note loop = arp_alloc_loop_correct [OF assms, of 20 "arp_cache s", unfolded r]
  show ?thesis
  proof (cases r)
    case None
    have "ae_state (ae s i) \<noteq> ARP_FREE" if "i < 20" for i
      using mod_cover [OF assms that] loop None by auto
    moreover have "m = arp_next s" using loop None assms by simp
    ultimately show ?thesis using None r by (simp add: arp_alloc_def)
  next
    case (Some i)
    then show ?thesis using loop r by (simp add: arp_alloc_def Let_def)
  qed
qed

lemma find_upt_Some:
  "find P [0..<n] = Some i \<longleftrightarrow> i < n \<and> P i \<and> (\<forall>j<i. \<not> P j)"
  by (auto simp: find_Some_iff)

lemma arp_lookup_Some:
  "arp_lookup pro ip s = Some i \<longleftrightarrow>
     i < ARP_CACHE_SZ \<and> ae_state (ae s i) \<noteq> ARP_FREE \<and> ae_pro (ae s i) = pro \<and> ae_ipaddr (ae s i) = ip \<and>
     (\<forall>j<i. ae_state (ae s j) = ARP_FREE \<or> ae_pro (ae s j) \<noteq> pro \<or> ae_ipaddr (ae s j) \<noteq> ip)"
  unfolding arp_lookup_def find_upt_Some by auto

lemma arp_lookup_None:
  "arp_lookup pro ip s = None \<longleftrightarrow>
     (\<forall>j<ARP_CACHE_SZ. ae_state (ae s j) = ARP_FREE \<or> ae_pro (ae s j) \<noteq> pro \<or> ae_ipaddr (ae s j) \<noteq> ip)"
  by (auto simp: arp_lookup_def find_None_iff)

text \<open>
  The invariant of the cache: twenty entries, at most one in use per protocol address, each in use
  with a device and six bytes of hardware address, and only a waiting one with packets.
\<close>

definition arp_inv :: "'a net_state_scheme \<Rightarrow> bool" where
  "arp_inv s \<longleftrightarrow>
     length (arp_cache s) = ARP_CACHE_SZ \<and> arp_next s < ARP_CACHE_SZ \<and>
     (\<forall>i<ARP_CACHE_SZ. length (ae_hwaddr (ae s i)) = 6 \<and>
        (ae_state (ae s i) \<noteq> ARP_FREE \<longrightarrow> ae_dev (ae s i) \<noteq> None) \<and>
        (ae_state (ae s i) \<noteq> ARP_WAITING \<longrightarrow> ae_list (ae s i) = [])) \<and>
     (\<forall>i<ARP_CACHE_SZ. \<forall>j<ARP_CACHE_SZ. ae_state (ae s i) \<noteq> ARP_FREE \<longrightarrow> ae_state (ae s j) \<noteq> ARP_FREE \<longrightarrow>
        ae_pro (ae s i) = ae_pro (ae s j) \<longrightarrow> ae_ipaddr (ae s i) = ae_ipaddr (ae s j) \<longrightarrow> i = j)"

lemma arp_inv_cong: "arp_cache s = arp_cache t \<Longrightarrow> arp_next s = arp_next t \<Longrightarrow> arp_inv s = arp_inv t"
  by (simp add: arp_inv_def)

lemma arp_insert_inv:
  assumes inv: "arp_inv s" and none: "arp_lookup pro ip s = None"
  shows "arp_inv (snd (arp_insert n pro ip hw s))"
proof -
  have "arp_next s < 20" "length (arp_cache s) = 20" using inv by (auto simp: arp_inv_def)
  note * = arp_alloc_correct [OF this(1)]
  obtain r t where r: "arp_alloc s = (r, t)" by fastforce
  show ?thesis
  proof (cases r)
    case None
    then show ?thesis using * r inv by (simp add: arp_insert_def)
  next
    case (Some i)
    with * r have i: "i < 20" "ae_state (ae s i) = ARP_FREE" "arp_next t < 20"
      and t: "arp_cache t = (arp_cache s)[i := (ae s i)\<lparr>ae_dev := None, ae_retry := 4, ae_ttl := 1,
          ae_state := ARP_WAITING, ae_pro := ETH_P_IP, ae_list := []\<rparr>]"
      by (auto dest: arg_cong [where f = arp_cache])
    show ?thesis
      using inv none i t \<open>length (arp_cache s) = 20\<close> r Some
      by (auto simp: arp_insert_def arp_inv_def arp_lookup_None nth_list_update)
  qed
qed

section \<open>Sending and dropping the pending packets\<close>

text \<open>
  Two states agree on everything but the buffers, the cache, the driver's counters and the wire.
\<close>

definition same_net :: "'a net_state_scheme \<Rightarrow> 'a net_state_scheme \<Rightarrow> bool" where
  "same_net s t \<longleftrightarrow>
     net_state.more s = net_state.more t \<and> net_devices s = net_devices t \<and> loop s = loop t \<and>
     (\<forall>n. net_ipaddr (dev s n) = net_ipaddr (dev t n) \<and> net_hwaddr (dev s n) = net_hwaddr (dev t n) \<and>
       net_mask (dev s n) = net_mask (dev t n) \<and> net_mtu (dev s n) = net_mtu (dev t n))"

lemma same_net_refl [simp]: "same_net s s"
  by (simp add: same_net_def)

lemma same_net_trans: "same_net s t \<Longrightarrow> same_net t u \<Longrightarrow> same_net s u"
  by (simp add: same_net_def)

definition queue_ok :: "'a net_state_scheme \<Rightarrow> nat list \<Rightarrow> bool" where
  "queue_ok s q \<longleftrightarrow> distinct q \<and> (\<forall>p \<in> set q. pk_live (pkb s p))"

lemma queue_ok_tl:
  assumes "queue_ok s (p # ps)" "\<And>q. q \<noteq> p \<Longrightarrow> pkb t q = pkb s q"
  shows "queue_ok t ps"
  using assms unfolding queue_ok_def by (metis distinct.simps(2) list.set_intros(2))

lemma ae_list_nil: "ae_list (c ! i) = [] \<Longrightarrow> c[i := (c ! i)\<lparr>ae_list := []\<rparr>] = c"
proof -
  assume "ae_list (c ! i) = []"
  then have "(c ! i)\<lparr>ae_list := []\<rparr> = c ! i" by (cases "c ! i") simp
  then show ?thesis by (simp only: list_update_id)
qed

context net_device
begin

lemma same_net_tx: "same_net s (netdev_tx xmit n p len proto dst s)"
  by (simp add: same_net_def netdev_tx_simps)

lemma queue_send_loop:
  assumes "length (ae_list (ae s i)) \<le> k" "i < length (arp_cache s)" "ae_dev (ae s i) = Some n"
    "queue_ok s (ae_list (ae s i))" "pkb_inv s"
  shows "let t = arp_queue_send_loop xmit k i s in
    arp_cache t = (arp_cache s)[i := (ae s i)\<lparr>ae_list := []\<rparr>] \<and> arp_next t = arp_next s \<and>
    fault t = fault s \<and> pkb_inv t \<and> same_net s t \<and>
    (\<forall>q. q \<notin> set (ae_list (ae s i)) \<longrightarrow> pkb t q = pkb s q)"
  using assms
proof (induction k arbitrary: s)
  case 0
  then show ?case by (simp add: ae_list_nil)
next
  case (Suc k)
  show ?case
  proof (cases "ae_list (ae s i)")
    case Nil
    then show ?thesis using Suc.prems by (simp add: ae_list_nil)
  next
    case (Cons p ps)
    let ?a = "(ae s i)\<lparr>ae_list := ps\<rparr>" let ?s1 = "upd_ae i (\<lambda>a. a\<lparr>ae_list := ps\<rparr>) s"
    define s2 where "s2 = netdev_tx xmit n p (pk_len (pkb ?s1 p) - 14) (pk_pro (pkb ?s1 p)) (ae_hwaddr (ae ?s1 i)) ?s1"
    have step: "arp_queue_send_loop xmit (Suc k) i s = arp_queue_send_loop xmit k i s2"
      using Cons Suc.prems(2,3) by (simp add: s2_def)
    have live: "pk_live (pkb ?s1 p)" using Suc.prems(4) Cons by (simp add: queue_ok_def)
    have c2: "arp_cache s2 = (arp_cache s)[i := ?a]" "arp_next s2 = arp_next s" "fault s2 = fault s"
      using live by (simp_all add: s2_def netdev_tx_simps)
    have other: "pkb s2 q = pkb s q" if "q \<noteq> p" for q using that by (simp add: s2_def netdev_tx_simps)
    have q2: "queue_ok s2 ps" using Suc.prems(4) Cons by (intro queue_ok_tl [OF _ other]) simp
    have same: "same_net s s2" using same_net_tx [of ?s1] by (simp add: s2_def same_net_def)
    have inv1: "pkb_inv ?s1" using Suc.prems(5) pkb_inv_cong [of ?s1 s] by simp
    have inv2: "pkb_inv s2" unfolding s2_def by (rule netdev_tx_inv [OF inv1 live])
    have IH: "let t = arp_queue_send_loop xmit k i s2 in
      arp_cache t = (arp_cache s2)[i := (ae s2 i)\<lparr>ae_list := []\<rparr>] \<and> arp_next t = arp_next s2 \<and>
      fault t = fault s2 \<and> pkb_inv t \<and> same_net s2 t \<and>
      (\<forall>q. q \<notin> set (ae_list (ae s2 i)) \<longrightarrow> pkb t q = pkb s2 q)"
      using Suc.prems(1-3) Cons c2 q2 inv2 by (intro Suc.IH) simp_all
    show ?thesis
      using IH same Cons Suc.prems(2) unfolding step Let_def
      by (auto simp: c2 other intro: same_net_trans)
  qed
qed

lemmas queue_send = queue_send_loop [OF order.refl, folded arp_queue_send_def]

end

lemma queue_drop_loop:
  assumes "queue_ok s ps" "pkb_inv s" "i < length (arp_cache s)" "ps = [] \<longrightarrow> ae_list (ae s i) = []"
  shows "let t = arp_queue_drop_loop i ps s in
    arp_cache t = (arp_cache s)[i := (ae s i)\<lparr>ae_list := []\<rparr>] \<and> arp_next t = arp_next s \<and> wire t = wire s \<and>
    fault t = fault s \<and> pkb_inv t \<and> same_net s t \<and> (\<forall>q. q \<notin> set ps \<longrightarrow> pkb t q = pkb s q) \<and>
    (\<forall>q \<in> set ps. pk_refcnt (pkb t q) = pk_refcnt (pkb s q) - 1) \<and>
    alloc_pkbs t - free_pkbs t \<le> alloc_pkbs s - free_pkbs s"
  using assms
proof (induction ps arbitrary: s)
  case Nil
  then show ?case by (simp add: ae_list_nil)
next
  case (Cons p ps)
  let ?s1 = "upd_ae i (\<lambda>a. a\<lparr>ae_list := ps\<rparr>) s"
  define s2 where "s2 = free_pkb p ?s1"
  have live: "pk_live (pkb ?s1 p)" using Cons.prems(1) by (simp add: queue_ok_def)
  have inv1: "pkb_inv ?s1" using Cons.prems(2) by (simp add: pkb_inv_def live_pkbs_def)
  have c2: "arp_cache s2 = (arp_cache s)[i := (ae s i)\<lparr>ae_list := ps\<rparr>]" "arp_next s2 = arp_next s"
    "fault s2 = fault s" "wire s2 = wire s" "pkb_inv s2" "same_net s s2"
    "pk_refcnt (pkb s2 p) = pk_refcnt (pkb s p) - 1" "alloc_pkbs s2 - free_pkbs s2 \<le> alloc_pkbs s - free_pkbs s"
    using live free_pkb_inv [OF inv1 live] by (simp_all add: s2_def same_net_def free_pkb_live)
  have other: "pkb s2 q = pkb s q" if "q \<noteq> p" for q using that by (simp add: s2_def)
  have q2: "queue_ok s2 ps" using Cons.prems(1) other by (rule queue_ok_tl)
  have p: "p \<notin> set ps" using Cons.prems(1) by (simp add: queue_ok_def)
  have IH: "let t = arp_queue_drop_loop i ps s2 in
    arp_cache t = (arp_cache s2)[i := (ae s2 i)\<lparr>ae_list := []\<rparr>] \<and> arp_next t = arp_next s2 \<and> wire t = wire s2 \<and>
    fault t = fault s2 \<and> pkb_inv t \<and> same_net s2 t \<and> (\<forall>q. q \<notin> set ps \<longrightarrow> pkb t q = pkb s2 q) \<and>
    (\<forall>q \<in> set ps. pk_refcnt (pkb t q) = pk_refcnt (pkb s2 q) - 1) \<and>
    alloc_pkbs t - free_pkbs t \<le> alloc_pkbs s2 - free_pkbs s2"
    using Cons.prems(3) c2 q2 by (intro Cons.IH) simp_all
  have "arp_queue_drop_loop i (p # ps) s = arp_queue_drop_loop i ps s2" by (simp add: s2_def)
  moreover have "q \<in> set ps \<Longrightarrow> pkb s2 q = pkb s q" for q using p other by metis
  ultimately show ?case
    using IH p Cons.prems(3) c2(8) unfolding Let_def
    by (auto simp: c2(1-7) other intro: same_net_trans [OF c2(6)])
qed

lemma queue_drop:
  assumes "queue_ok s (ae_list (ae s i))" "pkb_inv s" "i < length (arp_cache s)"
  shows "let t = arp_queue_drop i s in
    arp_cache t = (arp_cache s)[i := (ae s i)\<lparr>ae_list := []\<rparr>] \<and> arp_next t = arp_next s \<and> wire t = wire s \<and>
    fault t = fault s \<and> pkb_inv t \<and> same_net s t \<and>
    (\<forall>q. q \<notin> set (ae_list (ae s i)) \<longrightarrow> pkb t q = pkb s q) \<and>
    (\<forall>q \<in> set (ae_list (ae s i)). pk_refcnt (pkb t q) = pk_refcnt (pkb s q) - 1) \<and>
    alloc_pkbs t - free_pkbs t \<le> alloc_pkbs s - free_pkbs s"
  unfolding arp_queue_drop_def using assms by (intro queue_drop_loop) auto

section \<open>Reception\<close>

lemma ae_upd: "i < length (arp_cache s) \<Longrightarrow> ae (upd_ae i f s) j = (if j = i then f (ae s i) else ae s j)"
  by (simp add: nth_list_update)

lemma arp_invD:
  assumes "arp_inv s" "i < ARP_CACHE_SZ"
  shows "i < length (arp_cache s)" "length (ae_hwaddr (ae s i)) = 6"
    "ae_state (ae s i) \<noteq> ARP_FREE \<Longrightarrow> \<exists>n. ae_dev (ae s i) = Some n"
    "ae_state (ae s i) \<noteq> ARP_WAITING \<Longrightarrow> ae_list (ae s i) = []"
  using assms by (auto simp: arp_inv_def)

text \<open>What an accepted packet from \<open>sip\<close> at \<open>sha\<close> does to an entry of the cache that it matches.\<close>

definition learn :: "bytes \<Rightarrow> arpentry \<Rightarrow> arpentry" where
  "learn sha a = a\<lparr>ae_hwaddr := hwacpy 0 sha (ae_hwaddr a), ae_list := [], ae_state := ARP_RESOLVED,
     ae_ttl := ARP_TIMEOUT\<rparr>"

definition arp_learn ::
  "(nat \<Rightarrow> nat \<Rightarrow> 'a net_state_scheme \<Rightarrow> 'a net_state_scheme) \<Rightarrow> bytes \<Rightarrow> nat \<Rightarrow> 'a net_state_scheme \<Rightarrow> 'a net_state_scheme" where
  "arp_learn xmit sha i s =
     (let s = upd_ae i (\<lambda>a. a\<lparr>ae_hwaddr := hwacpy 0 sha (ae_hwaddr a)\<rparr>) s;
          s = (if ae_state (ae s i) = ARP_WAITING then arp_queue_send xmit i s else s)
      in upd_ae i (\<lambda>a. a\<lparr>ae_state := ARP_RESOLVED, ae_ttl := ARP_TIMEOUT\<rparr>) s)"

lemma arp_recv_cases:
  "arp_recv xmit n p s =
     (let d = data_of s p in
      if MULTICAST (arp_tip d) then free_pkb p s
      else if arp_tip d \<noteq> net_ipaddr (dev s n) then free_pkb p s
      else let t = (case arp_lookup (arp_pro d) (arp_sip d) s of
               Some i \<Rightarrow> arp_learn xmit (arp_sha d) i s
             | None \<Rightarrow> if arp_op d = ARP_OP_REQUEST
                 then snd (arp_insert n (arp_pro d) (arp_sip d) (arp_sha d) s) else s)
        in if arp_op (data_of t p) = ARP_OP_REQUEST then arp_reply xmit n p t else free_pkb p t)"
  by (simp only: arp_recv_def arp_learn_def Let_def)

lemma learn_inv:
  assumes "arp_inv s" "i < ARP_CACHE_SZ" "ae_state (ae s i) \<noteq> ARP_FREE"
    "arp_cache t = (arp_cache s)[i := learn sha (ae s i)]" "arp_next t = arp_next s"
  shows "arp_inv t"
  using assms unfolding arp_inv_def by (auto simp: nth_list_update learn_def)

context net_device
begin

lemma arp_learn_correct:
  assumes "arp_inv s" "i < ARP_CACHE_SZ" "ae_state (ae s i) \<noteq> ARP_FREE"
    "queue_ok s (ae_list (ae s i))" "pkb_inv s"
  shows "let t = arp_learn xmit sha i s in
    arp_cache t = (arp_cache s)[i := learn sha (ae s i)] \<and> arp_next t = arp_next s \<and>
    fault t = fault s \<and> pkb_inv t \<and> same_net s t \<and>
    (\<forall>q. q \<notin> set (ae_list (ae s i)) \<longrightarrow> pkb t q = pkb s q)"
proof -
  note inv = arp_invD [OF assms(1,2)]
  obtain n where n: "ae_dev (ae s i) = Some n" using inv(3) assms(3) by blast
  define s1 where "s1 = upd_ae i (\<lambda>a. a\<lparr>ae_hwaddr := hwacpy 0 sha (ae_hwaddr a)\<rparr>) s"
  have s1: "arp_cache s1 = (arp_cache s)[i := (ae s i)\<lparr>ae_hwaddr := hwacpy 0 sha (ae_hwaddr (ae s i))\<rparr>]"
    "arp_next s1 = arp_next s" "fault s1 = fault s" "same_net s s1" "pkb s1 = pkb s" "pkb_inv s1"
    using assms(5) pkb_inv_cong [of s1 s] by (auto simp: s1_def same_net_def)
  show ?thesis
  proof (cases "ae_state (ae s i) = ARP_WAITING")
    case True
    define s2 where "s2 = arp_queue_send xmit i s1"
    have "let t = s2 in arp_cache t = (arp_cache s1)[i := (ae s1 i)\<lparr>ae_list := []\<rparr>] \<and>
        arp_next t = arp_next s1 \<and> fault t = fault s1 \<and> pkb_inv t \<and> same_net s1 t \<and>
        (\<forall>q. q \<notin> set (ae_list (ae s1 i)) \<longrightarrow> pkb t q = pkb s1 q)"
      unfolding s2_def using inv(1) n assms(4) s1 by (intro queue_send) (simp_all add: queue_ok_def)
    moreover have "arp_learn xmit sha i s = upd_ae i (\<lambda>a. a\<lparr>ae_state := ARP_RESOLVED, ae_ttl := 600\<rparr>) s2"
      using True inv(1) by (simp add: arp_learn_def s2_def s1_def)
    ultimately show ?thesis
      using inv(1) s1 pkb_inv_cong [of "upd_ae i (\<lambda>a. a\<lparr>ae_state := ARP_RESOLVED, ae_ttl := 600\<rparr>) s2" s2]
      by (auto simp: Let_def learn_def same_net_def)
  next
    case False
    have "arp_learn xmit sha i s = upd_ae i (\<lambda>a. a\<lparr>ae_state := ARP_RESOLVED, ae_ttl := 600\<rparr>) s1"
      using False inv(1) by (simp add: arp_learn_def s1_def)
    moreover have "learn sha (ae s i) = (ae s i)\<lparr>ae_hwaddr := hwacpy 0 sha (ae_hwaddr (ae s i)),
        ae_state := ARP_RESOLVED, ae_ttl := 600\<rparr>"
      using inv(4) False by (cases "ae s i") (simp add: learn_def)
    ultimately show ?thesis
      using inv(1) s1 pkb_inv_cong [of "upd_ae i (\<lambda>a. a\<lparr>ae_state := ARP_RESOLVED, ae_ttl := 600\<rparr>) s1" s1]
      by (auto simp: Let_def same_net_def)
  qed
qed

lemma arp_reply_simps:
  "arp_cache (arp_reply xmit n p s) = arp_cache s" "arp_next (arp_reply xmit n p s) = arp_next s"
  "pk_live (pkb s p) \<Longrightarrow> fault (arp_reply xmit n p s) = fault s"
  "same_net s (arp_reply xmit n p s)" "q \<noteq> p \<Longrightarrow> pkb (arp_reply xmit n p s) q = pkb s q"
  by (simp_all add: arp_reply_def Let_def netdev_tx_simps same_net_def)

lemma arp_reply_inv:
  assumes "pkb_inv s" "pk_live (pkb s p)"
  shows "pkb_inv (arp_reply xmit n p s)"
  unfolding arp_reply_def Let_def
  using assms pkb_inv_cong [of "upd_pkb p (pk_data_update (\<lambda>d. arp_hton (wr32 28 (net_ipaddr (dev s n))
    (hwacpy 22 (net_hwaddr (dev s n)) (wr32 38 (rd32 (hwacpy 32 (hwaddr_at 22 (wr16 20 2 d)) (wr16 20 2 d)) 28)
    (hwacpy 32 (hwaddr_at 22 (wr16 20 2 d)) (wr16 20 2 d))))))) s" s]
  by (intro netdev_tx_inv) simp_all

end

definition arp_queues_ok :: "'a net_state_scheme \<Rightarrow> nat \<Rightarrow> bool" where
  "arp_queues_ok s p \<longleftrightarrow> (\<forall>i<ARP_CACHE_SZ. queue_ok s (ae_list (ae s i)) \<and> p \<notin> set (ae_list (ae s i)))"

lemma arp_insert_simps [simp]:
  "pkb (snd (arp_insert n pro ip hw s)) p = pkb s p" "pk_next (snd (arp_insert n pro ip hw s)) = pk_next s"
  "alloc_pkbs (snd (arp_insert n pro ip hw s)) = alloc_pkbs s"
  "free_pkbs (snd (arp_insert n pro ip hw s)) = free_pkbs s" "fault (snd (arp_insert n pro ip hw s)) = fault s"
  "wire (snd (arp_insert n pro ip hw s)) = wire s" "dev (snd (arp_insert n pro ip hw s)) m = dev s m"
  "same_net s (snd (arp_insert n pro ip hw s))"
  by (auto simp: arp_insert_def arp_alloc_def Let_def same_net_def split: prod.splits option.splits)

text \<open>The cache after an accepted packet, before the answer is sent.\<close>

definition arp_update :: "nat \<Rightarrow> bytes \<Rightarrow> 'a net_state_scheme \<Rightarrow> arpentry list" where
  "arp_update n d s =
     (case arp_lookup (arp_pro d) (arp_sip d) s of
        Some i \<Rightarrow> (arp_cache s)[i := learn (arp_sha d) (ae s i)]
      | None \<Rightarrow> if arp_op d = ARP_OP_REQUEST
          then arp_cache (snd (arp_insert n (arp_pro d) (arp_sip d) (arp_sha d) s)) else arp_cache s)"

context net_device
begin

lemma pkb_inv_insert: "pkb_inv s \<Longrightarrow> pkb_inv (snd (arp_insert n pro ip hw s))"
  using pkb_inv_cong [of "snd (arp_insert n pro ip hw s)" s] by simp

lemma arp_middle:
  fixes n p :: nat
  assumes "arp_inv s" "pkb_inv s" "arp_queues_ok s p"
  defines "d \<equiv> data_of s p"
  defines "t \<equiv> case arp_lookup (arp_pro d) (arp_sip d) s of
      Some i \<Rightarrow> arp_learn xmit (arp_sha d) i s
    | None \<Rightarrow> if arp_op d = ARP_OP_REQUEST
        then snd (arp_insert n (arp_pro d) (arp_sip d) (arp_sha d) s) else s"
  shows "arp_cache t = arp_update n d s" "arp_inv t" "pkb_inv t" "fault t = fault s" "same_net s t"
    "pkb t p = pkb s p"
proof -
  have "arp_cache t = arp_update n d s \<and> arp_inv t \<and> pkb_inv t \<and> fault t = fault s \<and> same_net s t \<and>
      pkb t p = pkb s p"
  proof (cases "arp_lookup (arp_pro d) (arp_sip d) s")
    case None
    then show ?thesis
      using assms(1,2) arp_insert_inv [OF assms(1) None] pkb_inv_insert
      by (auto simp: t_def arp_update_def)
  next
    case (Some i)
    then have i: "i < 20" "ae_state (ae s i) \<noteq> ARP_FREE" by (auto simp: arp_lookup_Some)
    have q: "queue_ok s (ae_list (ae s i))" "p \<notin> set (ae_list (ae s i))"
      using assms(3) i by (auto simp: arp_queues_ok_def)
    have t: "t = arp_learn xmit (arp_sha d) i s" using Some by (simp add: t_def)
    note * = arp_learn_correct [OF assms(1) i q(1) assms(2), of "arp_sha d", unfolded Let_def, folded t]
    have "arp_inv t" by (rule learn_inv [OF assms(1) i]) (use * in auto)
    then show ?thesis using * q Some by (simp add: arp_update_def)
  qed
  then show "arp_cache t = arp_update n d s" "arp_inv t" "pkb_inv t" "fault t = fault s" "same_net s t"
    "pkb t p = pkb s p" by auto
qed

lemma arp_reply_pkb: "pk_refcnt (pkb (arp_reply xmit n p s) p) = pk_refcnt (pkb s p) - 1"
  by (simp add: arp_reply_def Let_def netdev_tx_pkb)

lemma arp_recv_correct:
  assumes "arp_inv s" "pkb_inv s" "arp_queues_ok s p" "pk_live (pkb s p)"
  shows "let t = arp_recv xmit n p s; d = data_of s p in
    arp_inv t \<and> pkb_inv t \<and> fault t = fault s \<and> pk_refcnt (pkb t p) = pk_refcnt (pkb s p) - 1 \<and>
    same_net s t \<and>
    arp_cache t = (if MULTICAST (arp_tip d) \<or> arp_tip d \<noteq> net_ipaddr (dev s n) then arp_cache s
      else arp_update n d s)"
proof -
  define t where "t = (case arp_lookup (arp_pro (data_of s p)) (arp_sip (data_of s p)) s of
      Some i \<Rightarrow> arp_learn xmit (arp_sha (data_of s p)) i s
    | None \<Rightarrow> if arp_op (data_of s p) = ARP_OP_REQUEST
        then snd (arp_insert n (arp_pro (data_of s p)) (arp_sip (data_of s p)) (arp_sha (data_of s p)) s) else s)"
  note mid = arp_middle [OF assms(1-3), of n, folded t_def]
  have live: "pk_live (pkb t p)" using mid(6) assms(4) by simp
  have arp: "arp_inv (free_pkb p s)" "arp_inv (free_pkb p t)" "arp_inv (arp_reply xmit n p t)"
    using assms(1) mid(2) by (simp_all add: arp_inv_def arp_reply_simps)
  have net: "same_net s (free_pkb p s)" "same_net s (free_pkb p t)" "same_net s (arp_reply xmit n p t)"
    using mid(5) same_net_trans [OF mid(5) arp_reply_simps(4)] by (simp_all add: same_net_def)
  show ?thesis
    unfolding arp_recv_cases Let_def t_def [symmetric]
    using assms mid live arp net
    by (simp add: free_pkb_inv free_pkb_live arp_reply_simps arp_reply_pkb arp_reply_inv)
qed

end

context net_device
begin

lemma upd_data_inv: "pkb_inv s \<Longrightarrow> pkb_inv (upd_data p f s)"
  using pkb_inv_cong [of "upd_data p f s" s] by simp

lemma arp_in_correct:
  assumes "arp_inv s" "pkb_inv s" "arp_queues_ok s p" "pk_live (pkb s p)"
  shows "let t = arp_in xmit n p s in
    arp_inv t \<and> pkb_inv t \<and> fault t = fault s \<and> pk_refcnt (pkb t p) = pk_refcnt (pkb s p) - 1"
proof -
  define s1 where "s1 = upd_data p arp_hton s"
  have s1: "arp_inv s1" "pkb_inv s1" "arp_queues_ok s1 p" "pk_live (pkb s1 p)" "fault s1 = fault s"
    "pk_refcnt (pkb s1 p) = pk_refcnt (pkb s p)"
    using assms arp_inv_cong [of s1 s] upd_data_inv
    by (auto simp: s1_def arp_queues_ok_def queue_ok_def)
  have free: "arp_inv (free_pkb p s)" "arp_inv (free_pkb p s1)"
    using assms(1) s1(1) by (simp_all add: arp_inv_def)
  show ?thesis
    unfolding arp_in_def Let_def s1_def [symmetric]
    using assms s1 free arp_recv_correct [OF s1(1-4), of n, unfolded Let_def]
    by (simp add: free_pkb_inv free_pkb_live)
qed

end

text \<open>
  C10: whatever frame arrives, \<open>arp_in\<close> keeps the cache well formed (twenty entries, one per address,
  packets queued only while waiting), the buffer accounting exact and raises no fault, and it
  releases the received buffer exactly once. This for every behaviour of the \<^verbatim>\<open>write\<close> system call.
\<close>

theorem arp_in_safe:
  fixes s :: "'a net_state_scheme"
  assumes "arp_inv s" and "pkb_inv s" and "arp_queues_ok s p" and "pk_live (pkb s p)"
  shows "let t = arp_in (veth_xmit wr) n p s in
    arp_inv t \<and> pkb_inv t \<and> fault t = fault s \<and> pk_refcnt (pkb t p) = pk_refcnt (pkb s p) - 1"
  using assms by (rule veth.arp_in_correct)

definition zero_arpentry :: arpentry where
  "zero_arpentry = \<lparr>ae_list = [], ae_dev = None, ae_retry = 0, ae_ttl = 0, ae_state = ARP_FREE, ae_pro = 0,
     ae_ipaddr = 0, ae_hwaddr = replicate 6 0\<rparr>"

text \<open>One device, 10.0.0.1 at 02:00:00:00:00:01, and an ARP request for it from 10.0.0.2.\<close>

definition sample_dev :: "net_state \<Rightarrow> net_state" where
  "sample_dev s = upd_dev 0 (\<lambda>d. d\<lparr>net_mtu := 1500, net_ipaddr := 0x0100000a, net_mask := 0x00ffffff,
     net_hwaddr := [2, 0, 0, 0, 0, 1]\<rparr>) (snd (netdev_alloc ''veth'' Veth_Ops None s))"

definition sample_request :: bytes where
  "sample_request = replicate 6 0xff @ [2, 0, 0, 0, 0, 2, 8, 6, 0, 1, 8, 0, 6, 4, 0, 1] @
     [2, 0, 0, 0, 0, 2, 10, 0, 0, 2, 0, 0, 0, 0, 0, 0, 10, 0, 0, 1]"

definition sample_arp :: net_state where
  "sample_arp = upd_data 0 (\<lambda>_. sample_request)
     (snd (alloc_pkb 42 ((sample_dev empty_net)\<lparr>arp_cache := replicate 20 zero_arpentry\<rparr>)))"

lemma sample_arp_ok:
  "arp_inv sample_arp" "pkb_inv sample_arp" "arp_queues_ok sample_arp 0" "pk_live (pkb sample_arp 0)"
proof -
  have c: "arp_cache sample_arp = replicate 20 zero_arpentry" "arp_next sample_arp = 0"
    by (simp_all add: sample_arp_def alloc_pkb_def sample_dev_def empty_net_def netdev_alloc_def Let_def)
  then show "arp_inv sample_arp" "arp_queues_ok sample_arp 0"
    by (auto simp: arp_inv_def arp_queues_ok_def queue_ok_def zero_arpentry_def)
  have "pkb_inv ((sample_dev empty_net)\<lparr>arp_cache := replicate 20 zero_arpentry\<rparr>)"
    by (simp add: pkb_inv_def live_pkbs_def pkb_def sample_dev_def empty_net_def netdev_alloc_def Let_def)
  then have "pkb_inv (snd (alloc_pkb 42 ((sample_dev empty_net)\<lparr>arp_cache := replicate 20 zero_arpentry\<rparr>)))"
    by (rule alloc_pkb_inv)
  then show "pkb_inv sample_arp"
    unfolding sample_arp_def by (rule veth.upd_data_inv)
  show "pk_live (pkb sample_arp 0)" by code_simp
qed

theorem arp_in_safe_witness:
  "let t = arp_in (veth_xmit (\<lambda>f. int (length f))) 0 0 sample_arp in
    arp_inv t \<and> pkb_inv t \<and> fault t = None \<and> pk_refcnt (pkb t 0) = 0"
proof -
  have "fault sample_arp = None" "pk_refcnt (pkb sample_arp 0) = 1" by code_simp+
  then show ?thesis using arp_in_safe [OF sample_arp_ok, of "\<lambda>f. int (length f)" 0] by simp
qed


definition sample_arp_host :: net_state where
  "sample_arp_host = upd_data 0 arp_hton sample_arp"

lemma sample_arp_host_ok:
  "arp_inv sample_arp_host" "pkb_inv sample_arp_host" "arp_queues_ok sample_arp_host 0"
  "pk_live (pkb sample_arp_host 0)"
  using sample_arp_ok arp_inv_cong [of sample_arp_host sample_arp] veth.upd_data_inv [of sample_arp 0 arp_hton]
  by (auto simp: sample_arp_host_def arp_queues_ok_def queue_ok_def)

lemma sample_arp_host_data:
  "data_of sample_arp_host 0 = [0xff, 0xff, 0xff, 0xff, 0xff, 0xff, 2, 0, 0, 0, 0, 2, 8, 6,
     1, 0, 0, 8, 6, 4, 1, 0, 2, 0, 0, 0, 0, 2, 10, 0, 0, 2, 0, 0, 0, 0, 0, 0, 10, 0, 0, 1]"
  by code_simp


text \<open>The frame that sends the pending packet \<open>q\<close> from device \<open>n\<close> to the hardware address \<open>hw\<close>.\<close>

definition pending_frame :: "'a net_state_scheme \<Rightarrow> nat \<Rightarrow> bytes \<Rightarrow> nat \<Rightarrow> nat \<times> bytes" where
  "pending_frame s n hw q =
     (n, take (nat (pk_len (pkb s q))) (hwacpy 6 (net_hwaddr (dev s n))
       (hwacpy 0 hw (set_eth_pro (htons (pk_pro (pkb s q))) (data_of s q)))))"

definition sendable :: "'a net_state_scheme \<Rightarrow> nat \<Rightarrow> bool" where
  "sendable s q \<longleftrightarrow> 14 \<le> pk_len (pkb s q) \<and> pk_len (pkb s q) \<le> int (length (data_of s q))"

context reliable_device
begin

lemma queue_send_loop_wire:
  assumes "length (ae_list (ae s i)) \<le> k" "i < length (arp_cache s)" "ae_dev (ae s i) = Some n"
    "distinct (ae_list (ae s i))" "\<forall>q \<in> set (ae_list (ae s i)). sendable s q"
  shows "wire (arp_queue_send_loop xmit k i s) =
    wire s @ map (pending_frame s n (ae_hwaddr (ae s i))) (ae_list (ae s i))"
  using assms
proof (induction k arbitrary: s)
  case (Suc k)
  show ?case
  proof (cases "ae_list (ae s i)")
    case (Cons p ps)
    let ?s1 = "upd_ae i (\<lambda>a. a\<lparr>ae_list := ps\<rparr>) s"
    define s2 where "s2 = netdev_tx xmit n p (pk_len (pkb ?s1 p) - 14) (pk_pro (pkb ?s1 p)) (ae_hwaddr (ae ?s1 i)) ?s1"
    have step: "arp_queue_send_loop xmit (Suc k) i s = arp_queue_send_loop xmit k i s2"
      using Cons Suc.prems(2,3) by (simp add: s2_def)
    have c2: "arp_cache s2 = (arp_cache s)[i := (ae s i)\<lparr>ae_list := ps\<rparr>]"
      "net_hwaddr (dev s2 n) = net_hwaddr (dev s n)"
      by (simp_all add: s2_def netdev_tx_simps)
    have "p \<notin> set ps" using Suc.prems(4) Cons by simp
    then have other: "pkb s2 q = pkb s q" if "q \<in> set ps" for q
      using that netdev_tx_simps(13) [of q p] by (cases "q = p") (simp_all add: s2_def)
    have "sendable s p" using Suc.prems(5) Cons by simp
    then have w: "wire s2 = wire s @ [pending_frame s n (ae_hwaddr (ae s i)) p]"
      unfolding s2_def using Suc.prems(2)
      by (subst netdev_tx_sends) (auto simp: sendable_def pending_frame_def)
    have "wire (arp_queue_send_loop xmit k i s2) =
        wire s2 @ map (pending_frame s2 n (ae_hwaddr (ae s2 i))) (ae_list (ae s2 i))"
      using Suc.prems Cons c2 other by (intro Suc.IH) (auto simp: sendable_def)
    moreover have "map (pending_frame s2 n (ae_hwaddr (ae s i))) ps = map (pending_frame s n (ae_hwaddr (ae s i))) ps"
      using other c2(2) by (simp add: pending_frame_def)
    ultimately show ?thesis using Cons c2 w Suc.prems(2) step by simp
  qed simp
qed simp

end

text \<open>
  C28: when the answer for a waiting entry arrives, all packets that were waiting for the address go out,
  in the order in which they were queued, each as a frame to the hardware address just learned,
  and nothing else is sent.
\<close>

theorem arp_reply_releases_pending:
  fixes s :: "'a net_state_scheme"
  assumes "arp_inv s" and "arp_tip (data_of s p) = net_ipaddr (dev s n)" and "\<not> MULTICAST (arp_tip (data_of s p))"
    and "arp_lookup (arp_pro (data_of s p)) (arp_sip (data_of s p)) s = Some i"
    and "ae_state (ae s i) = ARP_WAITING" and "ae_dev (ae s i) = Some m"
    and "arp_op (data_of s p) = ARP_OP_REPLY" and "arp_queues_ok s p" and "pkb_inv s"
    and "\<forall>q \<in> set (ae_list (ae s i)). sendable s q"
  shows "wire (arp_recv (veth_xmit (\<lambda>f. int (length f))) n p s) =
    wire s @ map (pending_frame s m (hwacpy 0 (arp_sha (data_of s p)) (ae_hwaddr (ae s i)))) (ae_list (ae s i))"
proof -
  let ?x = "veth_xmit (\<lambda>f. int (length f))" let ?d = "data_of s p"
  have i: "i < 20" "ae_state (ae s i) \<noteq> ARP_FREE" using assms(4) by (auto simp: arp_lookup_Some)
  note inv = arp_invD [OF assms(1) i(1)]
  have q: "queue_ok s (ae_list (ae s i))" "p \<notin> set (ae_list (ae s i))"
    using assms(8) i by (auto simp: arp_queues_ok_def)
  define s1 where "s1 = upd_ae i (\<lambda>a. a\<lparr>ae_hwaddr := hwacpy 0 (arp_sha ?d) (ae_hwaddr a)\<rparr>) s"
  have s1: "ae s1 i = (ae s i)\<lparr>ae_hwaddr := hwacpy 0 (arp_sha ?d) (ae_hwaddr (ae s i))\<rparr>"
    "length (arp_cache s1) = length (arp_cache s)" "wire s1 = wire s"
    "pending_frame s1 = pending_frame s" "sendable s1 = sendable s"
    using inv(1) by (auto simp: s1_def pending_frame_def sendable_def fun_eq_iff)
  have "wire (arp_queue_send ?x i s1) =
      wire s1 @ map (pending_frame s1 m (ae_hwaddr (ae s1 i))) (ae_list (ae s1 i))"
    unfolding arp_queue_send_def
    using s1 inv(1) assms(6,10) q(1) by (intro veth_ok.queue_send_loop_wire) (auto simp: queue_ok_def)
  then have w: "wire (arp_learn ?x (arp_sha ?d) i s) =
      wire s @ map (pending_frame s m (hwacpy 0 (arp_sha ?d) (ae_hwaddr (ae s i)))) (ae_list (ae s i))"
    using assms(5) s1 by (simp add: arp_learn_def Let_def s1_def [symmetric])
  have "pkb (arp_learn ?x (arp_sha ?d) i s) p = pkb s p"
    using veth.arp_learn_correct [OF assms(1) i q(1) assms(9)] q(2) by (simp add: Let_def)
  then show ?thesis
    using assms(2-4,7) w by (simp add: arp_recv_cases Let_def)
qed

text \<open>The same device, waiting for 10.0.0.2 with one packet of 20 bytes, receives the answer.\<close>

definition waiting_entry :: arpentry where
  "waiting_entry = zero_arpentry\<lparr>ae_state := ARP_WAITING, ae_dev := Some 0, ae_retry := 4, ae_ttl := 1,
     ae_pro := 0x0800, ae_ipaddr := 0x0200000a, ae_list := [1]\<rparr>"

definition sample_answer :: bytes where
  "sample_answer = [2, 0, 0, 0, 0, 1, 2, 0, 0, 0, 0, 2, 8, 6,
     1, 0, 0, 8, 6, 4, 2, 0, 2, 0, 0, 0, 0, 2, 10, 0, 0, 2, 2, 0, 0, 0, 0, 1, 10, 0, 0, 1]"

definition sample_wait :: net_state where
  "sample_wait = upd_ae 0 (\<lambda>_. waiting_entry) (snd (alloc_pkb 20 (upd_data 0 (\<lambda>_. sample_answer) sample_arp)))"

lemma sample_wait_simps:
  "arp_cache sample_wait = (replicate 20 zero_arpentry)[0 := waiting_entry]" "arp_next sample_wait = 0"
  "data_of sample_wait 0 = sample_answer" "net_ipaddr (dev sample_wait 0) = 0x0100000a"
proof -
  show "net_ipaddr (dev sample_wait 0) = 0x0100000a" by code_simp
qed (simp_all add: sample_wait_def sample_arp_def alloc_pkb_def sample_dev_def empty_net_def
      netdev_alloc_def Let_def)

lemma sample_wait_ok:
  "arp_inv sample_wait" "pkb_inv sample_wait" "arp_queues_ok sample_wait 0"
proof -
  note c = sample_wait_simps(1,2)
  show "arp_inv sample_wait"
    using c by (auto simp: arp_inv_def nth_list_update zero_arpentry_def waiting_entry_def)
  have "pk_live (pkb sample_wait 1)" by code_simp
  then show "arp_queues_ok sample_wait 0"
    using c by (auto simp: arp_queues_ok_def nth_list_update queue_ok_def zero_arpentry_def waiting_entry_def)
  have "pkb_inv (snd (alloc_pkb 20 (upd_data 0 (\<lambda>_. sample_answer) sample_arp)))"
    using sample_arp_ok(2) by (intro alloc_pkb_inv veth.upd_data_inv)
  then show "pkb_inv sample_wait"
    using veth.pkb_inv_cong [of sample_wait "snd (alloc_pkb 20 (upd_data 0 (\<lambda>_. sample_answer) sample_arp))"]
    by (simp add: sample_wait_def)
qed

theorem arp_reply_releases_pending_witness:
  "wire (arp_recv (veth_xmit (\<lambda>f. int (length f))) 0 0 sample_wait) =
     [(0, [2, 0, 0, 0, 0, 2, 2, 0, 0, 0, 0, 1, 0xff, 0xff] @ replicate 6 0)]"
proof -
  let ?d = "data_of sample_wait 0"
  have d: "arp_tip ?d = net_ipaddr (dev sample_wait 0)" "\<not> MULTICAST (arp_tip ?d)" "arp_pro ?d = 0x0800"
    "arp_sip ?d = 0x0200000a" "arp_op ?d = 2" "arp_sha ?d = [2, 0, 0, 0, 0, 2]"
    unfolding sample_wait_simps sample_answer_def by (simp_all add: eval_simps)
  have l: "arp_lookup (arp_pro ?d) (arp_sip ?d) sample_wait = Some 0"
    unfolding d by (simp add: arp_lookup_Some sample_wait_simps waiting_entry_def)
  have a: "ae sample_wait 0 = waiting_entry" by (simp add: sample_wait_simps)
  have p: "sendable sample_wait 1"
    "pending_frame sample_wait 0 (hwacpy 0 [2, 0, 0, 0, 0, 2] (ae_hwaddr waiting_entry)) 1 =
      (0, [2, 0, 0, 0, 0, 2, 2, 0, 0, 0, 0, 1, 0xff, 0xff] @ replicate 6 0)" "wire sample_wait = []"
    by code_simp+
  have w: "ae_state waiting_entry = ARP_WAITING" "ae_dev waiting_entry = Some 0" "ae_list waiting_entry = [1]"
    by (simp_all add: waiting_entry_def)
  from arp_reply_releases_pending [OF sample_wait_ok(1) d(1,2) l _ _ d(5) sample_wait_ok(3,2)]
  show ?thesis using p [unfolded One_nat_def] by (simp add: a w d)
qed

section \<open>The timer\<close>

text \<open>What a tick of the timer does to one entry.\<close>

definition tick :: "int \<Rightarrow> arpentry \<Rightarrow> arpentry" where
  "tick delta a =
     (if ae_state a = ARP_FREE then a
      else if ae_ttl a - delta > 0 then a\<lparr>ae_ttl := ae_ttl a - delta\<rparr>
      else if ae_state a = ARP_RESOLVED then a\<lparr>ae_ttl := ae_ttl a - delta, ae_state := ARP_FREE\<rparr>
      else if ae_retry a \<le> 0
        then a\<lparr>ae_ttl := ae_ttl a - delta, ae_retry := ae_retry a - 1, ae_list := [], ae_state := ARP_FREE\<rparr>
      else a\<lparr>ae_retry := ae_retry a - 1, ae_ttl := ARP_WAITTIME\<rparr>)"

definition arp_queues_wf :: "'a net_state_scheme \<Rightarrow> bool" where
  "arp_queues_wf s \<longleftrightarrow> (\<forall>i<ARP_CACHE_SZ. queue_ok s (ae_list (ae s i))) \<and>
     (\<forall>i<ARP_CACHE_SZ. \<forall>j<ARP_CACHE_SZ. i \<noteq> j \<longrightarrow> set (ae_list (ae s i)) \<inter> set (ae_list (ae s j)) = {})"

definition pool_room :: "'a net_state_scheme \<Rightarrow> bool" where
  "pool_room s \<longleftrightarrow> alloc_pkbs s - free_pkbs s < MAX_PKBS"

definition timer_ok :: "'a net_state_scheme \<Rightarrow> bool" where
  "timer_ok s \<longleftrightarrow> arp_inv s \<and> pkb_inv s \<and> arp_queues_wf s \<and> pool_room s"

lemma alloc_simps [simp]:
  "fst (alloc_pkb n s) = pk_next s" "arp_cache (snd (alloc_pkb n s)) = arp_cache s"
  "arp_next (snd (alloc_pkb n s)) = arp_next s" "dev (snd (alloc_pkb n s)) m = dev s m"
  "wire (snd (alloc_pkb n s)) = wire s" "net_devices (snd (alloc_pkb n s)) = net_devices s"
  "loop (snd (alloc_pkb n s)) = loop s" "net_state.more (snd (alloc_pkb n s)) = net_state.more s"
  "alloc_pkbs (snd (alloc_pkb n s)) = alloc_pkbs s + 1" "free_pkbs (snd (alloc_pkb n s)) = free_pkbs s"
  "q \<noteq> pk_next s \<Longrightarrow> pkb (snd (alloc_pkb n s)) q = pkb s q"
  "pk_live (pkb (snd (alloc_pkb n s)) (pk_next s))" "pk_refcnt (pkb (snd (alloc_pkb n s)) (pk_next s)) = 1"
  "pk_len (pkb (snd (alloc_pkb n s)) (pk_next s)) = n"
  by (simp_all add: alloc_pkb_def)

lemma alloc_fault: "pool_room s \<Longrightarrow> fault (snd (alloc_pkb n s)) = fault s"
  by (simp add: alloc_pkb_def new_pkb_fault pool_room_def)

context net_device
begin

lemma arp_request_correct:
  assumes "ae_dev (ae s i) = Some n" "pkb_inv s" "pool_room s"
  shows "let t = arp_request xmit i s in arp_cache t = arp_cache s \<and> arp_next t = arp_next s \<and>
    fault t = fault s \<and> pkb_inv t \<and> same_net s t \<and> pool_room t \<and>
    (\<forall>q. q \<noteq> pk_next s \<longrightarrow> pkb t q = pkb s q)"
proof -
  define s1 where "s1 = snd (alloc_pkb 42 s)"
  have s1: "arp_cache s1 = arp_cache s" "arp_next s1 = arp_next s" "fault s1 = fault s" "pkb_inv s1"
    "same_net s s1" "alloc_pkbs s1 = alloc_pkbs s + 1" "free_pkbs s1 = free_pkbs s"
    "pk_live (pkb s1 (pk_next s))" "pk_refcnt (pkb s1 (pk_next s)) = 1"
    "\<And>q. q \<noteq> pk_next s \<Longrightarrow> pkb s1 q = pkb s q"
    using assms alloc_pkb_inv alloc_fault by (auto simp: s1_def same_net_def)
  obtain f where req: "arp_request xmit i s =
      netdev_tx xmit n (pk_next s) (pk_len (pkb (upd_data (pk_next s) f s1) (pk_next s)) - 14)
        ETH_P_ARP BRD_HWADDR (upd_data (pk_next s) f s1)"
    using assms(1) by (auto simp: arp_request_def s1_def case_prod_beta Let_def)
  have "pkb_inv (upd_data (pk_next s) f s1)" using s1(4) by (rule upd_data_inv)
  then show ?thesis
    using s1 assms(3) unfolding req Let_def
    by (auto simp: netdev_tx_simps netdev_tx_pkb netdev_tx_inv same_net_def pool_room_def)
qed

end

text \<open>A change of entry \<open>i\<close> that keeps its key and does not add packets keeps the timer's invariant.\<close>

lemma timer_ok_update:
  assumes ok: "timer_ok s" and i: "i < ARP_CACHE_SZ"
    and cache: "arp_cache t = (arp_cache s)[i := b]" "arp_next t = arp_next s" and pool: "pkb_inv t" "pool_room t"
    and b: "ae_pro b = ae_pro (ae s i)" "ae_ipaddr b = ae_ipaddr (ae s i)" "ae_dev b = ae_dev (ae s i)"
      "ae_hwaddr b = ae_hwaddr (ae s i)" "ae_state b = ae_state (ae s i) \<or> ae_state b = ARP_FREE"
      "ae_list b = ae_list (ae s i) \<and> (ae_state b = ARP_WAITING \<or> ae_list b = []) \<or> ae_list b = []"
    and live: "\<And>j q. j < ARP_CACHE_SZ \<Longrightarrow> q \<in> set (ae_list (ae t j)) \<Longrightarrow> pk_live (pkb t q)"
  shows "timer_ok t"
proof -
  have inv: "arp_inv s" "arp_queues_wf s" using ok by (auto simp: timer_ok_def)
  note a = arp_invD [OF inv(1) i]
  have "arp_inv t"
    using inv(1) a cache b unfolding arp_inv_def by (auto simp: nth_list_update)
  moreover have "ae_list (ae t j) = ae_list (ae s j) \<or> ae_list (ae t j) = []" if "j < 20" for j
    using cache b(6) a(1) by (auto simp: nth_list_update)
  ultimately show ?thesis
    using inv(2) pool live unfolding timer_ok_def arp_queues_wf_def queue_ok_def
    by (metis Int_empty_left Int_empty_right distinct.simps(1) list.set(1))
qed

definition ttl_down :: "int \<Rightarrow> arpentry \<Rightarrow> arpentry" where
  "ttl_down delta a = a\<lparr>ae_ttl := ae_ttl a - delta\<rparr>"

definition retry_down :: "int \<Rightarrow> arpentry \<Rightarrow> arpentry" where
  "retry_down delta a = a\<lparr>ae_ttl := ae_ttl a - delta, ae_retry := ae_retry a - 1\<rparr>"

lemma timer_entry_cases:
  assumes "i < length (arp_cache s)"
  shows "ae_state (ae s i) = ARP_FREE \<Longrightarrow> arp_timer_entry xmit delta i s = s"
    and "ae_state (ae s i) \<noteq> ARP_FREE \<Longrightarrow> ae_ttl (ae s i) - delta > 0 \<Longrightarrow>
      arp_timer_entry xmit delta i s = upd_ae i (ttl_down delta) s"
    and "ae_state (ae s i) = ARP_RESOLVED \<Longrightarrow> ae_ttl (ae s i) - delta \<le> 0 \<Longrightarrow>
      arp_timer_entry xmit delta i s = upd_ae i (\<lambda>a. a\<lparr>ae_state := ARP_FREE\<rparr>) (upd_ae i (ttl_down delta) s)"
    and "ae_state (ae s i) = ARP_WAITING \<Longrightarrow> ae_ttl (ae s i) - delta \<le> 0 \<Longrightarrow> ae_retry (ae s i) \<le> 0 \<Longrightarrow>
      arp_timer_entry xmit delta i s =
        upd_ae i (\<lambda>a. a\<lparr>ae_state := ARP_FREE\<rparr>) (arp_queue_drop i (upd_ae i (retry_down delta) s))"
    and "ae_state (ae s i) = ARP_WAITING \<Longrightarrow> ae_ttl (ae s i) - delta \<le> 0 \<Longrightarrow> 0 < ae_retry (ae s i) \<Longrightarrow>
      arp_timer_entry xmit delta i s =
        arp_request xmit i (upd_ae i (\<lambda>a. (retry_down delta a)\<lparr>ae_ttl := ARP_WAITTIME\<rparr>) s)"
proof -
  have two: "upd_ae i g (upd_ae i f s) = upd_ae i (\<lambda>a. g (f a)) s" for f g
    using assms by (simp add: upd_ae_def)
  show "ae_state (ae s i) = ARP_FREE \<Longrightarrow> arp_timer_entry xmit delta i s = s"
    and "ae_state (ae s i) \<noteq> ARP_FREE \<Longrightarrow> ae_ttl (ae s i) - delta > 0 \<Longrightarrow>
      arp_timer_entry xmit delta i s = upd_ae i (ttl_down delta) s"
    and "ae_state (ae s i) = ARP_RESOLVED \<Longrightarrow> ae_ttl (ae s i) - delta \<le> 0 \<Longrightarrow>
      arp_timer_entry xmit delta i s = upd_ae i (\<lambda>a. a\<lparr>ae_state := ARP_FREE\<rparr>) (upd_ae i (ttl_down delta) s)"
    and "ae_state (ae s i) = ARP_WAITING \<Longrightarrow> ae_ttl (ae s i) - delta \<le> 0 \<Longrightarrow> ae_retry (ae s i) \<le> 0 \<Longrightarrow>
      arp_timer_entry xmit delta i s =
        upd_ae i (\<lambda>a. a\<lparr>ae_state := ARP_FREE\<rparr>) (arp_queue_drop i (upd_ae i (retry_down delta) s))"
    and "ae_state (ae s i) = ARP_WAITING \<Longrightarrow> ae_ttl (ae s i) - delta \<le> 0 \<Longrightarrow> 0 < ae_retry (ae s i) \<Longrightarrow>
      arp_timer_entry xmit delta i s =
        arp_request xmit i (upd_ae i (\<lambda>a. (retry_down delta a)\<lparr>ae_ttl := ARP_WAITTIME\<rparr>) s)"
    using assms by (simp_all add: arp_timer_entry_def Let_def two ttl_down_def [abs_def] retry_down_def [abs_def]
        cong: if_cong)
qed

context net_device
begin

lemma timer_entry_live:
  assumes "timer_ok s" "j < ARP_CACHE_SZ" "q \<in> set (ae_list (ae s j))"
  shows "pk_live (pkb s q)" "q < pk_next s"
  using assms pkb_invD(1) by (auto simp: timer_ok_def arp_queues_wf_def queue_ok_def)

lemma upd_ae_pool:
  "pkb_inv (upd_ae i f s) = pkb_inv s" "pool_room (upd_ae i f s) = pool_room s" "same_net t (upd_ae i f s) = same_net t s"
  using pkb_inv_cong [of "upd_ae i f s" s] by (simp_all add: pool_room_def same_net_def)

lemma timer_entry_dead:
  assumes ok: "timer_ok s" and i: "i < ARP_CACHE_SZ"
    and dead: "ae_state (ae s i) = ARP_WAITING" "ae_ttl (ae s i) - delta \<le> 0" "ae_retry (ae s i) \<le> 0"
  shows "let t = arp_timer_entry xmit delta i s in
    arp_cache t = (arp_cache s)[i := tick delta (ae s i)] \<and> timer_ok t \<and> fault t = fault s \<and> same_net s t"
proof -
  have inv: "arp_inv s" "pkb_inv s" "arp_queues_wf s" "pool_room s" using ok by (auto simp: timer_ok_def)
  note a = arp_invD [OF inv(1) i]
  define s2 where "s2 = upd_ae i (retry_down delta) s"
  define s3 where "s3 = arp_queue_drop i s2"
  let ?t = "upd_ae i (\<lambda>a. a\<lparr>ae_state := ARP_FREE\<rparr>) s3"
  have t: "arp_timer_entry xmit delta i s = ?t"
    using timer_entry_cases(4) [OF a(1) dead] by (simp add: s2_def s3_def)
  have "queue_ok s2 (ae_list (ae s2 i))" "pkb_inv s2" "i < length (arp_cache s2)"
    using inv i a(1) by (auto simp: arp_queues_wf_def queue_ok_def s2_def retry_down_def upd_ae_pool)
  note d = queue_drop [OF this, folded s3_def, unfolded Let_def]
  have cache: "arp_cache ?t = (arp_cache s)[i := tick delta (ae s i)]"
    using d dead a(1) by (simp add: s2_def retry_down_def tick_def)
  have "pk_live (pkb ?t q)" if "j < 20" "q \<in> set (ae_list (ae ?t j))" for j q
  proof -
    have j: "j \<noteq> i" "q \<in> set (ae_list (ae s j))"
      using that cache dead a(1) by (auto simp: nth_list_update tick_def split: if_splits)
    then have "q \<notin> set (ae_list (ae s i))" using inv(3) that(1) i by (auto simp: arp_queues_wf_def)
    then have "pkb ?t q = pkb s q" using d a(1) by (simp add: s2_def retry_down_def)
    then show ?thesis using timer_entry_live(1) [OF ok that(1) j(2)] by simp
  qed
  moreover have "pkb_inv ?t" "pool_room ?t"
    using d inv(4) by (auto simp: upd_ae_pool pool_room_def s2_def)
  ultimately have "timer_ok ?t"
    using cache d dead by (intro timer_ok_update [OF ok i cache]) (auto simp: tick_def s2_def)
  then show ?thesis using t d cache by (simp add: Let_def s2_def same_net_def)
qed

lemma timer_entry_retry:
  assumes ok: "timer_ok s" and i: "i < ARP_CACHE_SZ"
    and retry: "ae_state (ae s i) = ARP_WAITING" "ae_ttl (ae s i) - delta \<le> 0" "0 < ae_retry (ae s i)"
  shows "let t = arp_timer_entry xmit delta i s in
    arp_cache t = (arp_cache s)[i := tick delta (ae s i)] \<and> timer_ok t \<and> fault t = fault s \<and> same_net s t"
proof -
  have inv: "arp_inv s" "pkb_inv s" "pool_room s" using ok by (auto simp: timer_ok_def)
  note a = arp_invD [OF inv(1) i]
  define s3 where "s3 = upd_ae i (\<lambda>a. (retry_down delta a)\<lparr>ae_ttl := ARP_WAITTIME\<rparr>) s"
  let ?t = "arp_request xmit i s3"
  have t: "arp_timer_entry xmit delta i s = ?t"
    using timer_entry_cases(5) [OF a(1) retry] by (simp add: s3_def)
  have c3: "arp_cache s3 = (arp_cache s)[i := tick delta (ae s i)]"
    using retry a(1) by (simp add: s3_def retry_down_def tick_def)
  obtain n where n: "ae_dev (ae s3 i) = Some n"
    using a(1,3) retry by (auto simp: c3 tick_def)
  have pool: "pkb_inv s3" "pool_room s3" using inv by (simp_all add: s3_def upd_ae_pool)
  note r = arp_request_correct [OF n pool, unfolded Let_def]
  have cache: "arp_cache ?t = (arp_cache s)[i := tick delta (ae s i)]" using r c3 by simp
  have "pk_live (pkb ?t q)" if "j < 20" "q \<in> set (ae_list (ae ?t j))" for j q
  proof -
    have "q \<in> set (ae_list (ae s j))"
      using that cache retry a(1) by (auto simp: nth_list_update tick_def split: if_splits)
    then show ?thesis using r timer_entry_live [OF ok that(1), of q] by (simp add: s3_def)
  qed
  then have "timer_ok ?t"
    using r retry by (intro timer_ok_update [OF ok i cache]) (auto simp: tick_def s3_def)
  then show ?thesis using t r cache by (simp add: Let_def s3_def same_net_def)
qed

lemma timer_entry_correct:
  assumes ok: "timer_ok s" and i: "i < ARP_CACHE_SZ"
  shows "let t = arp_timer_entry xmit delta i s in
    arp_cache t = (arp_cache s)[i := tick delta (ae s i)] \<and> timer_ok t \<and> fault t = fault s \<and> same_net s t"
proof -
  have inv: "arp_inv s" "pkb_inv s" "pool_room s" using ok by (auto simp: timer_ok_def)
  note a = arp_invD [OF inv(1) i] and live = timer_entry_live(1) [OF ok]
  consider (free) "ae_state (ae s i) = ARP_FREE" | (young) "ae_state (ae s i) \<noteq> ARP_FREE" "ae_ttl (ae s i) - delta > 0"
    | (old) "ae_state (ae s i) = ARP_RESOLVED" "ae_ttl (ae s i) - delta \<le> 0"
    | (dead) "ae_state (ae s i) = ARP_WAITING" "ae_ttl (ae s i) - delta \<le> 0" "ae_retry (ae s i) \<le> 0"
    | (retry) "ae_state (ae s i) = ARP_WAITING" "ae_ttl (ae s i) - delta \<le> 0" "0 < ae_retry (ae s i)"
    by (cases "ae_state (ae s i)") linarith+
  then show ?thesis
  proof cases
    case free
    then show ?thesis using ok timer_entry_cases(1) [OF a(1)] by (simp add: tick_def)
  next
    case young
    have "timer_ok (upd_ae i (ttl_down delta) s)"
      by (rule timer_ok_update [OF ok i, where b = "tick delta (ae s i)"])
        (use young a live inv in \<open>auto simp: ttl_down_def tick_def nth_list_update upd_ae_pool split: if_splits\<close>)
    then show ?thesis
      using young timer_entry_cases(2) [OF a(1) young] by (simp add: Let_def ttl_down_def tick_def same_net_def)
  next
    case old
    have "timer_ok (upd_ae i (\<lambda>a. a\<lparr>ae_state := ARP_FREE\<rparr>) (upd_ae i (ttl_down delta) s))"
      by (rule timer_ok_update [OF ok i, where b = "tick delta (ae s i)"])
        (use old a live inv in \<open>auto simp: ttl_down_def tick_def nth_list_update upd_ae_pool split: if_splits\<close>)
    then show ?thesis
      using old a(1) timer_entry_cases(3) [OF a(1) old] by (simp add: Let_def ttl_down_def tick_def same_net_def)
  qed (use timer_entry_dead [OF ok i] timer_entry_retry [OF ok i] in blast)+
qed

end

context net_device
begin

lemma timer_fold:
  assumes "timer_ok s" "k \<le> ARP_CACHE_SZ"
  shows "let t = fold (arp_timer_entry xmit delta) [0..<k] s in
    arp_cache t = map (tick delta) (take k (arp_cache s)) @ drop k (arp_cache s) \<and> timer_ok t \<and>
    fault t = fault s \<and> same_net s t"
  using assms(2)
proof (induction k)
  case 0
  then show ?case using assms(1) by simp
next
  case (Suc k)
  define t where "t = fold (arp_timer_entry xmit delta) [0..<k] s"
  have len: "length (arp_cache s) = 20" using assms(1) by (simp add: timer_ok_def arp_inv_def)
  have IH: "arp_cache t = map (tick delta) (take k (arp_cache s)) @ drop k (arp_cache s)" "timer_ok t"
    "fault t = fault s" "same_net s t"
    using Suc by (simp_all add: t_def Let_def)
  have k: "k < 20" using Suc.prems by simp
  have "(map (tick delta) (take k (arp_cache s)) @ drop k (arp_cache s))[k := tick delta (ae s k)] =
      map (tick delta) (take (Suc k) (arp_cache s)) @ drop (Suc k) (arp_cache s)"
    using k len by (simp add: list_update_append take_Suc_conv_app_nth Cons_nth_drop_Suc [symmetric])
  moreover have "ae t k = ae s k" using IH(1) k len by (simp add: nth_append)
  ultimately show ?case
    using timer_entry_correct [OF IH(2) k, of delta] IH(1,3,4)
    by (auto simp: t_def [symmetric] Let_def intro: same_net_trans)
qed

lemma arp_timer_correct:
  assumes "timer_ok s"
  shows "arp_cache (arp_timer xmit delta s) = map (tick delta) (arp_cache s)" "timer_ok (arp_timer xmit delta s)"
    "fault (arp_timer xmit delta s) = fault s"
proof -
  have "length (arp_cache s) = 20" using assms by (simp add: timer_ok_def arp_inv_def)
  then show "arp_cache (arp_timer xmit delta s) = map (tick delta) (arp_cache s)" "timer_ok (arp_timer xmit delta s)"
    "fault (arp_timer xmit delta s) = fault s"
    using timer_fold [OF assms order.refl, of delta] by (simp_all add: arp_timer_def Let_def)
qed

lemma arp_timer_iterate:
  assumes "timer_ok s"
  shows "arp_cache ((arp_timer xmit delta ^^ k) s) = map (tick delta ^^ k) (arp_cache s) \<and>
    timer_ok ((arp_timer xmit delta ^^ k) s) \<and> fault ((arp_timer xmit delta ^^ k) s) = fault s"
proof (induction k)
  case 0
  then show ?case using assms by simp
next
  case (Suc k)
  then show ?case using arp_timer_correct by simp
qed

end

lemma tick_waiting:
  assumes "ae_state a = ARP_WAITING" "ae_retry a = 4" "ae_ttl a = 1"
  shows "k < 5 \<Longrightarrow> ae_state ((tick 1 ^^ k) a) = ARP_WAITING \<and> ae_retry ((tick 1 ^^ k) a) = 4 - int k \<and>
      ae_ttl ((tick 1 ^^ k) a) = 1 \<and> ae_list ((tick 1 ^^ k) a) = ae_list a"
    and "5 \<le> k \<Longrightarrow> ae_state ((tick 1 ^^ k) a) = ARP_FREE \<and> ae_list ((tick 1 ^^ k) a) = []"
proof -
  show *: "ae_state ((tick 1 ^^ k) a) = ARP_WAITING \<and> ae_retry ((tick 1 ^^ k) a) = 4 - int k \<and>
      ae_ttl ((tick 1 ^^ k) a) = 1 \<and> ae_list ((tick 1 ^^ k) a) = ae_list a" if "k < 5" for k
    using that assms by (induction k) (auto simp: tick_def)
  have five: "ae_state ((tick 1 ^^ 5) a) = ARP_FREE \<and> ae_list ((tick 1 ^^ 5) a) = []"
  proof -
    have "(tick 1 ^^ 5) a = tick 1 ((tick 1 ^^ 4) a)" by (simp add: numeral_eq_Suc)
    then show ?thesis using * [of 4] by (simp add: tick_def [of _ "(tick 1 ^^ 4) a"])
  qed
  show "ae_state ((tick 1 ^^ k) a) = ARP_FREE \<and> ae_list ((tick 1 ^^ k) a) = []" if "5 \<le> k"
    using that five by (induction k rule: dec_induct) (auto simp: tick_def)
qed

lemma tick_resolved:
  assumes "ae_state a = ARP_RESOLVED"
  shows "int k < ae_ttl a \<Longrightarrow> ae_state ((tick 1 ^^ k) a) = ARP_RESOLVED \<and> ae_ttl ((tick 1 ^^ k) a) = ae_ttl a - int k"
    and "ae_ttl a \<le> int k \<Longrightarrow> 0 < k \<Longrightarrow> ae_state ((tick 1 ^^ k) a) = ARP_FREE"
proof -
  show *: "ae_state ((tick 1 ^^ k) a) = ARP_RESOLVED \<and> ae_ttl ((tick 1 ^^ k) a) = ae_ttl a - int k"
    if "int k < ae_ttl a" for k
    using that assms by (induction k) (auto simp: tick_def)
  show "ae_state ((tick 1 ^^ k) a) = ARP_FREE" if "ae_ttl a \<le> int k" "0 < k"
    using that
  proof (induction k)
    case (Suc k)
    show ?case
    proof (cases "ae_ttl a \<le> int k \<and> 0 < k")
      case True
      then show ?thesis using Suc.IH by (simp add: tick_def [of _ "(tick 1 ^^ k) a"])
    next
      case False
      then consider "int k < ae_ttl a" | "k = 0" by auto
      then show ?thesis
        using * [of k] assms Suc.prems by cases (simp_all add: tick_def [of _ "(tick 1 ^^ k) a"] tick_def [of _ a])
    qed
  qed simp
qed



end
