(* ===== verification/Checksum.thy ===== *)
theory Checksum
  imports Headers
begin

text \<open>
  The internet checksum of \<^verbatim>\<open>src/lib/checksum.c\<close>. The sum runs over the 16-bit words of a buffer
  as the little-endian host loads them, in a 32-bit accumulator that wraps around; it is folded
  twice and complemented. A separate section gives the sum the specification (RFC 1071) asks for,
  on naturals that do not wrap, and relates the two.
\<close>

function sum16 :: "bytes \<Rightarrow> int \<Rightarrow> u32 \<Rightarrow> u32" where
  "sum16 data n origsum =
     (if n > 1 then sum16 (drop 2 data) (n - 2) (origsum + ucast (rd16 data 0))
      else if n \<noteq> 0 then origsum + ucast (ntohs (push_bit 8 (ucast (rd8 data 0 AND 0xff))))
      else origsum)"
  by pat_completeness auto
termination
  by (relation "measure (\<lambda>(data, n, origsum). nat n)") auto

declare sum16.simps [simp del]

definition checksum :: "bytes \<Rightarrow> int \<Rightarrow> u32 \<Rightarrow> u16" where
  "checksum data n origsum =
     (let origsum = sum16 data n origsum;
          origsum = (origsum AND 0xffff) + drop_bit 16 origsum;
          origsum = (origsum AND 0xffff) + drop_bit 16 origsum
      in ucast (NOT origsum AND 0xffff))"

definition ip_chksum :: "bytes \<Rightarrow> int \<Rightarrow> u16" where
  "ip_chksum data n = checksum data n 0"

definition icmp_chksum :: "bytes \<Rightarrow> int \<Rightarrow> u16" where
  "icmp_chksum data n = checksum data n 0"

definition tcp_udp_chksum :: "u32 \<Rightarrow> u32 \<Rightarrow> u16 \<Rightarrow> u16 \<Rightarrow> bytes \<Rightarrow> u16" where
  "tcp_udp_chksum src dst proto len data =
     (let s = ucast (htons proto) + ucast (htons len);
          s = s + src;
          s = s + dst
      in checksum data (int (unat len)) s)"

definition tcp_chksum :: "u32 \<Rightarrow> u32 \<Rightarrow> u16 \<Rightarrow> bytes \<Rightarrow> u16" where
  "tcp_chksum src dst len data = tcp_udp_chksum src dst (ucast IP_P_TCP) len data"

definition udp_chksum :: "u32 \<Rightarrow> u32 \<Rightarrow> u16 \<Rightarrow> bytes \<Rightarrow> u16" where
  "udp_chksum src dst len data = tcp_udp_chksum src dst (ucast IP_P_UDP) len data"

text \<open>
  The functions that fill a checksum field take the bytes of the packet and the offset of the
  transport header in it; the address fields are those of the IP header in front.
\<close>

definition udp_set_checksum :: "nat \<Rightarrow> bytes \<Rightarrow> bytes" where
  "udp_set_checksum off d =
     (let d = wr16 (off + 6) 0 d;
          d = wr16 (off + 6) (tcp_udp_chksum (ip_src d) (ip_dst d) (ucast IP_P_UDP)
                (ntohs (udp_length off d)) (drop off d)) d
      in if udp_checksum off d = 0 then wr16 (off + 6) 0xffff d else d)"

definition tcp_set_checksum :: "nat \<Rightarrow> bytes \<Rightarrow> bytes" where
  "tcp_set_checksum off d =
     (let d = wr16 (off + 16) 0 d
      in wr16 (off + 16) (tcp_udp_chksum (ip_src d) (ip_dst d) (ucast IP_P_TCP)
           (word_of_int (ipndlen d)) (drop off d)) d)"

definition ip_set_checksum :: "bytes \<Rightarrow> bytes" where
  "ip_set_checksum d =
     (let d = set_ip_cksum 0 d
      in set_ip_cksum (ip_chksum (drop 14 d) (int (iphlen d))) d)"

section \<open>The sum on naturals\<close>

text \<open>The words of the first \<open>n\<close> bytes, a last odd byte counting as the low half of a word.\<close>

definition nsum :: "bytes \<Rightarrow> nat \<Rightarrow> nat" where
  "nsum data n =
     (\<Sum>i<n div 2. unat (rd16 data (2 * i))) + (if odd n then unat (rd8 data (n - 1)) else 0)"

text \<open>The complement of the one's complement sum, as RFC 1071 defines it.\<close>

definition rfc1071 :: "nat \<Rightarrow> nat" where
  "rfc1071 s = (if s = 0 then 65535 else 65535 - (if 65535 dvd s then 65535 else s mod 65535))"

definition fold16 :: "nat \<Rightarrow> nat" where
  "fold16 s = s mod 65536 + s div 65536"

lemma rd8_drop: "rd8 (drop k d) i = rd8 d (k + i)"
  by (auto simp: rd8_def less_diff_conv add.commute)

lemma rd16_drop: "rd16 (drop k d) i = rd16 d (k + i)"
  by (simp add: rd16_def rd8_drop add.assoc)

lemma nsum_0 [simp]: "nsum d 0 = 0" and nsum_1: "nsum d (Suc 0) = unat (rd8 d 0)"
  by (simp_all add: nsum_def)

lemma nsum_Suc_Suc: "nsum d (Suc (Suc n)) = unat (rd16 d 0) + nsum (drop 2 d) n"
proof -
  have "(\<Sum>i<Suc (n div 2). unat (rd16 d (2 * i))) =
      unat (rd16 d 0) + (\<Sum>i<n div 2. unat (rd16 d (2 * Suc i)))"
    by (subst sum.lessThan_Suc_shift) simp
  moreover have "rd16 d (2 * Suc i) = rd16 (drop 2 d) (2 * i)" for i
    by (simp add: rd16_drop)
  moreover have "odd n \<Longrightarrow> rd8 d (Suc n) = rd8 (drop 2 d) (n - 1)"
    by (cases n) (auto simp: rd8_drop)
  ultimately show ?thesis by (simp add: nsum_def)
qed

lemma nsum_bound: "nsum d n \<le> 32768 * n + 65535"
proof (induction n arbitrary: d rule: nat_induct2)
  case (step n)
  have "unat (rd16 d 0) \<le> 65535" using unat_u16_lt [of "rd16 d 0"] by linarith
  with step [of "drop 2 d"] show ?case by (simp add: nsum_Suc_Suc)
next
  case 1
  have "unat (rd8 d 0) \<le> 65535" using unat_u8_lt [of "rd8 d 0"] by linarith
  then show ?case by (simp add: nsum_1)
qed simp

lemma unat_ucast_u32 [word_conv]: "unat (ucast (x :: u16) :: u32) = unat x"
  by (simp add: unsigned_ucast_eq take_bit_nat_eq_self less_trans [OF unat_u16_lt])

lemma unat_ucast_u8_u16 [word_conv]: "unat (ucast (x :: u8) :: u16) = unat x"
  by (simp add: unsigned_ucast_eq take_bit_nat_eq_self less_trans [OF unat_u8_lt])

lemma u8_and_ff: "b AND 0xff = (b :: u8)"
proof -
  have "(0xff :: u8) = mask 8" by (simp add: mask_eq_exp_minus_1)
  then have "b AND 0xff = take_bit 8 b" by (simp only: take_bit_eq_mask)
  then show ?thesis using take_bit_length_eq [of b] by simp
qed

lemma unat_odd_byte:
  "unat (ucast (ntohs (push_bit 8 (ucast (b AND 0xff)))) :: u32) = unat (b :: u8)"
proof -
  have "push_bit 8 (ucast b) = mk16 0 b" by (simp add: mk16_def)
  then have "ntohs (push_bit 8 (ucast (b AND 0xff))) = mk16 b 0"
    by (simp only: u8_and_ff htons_mk16)
  also have "mk16 b 0 = ucast b" by (simp add: mk16_def)
  finally show ?thesis by (simp only: unat_ucast_u32 unat_ucast_u8_u16)
qed

lemma sum16_nat:
  "0 \<le> n \<Longrightarrow> unat (sum16 d n s) = (unat s + nsum d (nat n)) mod 4294967296"
proof (induction d n s rule: sum16.induct)
  case (1 d n s)
  consider "n > 1" | "n = 1" | "n = 0" using "1.prems" by linarith
  then show ?case
  proof cases
    case 1
    then have "nat n = Suc (Suc (nat (n - 2)))" by linarith
    moreover have "unat (sum16 (drop 2 d) (n - 2) (s + ucast (rd16 d 0))) =
        (unat (s + ucast (rd16 d 0)) + nsum (drop 2 d) (nat (n - 2))) mod 4294967296"
      using "1.IH" 1 by simp
    ultimately show ?thesis
      using 1 by (simp add: sum16.simps [of d n s] unat_word_ariths unat_ucast_u32 nsum_Suc_Suc
          mod_add_left_eq add.assoc)
  next
    case 2
    then have "sum16 d n s = s + ucast (ntohs (push_bit 8 (ucast (rd8 d 0 AND 0xff))))"
      by (subst sum16.simps) simp
    with 2 show ?thesis
      by (simp only: unat_word_ariths unat_odd_byte) (simp add: nsum_1)
  next
    case 3
    then show ?thesis by (simp add: sum16.simps [of d 0 s])
  qed
qed


section \<open>Folding\<close>

lemma unat_fold16:
  "unat (((s :: u32) AND 0xffff) + drop_bit 16 s) = fold16 (unat s)"
proof -
  have m: "(0xffff :: u32) = mask 16" by (simp add: mask_eq_exp_minus_1)
  have lo: "unat (s AND 0xffff) = unat s mod 65536"
    unfolding m take_bit_eq_mask [symmetric] unsigned_take_bit_eq by (simp add: take_bit_eq_mod)
  have hi: "unat (drop_bit 16 s) = unat s div 65536"
    unfolding unsigned_drop_bit_eq using unat_u32_lt [of s]
    by (simp add: drop_bit_eq_div take_bit_eq_mod)
  have "unat s mod 65536 + unat s div 65536 < 4294967296"
    using unat_u32_lt [of s] by linarith
  then show ?thesis by (simp add: unat_word_ariths lo hi fold16_def)
qed

lemma fold16_mod: "fold16 s mod 65535 = s mod 65535"
proof -
  have "s = fold16 s + 65535 * (s div 65536)" by (simp add: fold16_def)
  then show ?thesis by (metis mod_mult_self2)
qed

lemma fold16_0: "fold16 s = 0 \<longleftrightarrow> s = 0"
  by (auto simp: fold16_def)

lemma fold16_twice_le: "s < 4294967296 \<Longrightarrow> fold16 (fold16 s) \<le> 65535"
proof -
  assume "s < 4294967296"
  then have "fold16 s \<le> 131070" unfolding fold16_def by linarith
  then show ?thesis
    by (cases "fold16 s < 65536") (auto simp: fold16_def [of "fold16 s"] le_mod_geq le_div_geq)
qed

lemma unat_complement16:
  assumes "unat (s :: u32) \<le> 65535"
  shows "unat (ucast (NOT s AND 0xffff) :: u16) = 65535 - unat s"
proof -
  have m: "(0xffff :: u32) = mask 16" by (simp add: mask_eq_exp_minus_1)
  have "unat (ucast (NOT s AND 0xffff) :: u16) = unat (NOT s) mod 65536"
    unfolding m take_bit_eq_mask [symmetric] unsigned_ucast_eq unsigned_take_bit_eq
    by (simp add: take_bit_eq_mod)
  also have "unat (NOT s) = 4294967295 - unat s"
  proof -
    have "NOT s = 0xffffffff - s" by (simp add: not_eq_complement)
    moreover have "s \<le> 0xffffffff"
      using unat_u32_lt [of s] by (simp add: word_le_nat_alt del: unat_u32_lt)
    ultimately show ?thesis by (simp add: unat_sub)
  qed
  also have "\<dots> = 65535 * 65536 + (65535 - unat s)" using assms by simp
  also have "(65535 * 65536 + (65535 - unat s)) mod 65536 = 65535 - unat s"
    by (subst mod_mult_self3) simp
  finally show ?thesis .
qed

lemma rfc1071_fold:
  assumes "f \<le> 65535" "f mod 65535 = s mod 65535" "f = 0 \<longleftrightarrow> s = 0"
  shows "rfc1071 s = 65535 - f"
proof (cases "f = 65535")
  case True
  then have "s \<noteq> 0" "65535 dvd s" using assms(2,3) by (simp_all add: dvd_eq_mod_eq_0)
  then show ?thesis using True by (simp add: rfc1071_def)
next
  case False
  then have "f = s mod 65535" using assms(1,2) by simp
  moreover have "s \<noteq> 0 \<Longrightarrow> \<not> 65535 dvd s" using assms(3) calculation by (simp add: dvd_eq_mod_eq_0)
  ultimately show ?thesis using assms(3) by (simp add: rfc1071_def)
qed

lemma checksum_nat:
  assumes "0 \<le> n" and "unat s + nsum d (nat n) < 4294967296"
  shows "unat (checksum d n s) = rfc1071 (unat s + nsum d (nat n))"
proof -
  let ?S = "unat s + nsum d (nat n)"
  have "unat (sum16 d n s) = ?S" using assms by (simp add: sum16_nat)
  then have "unat (checksum d n s) = 65535 - fold16 (fold16 ?S)"
    using fold16_twice_le [OF assms(2)]
    by (simp add: checksum_def Let_def unat_fold16 unat_complement16)
  moreover have "rfc1071 ?S = 65535 - fold16 (fold16 ?S)"
    using fold16_twice_le [OF assms(2)] by (intro rfc1071_fold) (simp_all add: fold16_mod fold16_0)
  ultimately show ?thesis by simp
qed

lemma rfc1071_cong:
  "a mod 65535 = b mod 65535 \<Longrightarrow> a = 0 \<longleftrightarrow> b = 0 \<Longrightarrow> rfc1071 a = rfc1071 b"
  by (auto simp: rfc1071_def dvd_eq_mod_eq_0)

lemma rfc1071_le: "rfc1071 s \<le> 65535"
  by (simp add: rfc1071_def)

lemma rfc1071_0: "rfc1071 s = 0 \<longleftrightarrow> s \<noteq> 0 \<and> 65535 dvd s"
proof -
  have "s mod 65535 < 65535" by simp
  then show ?thesis by (auto simp: rfc1071_def)
qed

text \<open>Adding the complement to the sum makes the checksum zero: what a receiver checks.\<close>

lemma rfc1071_verify: "rfc1071 (s + rfc1071 s) = 0"
proof -
  have "65535 dvd s + (65535 - s mod 65535)"
  proof -
    have "s + (65535 - s mod 65535) = 65535 * (s div 65535) + 65535"
      by (simp add: minus_mod_eq_mult_div [symmetric] mod_le_divisor less_imp_le)
    then show ?thesis by simp
  qed
  then show ?thesis unfolding rfc1071_0 by (auto simp: rfc1071_def)
qed

lemma rfc1071_verify_ffff: "rfc1071 s = 0 \<Longrightarrow> rfc1071 (s + 65535) = 0"
  unfolding rfc1071_0 by auto

section \<open>Filling a field of the summed bytes\<close>

lemma drop_wr8: "drop k (wr8 (k + i) v d) = wr8 i v (drop k d)"
  by (simp add: wr8_def drop_update_swap)

lemma drop_wr16: "drop k (wr16 (k + i) v d) = wr16 i v (drop k d)"
  using drop_wr8 [of k "Suc i"] by (simp add: wr16_def drop_wr8)

lemma rd16_wr16_even:
  assumes "even k" "k + 2 \<le> length d"
  shows "rd16 (wr16 k v d) (2 * i) = (if 2 * i = k then v else rd16 d (2 * i))"
proof (cases "2 * i = k")
  case True
  then show ?thesis using assms(2) by (simp add: rd16_wr16_same)
next
  case False
  with assms(1) have "2 * i + 2 \<le> k \<or> k + 2 \<le> 2 * i" by presburger
  with False show ?thesis by (auto intro!: rd16_wr16_other)
qed

lemma nsum_wr16:
  assumes "even k" "k + 2 \<le> n" "k + 2 \<le> length d" "rd16 d k = 0"
  shows "nsum (wr16 k v d) n = nsum d n + unat v"
proof -
  let ?j = "k div 2"
  have j: "?j \<in> {..<n div 2}" and k: "2 * ?j = k" using assms by auto
  have *: "rd16 (wr16 k v d) (2 * i) = (if i = ?j then v else rd16 d (2 * i))" for i
    using assms k by (auto simp: rd16_wr16_even)
  have "(\<Sum>i<n div 2. unat (rd16 (wr16 k v d) (2 * i))) =
      unat v + (\<Sum>i\<in>{..<n div 2} - {?j}. unat (rd16 d (2 * i)))"
    by (subst sum.remove [OF _ j]) (auto simp: * intro!: sum.cong)
  moreover have "(\<Sum>i<n div 2. unat (rd16 d (2 * i))) =
      (\<Sum>i\<in>{..<n div 2} - {?j}. unat (rd16 d (2 * i)))"
    using assms k by (subst sum.remove [OF _ j]) auto
  moreover have "odd n \<Longrightarrow> rd8 (wr16 k v d) (n - 1) = rd8 d (n - 1)"
    using assms by (cases n) (auto simp: rd8_wr16)
  ultimately show ?thesis by (simp add: nsum_def)
qed

lemma checksum_field_verifies:
  assumes "even k" "k + 2 \<le> n" "k + 2 \<le> length d" "rd16 d k = 0"
    and "unat s + nsum d n + 65535 < 4294967296"
  shows "checksum (wr16 k (checksum d (int n) s) d) (int n) s = 0"
    and "checksum d (int n) s = 0 \<Longrightarrow> checksum (wr16 k 0xffff d) (int n) s = 0"
proof -
  let ?S = "unat s + nsum d n"
  have c: "unat (checksum d (int n) s) = rfc1071 ?S"
    using checksum_nat [of "int n" s d] assms(5) by simp
  have w: "unat (checksum (wr16 k v d) (int n) s) = rfc1071 (?S + unat v)" for v
    using checksum_nat [of "int n" s "wr16 k v d"] assms unat_u16_lt [of v]
    by (simp add: nsum_wr16 add.assoc)
  show "checksum (wr16 k (checksum d (int n) s) d) (int n) s = 0"
    using w [of "checksum d (int n) s"] by (simp add: c rfc1071_verify unat_eq_zero)
  show "checksum (wr16 k 0xffff d) (int n) s = 0" if "checksum d (int n) s = 0"
    using w [of "0xffff"] c that by (simp add: rfc1071_verify_ffff unat_eq_zero)
qed

lemma iphlen_le: "iphlen d \<le> 60"
proof -
  have "ip_hlen d \<le> 15" unfolding ip_hlen_def by (rule word_and_le1)
  then have "unat (ip_hlen d) \<le> 15" by (simp add: word_le_nat_alt)
  then show ?thesis by (simp add: iphlen_def)
qed

lemma iphlen_wr16: "14 < k \<Longrightarrow> iphlen (wr16 k v d) = iphlen d"
  by (simp add: iphlen_def ip_hlen_def rd8_wr16)

lemma ip_set_checksum_eq: "ip_set_checksum d = wr16 24 (checksum (drop 14 (wr16 24 0 d)) (int (iphlen d)) 0) d"
  by (simp add: ip_set_checksum_def Let_def ip_chksum_def iphlen_wr16)

lemma ip_set_checksum_zero:
  assumes "12 \<le> iphlen d" and "26 \<le> length d"
  shows "ip_chksum (drop 14 (ip_set_checksum d)) (int (iphlen d)) = 0"
proof -
  let ?n = "iphlen d" and ?h = "drop 14 (wr16 24 0 d)"
  have "nsum ?h ?n \<le> 32768 * ?n + 65535" by (rule nsum_bound)
  then have b: "unat (0 :: u32) + nsum ?h ?n + 65535 < 4294967296" using iphlen_le [of d] by simp
  have e: "even (10 :: nat)" and l: "10 + 2 \<le> ?n" "10 + 2 \<le> length ?h" and z: "rd16 ?h 10 = 0"
    using assms by (simp_all add: rd16_drop)
  have "checksum (wr16 10 (checksum ?h (int ?n) 0) ?h) (int ?n) 0 = 0"
    by (rule checksum_field_verifies(1) [OF e l z b])
  then show ?thesis
    using drop_wr16 [of 14 10 _ d] by (simp add: ip_set_checksum_eq ip_chksum_def)
qed

text \<open>
  C19: after \<open>ip_set_checksum\<close> the IP header verifies: the checksum of the header, field included, is
  zero, and no byte but the two of the field has changed.
\<close>

theorem ip_set_checksum_verifies:
  assumes "12 \<le> iphlen d" and "26 \<le> length d"
  shows "ip_chksum (drop 14 (ip_set_checksum d)) (int (iphlen (ip_set_checksum d))) = 0 \<and>
    length (ip_set_checksum d) = length d \<and>
    (\<forall>i. i \<noteq> 24 \<and> i \<noteq> 25 \<longrightarrow> rd8 (ip_set_checksum d) i = rd8 d i)"
  using ip_set_checksum_zero [OF assms] by (simp add: ip_set_checksum_eq iphlen_wr16 rd8_wr16)

definition sample_ip :: bytes where
  "sample_ip = replicate 14 0 @ [0x45, 0, 0, 20, 0, 1, 0, 0, 64, 17, 0xab, 0xcd, 10, 0, 0, 1, 10, 0, 0, 2]"

theorem ip_set_checksum_verifies_witness:
  "ip_chksum (drop 14 (ip_set_checksum sample_ip)) (int (iphlen (ip_set_checksum sample_ip))) = 0"
proof -
  have "12 \<le> iphlen sample_ip" and "26 \<le> length sample_ip" by code_simp+
  then show ?thesis using ip_set_checksum_verifies [of sample_ip] by blast
qed

section \<open>The pseudo header\<close>

text \<open>
  The 16-bit words of the pseudo header the TCP and UDP checksums cover, added without wrap-around:
  the two halves of each address, the protocol and the length.
\<close>

definition pseudo_sum :: "u32 \<Rightarrow> u32 \<Rightarrow> u16 \<Rightarrow> u16 \<Rightarrow> nat" where
  "pseudo_sum src dst proto len =
     unat (lo16 src) + unat (hi16 src) + unat (lo16 dst) + unat (hi16 dst) +
     unat (htons proto) + unat (htons len)"

lemma unat_lo16: "unat (lo16 v) = unat v mod 65536"
  by (simp add: lo16_def unsigned_ucast_eq take_bit_eq_mod)

lemma unat_hi16: "unat (hi16 v) = unat v div 65536"
  unfolding hi16_def unsigned_ucast_eq unsigned_drop_bit_eq using unat_u32_lt [of v]
  by (simp add: drop_bit_eq_div take_bit_eq_mod del: unat_u32_lt)

lemma fold16_halves: "fold16 (unat (v :: u32)) = unat (lo16 v) + unat (hi16 v)"
  by (simp add: fold16_def unat_lo16 unat_hi16)

lemma pseudo_sum_cong:
  "(unat (htons proto) + unat (htons len) + unat src + unat dst + k) mod 65535 =
   (pseudo_sum src dst proto len + k) mod 65535"
proof -
  have "(a + unat src + unat dst + k) mod 65535 =
      (a + fold16 (unat src) + fold16 (unat dst) + k) mod 65535" for a
    by (intro mod_add_cong refl) (simp_all add: fold16_mod)
  from this [of "unat (htons proto) + unat (htons len)"] show ?thesis
    by (simp add: pseudo_sum_def fold16_halves add_ac)
qed

lemma pseudo_sum_0:
  "pseudo_sum src dst proto len = 0 \<longleftrightarrow>
   unat (htons proto) + unat (htons len) + unat src + unat dst = 0"
  using fold16_0 [of "unat src"] fold16_0 [of "unat dst"] unfolding pseudo_sum_def fold16_halves
  by auto

lemma tcp_udp_chksum_rfc:
  assumes "unat (htons proto) + unat (htons len) + unat src + unat dst + nsum d (unat len) < 4294967296"
  shows "unat (tcp_udp_chksum src dst proto len d) =
    rfc1071 (pseudo_sum src dst proto len + nsum d (unat len))"
proof -
  let ?s = "ucast (htons proto) + ucast (htons len) + src + dst :: u32"
  have "unat ?s = unat (htons proto) + unat (htons len) + unat src + unat dst"
    using assms by (simp add: unat_word_ariths unat_ucast_u32)
  moreover from this have "unat (tcp_udp_chksum src dst proto len d) =
      rfc1071 (unat ?s + nsum d (unat len))"
    using assms checksum_nat [of "int (unat len)" ?s d] by (simp add: tcp_udp_chksum_def Let_def)
  moreover have "rfc1071 (unat (htons proto) + unat (htons len) + unat src + unat dst + nsum d (unat len)) =
      rfc1071 (pseudo_sum src dst proto len + nsum d (unat len))"
    using pseudo_sum_cong pseudo_sum_0 [of src dst proto len] by (intro rfc1071_cong) auto
  ultimately show ?thesis by simp
qed

text \<open>
  C20: the checksum the TCP and UDP code computes is the RFC 1071 checksum of the pseudo header
  followed by the segment, on condition that the two addresses, as the host reads them, do not
  overflow the 32-bit accumulator when added to the rest of the sum.
\<close>

theorem transport_checksum_is_rfc1071:
  assumes "unat (htons (ucast IP_P_TCP)) + unat (htons len) + unat src + unat dst + nsum d (unat len) < 4294967296"
    and "unat (htons (ucast IP_P_UDP)) + unat (htons len) + unat src + unat dst + nsum d (unat len) < 4294967296"
  shows "unat (tcp_chksum src dst len d) =
      rfc1071 (pseudo_sum src dst (ucast IP_P_TCP) len + nsum d (unat len)) \<and>
    unat (udp_chksum src dst len d) =
      rfc1071 (pseudo_sum src dst (ucast IP_P_UDP) len + nsum d (unat len))"
  using assms unfolding tcp_chksum_def udp_chksum_def by (intro conjI tcp_udp_chksum_rfc)

theorem transport_checksum_is_rfc1071_witness:
  "unat (tcp_chksum 0x0100000a 0x0200000a 4 [1, 2, 3, 4]) =
     rfc1071 (pseudo_sum 0x0100000a 0x0200000a (ucast IP_P_TCP) 4 + nsum [1, 2, 3, 4] 4)"
proof -
  have "unat (htons (ucast IP_P_TCP)) + unat (htons 4) + unat (0x0100000a :: u32) + unat (0x0200000a :: u32)
      + nsum [1, 2, 3, 4] (unat (4 :: u16)) < 4294967296"
    and "unat (htons (ucast IP_P_UDP)) + unat (htons 4) + unat (0x0100000a :: u32) + unat (0x0200000a :: u32)
      + nsum [1, 2, 3, 4] (unat (4 :: u16)) < 4294967296"
    by code_simp+
  then show ?thesis using transport_checksum_is_rfc1071 [of 4 "0x0100000a" "0x0200000a" "[1, 2, 3, 4]"]
    by simp
qed


text \<open>The verification of a received UDP datagram or TCP segment, as the receive paths do it.\<close>

lemma set_checksum_verifies:
  assumes "34 \<le> off" "even k" "k + 2 \<le> unat len" "off + k + 2 \<le> length d"
    and "unat (ucast (htons proto) + ucast (htons len) + src + dst :: u32) +
      nsum (drop off (wr16 (off + k) 0 d)) (unat len) + 65535 < 4294967296"
  shows "tcp_udp_chksum src dst proto len (drop off (wr16 (off + k)
      (tcp_udp_chksum src dst proto len (drop off (wr16 (off + k) 0 d))) d)) = 0"
    and "tcp_udp_chksum src dst proto len (drop off (wr16 (off + k) 0 d)) = 0 \<Longrightarrow>
      tcp_udp_chksum src dst proto len (drop off (wr16 (off + k) 0xffff d)) = 0"
proof -
  let ?h = "drop off (wr16 (off + k) 0 d)"
  have "rd16 ?h k = 0" and "k + 2 \<le> length ?h" using assms by (simp_all add: rd16_drop)
  note * = checksum_field_verifies [OF assms(2,3) this(2,1) assms(5)]
  show "tcp_udp_chksum src dst proto len (drop off (wr16 (off + k)
      (tcp_udp_chksum src dst proto len ?h) d)) = 0"
    using *(1) unfolding tcp_udp_chksum_def Let_def drop_wr16 wr16_overwrite .
  show "tcp_udp_chksum src dst proto len (drop off (wr16 (off + k) 0xffff d)) = 0"
    if "tcp_udp_chksum src dst proto len ?h = 0"
    using *(2) that unfolding tcp_udp_chksum_def Let_def drop_wr16 wr16_overwrite .
qed

text \<open>The accumulator before the datagram's own words are added: addresses, protocol, length.\<close>

definition pseudo_acc :: "bytes \<Rightarrow> u8 \<Rightarrow> u16 \<Rightarrow> u32" where
  "pseudo_acc d proto len =
     ucast (htons (ucast proto)) + ucast (htons len) + ip_src d + ip_dst d"

lemma udp_set_checksum_zero:
  assumes "34 \<le> off" and "8 \<le> unat (ntohs (udp_length off d))" and "off + 8 \<le> length d"
    and "unat (pseudo_acc d IP_P_UDP (ntohs (udp_length off d))) +
      nsum (drop off (wr16 (off + 6) 0 d)) (unat (ntohs (udp_length off d))) + 65535 < 4294967296"
  shows "let d' = udp_set_checksum off d in
    udp_chksum (ip_src d') (ip_dst d') (ntohs (udp_length off d')) (drop off d') = 0 \<and>
    udp_checksum off d' \<noteq> 0"
proof -
  let ?l = "ntohs (udp_length off d)" and ?d0 = "wr16 (off + 6) 0 d"
  let ?c = "tcp_udp_chksum (ip_src d) (ip_dst d) (ucast IP_P_UDP) ?l (drop off ?d0)"
  have v: "udp_checksum off (wr16 (off + 6) v d) = v" for v
    using assms(3) by simp
  have l: "udp_length off (wr16 (off + 6) v d) = udp_length off d" for v
    by simp
  have a: "ip_src (wr16 (off + 6) v d) = ip_src d" "ip_dst (wr16 (off + 6) v d) = ip_dst d" for v
    using assms(1) by simp_all
  have set: "udp_set_checksum off d = wr16 (off + 6) (if ?c = 0 then 0xffff else ?c) d"
    unfolding udp_set_checksum_def Let_def wr16_overwrite a l v by (cases "?c = 0") simp_all
  have e: "even (6 :: nat)" and b: "6 + 2 \<le> unat ?l" and le: "off + 6 + 2 \<le> length d"
    using assms by simp_all
  note * = set_checksum_verifies [OF assms(1) e b le assms(4) [unfolded pseudo_acc_def]]
  show ?thesis
  proof (cases "?c = 0")
    case True
    then show ?thesis using *(2) unfolding Let_def set a l v udp_chksum_def by simp
  next
    case False
    then show ?thesis using *(1) unfolding Let_def set a l v udp_chksum_def by simp
  qed
qed

text \<open>
  A UDP datagram that \<open>udp_set_checksum\<close> has filled verifies with the receiver's computation
  over the same addresses, and its checksum field is never zero, the value that means no checksum.
\<close>

theorem udp_set_checksum_verifies:
  assumes "34 \<le> off" and "8 \<le> unat (ntohs (udp_length off d))" and "off + 8 \<le> length d"
    and "unat (pseudo_acc d IP_P_UDP (ntohs (udp_length off d))) +
      nsum (drop off (wr16 (off + 6) 0 d)) (unat (ntohs (udp_length off d))) + 65535 < 4294967296"
  shows "let d' = udp_set_checksum off d in
    udp_chksum (ip_src d') (ip_dst d') (ntohs (udp_length off d')) (drop off d') = 0 \<and>
    udp_checksum off d' \<noteq> 0"
  using assms by (rule udp_set_checksum_zero)

definition sample_udp :: bytes where
  "sample_udp = replicate 14 0 @
     [0x45, 0, 0, 31, 0, 1, 0, 0, 64, 17, 0, 0, 10, 0, 0, 1, 10, 0, 0, 2,
      0, 53, 0, 54, 0, 11, 0, 0, 7, 8, 9]"

theorem udp_set_checksum_verifies_witness:
  "let d' = udp_set_checksum 34 sample_udp in
    udp_chksum (ip_src d') (ip_dst d') (ntohs (udp_length 34 d')) (drop 34 d') = 0 \<and>
    udp_checksum 34 d' \<noteq> 0"
proof (rule udp_set_checksum_verifies)
  show "8 \<le> unat (ntohs (udp_length 34 sample_udp))" and "34 + 8 \<le> length sample_udp"
    and "unat (pseudo_acc sample_udp IP_P_UDP (ntohs (udp_length 34 sample_udp))) +
      nsum (drop 34 (wr16 (34 + 6) 0 sample_udp)) (unat (ntohs (udp_length 34 sample_udp))) + 65535
      < 4294967296"
    by code_simp+
qed simp

lemma tcp_set_checksum_zero:
  assumes "34 \<le> off" and "18 \<le> ipndlen d" and "off + 18 \<le> length d"
    and "unat (pseudo_acc d IP_P_TCP (word_of_int (ipndlen d))) +
      nsum (drop off (wr16 (off + 16) 0 d)) (nat (ipndlen d)) + 65535 < 4294967296"
  shows "let d' = tcp_set_checksum off d in
    tcp_chksum (ip_src d') (ip_dst d') (word_of_int (ipndlen d')) (drop off d') = 0"
proof -
  let ?l = "word_of_int (ipndlen d) :: u16"
  have "ipndlen d < 65536"
    using unat_u16_lt [of "ntohs (ip_len d)"] unfolding ipndlen_def by linarith
  then have u: "unat ?l = nat (ipndlen d)"
    using assms(2) by (simp only: unat_eq_nat_uint uint_word_of_int) simp
  have a: "ip_src (wr16 (off + 16) v d) = ip_src d" "ip_dst (wr16 (off + 16) v d) = ip_dst d"
    "ipndlen (wr16 (off + 16) v d) = ipndlen d" for v
    using assms(1) by (simp_all add: ipndlen_def iphlen_wr16)
  have e: "even (16 :: nat)" and b: "16 + 2 \<le> unat ?l" and le: "off + 16 + 2 \<le> length d"
    using assms by (simp_all add: u)
  note * = set_checksum_verifies(1) [OF assms(1) e b le, where src = "ip_src d" and dst = "ip_dst d"
      and proto = "ucast IP_P_TCP"]
  show ?thesis
    using * assms(4) unfolding Let_def tcp_set_checksum_def wr16_overwrite a tcp_chksum_def pseudo_acc_def u
    by blast
qed


definition sample_tcp :: bytes where
  "sample_tcp = replicate 14 0 @
     [0x45, 0, 0, 41, 0, 1, 0, 0, 64, 6, 0, 0, 10, 0, 0, 1, 10, 0, 0, 2,
      0, 80, 0, 81, 0, 0, 0, 1, 0, 0, 0, 2, 0x50, 0x10, 1, 0, 0, 0, 0, 0, 5]"


text \<open>Replacing a word of the summed bytes, whatever it held.\<close>

lemma nsum_replace:
  assumes "even k" "k + 2 \<le> n" "k + 2 \<le> length d"
  shows "nsum (wr16 k v d) n + unat (rd16 d k) = nsum d n + unat v"
proof -
  have z: "rd16 (wr16 k 0 d) k = 0" "k + 2 \<le> length (wr16 k 0 d)" using assms by simp_all
  have "nsum (wr16 k w d) n = nsum (wr16 k 0 d) n + unat w" for w
    using nsum_wr16 [OF assms(1,2) z(2,1), of w] by simp
  from this [of v] this [of "rd16 d k"] show ?thesis
    using wr16_rd16 [of k d] assms(3) by simp
qed

lemma checksum_zero:
  assumes "n \<le> 65535"
  shows "checksum d (int n) 0 = 0 \<longleftrightarrow> nsum d n \<noteq> 0 \<and> 65535 dvd nsum d n"
proof -
  have "nsum d n < 4294967296" using nsum_bound [of d n] assms by simp
  then have "unat (checksum d (int n) 0) = rfc1071 (nsum d n)"
    using checksum_nat [of "int n" 0 d] by simp
  then show ?thesis using rfc1071_0 [of "nsum d n"] by (simp add: unat_eq_zero [symmetric] del: unat_eq_zero)
qed

end
