(* ===== verification/Ip_Out.thy ===== *)
theory Ip_Out
  imports Arp Route Checksum
begin

text \<open>
  The sending side of IP: \<^verbatim>\<open>src/ip/ip_out.c\<close> and the fragmentation half of \<^verbatim>\<open>src/ip/ip_frag.c\<close>. A packet is in
  network order here. \<open>xmit\<close> is the driver's transmit function.
\<close>

record fragment =
  frag_id :: u16
  frag_src :: u32
  frag_dst :: u32
  frag_pro :: u16
  frag_hlen :: int
  frag_rsize :: int
  frag_size :: int
  frag_ttl :: int
  frag_flags :: u32
  frag_pkb :: "nat list"

record ip_state = rt_state +
  frag_head :: "fragment list"
  ipid :: u16

type_synonym 's xmit_fun = "nat \<Rightarrow> nat \<Rightarrow> 's \<Rightarrow> 's"

section \<open>ip_out.c: the next hop\<close>

definition ae_enqueue :: "nat \<Rightarrow> nat \<Rightarrow> 'a net_state_scheme \<Rightarrow> 'a net_state_scheme" where
  "ae_enqueue i p = upd_ae i (\<lambda>a. a\<lparr>ae_list := ae_list a @ [p]\<rparr>)"

definition next_hop :: "rtentry \<Rightarrow> bytes \<Rightarrow> u32" where
  "next_hop rt d = (if rt_flags rt AND RT_DEFAULT \<noteq> 0 \<or> rt_metric rt > 0 then rt_gw rt else ip_dst d)"

definition ip_send_dev ::
  "'a ip_state_scheme xmit_fun \<Rightarrow> nat \<Rightarrow> nat \<Rightarrow> 'a ip_state_scheme \<Rightarrow> 'a ip_state_scheme" where
  "ip_send_dev xmit n p s =
     (case pk_rtdst (pkb s p) of
        None \<Rightarrow> set_fault Null_Deref s
      | Some rt \<Rightarrow>
          if rt_flags rt AND RT_LOCALHOST \<noteq> 0
          then netdev_tx xmit n p (pk_len (pkb s p) - int ETH_HRD_SZ) ETH_P_IP (net_hwaddr (dev s n)) s
          else
            let dst = next_hop rt (data_of s p)
            in case arp_lookup ETH_P_IP dst s of
                 None \<Rightarrow>
                   (case arp_alloc s of
                      (None, s) \<Rightarrow> free_pkb p s
                    | (Some i, s) \<Rightarrow>
                        let s = upd_ae i (\<lambda>a. a\<lparr>ae_ipaddr := dst, ae_dev := Some n\<rparr>) s;
                            s = ae_enqueue i p s
                        in arp_request xmit i s)
               | Some i \<Rightarrow>
                   if ae_state (ae s i) = ARP_WAITING then ae_enqueue i p s
                   else netdev_tx xmit n p (pk_len (pkb s p) - int ETH_HRD_SZ) ETH_P_IP
                     (ae_hwaddr (ae s i)) s)"

section \<open>ip_frag.c: splitting\<close>

definition ip_frag ::
  "nat \<Rightarrow> nat \<Rightarrow> int \<Rightarrow> int \<Rightarrow> u16 \<Rightarrow> 'a ip_state_scheme \<Rightarrow> nat \<times> 'a ip_state_scheme" where
  "ip_frag p hlen dlen off mf_bit s =
     (let (q, s) = alloc_pkb (int ETH_HRD_SZ + int hlen + dlen) s;
          s = (if dlen < 0 then set_fault Out_Of_Bounds s else s);
          b = pkb s p;
          s = upd_pkb q (\<lambda>c. c\<lparr>pk_pro := pk_pro b, pk_type := pk_type b, pk_indev := pk_indev b,
            pk_rtdst := pk_rtdst b\<rparr>) s;
          s = upd_data q (\<lambda>d. memcpy d ETH_HRD_SZ (drop ETH_HRD_SZ (pk_data b)) hlen) s;
          s = upd_data q (\<lambda>d. memcpy d (ETH_HRD_SZ + hlen)
            (drop (ETH_HRD_SZ + hlen + nat off) (pk_data b)) (nat dlen)) s;
          s = upd_data q (set_ip_len (htons (word_of_int (int hlen + dlen)))) s;
          mf_bit = mf_bit OR word_of_int (off div 8);
          s = upd_data q (set_ip_fragoff (htons mf_bit)) s;
          s = upd_data q ip_set_checksum s
      in (q, s))"

text \<open>
  The loop of \<open>ip_send_frag\<close>. It ends when \<open>mlen\<close> is positive; with a device MTU that leaves no room for
  eight bytes behind the header it does not, which the model reports when the bound is used up.
\<close>

fun ip_send_frag_loop ::
  "nat \<Rightarrow> 'a ip_state_scheme xmit_fun \<Rightarrow> nat \<Rightarrow> nat \<Rightarrow> nat \<Rightarrow> int \<Rightarrow> int \<Rightarrow> int \<Rightarrow>
   'a ip_state_scheme \<Rightarrow> int \<times> int \<times> 'a ip_state_scheme" where
  "ip_send_frag_loop 0 xmit n p hlen mlen dlen off s =
     (if dlen > mlen then (dlen, off, set_fault Out_Of_Fuel s) else (dlen, off, s))"
| "ip_send_frag_loop (Suc k) xmit n p hlen mlen dlen off s =
     (if dlen > mlen
      then let (q, s) = ip_frag p hlen mlen off IP_FRAG_MF s;
               s = ip_send_dev xmit n q s
           in ip_send_frag_loop k xmit n p hlen mlen (dlen - mlen) (off + mlen) s
      else (dlen, off, s))"

definition ip_send_frag ::
  "'a ip_state_scheme xmit_fun \<Rightarrow> nat \<Rightarrow> nat \<Rightarrow> 'a ip_state_scheme \<Rightarrow> 'a ip_state_scheme" where
  "ip_send_frag xmit n p s =
     (let d = data_of s p;
          hlen = iphlen d;
          dlen = int (unat (ntohs (ip_len d))) - int hlen;
          mlen = (net_mtu (dev s n) - int hlen) div 8 * 8;
          (dlen, off, s) = ip_send_frag_loop (nat dlen) xmit n p hlen mlen dlen 0 s;
          s = (if dlen \<noteq> 0
               then let (q, s) = ip_frag p hlen dlen off (ip_fragoff (data_of s p) AND IP_FRAG_MF) s
                    in ip_send_dev xmit n q s
               else s)
      in free_pkb p s)"

section \<open>ip_out.c: entry points\<close>

definition ip_send_out ::
  "'a ip_state_scheme xmit_fun \<Rightarrow> nat \<Rightarrow> 'a ip_state_scheme \<Rightarrow> 'a ip_state_scheme" where
  "ip_send_out xmit p s =
     (let s = upd_pkb p (\<lambda>b. b\<lparr>pk_pro := ETH_P_IP\<rparr>) s;
          (r, s) = (if pk_rtdst (pkb s p) = None then rt_output p s else (0, s))
      in if r < 0 then free_pkb p s
         else
           let s = upd_data p ip_set_checksum s
           in case pk_rtdst (pkb s p) of
                None \<Rightarrow> set_fault Null_Deref s
              | Some rt \<Rightarrow>
                  if int (unat (ntohs (ip_len (data_of s p)))) > net_mtu (dev s (rt_dev rt))
                  then ip_send_frag xmit (rt_dev rt) p s
                  else ip_send_dev xmit (rt_dev rt) p s)"

definition ip_send_info ::
  "'a ip_state_scheme xmit_fun \<Rightarrow> nat \<Rightarrow> u8 \<Rightarrow> u16 \<Rightarrow> u8 \<Rightarrow> u8 \<Rightarrow> u32 \<Rightarrow>
   'a ip_state_scheme \<Rightarrow> 'a ip_state_scheme" where
  "ip_send_info xmit p tos len ttl pro dst s =
     (let s = upd_data p (\<lambda>d.
            let d = set_ip_ver 4 d;
                d = set_ip_hlen 5 d;
                d = set_ip_tos tos d;
                d = set_ip_len (htons len) d;
                d = set_ip_id (htons (ipid s)) d;
                d = set_ip_fragoff 0 d;
                d = set_ip_ttl ttl d;
                d = set_ip_pro pro d
            in set_ip_dst dst d) s;
          s = s\<lparr>ipid := ipid s + 1\<rparr>
      in ip_send_out xmit p s)"

end
