(* ===== verification/Ip_Reass.thy ===== *)
theory Ip_Reass
  imports Ip_Out "HOL-Library.Multiset"
begin

text \<open>
  The reassembly half of \<^verbatim>\<open>src/ip/ip_frag.c\<close>. A datagram under reassembly is a record of the list
  \<open>frag_head\<close>, named by its index; its fragments are packet buffers in host order. The sizes are
  kept as integers: at most 8192 offsets of at most 65535 bytes stay far below the 32 bits of the
  C fields.
\<close>

abbreviation (input) FRAG_COMPLETE :: u32 where "FRAG_COMPLETE \<equiv> 1"
abbreviation (input) FRAG_FIRST_IN :: u32 where "FRAG_FIRST_IN \<equiv> 2"
abbreviation (input) FRAG_LAST_IN :: u32 where "FRAG_LAST_IN \<equiv> 4"
abbreviation (input) FRAG_FL_IN :: u32 where "FRAG_FL_IN \<equiv> 6"
abbreviation (input) FRAG_TIME :: int where "FRAG_TIME \<equiv> 30"

definition full_frag :: "fragment \<Rightarrow> bool" where
  "full_frag f \<longleftrightarrow> frag_flags f AND FRAG_FL_IN = FRAG_FL_IN \<and> frag_rsize f = frag_size f"

definition complete_frag :: "fragment \<Rightarrow> bool" where
  "complete_frag f \<longleftrightarrow> frag_flags f AND FRAG_COMPLETE \<noteq> 0"

abbreviation (input) frag_at :: "'a ip_state_scheme \<Rightarrow> nat \<Rightarrow> fragment" where
  "frag_at s i \<equiv> frag_head s ! i"

definition upd_frag :: "nat \<Rightarrow> (fragment \<Rightarrow> fragment) \<Rightarrow> 'a ip_state_scheme \<Rightarrow> 'a ip_state_scheme" where
  "upd_frag i f s = s\<lparr>frag_head := (frag_head s)[i := f (frag_head s ! i)]\<rparr>"

text \<open>\<open>new_frag\<close> puts the new record in front, at index 0.\<close>

definition new_frag :: "bytes \<Rightarrow> 'a ip_state_scheme \<Rightarrow> 'a ip_state_scheme" where
  "new_frag d s =
     s\<lparr>frag_head := \<lparr>frag_id = ip_id d, frag_src = ip_src d, frag_dst = ip_dst d, frag_pro = ucast (ip_pro d),
         frag_hlen = 0, frag_rsize = 0, frag_size = 0, frag_ttl = FRAG_TIME, frag_flags = 0,
         frag_pkb = []\<rparr> # frag_head s\<rparr>"

definition delete_frag :: "nat \<Rightarrow> 'a ip_state_scheme \<Rightarrow> 'a ip_state_scheme" where
  "delete_frag i s =
     (let q = frag_pkb (frag_at s i);
          s = s\<lparr>frag_head := take i (frag_head s) @ drop (Suc i) (frag_head s)\<rparr>
      in fold free_pkb q s)"

text \<open>
  The copy loop of \<open>reass_frag\<close> at position \<open>pos\<close> of the new buffer \<open>q\<close>. Every fragment is copied from
  behind \<open>hlen\<close> bytes of header; a copy past the end of the buffer is a fault.
\<close>

fun reass_copy :: "nat \<Rightarrow> nat \<Rightarrow> nat \<Rightarrow> nat list \<Rightarrow> 'a ip_state_scheme \<Rightarrow> 'a ip_state_scheme" where
  "reass_copy q hlen pos [] s = s"
| "reass_copy q hlen pos (f # fs) s =
     (let d = data_of s f;
          n = int (unat (ip_len d)) - int hlen;
          s = (if n < 0 \<or> pos + nat n > length (data_of s q) then set_fault Out_Of_Bounds s else s);
          s = upd_data q (\<lambda>b. memcpy b pos (drop (ETH_HRD_SZ + hlen) d) (nat n)) s
      in reass_copy q hlen (pos + nat n) fs s)"

definition reass_frag :: "nat \<Rightarrow> 'a ip_state_scheme \<Rightarrow> nat option \<times> 'a ip_state_scheme" where
  "reass_frag i s =
     (let f = frag_at s i;
          hlen = nat (frag_hlen f);
          len = frag_hlen f + frag_size f
      in if len > 65535 then (None, delete_frag i s)
         else
           let d = data_of s (hd (frag_pkb f));
               (q, s) = alloc_pkb (int ETH_HRD_SZ + len) s;
               s = upd_pkb q (\<lambda>b. b\<lparr>pk_pro := ETH_P_IP\<rparr>) s;
               s = upd_data q (\<lambda>b. memcpy b 0 d (ETH_HRD_SZ + hlen)) s;
               s = upd_data q (set_ip_fragoff 0) s;
               s = upd_data q (set_ip_len (word_of_int len)) s;
               s = reass_copy q hlen (ETH_HRD_SZ + hlen) (frag_pkb f) s
           in (Some q, delete_frag i s))"

text \<open>The backward search for the place of a fragment: the list is given from its end.\<close>

datatype frag_place = Dup | After nat | Front

fun frag_scan :: "'a ip_state_scheme \<Rightarrow> nat \<Rightarrow> nat list \<Rightarrow> frag_place" where
  "frag_scan s off [] = Front"
| "frag_scan s off (q # qs) =
     (if off = ipoff (data_of s q) then Dup
      else if off > ipoff (data_of s q) then After q
      else frag_scan s off qs)"

fun insert_after :: "nat \<Rightarrow> nat \<Rightarrow> nat list \<Rightarrow> nat list" where
  "insert_after q p [] = [p]"
| "insert_after q p (x # xs) = (if x = q then x # p # xs else x # insert_after q p xs)"

text \<open>The common end of \<open>insert_frag\<close>, after the label \<^verbatim>\<open>frag_out\<close>.\<close>

definition frag_out :: "nat \<Rightarrow> int \<Rightarrow> 'a ip_state_scheme \<Rightarrow> 'a ip_state_scheme" where
  "frag_out i n s =
     (let s = upd_frag i (\<lambda>f. f\<lparr>frag_rsize := frag_rsize f + n\<rparr>) s
      in if full_frag (frag_at s i)
         then upd_frag i (\<lambda>f. f\<lparr>frag_flags := frag_flags f OR FRAG_COMPLETE\<rparr>) s else s)"

definition insert_frag :: "nat \<Rightarrow> nat \<Rightarrow> 'a ip_state_scheme \<Rightarrow> int \<times> 'a ip_state_scheme" where
  "insert_frag p i s =
     (if complete_frag (frag_at s i) then (- 1, free_pkb p s)
      else
        let d = data_of s p; off = ipoff d; hlen = int (iphlen d); n = int (unat (ip_len d)) - hlen
        in if ip_fragoff d AND IP_FRAG_MF = 0
           then if frag_flags (frag_at s i) AND FRAG_LAST_IN \<noteq> 0 then (- 1, free_pkb p s)
                else (0, frag_out i n (upd_frag i (\<lambda>f. f\<lparr>frag_flags := frag_flags f OR FRAG_LAST_IN,
                  frag_size := int off + n, frag_pkb := frag_pkb f @ [p]\<rparr>) s))
           else case frag_scan s off (rev (frag_pkb (frag_at s i))) of
                  Dup \<Rightarrow> (- 1, free_pkb p s)
                | place \<Rightarrow>
                    if frag_hlen (frag_at s i) \<noteq> 0 \<and> frag_hlen (frag_at s i) \<noteq> hlen
                    then (- 1, free_pkb p s)
                    else
                      let s = upd_frag i (\<lambda>f. f\<lparr>frag_hlen := hlen\<rparr>) s
                      in if (case place of
                               After q \<Rightarrow> int (ipoff (data_of s q)) + int (unat (ip_len (data_of s q))) - hlen > int off
                             | _ \<Rightarrow> False)
                         then (- 1, free_pkb p s)
                         else
                           let s = (if off = 0
                                 then upd_frag i (\<lambda>f. f\<lparr>frag_flags := frag_flags f OR FRAG_FIRST_IN\<rparr>) s else s);
                               s = upd_frag i (\<lambda>f. f\<lparr>frag_pkb := (case place of
                                      After q \<Rightarrow> insert_after q p (frag_pkb f) | _ \<Rightarrow> p # frag_pkb f)\<rparr>) s
                           in (0, frag_out i n s))"

definition lookup_frag :: "bytes \<Rightarrow> 'a ip_state_scheme \<Rightarrow> nat option" where
  "lookup_frag d s =
     find (\<lambda>i. frag_id (frag_at s i) = ip_id d \<and> frag_pro (frag_at s i) = ucast (ip_pro d) \<and>
       frag_src (frag_at s i) = ip_src d \<and> frag_dst (frag_at s i) = ip_dst d) [0..<length (frag_head s)]"

definition ip_reass :: "nat \<Rightarrow> 'a ip_state_scheme \<Rightarrow> nat option \<times> 'a ip_state_scheme" where
  "ip_reass p s =
     (let d = data_of s p;
          (i, s) = (case lookup_frag d s of Some i \<Rightarrow> (i, s) | None \<Rightarrow> (0, new_frag d s));
          (r, s) = insert_frag p i s
      in if r < 0 then (None, s)
         else if complete_frag (frag_at s i) then reass_frag i s
         else (None, s))"

section \<open>Series of fragments\<close>

text \<open>
  The fragments of one datagram, in the order of their offsets: they agree with \<open>d\<^sub>0\<close> in the four
  fields that name a datagram, have the same header length, follow each other without a gap, and all
  but the last have the more-fragments bit.
\<close>

definition frag_bytes :: "bytes \<Rightarrow> nat" where
  "frag_bytes d = unat (ip_len d) - iphlen d"

definition same_datagram :: "bytes \<Rightarrow> bytes \<Rightarrow> bool" where
  "same_datagram d e \<longleftrightarrow> ip_id d = ip_id e \<and> ip_pro d = ip_pro e \<and> ip_src d = ip_src e \<and> ip_dst d = ip_dst e"

definition frag_piece :: "bytes \<Rightarrow> nat \<Rightarrow> nat \<Rightarrow> bytes \<Rightarrow> bool" where
  "frag_piece d\<^sub>0 hlen off d \<longleftrightarrow>
     same_datagram d d\<^sub>0 \<and> iphlen d = hlen \<and> ipoff d = off \<and> hlen < unat (ip_len d) \<and>
     ETH_HRD_SZ + unat (ip_len d) \<le> length d"

fun frag_series :: "bytes \<Rightarrow> nat \<Rightarrow> nat \<Rightarrow> bytes list \<Rightarrow> bool" where
  "frag_series d\<^sub>0 hlen off [] \<longleftrightarrow> False"
| "frag_series d\<^sub>0 hlen off [d] \<longleftrightarrow> frag_piece d\<^sub>0 hlen off d \<and> ip_fragoff d AND IP_FRAG_MF = 0"
| "frag_series d\<^sub>0 hlen off (d # ds) \<longleftrightarrow>
     frag_piece d\<^sub>0 hlen off d \<and> ip_fragoff d AND IP_FRAG_MF \<noteq> 0 \<and> frag_series d\<^sub>0 hlen (off + frag_bytes d) ds"

lemma frag_series_Cons:
  "frag_series d\<^sub>0 hlen off (d # ds) \<longleftrightarrow>
     frag_piece d\<^sub>0 hlen off d \<and> (ip_fragoff d AND IP_FRAG_MF = 0 \<longleftrightarrow> ds = []) \<and>
     (ds \<noteq> [] \<longrightarrow> frag_series d\<^sub>0 hlen (off + frag_bytes d) ds)"
  by (cases ds) auto

lemma frag_series_low:
  "frag_series d\<^sub>0 hlen off ds \<Longrightarrow> d \<in> set ds \<Longrightarrow> off \<le> ipoff d \<and> 0 < frag_bytes d"
proof (induction ds arbitrary: off)
  case (Cons e ds)
  show ?case
  proof (cases "d = e")
    case True
    with Cons.prems(1) show ?thesis by (auto simp: frag_series_Cons frag_piece_def frag_bytes_def)
  next
    case False
    with Cons.prems have "d \<in> set ds" "frag_series d\<^sub>0 hlen (off + frag_bytes e) ds"
      by (auto simp: frag_series_Cons)
    from Cons.IH [OF this(2,1)] show ?thesis by simp
  qed
qed simp

lemma frag_series_split:
  assumes "frag_series d\<^sub>0 hlen off (xs @ d # ys)"
  shows "frag_piece d\<^sub>0 hlen (off + sum_list (map frag_bytes xs)) d"
    and "ip_fragoff d AND IP_FRAG_MF = 0 \<longleftrightarrow> ys = []"
    and "\<forall>y \<in> set ys. ipoff d + frag_bytes d \<le> ipoff y"
  using assms
proof (induction xs arbitrary: off)
  case Nil
  { case 1 then show ?case by (simp add: frag_series_Cons)
  next
    case 2 then show ?case by (simp add: frag_series_Cons)
  next
    case 3
    then show ?case
      by (auto simp: frag_series_Cons frag_piece_def dest: frag_series_low)
  }
next
  case (Cons x xs)
  { case 1 with Cons.IH(1) [of "off + frag_bytes x"] show ?case by (simp add: frag_series_Cons add.assoc)
  next
    case 2 with Cons.IH(2) [of "off + frag_bytes x"] show ?case by (simp add: frag_series_Cons)
  next
    case 3 with Cons.IH(3) [of "off + frag_bytes x"] show ?case by (simp add: frag_series_Cons)
  }
qed

lemma frag_series_before:
  assumes "frag_series d\<^sub>0 hlen off (xs @ d # ys)" "x \<in> set xs"
  shows "ipoff x + frag_bytes x \<le> ipoff d"
proof -
  obtain us vs where "xs = us @ x # vs" using assms(2) by (meson split_list)
  with assms(1) have "frag_series d\<^sub>0 hlen off (us @ x # (vs @ d # ys))" by simp
  from frag_series_split(3) [OF this] show ?thesis by simp
qed

lemma frag_series_piece:
  assumes "frag_series d\<^sub>0 hlen off ds" "d \<in> set ds"
  shows "\<exists>o'. frag_piece d\<^sub>0 hlen o' d"
  using assms frag_series_split(1) by (metis split_list)

section \<open>The record of a partly received datagram\<close>

text \<open>
  The record that \<open>insert_frag\<close> keeps when exactly the buffers of \<open>ps\<close> in \<open>A\<close> have arrived, in any
  order: the list holds them in the order of \<open>ps\<close>.
\<close>

definition frag_record :: "'a ip_state_scheme \<Rightarrow> bytes \<Rightarrow> nat \<Rightarrow> nat list \<Rightarrow> nat set \<Rightarrow> fragment" where
  "frag_record s d\<^sub>0 hlen ps A =
     \<lparr>frag_id = ip_id d\<^sub>0, frag_src = ip_src d\<^sub>0, frag_dst = ip_dst d\<^sub>0, frag_pro = ucast (ip_pro d\<^sub>0),
      frag_hlen = (if \<exists>p \<in> set (butlast ps). p \<in> A then int hlen else 0),
      frag_rsize = int (\<Sum>p \<leftarrow> filter (\<lambda>p. p \<in> A) ps. frag_bytes (data_of s p)),
      frag_size = (if last ps \<in> A then int (\<Sum>p \<leftarrow> ps. frag_bytes (data_of s p)) else 0),
      frag_ttl = FRAG_TIME,
      frag_flags = (if hd ps \<in> A then FRAG_FIRST_IN else 0) OR (if last ps \<in> A then FRAG_LAST_IN else 0) OR
        (if set ps \<subseteq> A then FRAG_COMPLETE else 0),
      frag_pkb = filter (\<lambda>p. p \<in> A) ps\<rparr>"

lemma sum_filter_all:
  assumes "\<forall>p \<in> set ps. 0 < (f p :: nat)"
  shows "(\<Sum>p \<leftarrow> filter Q ps. f p) = (\<Sum>p \<leftarrow> ps. f p) \<longleftrightarrow> (\<forall>p \<in> set ps. Q p)"
proof -
  have le: "(\<Sum>p \<leftarrow> filter Q ps. f p) \<le> (\<Sum>p \<leftarrow> ps. f p)" for ps by (induction ps) auto
  show ?thesis using assms
  proof (induction ps)
    case (Cons p ps)
    then show ?case using le [of ps] by auto
  qed simp
qed

lemma frag_scan_skip:
  "\<forall>q \<in> set qs. off < ipoff (data_of s q) \<Longrightarrow> frag_scan s off (qs @ rs) = frag_scan s off rs"
  by (induction qs) auto

lemma insert_after_last:
  "us \<noteq> [] \<Longrightarrow> distinct us \<Longrightarrow> insert_after (last us) p (us @ vs) = us @ p # vs"
  by (induction us) auto

lemma frag_scan_place:
  assumes "\<forall>q \<in> set us. ipoff (data_of s q) < off" "\<forall>q \<in> set vs. off < ipoff (data_of s q)"
  shows "frag_scan s off (rev (us @ vs)) = (if us = [] then Front else After (last us))"
proof (cases us rule: rev_cases)
  case Nil
  with frag_scan_skip [of "rev vs" off s "[]"] assms(2) show ?thesis by simp
next
  case (snoc us' q)
  with frag_scan_skip [of "rev vs" off s "rev us"] assms show ?thesis by simp
qed

lemma frag_flags_cases:
  "((if a then FRAG_FIRST_IN else 0) OR (if b then FRAG_LAST_IN else 0) OR (if c then FRAG_COMPLETE else 0))
     AND FRAG_FL_IN = FRAG_FL_IN \<longleftrightarrow> a \<and> b"
  "((if a then FRAG_FIRST_IN else 0) OR (if b then FRAG_LAST_IN else 0) OR (if c then FRAG_COMPLETE else 0))
     AND FRAG_LAST_IN = 0 \<longleftrightarrow> \<not> b"
  "((if a then FRAG_FIRST_IN else 0) OR (if b then FRAG_LAST_IN else 0) OR (if c then FRAG_COMPLETE else 0))
     AND FRAG_COMPLETE = 0 \<longleftrightarrow> \<not> c"
  by simp_all

lemma frag_record_full:
  assumes "frag_series d\<^sub>0 hlen 0 (map (data_of s) ps)"
  shows "full_frag (frag_record s d\<^sub>0 hlen ps A) \<longleftrightarrow> set ps \<subseteq> A"
proof -
  have "ps \<noteq> []" and pos: "\<forall>p \<in> set ps. 0 < frag_bytes (data_of s p)"
    using assms frag_series_low [OF assms] by auto
  have "full_frag (frag_record s d\<^sub>0 hlen ps A) \<longleftrightarrow> hd ps \<in> A \<and> last ps \<in> A \<and>
      (\<Sum>p \<leftarrow> filter (\<lambda>p. p \<in> A) ps. frag_bytes (data_of s p)) = (\<Sum>p \<leftarrow> ps. frag_bytes (data_of s p))"
    unfolding full_frag_def frag_record_def
    by (simp only: fragment.simps frag_flags_cases if_True of_nat_eq_iff conj_assoc cong: conj_cong)
  also have "\<dots> \<longleftrightarrow> set ps \<subseteq> A"
    unfolding sum_filter_all [OF pos] using \<open>ps \<noteq> []\<close> by (auto intro: hd_in_set last_in_set)
  finally show ?thesis .
qed

lemma frag_head_update_simps [simp]:
  "pkb (s\<lparr>frag_head := fs\<rparr>) q = pkb s q" "frag_record (s\<lparr>frag_head := fs\<rparr>) = frag_record s"
  "dev (s\<lparr>frag_head := fs\<rparr>) n = dev s n"
  by (simp_all add: pkb_def dev_def frag_record_def fun_eq_iff)

lemma frag_out_head:
  "frag_out 0 n (s\<lparr>frag_head := f # fs\<rparr>) =
     (let g = f\<lparr>frag_rsize := frag_rsize f + n\<rparr> in
      s\<lparr>frag_head := (if full_frag g then g\<lparr>frag_flags := frag_flags g OR FRAG_COMPLETE\<rparr> else g) # fs\<rparr>)"
  by (simp add: frag_out_def upd_frag_def Let_def)

lemma frag_record_mark:
  assumes "frag_series d\<^sub>0 hlen 0 (map (data_of s) ps)" "frag_rsize f = frag_rsize (frag_record s d\<^sub>0 hlen ps A)"
    "frag_size f = frag_size (frag_record s d\<^sub>0 hlen ps A)"
    "frag_flags f = (if hd ps \<in> A then FRAG_FIRST_IN else 0) OR (if last ps \<in> A then FRAG_LAST_IN else 0)"
    "frag_record s d\<^sub>0 hlen ps A = f\<lparr>frag_flags := frag_flags f OR (if set ps \<subseteq> A then FRAG_COMPLETE else 0)\<rparr>"
  shows "(if full_frag f then f\<lparr>frag_flags := frag_flags f OR FRAG_COMPLETE\<rparr> else f) = frag_record s d\<^sub>0 hlen ps A"
proof -
  have "frag_flags f AND FRAG_FL_IN = frag_flags (frag_record s d\<^sub>0 hlen ps A) AND FRAG_FL_IN"
    unfolding assms(5) by (simp add: assms(4))
  then have "full_frag f \<longleftrightarrow> full_frag (frag_record s d\<^sub>0 hlen ps A)"
    unfolding full_frag_def by (simp add: assms(2,3))
  also have "\<dots> \<longleftrightarrow> set ps \<subseteq> A" by (rule frag_record_full [OF assms(1)])
  finally show ?thesis by (simp add: assms(5))
qed

lemma frag_out_record:
  assumes "frag_series d\<^sub>0 hlen 0 (map (data_of s) ps)"
    "frag_flags h = (if hd ps \<in> A then FRAG_FIRST_IN else 0) OR (if last ps \<in> A then FRAG_LAST_IN else 0)"
    "frag_record s d\<^sub>0 hlen ps A = h\<lparr>frag_rsize := frag_rsize h + n,
       frag_flags := frag_flags h OR (if set ps \<subseteq> A then FRAG_COMPLETE else 0)\<rparr>"
  shows "frag_out 0 n (s\<lparr>frag_head := h # fs\<rparr>) = s\<lparr>frag_head := frag_record s d\<^sub>0 hlen ps A # fs\<rparr>"
proof -
  have "(if full_frag g then g\<lparr>frag_flags := frag_flags g OR FRAG_COMPLETE\<rparr> else g) = frag_record s d\<^sub>0 hlen ps A"
    if "g = h\<lparr>frag_rsize := frag_rsize h + n\<rparr>" for g
    using assms by (intro frag_record_mark) (simp_all add: that)
  then show ?thesis by (simp add: frag_out_head Let_def)
qed

lemma insert_frag_last:
  assumes series: "frag_series d\<^sub>0 hlen 0 (map (data_of s) (xs @ [p]))" and "xs \<noteq> []"
    and "distinct (xs @ [p])" "p \<notin> A"
  shows "insert_frag p 0 (s\<lparr>frag_head := frag_record s d\<^sub>0 hlen (xs @ [p]) A # fs\<rparr>) =
    (0, s\<lparr>frag_head := frag_record s d\<^sub>0 hlen (xs @ [p]) (insert p A) # fs\<rparr>)"
proof -
  let ?ps = "xs @ [p]" and ?d = "data_of s p"
  define f where "f = frag_record s d\<^sub>0 hlen ?ps A"
  define h where "h = f\<lparr>frag_flags := frag_flags f OR FRAG_LAST_IN,
    frag_size := int (ipoff ?d) + int (frag_bytes ?d), frag_pkb := frag_pkb f @ [p]\<rparr>"
  from frag_series_split [of d\<^sub>0 hlen 0 "map (data_of s) xs" ?d "[]"] series
  have piece: "frag_piece d\<^sub>0 hlen (\<Sum>q \<leftarrow> xs. frag_bytes (data_of s q)) ?d" and mf: "ip_fragoff ?d AND IP_FRAG_MF = 0"
    by (auto simp: comp_def)
  from piece have n: "uint (ip_len ?d) - int (iphlen ?d) = int (frag_bytes ?d)"
    and off: "ipoff ?d = (\<Sum>q \<leftarrow> xs. frag_bytes (data_of s q))"
    by (auto simp: frag_piece_def frag_bytes_def)
  have ne: "\<forall>q \<in> set xs. q \<noteq> p" using assms(3) by auto
  then have fil: "filter (\<lambda>q. q = p \<or> q \<in> A) xs = filter (\<lambda>q. q \<in> A) xs" by (auto intro: filter_cong)
  have hd: "hd ?ps = hd xs" "hd xs \<noteq> p" using \<open>xs \<noteq> []\<close> ne by auto
  have "frag_record s d\<^sub>0 hlen ?ps (insert p A) = h\<lparr>frag_rsize := frag_rsize h + int (frag_bytes ?d),
      frag_flags := frag_flags h OR (if set ?ps \<subseteq> insert p A then FRAG_COMPLETE else 0)\<rparr>"
    using assms(4) hd ne by (auto simp: frag_record_def h_def f_def off fil)
  moreover have "frag_flags h = (if hd ?ps \<in> insert p A then FRAG_FIRST_IN else 0) OR
      (if last ?ps \<in> insert p A then FRAG_LAST_IN else 0)"
    using assms(4) hd by (simp add: frag_record_def h_def f_def)
  moreover have "\<not> complete_frag f" "frag_flags f AND FRAG_LAST_IN = 0"
    using assms(4) by (simp_all add: complete_frag_def frag_record_def f_def)
  then have "insert_frag p 0 (s\<lparr>frag_head := f # fs\<rparr>) = (0, frag_out 0 (int (frag_bytes ?d)) (s\<lparr>frag_head := h # fs\<rparr>))"
    using mf by (simp add: insert_frag_def upd_frag_def Let_def h_def n)
  ultimately show ?thesis by (simp only: frag_out_record [OF series] flip: f_def)
qed

lemma frag_series_neighbours:
  assumes series: "frag_series d\<^sub>0 hlen 0 (map (data_of s) (xs @ p # ys))"
  shows "\<forall>q \<in> set xs. ipoff (data_of s q) < ipoff (data_of s p) \<and>
      int (ipoff (data_of s q)) + uint (ip_len (data_of s q)) - int hlen \<le> int (ipoff (data_of s p))"
    and "\<forall>q \<in> set ys. ipoff (data_of s p) < ipoff (data_of s q)"
    and "ipoff (data_of s p) = 0 \<longleftrightarrow> xs = []"
proof -
  have piece: "\<exists>o'. frag_piece d\<^sub>0 hlen o' (data_of s q)" if "q \<in> set (xs @ p # ys)" for q
    using frag_series_piece [OF series] that by auto
  show xs: "\<forall>q \<in> set xs. ipoff (data_of s q) < ipoff (data_of s p) \<and>
      int (ipoff (data_of s q)) + uint (ip_len (data_of s q)) - int hlen \<le> int (ipoff (data_of s p))"
  proof
    fix q assume q: "q \<in> set xs"
    then have "ipoff (data_of s q) + frag_bytes (data_of s q) \<le> ipoff (data_of s p)"
      using frag_series_before [of d\<^sub>0 hlen 0 "map (data_of s) xs" "data_of s p" "map (data_of s) ys"] series by auto
    moreover have "hlen < unat (ip_len (data_of s q))" "frag_bytes (data_of s q) = unat (ip_len (data_of s q)) - hlen"
      using piece [of q] q by (auto simp: frag_piece_def frag_bytes_def)
    moreover have "uint (ip_len (data_of s q)) = int (unat (ip_len (data_of s q)))" by simp
    ultimately show "ipoff (data_of s q) < ipoff (data_of s p) \<and>
      int (ipoff (data_of s q)) + uint (ip_len (data_of s q)) - int hlen \<le> int (ipoff (data_of s p))"
      by linarith
  qed
  note split = frag_series_split [of d\<^sub>0 hlen 0 "map (data_of s) xs" "data_of s p" "map (data_of s) ys"]
  show "\<forall>q \<in> set ys. ipoff (data_of s p) < ipoff (data_of s q)"
    using split(3) series piece [of p] by (fastforce simp: frag_piece_def frag_bytes_def)
  show "ipoff (data_of s p) = 0 \<longleftrightarrow> xs = []"
  proof
    assume "ipoff (data_of s p) = 0"
    with xs have "\<forall>q \<in> set xs. False" by simp
    then show "xs = []" by (cases xs) auto
  next
    assume "xs = []"
    with split(1) series show "ipoff (data_of s p) = 0" by (simp add: frag_piece_def)
  qed
qed

lemma insert_frag_middle:
  assumes series: "frag_series d\<^sub>0 hlen 0 (map (data_of s) (xs @ p # ys))" and "ys \<noteq> []"
    and "distinct (xs @ p # ys)" "p \<notin> A"
  shows "insert_frag p 0 (s\<lparr>frag_head := frag_record s d\<^sub>0 hlen (xs @ p # ys) A # fs\<rparr>) =
    (0, s\<lparr>frag_head := frag_record s d\<^sub>0 hlen (xs @ p # ys) (insert p A) # fs\<rparr>)"
proof -
  let ?ps = "xs @ p # ys" and ?d = "data_of s p"
  let ?us = "filter (\<lambda>q. q \<in> A) xs" and ?vs = "filter (\<lambda>q. q \<in> A) ys"
  define f where "f = frag_record s d\<^sub>0 hlen ?ps A"
  define h where "h = f\<lparr>frag_hlen := int hlen,
    frag_flags := (if xs = [] then frag_flags f OR FRAG_FIRST_IN else frag_flags f), frag_pkb := ?us @ p # ?vs\<rparr>"
  note split = frag_series_split [of d\<^sub>0 hlen 0 "map (data_of s) xs" ?d "map (data_of s) ys"]
  note near = frag_series_neighbours [OF series]
  from split series
  have piece: "frag_piece d\<^sub>0 hlen (\<Sum>q \<leftarrow> xs. frag_bytes (data_of s q)) ?d" and mf: "ip_fragoff ?d AND IP_FRAG_MF \<noteq> 0"
    using \<open>ys \<noteq> []\<close> by (auto simp: comp_def)
  from piece have n: "uint (ip_len ?d) - int (iphlen ?d) = int (frag_bytes ?d)" and hlen: "iphlen ?d = hlen"
    by (auto simp: frag_piece_def frag_bytes_def)
  have scan: "frag_scan (s\<lparr>frag_head := f # fs\<rparr>) (ipoff ?d) (rev ?vs @ rev ?us) =
      (if ?us = [] then Front else After (last ?us))"
    using frag_scan_place [of ?us "s\<lparr>frag_head := f # fs\<rparr>" "ipoff ?d" ?vs] near(1,2) by simp
  have no_overlap: "\<not> int (ipoff ?d) < int (ipoff (data_of s (last ?us))) + uint (ip_len (data_of s (last ?us))) - int hlen"
    if "?us \<noteq> []" using last_in_set [OF that] near(1) by auto
  have ins: "insert_after (last ?us) p (?us @ ?vs) = ?us @ p # ?vs" if "?us \<noteq> []"
    using that assms(3) by (intro insert_after_last) auto
  have f: "frag_pkb f = ?us @ ?vs" "(frag_hlen f \<noteq> 0 \<and> frag_hlen f \<noteq> int hlen) = False" "\<not> complete_frag f"
    using assms(4) by (auto simp: f_def frag_record_def complete_frag_def)
  have "insert_frag p 0 (s\<lparr>frag_head := f # fs\<rparr>) = (0, frag_out 0 (int (frag_bytes ?d)) (s\<lparr>frag_head := h # fs\<rparr>))"
  proof (cases "?us = []")
    case True
    then have "frag_scan (s\<lparr>frag_head := f # fs\<rparr>) (ipoff ?d) (rev (frag_pkb f)) = Front"
      "?us @ p # ?vs = p # frag_pkb f" using scan f(1) by simp_all
    with mf f(3) show ?thesis
      by (simp add: insert_frag_def upd_frag_def Let_def h_def n [unfolded hlen] hlen f(2) near(3))
  next
    case False
    then have "frag_scan (s\<lparr>frag_head := f # fs\<rparr>) (ipoff ?d) (rev (frag_pkb f)) = After (last ?us)"
      "?us @ p # ?vs = insert_after (last ?us) p (frag_pkb f)" using scan f(1) ins by simp_all
    with mf f(3) no_overlap [OF False] show ?thesis
      by (simp add: insert_frag_def upd_frag_def Let_def h_def n [unfolded hlen] hlen f(2) near(3))
  qed
  moreover have fil: "filter (\<lambda>q. q = p \<or> q \<in> A) xs = ?us" "filter (\<lambda>q. q = p \<or> q \<in> A) ys = ?vs"
    using assms(3) by (auto intro: filter_cong)
  have hd: "hd ?ps = p \<longleftrightarrow> xs = []" "last ys \<noteq> p" "butlast ?ps = xs @ p # butlast ys"
    using assms(2,3) last_in_set [OF assms(2)] by (cases xs; auto simp: butlast_append)+
  have "frag_record s d\<^sub>0 hlen ?ps (insert p A) = h\<lparr>frag_rsize := frag_rsize h + int (frag_bytes ?d),
      frag_flags := frag_flags h OR (if set ?ps \<subseteq> insert p A then FRAG_COMPLETE else 0)\<rparr>"
    using assms(2,4) hd by (auto simp: frag_record_def h_def f_def fil)
  moreover have "frag_flags h = (if hd ?ps \<in> insert p A then FRAG_FIRST_IN else 0) OR
      (if last ?ps \<in> insert p A then FRAG_LAST_IN else 0)"
    using assms(2,4) hd by (simp add: frag_record_def h_def f_def)
  ultimately show ?thesis by (simp only: frag_out_record [OF series] flip: f_def)
qed

section \<open>Joining the pieces\<close>

definition frag_payload :: "nat \<Rightarrow> bytes \<Rightarrow> bytes" where
  "frag_payload hlen d = take (unat (ip_len d) - hlen) (drop (ETH_HRD_SZ + hlen) d)"

lemma upd_pkb_cong: "f (pkb s p) = g (pkb s p) \<Longrightarrow> upd_pkb p f s = upd_pkb p g s"
  by (simp add: upd_pkb_def pkb_def)

lemma upd_pkb_id: "f (pkb s p) = pkb s p \<Longrightarrow> upd_pkb p f s = s"
  by (simp add: upd_pkb_def pkb_def)

lemma reass_copy_joins:
  assumes "q \<notin> set fs" "\<forall>f \<in> set fs. hlen \<le> unat (ip_len (data_of s f)) \<and>
      ETH_HRD_SZ + unat (ip_len (data_of s f)) \<le> length (data_of s f)"
    "pos + (\<Sum>f \<leftarrow> fs. unat (ip_len (data_of s f)) - hlen) \<le> length (data_of s q)"
  shows "reass_copy q hlen pos fs s = upd_data q (\<lambda>b. take pos b @ concat (map (\<lambda>f. frag_payload hlen (data_of s f)) fs) @
    drop (pos + (\<Sum>f \<leftarrow> fs. unat (ip_len (data_of s f)) - hlen)) b) s"
  using assms
proof (induction fs arbitrary: pos s)
  case Nil
  then show ?case by (simp add: upd_pkb_id)
next
  case (Cons f fs)
  let ?d = "data_of s f"
  let ?n = "unat (ip_len ?d) - hlen"
  define t where "t = upd_data q (\<lambda>b. memcpy b pos (drop (ETH_HRD_SZ + hlen) ?d) ?n) s"
  have f: "hlen \<le> unat (ip_len ?d)" "ETH_HRD_SZ + unat (ip_len ?d) \<le> length ?d" "f \<noteq> q" using Cons.prems by auto
  have n: "int (unat (ip_len ?d)) - int hlen = int ?n" using f by simp
  have fit: "pos + ?n \<le> length (data_of s q)" using Cons.prems(3) by simp
  have same: "data_of t g = data_of s g" if "g \<in> set fs" for g
    using that Cons.prems(1) by (auto simp: t_def)
  have len: "length (data_of t q) = length (data_of s q)" using f fit by (simp add: t_def)
  have sums: "(\<Sum>f \<leftarrow> fs. unat (ip_len (data_of t f)) - hlen) = (\<Sum>f \<leftarrow> fs. unat (ip_len (data_of s f)) - hlen)"
    and pays: "map (\<lambda>f. frag_payload hlen (data_of t f)) fs = map (\<lambda>f. frag_payload hlen (data_of s f)) fs"
    using same by (auto intro!: arg_cong [where f = sum_list])
  have "reass_copy q hlen pos (f # fs) s = reass_copy q hlen (pos + ?n) fs t"
    using fit unfolding reass_copy.simps Let_def n t_def by simp
  also have "\<dots> = upd_data q (\<lambda>b. take (pos + ?n) b @ concat (map (\<lambda>f. frag_payload hlen (data_of s f)) fs) @
      drop (pos + ?n + (\<Sum>f \<leftarrow> fs. unat (ip_len (data_of s f)) - hlen)) b) t"
    using Cons.IH [of t "pos + ?n"] Cons.prems same by (simp add: sums pays len)
  also have "\<dots> = upd_data q (\<lambda>b. take pos b @ concat (map (\<lambda>f. frag_payload hlen (data_of s f)) (f # fs)) @
      drop (pos + (\<Sum>f \<leftarrow> f # fs. unat (ip_len (data_of s f)) - hlen)) b) s"
    unfolding t_def upd_pkb_upd_pkb
    by (rule upd_pkb_cong) (use f fit in \<open>simp add: memcpy_eq frag_payload_def add.assoc add.commute\<close>)
  finally show ?case .
qed

lemma fold_free_pkb:
  assumes "distinct qs" "\<forall>q \<in> set qs. pk_live (pkb s q) \<and> pk_refcnt (pkb s q) = 1" "pkb_inv s"
  shows "fault (fold free_pkb qs s) = fault s \<and> live_pkbs (fold free_pkb qs s) = live_pkbs s - set qs \<and>
    pkb_inv (fold free_pkb qs s)"
  using assms
proof (induction qs arbitrary: s)
  case (Cons q qs)
  have pre: "\<forall>r \<in> set qs. pk_live (pkb (free_pkb q s) r) \<and> pk_refcnt (pkb (free_pkb q s) r) = 1"
    using Cons.prems by (metis distinct.simps(2) free_pkb_simps(12) list.set_intros(2))
  have q: "pk_live (pkb s q)" "pk_refcnt (pkb s q) = 1" "distinct qs" using Cons.prems by auto
  note inv = free_pkb_inv [OF Cons.prems(3) q(1)]
  from Cons.IH [OF q(3) pre inv] q show ?case
    by (auto simp: live_pkbs_free [OF Cons.prems(3) q(1)])
qed simp

lemma fold_free_pkb_frame [simp]:
  "pk_data (pkb (fold free_pkb qs s) q) = pk_data (pkb s q)"
  "net_state.more (fold free_pkb qs s) = net_state.more s"
  "pk_next (fold free_pkb qs s) = pk_next s"
  by (induction qs arbitrary: s) simp_all

text \<open>What \<open>reass_frag\<close> builds: the header of the first fragment without its offset, and all payloads.\<close>

definition joined :: "nat \<Rightarrow> bytes list \<Rightarrow> bytes" where
  "joined hlen ds =
     set_ip_len (of_nat (hlen + sum_list (map frag_bytes ds))) (set_ip_fragoff 0 (take (ETH_HRD_SZ + hlen) (hd ds))) @
     concat (map (frag_payload hlen) ds)"

lemma wr16_append: "i + 1 < length xs \<Longrightarrow> wr16 i v (xs @ ys) = wr16 i v xs @ ys"
  by (simp add: wr16_def wr8_def list_update_append)

lemma take_wr16: "i + 1 < n \<Longrightarrow> take n (wr16 i v d) = wr16 i v (take n d)"
  by (simp add: wr16_def wr8_def take_update_swap)

lemma length_payloads:
  assumes "\<forall>d \<in> set ds. iphlen d = hlen \<and> ETH_HRD_SZ + unat (ip_len d) \<le> length d"
  shows "length (concat (map (frag_payload hlen) ds)) = sum_list (map frag_bytes ds)"
  using assms by (induction ds) (auto simp: frag_payload_def frag_bytes_def)

lemma more_fields:
  assumes "net_state.more s = net_state.more t"
  shows "rt_head s = rt_head t" "frag_head s = frag_head t" "ipid s = ipid t"
  using assms by (cases s; cases t; simp)+

lemma ip_fields_simps [simp]:
  "frag_head (upd_pkb p f s) = frag_head s" "rt_head (upd_pkb p f s) = rt_head s" "ipid (upd_pkb p f s) = ipid s"
  "frag_head (snd (alloc_pkb n s)) = frag_head s" "rt_head (snd (alloc_pkb n s)) = rt_head s"
  "ipid (snd (alloc_pkb n s)) = ipid s"
  "frag_head (free_pkb p s) = frag_head s" "rt_head (free_pkb p s) = rt_head s" "ipid (free_pkb p s) = ipid s"
  "frag_head (set_fault e s) = frag_head s" "rt_head (set_fault e s) = rt_head s" "ipid (set_fault e s) = ipid s"
  by (rule more_fields; simp)+

lemma pkb_inv_frag_head [simp]:
  "pkb_inv (s\<lparr>frag_head := fs\<rparr>) = pkb_inv s" "pool_room (s\<lparr>frag_head := fs\<rparr>) = pool_room s"
  "live_pkbs (s\<lparr>frag_head := fs\<rparr>) = live_pkbs s"
  by (simp_all add: pkb_inv_def live_pkbs_def pool_room_def)

lemma alloc_pkb_data: "data_of (snd (alloc_pkb n s)) (pk_next s) = replicate (nat n) 0"
  by (simp add: alloc_pkb_def)

lemma live_pkbs_alloc: "live_pkbs (snd (alloc_pkb n s)) = insert (pk_next s) (live_pkbs s)"
  unfolding alloc_pkb_def by (rule live_pkbs_new) simp

lemma live_pkbs_upd: "(\<And>b. pk_live (f b) = pk_live b) \<Longrightarrow> live_pkbs (upd_pkb p f s) = live_pkbs s"
  by (auto simp: live_pkbs_def split: if_splits)

lemma pkb_inv_upd:
  "(\<And>b. pk_live (f b) = pk_live b) \<Longrightarrow> (\<And>b. pk_refcnt (f b) = pk_refcnt b) \<Longrightarrow>
   pkb_inv (upd_pkb p f s) = pkb_inv s"
  by (auto simp: pkb_inv_def live_pkbs_upd split: if_splits)

lemma reass_frag_joins:
  assumes series: "frag_series d\<^sub>0 hlen 0 (map (data_of s) ps)" and ps: "distinct ps" "20 \<le> hlen"
    and live: "\<forall>p \<in> set ps. pk_live (pkb s p) \<and> pk_refcnt (pkb s p) = 1"
    and pool: "pkb_inv s" "pool_room s"
    and size: "hlen + (\<Sum>p \<leftarrow> ps. frag_bytes (data_of s p)) \<le> 65535" and two: "butlast ps \<noteq> []"
  shows "\<exists>s'. reass_frag 0 (s\<lparr>frag_head := frag_record s d\<^sub>0 hlen ps (set ps) # fs\<rparr>) = (Some (pk_next s), s') \<and>
    data_of s' (pk_next s) = joined hlen (map (data_of s) ps) \<and> frag_head s' = fs \<and> fault s' = fault s \<and>
    live_pkbs s' = insert (pk_next s) (live_pkbs s - set ps) \<and> pkb_inv s'"
proof -
  let ?f = "frag_record s d\<^sub>0 hlen ps (set ps)" and ?q = "pk_next s"
  let ?T = "\<Sum>p \<leftarrow> ps. frag_bytes (data_of s p)" and ?h = "ETH_HRD_SZ + hlen"
  let ?d = "data_of s (hd ps)"
  have ne: "ps \<noteq> []" using two by auto
  have piece: "\<exists>o'. frag_piece d\<^sub>0 hlen o' (data_of s p)" if "p \<in> set ps" for p
    using frag_series_piece [OF series] that by auto
  have d: "?h \<le> length ?d" using piece [OF hd_in_set [OF ne]] by (auto simp: frag_piece_def)
  have fresh: "?q \<notin> set ps" using live pool(1) by (auto dest: pkb_invD)
  have T: "(\<Sum>p \<leftarrow> ps. unat (ip_len (data_of s p)) - hlen) = ?T"
    using piece by (intro arg_cong [where f = sum_list]) (auto simp: frag_piece_def frag_bytes_def)
  define u where "u = upd_pkb ?q (\<lambda>b. b\<lparr>pk_pro := ETH_P_IP\<rparr>)
      (snd (alloc_pkb (int ?h + int ?T) (s\<lparr>frag_head := ?f # fs\<rparr>)))"
  define t where "t = upd_data ?q (\<lambda>b. set_ip_len (word_of_int (int hlen + int ?T)) (set_ip_fragoff 0 (memcpy b 0 ?d ?h))) u"
  define v where "v = reass_copy ?q hlen ?h ps t"
  have f: "frag_hlen ?f = int hlen" "frag_size ?f = int ?T" "frag_pkb ?f = ps"
    using ne hd_in_set [OF two] in_set_butlastD [of "hd (butlast ps)" ps] by (auto simp: frag_record_def)
  have same: "pkb t p = pkb s p" if "p \<in> set ps" for p
    using that fresh by (auto simp: t_def u_def)
  have uq: "data_of u ?q = replicate (?h + ?T) 0" by (simp add: u_def alloc_pkb_def)
  have tq: "data_of t ?q = set_ip_len (of_nat (hlen + ?T)) (set_ip_fragoff 0 (take ?h ?d)) @ replicate ?T 0"
    using d ps(2) by (simp add: t_def uq memcpy_eq wr16_append)
  have v: "v = upd_data ?q (\<lambda>b. take ?h b @ concat (map (frag_payload hlen) (map (data_of s) ps)) @ drop (?h + ?T) b) t"
  proof -
    have "v = upd_data ?q (\<lambda>b. take ?h b @ concat (map (\<lambda>f. frag_payload hlen (data_of t f)) ps) @
        drop (?h + (\<Sum>f \<leftarrow> ps. unat (ip_len (data_of t f)) - hlen)) b) t"
      unfolding v_def
      by (rule reass_copy_joins) (use fresh piece same d T tq in \<open>fastforce simp: frag_piece_def cong: map_cong\<close>)+
    with same T show ?thesis by (simp cong: map_cong)
  qed
  define w where "w = v\<lparr>frag_head := fs\<rparr>"
  have "reass_frag 0 (s\<lparr>frag_head := ?f # fs\<rparr>) = (Some ?q, delete_frag 0 v)"
    using size fresh hd_in_set [OF ne] unfolding v_def t_def u_def
    by (simp add: reass_frag_def Let_def f split_beta comp_def add.assoc)
  moreover have "delete_frag 0 v = fold free_pkb ps w"
    by (simp add: delete_frag_def Let_def w_def v t_def u_def f)
  moreover have "data_of w ?q = joined hlen (map (data_of s) ps)"
    using d by (simp add: w_def v tq joined_def hd_map [OF ne] comp_def)
  moreover have w: "\<forall>p \<in> set ps. pk_live (pkb w p) \<and> pk_refcnt (pkb w p) = 1" "pkb_inv w" "fault w = fault s"
    "live_pkbs w = insert ?q (live_pkbs s)"
    using live same fresh pool
    by (auto simp: w_def v t_def u_def pkb_inv_upd alloc_pkb_inv alloc_fault live_pkbs_upd live_pkbs_alloc)
  ultimately show ?thesis
    using fold_free_pkb [OF ps(1) w(1,2)] more_fields(2) [of "fold free_pkb ps w" w] fresh by (auto simp: w_def)
qed

section \<open>Reassembly in any order\<close>

fun ip_reass_run :: "nat list \<Rightarrow> 'a ip_state_scheme \<Rightarrow> nat option list \<times> 'a ip_state_scheme" where
  "ip_reass_run [] s = ([], s)"
| "ip_reass_run (p # ps) s =
     (let (r, s) = ip_reass p s; (rs, s) = ip_reass_run ps s in (r # rs, s))"

text \<open>The state when exactly the buffers in \<open>A\<close> have been given to \<open>ip_reass\<close>.\<close>

definition frag_state :: "'a ip_state_scheme \<Rightarrow> bytes \<Rightarrow> nat \<Rightarrow> nat list \<Rightarrow> nat set \<Rightarrow> 'a ip_state_scheme" where
  "frag_state s d\<^sub>0 hlen ps A =
     (if A = {} then s else s\<lparr>frag_head := frag_record s d\<^sub>0 hlen ps A # frag_head s\<rparr>)"

lemma lookup_frag_cong:
  "same_datagram d e \<Longrightarrow> lookup_frag d s = lookup_frag e s"
  by (simp add: lookup_frag_def same_datagram_def)

lemma lookup_frag_record:
  "same_datagram d d\<^sub>0 \<Longrightarrow> lookup_frag d (s\<lparr>frag_head := frag_record s d\<^sub>0 hlen ps A # fs\<rparr>) = Some 0"
  by (simp add: lookup_frag_def same_datagram_def frag_record_def upt_rec [of 0])

lemma ip_reass_step:
  assumes series: "frag_series d\<^sub>0 hlen 0 (map (data_of s) ps)" and ps: "distinct ps" "butlast ps \<noteq> []"
    and p: "p \<in> set ps" "p \<notin> A" "A \<subseteq> set ps" and new: "lookup_frag d\<^sub>0 s = None"
  shows "ip_reass p (frag_state s d\<^sub>0 hlen ps A) =
    (if insert p A = set ps then reass_frag 0 (frag_state s d\<^sub>0 hlen ps (insert p A))
     else (None, frag_state s d\<^sub>0 hlen ps (insert p A)))"
proof -
  let ?d = "data_of s p" and ?fs = "frag_head s"
  let ?S = "\<lambda>A. s\<lparr>frag_head := frag_record s d\<^sub>0 hlen ps A # ?fs\<rparr>"
  have key: "same_datagram ?d d\<^sub>0" using frag_series_piece [OF series, of ?d] p(1) by (auto simp: frag_piece_def)
  have first: "new_frag ?d s = ?S {}"
    using key ps(2) by (auto simp: new_frag_def frag_record_def same_datagram_def)
  have S: "(case lookup_frag ?d (frag_state s d\<^sub>0 hlen ps A) of Some i \<Rightarrow> (i, frag_state s d\<^sub>0 hlen ps A)
      | None \<Rightarrow> (0, new_frag ?d (frag_state s d\<^sub>0 hlen ps A))) = (0, ?S A)"
    using new lookup_frag_cong [OF key, of s] first by (simp add: frag_state_def lookup_frag_record [OF key])
  obtain xs ys where split: "ps = xs @ p # ys" using p(1) by (meson split_list)
  have "insert_frag p 0 (?S A) = (0, ?S (insert p A))"
  proof (cases "ys = []")
    case True
    then have "xs \<noteq> []" using ps(2) split by auto
    with True series ps p(2) show ?thesis unfolding split True by (intro insert_frag_last) auto
  next
    case False
    with series ps p(2) show ?thesis unfolding split by (intro insert_frag_middle) auto
  qed
  moreover have "complete_frag (frag_record s d\<^sub>0 hlen ps (insert p A)) \<longleftrightarrow> insert p A = set ps"
    using p by (auto simp: complete_frag_def frag_record_def)
  moreover have pkb: "pkb (frag_state s d\<^sub>0 hlen ps A) p = pkb s p"
    and st: "frag_state s d\<^sub>0 hlen ps (insert p A) = ?S (insert p A)" by (simp_all add: frag_state_def)
  ultimately show ?thesis
    unfolding ip_reass_def Let_def pkb S st by simp
qed

lemma ip_reass_run_permuted:
  assumes series: "frag_series d\<^sub>0 hlen 0 (map (data_of s) ps)" and ps: "distinct ps" "butlast ps \<noteq> []"
    and new: "lookup_frag d\<^sub>0 s = None"
    and "qs \<noteq> []" "distinct qs" "A \<subseteq> set ps" "set qs = set ps - A"
  shows "ip_reass_run qs (frag_state s d\<^sub>0 hlen ps A) =
    (let (r, s') = reass_frag 0 (frag_state s d\<^sub>0 hlen ps (set ps)) in (replicate (length qs - 1) None @ [r], s'))"
  using assms(5-)
proof (induction qs arbitrary: A)
  case (Cons q qs)
  have q: "q \<in> set ps" "q \<notin> A" using Cons.prems by auto
  note step = ip_reass_step [OF series ps q Cons.prems(3) new]
  show ?case
  proof (cases "qs = []")
    case True
    then have "insert q A = set ps" using Cons.prems by auto
    with step True show ?thesis by (simp add: split_beta Let_def)
  next
    case False
    have "insert q A \<noteq> set ps" using Cons.prems False by (cases qs) auto
    moreover have "insert q A \<subseteq> set ps" "set qs = set ps - insert q A" "distinct qs" using Cons.prems q by auto
    ultimately show ?thesis
      using step Cons.IH [of "insert q A"] False by (cases qs) (simp_all add: split_beta Let_def)
  qed
qed simp

text \<open>
  C2: reassembly does not depend on the order of arrival. When the fragments of one datagram, a gapless
  series with at least two members and the same header length, are given to \<open>ip_reass\<close> in any order, every
  call but the last returns no packet, and the last one returns a new buffer with the header of the first
  fragment (offset cleared, length set to the total) followed by all payloads in the order of their offsets.
  The record of the datagram is gone, every fragment is released, the new buffer is the only one that stays,
  and no fault occurs.
\<close>

theorem ip_reass_any_order:
  assumes "frag_series d\<^sub>0 hlen 0 (map (data_of s) ps)" "2 \<le> length ps" "mset qs = mset ps" "distinct ps" "20 \<le> hlen"
    and "hlen + (\<Sum>p \<leftarrow> ps. frag_bytes (data_of s p)) \<le> 65535" "lookup_frag d\<^sub>0 s = None"
    and "\<forall>p \<in> set ps. pk_live (pkb s p) \<and> pk_refcnt (pkb s p) = 1" "pkb_inv s" "pool_room s"
  shows "\<exists>q s'. ip_reass_run qs s = (replicate (length qs - 1) None @ [Some q], s') \<and>
    data_of s' q = joined hlen (map (data_of s) ps) \<and> frag_head s' = frag_head s \<and> fault s' = fault s \<and>
    live_pkbs s' = insert q (live_pkbs s - set ps) \<and> q \<notin> live_pkbs s \<and> pkb_inv s'"
proof -
  have two: "butlast ps \<noteq> []" using assms(2) by (cases ps rule: rev_cases) auto
  have qs: "set qs = set ps - {}" "distinct qs" "qs \<noteq> []"
    using assms(2-4) by (auto dest: mset_eq_setD mset_eq_imp_distinct_iff)
  have ne: "set ps \<noteq> {}" using two by auto
  show ?thesis
    using reass_frag_joins [OF assms(1,4,5,8,9,10,6) two, of "frag_head s"]
      ip_reass_run_permuted [OF assms(1,4) two assms(7) qs(3,2) empty_subsetI qs(1)] ne
    by (auto simp: frag_state_def live_pkbs_def)
qed

definition empty_ip :: ip_state where
  "empty_ip = rt_state.extend empty_rt (ip_state.fields [] 0)"

definition sample_frags :: "bytes list" where
  "sample_frags =
     [[2,0,0,0,0,1, 2,0,0,0,0,2, 8,0, 0x45,0, 28,0, 7,0, 0,0x20, 64,17, 0,0, 10,0,0,2, 10,0,0,1, 1,2,3,4,5,6,7,8],
      [2,0,0,0,0,1, 2,0,0,0,0,2, 8,0, 0x45,0, 28,0, 7,0, 1,0x20, 64,17, 0,0, 10,0,0,2, 10,0,0,1, 9,10,11,12,13,14,15,16],
      [2,0,0,0,0,1, 2,0,0,0,0,2, 8,0, 0x45,0, 23,0, 7,0, 2,0, 64,17, 0,0, 10,0,0,2, 10,0,0,1, 17,18,19]]"

definition sample_ip_pool :: "bytes list \<Rightarrow> ip_state" where
  "sample_ip_pool ds = empty_ip
     \<lparr>pk_heap := (\<lambda>p. if p < length ds then \<lparr>pk_pro = 0x0800, pk_type = PKT_LOCALHOST, pk_len = int (length (ds ! p)),
        pk_refcnt = 1, pk_indev = None, pk_rtdst = None, pk_sk = None, pk_data = ds ! p, pk_live = True\<rparr>
        else pk_heap empty_net p),
      pk_next := length ds, alloc_pkbs := int (length ds)\<rparr>"

lemma sample_ip_pool_fields:
  "frag_head (sample_ip_pool ds) = []" "fault (sample_ip_pool ds) = None" "free_pkbs (sample_ip_pool ds) = 0"
  by (simp_all add: sample_ip_pool_def empty_ip_def empty_rt_def rt_state.extend_def ip_state.fields_def
      net_state.extend_def empty_net_def)

lemma sample_ip_pool_pkb:
  "p < length ds \<Longrightarrow> pk_live (pkb (sample_ip_pool ds) p) \<and> pk_refcnt (pkb (sample_ip_pool ds) p) = 1 \<and>
     data_of (sample_ip_pool ds) p = ds ! p \<and> pk_len (pkb (sample_ip_pool ds) p) = int (length (ds ! p))"
  "pk_live (pkb (sample_ip_pool ds) p) \<longleftrightarrow> p < length ds"
  by (simp_all add: sample_ip_pool_def pkb_def empty_net_def)

lemma sample_ip_pool_ok:
  assumes "length ds < 200000"
  shows "pkb_inv (sample_ip_pool ds)" "pool_room (sample_ip_pool ds)"
proof -
  have "live_pkbs (sample_ip_pool ds) = {..<length ds}"
    by (auto simp: live_pkbs_def sample_ip_pool_pkb(2)) (simp add: sample_ip_pool_def)
  with assms show "pkb_inv (sample_ip_pool ds)" "pool_room (sample_ip_pool ds)"
    by (simp_all add: pkb_inv_def pool_room_def sample_ip_pool_pkb sample_ip_pool_fields)
      (simp_all add: sample_ip_pool_def)
qed

lemma sample_frags_series: "frag_series (sample_frags ! 0) 20 0 sample_frags"
  by (simp add: sample_frags_def frag_piece_def same_datagram_def frag_bytes_def ipoff_def iphlen_def ip_hlen_def eval_simps)

theorem ip_reass_any_order_witness:
  "\<exists>q s'. ip_reass_run [2, 0, 1] (sample_ip_pool sample_frags) = ([None, None, Some q], s') \<and>
    drop 34 (data_of s' q) = [1,2,3,4,5,6,7,8,9,10,11,12,13,14,15,16,17,18,19] \<and> fault s' = None"
proof -
  let ?s = "sample_ip_pool sample_frags"
  have len: "length sample_frags = 3" by (simp add: sample_frags_def)
  have d: "data_of ?s p = sample_frags ! p" if "p < 3" for p using sample_ip_pool_pkb(1) that len by simp
  have "[sample_frags ! 0, sample_frags ! 1, sample_frags ! 2] = sample_frags" by (simp add: sample_frags_def)
  with d have map: "map (data_of ?s) [0, 1, 2] = sample_frags" by simp
  have "(\<Sum>p \<leftarrow> [0, 1, 2]. frag_bytes (data_of ?s p)) = sum_list (map frag_bytes sample_frags)"
    using arg_cong [OF map, of "\<lambda>ds. sum_list (map frag_bytes ds)"] by (simp only: map_map comp_def)
  also have "\<dots> = 19" by (simp add: sample_frags_def frag_bytes_def iphlen_def ip_hlen_def eval_simps)
  finally have sum: "20 + (\<Sum>p \<leftarrow> [0, 1, 2]. frag_bytes (data_of ?s p)) \<le> 65535" by linarith
  have live: "\<forall>p \<in> set [0, 1, 2]. pk_live (pkb ?s p) \<and> pk_refcnt (pkb ?s p) = 1"
    by (simp add: sample_ip_pool_pkb len)
  have "drop 34 (joined 20 sample_frags) = [1,2,3,4,5,6,7,8,9,10,11,12,13,14,15,16,17,18,19]"
    by (simp add: sample_frags_def joined_def frag_payload_def frag_bytes_def iphlen_def ip_hlen_def eval_simps)
  moreover have "lookup_frag (sample_frags ! 0) ?s = None" by (simp add: lookup_frag_def sample_ip_pool_fields)
  ultimately show ?thesis
    using ip_reass_any_order [where s = ?s and ps = "[0, 1, 2]" and qs = "[2, 0, 1]" and hlen = 20 and
        d\<^sub>0 = "sample_frags ! 0", unfolded map, OF sample_frags_series _ _ _ _ sum _ live]
    by (simp add: sample_ip_pool_ok len sample_ip_pool_fields add_mset_commute numeral_2_eq_2) metis
qed

end
