(* ===== verification/Ip_Split.thy ===== *)
theory Ip_Split
  imports Ip_Reass
begin

text \<open>
  Fragmentation meets reassembly: what \<open>ip_send_frag\<close> puts on the wire is a series of fragments in the sense of
  the reassembly theory, and joining it gives the datagram back. The lemmas on the sending side are proved
  for any driver that meets the contract \<open>reliable_device\<close>.
\<close>

section \<open>The bytes of one fragment\<close>

definition frag_data :: "bytes \<Rightarrow> nat \<Rightarrow> nat \<Rightarrow> nat \<Rightarrow> u16 \<Rightarrow> bytes" where
  "frag_data d hlen n off mf =
     ip_set_checksum (set_ip_fragoff (htons (mf OR of_nat (off div 8)))
       (set_ip_len (htons (of_nat (hlen + n)))
         (replicate ETH_HRD_SZ 0 @ slice ETH_HRD_SZ hlen d @ slice (ETH_HRD_SZ + hlen + off) n d)))"

lemma ip_frag_eq:
  assumes "ETH_HRD_SZ + hlen + off + n \<le> length (data_of s p)" "p \<noteq> pk_next s"
  shows "ip_frag p hlen (int n) (int off) mf s =
    (pk_next s, upd_pkb (pk_next s) (\<lambda>c. c\<lparr>pk_pro := pk_pro (pkb s p), pk_type := pk_type (pkb s p),
       pk_indev := pk_indev (pkb s p), pk_rtdst := pk_rtdst (pkb s p), pk_data := frag_data (data_of s p) hlen n off mf\<rparr>)
       (snd (alloc_pkb (int (ETH_HRD_SZ + hlen + n)) s)))"
proof -
  let ?d = "data_of s p"
  have m: "memcpy (memcpy (replicate (14 + hlen + n) 0) 14 (drop 14 ?d) hlen) (14 + hlen) (drop (14 + hlen + off) ?d) n =
      replicate 14 0 @ slice 14 hlen ?d @ slice (14 + hlen + off) n ?d"
  proof -
    have len: "length (slice 14 hlen ?d) = hlen" using assms(1) by simp
    have "memcpy (replicate (14 + hlen + n) 0) 14 (drop 14 ?d) hlen = replicate 14 0 @ slice 14 hlen ?d @ replicate n 0"
      by (simp add: memcpy_eq slice_def min_def)
    then show ?thesis
      unfolding slice_def [of "14 + hlen + off"] by (simp add: memcpy_eq len del: length_slice)
  qed
  define A where "A = snd (alloc_pkb (int (14 + hlen + n)) s)"
  have z: "data_of A (pk_next s) = replicate (14 + hlen + n) 0"
    unfolding A_def alloc_pkb_data by (simp only: nat_int)
  have a: "alloc_pkb (int 14 + int hlen + int n) s = (pk_next s, A)"
    unfolding A_def by (metis alloc_simps(1) of_nat_add prod.collapse)
  have p: "pkb A p = pkb s p" using assms(2) by (simp add: A_def)
  have w: "word_of_int (int off div 8) = (of_nat (off div 8) :: u16)"
    by (metis of_int_of_nat_eq of_nat_numeral zdiv_int)
  show ?thesis
    unfolding ip_frag_def Let_def a A_def [symmetric] prod.case upd_pkb_upd_pkb if_not_P [OF linorder_not_less [THEN iffD2, OF of_nat_0_le_iff]]
      p prod.inject frag_data_def
    by (intro conjI refl upd_pkb_cong, cases "pkb A (pk_next s)")
      (use z in \<open>simp add: m w\<close>)
qed

section \<open>Views of a fragment\<close>

lemma rd8_frag_base:
  "ETH_HRD_SZ \<le> k \<Longrightarrow> k < ETH_HRD_SZ + hlen \<Longrightarrow> ETH_HRD_SZ + hlen \<le> length d \<Longrightarrow>
   rd8 (replicate ETH_HRD_SZ 0 @ slice ETH_HRD_SZ hlen d @ bs) k = rd8 d k"
  by (auto simp: rd8_def nth_append slice_def)

definition frag_fits :: "bytes \<Rightarrow> nat \<Rightarrow> nat \<Rightarrow> nat \<Rightarrow> bool" where
  "frag_fits d hlen n off \<longleftrightarrow> 20 \<le> hlen \<and> iphlen d = hlen \<and> ETH_HRD_SZ + hlen + off + n \<le> length d"

lemma frag_fitsD:
  assumes "frag_fits d hlen n off"
  shows "20 \<le> hlen" "iphlen d = hlen" "min hlen (length d - 14) = hlen" "min n (length d - (14 + hlen + off)) = n"
  using assms by (auto simp: frag_fits_def)

lemma length_frag_data:
  "frag_fits d hlen n off \<Longrightarrow> length (frag_data d hlen n off mf) = ETH_HRD_SZ + hlen + n"
  by (simp add: frag_data_def ip_set_checksum_eq frag_fitsD)

lemma rd8_frag_data:
  "frag_fits d hlen n off \<Longrightarrow> ETH_HRD_SZ \<le> k \<Longrightarrow> k < ETH_HRD_SZ + hlen \<Longrightarrow> k \<notin> {16, 17, 20, 21, 24, 25} \<Longrightarrow>
   rd8 (frag_data d hlen n off mf) k = rd8 d k"
  by (simp add: frag_data_def ip_set_checksum_eq rd8_wr16 rd8_frag_base frag_fits_def)

lemma iphlen_frag_data: "frag_fits d hlen n off \<Longrightarrow> iphlen (frag_data d hlen n off mf) = hlen"
  using rd8_frag_data [of d hlen n off 14 mf] by (auto simp: iphlen_def ip_hlen_def frag_fits_def)

lemma frag_data_fields:
  assumes "frag_fits d hlen n off"
  shows "ip_len (frag_data d hlen n off mf) = htons (of_nat (hlen + n))"
    "ip_fragoff (frag_data d hlen n off mf) = htons (mf OR of_nat (off div 8))"
    "ip_id (frag_data d hlen n off mf) = ip_id d"
    "ip_pro (frag_data d hlen n off mf) = ip_pro d"
    "ip_src (frag_data d hlen n off mf) = ip_src d"
    "ip_dst (frag_data d hlen n off mf) = ip_dst d"
proof -
  show "ip_len (frag_data d hlen n off mf) = htons (of_nat (hlen + n))"
    "ip_fragoff (frag_data d hlen n off mf) = htons (mf OR of_nat (off div 8))"
    using frag_fitsD [OF assms] by (simp_all add: frag_data_def ip_set_checksum_eq)
  have "20 \<le> hlen" using assms by (simp add: frag_fits_def)
  then show "ip_id (frag_data d hlen n off mf) = ip_id d" "ip_pro (frag_data d hlen n off mf) = ip_pro d"
    "ip_src (frag_data d hlen n off mf) = ip_src d" "ip_dst (frag_data d hlen n off mf) = ip_dst d"
    by (simp_all add: rd16_def rd32_def rd8_frag_data [OF assms])
qed

lemma drop_frag_data:
  assumes "frag_fits d hlen n off"
  shows "drop (ETH_HRD_SZ + hlen) (frag_data d hlen n off mf) = slice (ETH_HRD_SZ + hlen + off) n d"
proof -
  have skip: "drop k (wr16 i v xs) = drop k xs" if "i + 1 < k" for k i v xs
    using that by (simp add: wr16_def wr8_def)
  have "length (slice ETH_HRD_SZ hlen d) = hlen" "20 \<le> hlen" using assms by (auto simp: frag_fits_def)
  then show ?thesis by (simp add: frag_data_def ip_set_checksum_eq skip del: length_slice)
qed

lemma chksum_frag_data:
  assumes "frag_fits d hlen n off"
  shows "ip_chksum (drop ETH_HRD_SZ (frag_data d hlen n off mf)) (int hlen) = 0"
proof -
  let ?b = "set_ip_fragoff (htons (mf OR of_nat (off div 8))) (set_ip_len (htons (of_nat (hlen + n)))
      (replicate ETH_HRD_SZ 0 @ slice ETH_HRD_SZ hlen d @ slice (ETH_HRD_SZ + hlen + off) n d))"
  have "iphlen ?b = hlen" using iphlen_frag_data [OF assms, of mf]
    by (simp add: frag_data_def ip_set_checksum_eq iphlen_wr16)
  then show ?thesis
    using ip_set_checksum_zero [of ?b] frag_fitsD [OF assms] by (simp add: frag_data_def)
qed

section \<open>What the receiver reads\<close>

lemma ip_views_cong:
  assumes "drop 14 f = drop 14 e"
  shows "k \<ge> 14 \<Longrightarrow> rd8 f k = rd8 e k" "k \<ge> 14 \<Longrightarrow> rd16 f k = rd16 e k" "k \<ge> 14 \<Longrightarrow> rd32 f k = rd32 e k"
    "iphlen f = iphlen e"
proof -
  show r8: "k \<ge> 14 \<Longrightarrow> rd8 f k = rd8 e k" for k
    using rd8_drop [of 14 f "k - 14"] rd8_drop [of 14 e "k - 14"] assms by simp
  show "k \<ge> 14 \<Longrightarrow> rd16 f k = rd16 e k" "k \<ge> 14 \<Longrightarrow> rd32 f k = rd32 e k" by (simp_all add: rd16_def rd32_def r8)
  show "iphlen f = iphlen e" by (simp add: iphlen_def ip_hlen_def r8)
qed

lemma ip_ntoh_fields:
  assumes "22 \<le> length d"
  shows "ip_len (ip_ntoh d) = ntohs (ip_len d)" "ip_id (ip_ntoh d) = ntohs (ip_id d)"
    "ip_fragoff (ip_ntoh d) = ntohs (ip_fragoff d)" "ip_pro (ip_ntoh d) = ip_pro d"
    "ip_src (ip_ntoh d) = ip_src d" "ip_dst (ip_ntoh d) = ip_dst d" "iphlen (ip_ntoh d) = iphlen d"
    "22 \<le> k \<Longrightarrow> drop k (ip_ntoh d) = drop k d"
  using assms by (simp_all add: ip_ntoh_def Let_def iphlen_wr16 rd8_wr16) (simp add: wr16_def wr8_def)

lemma frag_field_bits:
  assumes "k < 8192" "mf = 0 \<or> mf = IP_FRAG_MF"
  shows "unat ((mf OR of_nat k) AND IP_FRAG_OFF) = k" "(mf OR of_nat k) AND IP_FRAG_MF = mf"
proof -
  have m: "(0x1fff :: u16) = mask 13" by (simp add: mask_eq_exp_minus_1)
  have low: "of_nat k AND (0x1fff :: u16) = of_nat k"
    using assms(1) unfolding m take_bit_eq_mask [symmetric] take_bit_of_nat
    by (simp add: take_bit_nat_eq_self)
  have "of_nat k AND (0x2000 :: u16) = of_nat k AND (0x1fff AND 0x2000)"
    by (subst low [symmetric], simp only: and.assoc)
  then have high: "of_nat k AND (0x2000 :: u16) = 0" by simp
  have k: "unat (of_nat k :: u16) = k" using assms(1) by (simp add: unat_of_nat)
  show "unat ((mf OR of_nat k) AND IP_FRAG_OFF) = k"
    using assms(2) by (auto simp: bit.conj_disj_distrib2 low k)
  show "(mf OR of_nat k) AND IP_FRAG_MF = mf"
    using assms(2) by (auto simp: bit.conj_disj_distrib2 high)
qed

text \<open>A frame that carries the fragment, as the receiver sees it after \<open>ip_ntoh\<close>.\<close>

lemma frag_received:
  assumes fits: "frag_fits d hlen n off" and f: "drop 14 f = drop 14 (frag_data d hlen n off mf)" "14 \<le> length f"
    and bits: "8 dvd off" "mf = 0 \<or> mf = IP_FRAG_MF" and size: "hlen + off + n \<le> 65535" "0 < n"
  shows "frag_piece (ip_ntoh d) hlen off (ip_ntoh f)" "ip_fragoff (ip_ntoh f) AND IP_FRAG_MF = mf"
    "frag_payload hlen (ip_ntoh f) = slice (ETH_HRD_SZ + hlen + off) n d" "frag_bytes (ip_ntoh f) = n"
    "length f = ETH_HRD_SZ + hlen + n"
proof -
  note h = frag_fitsD [OF fits] and e = frag_data_fields [OF fits]
  have "length f - 14 = hlen + n" using arg_cong [OF f(1), of length] length_frag_data [OF fits] by simp
  then show len: "length f = ETH_HRD_SZ + hlen + n" using f(2) h(1) by simp
  have d22: "22 \<le> length d" using fits by (auto simp: frag_fits_def)
  have f22: "22 \<le> length f" using len h(1) by simp
  note v = ip_views_cong [OF f(1)] and nf = ip_ntoh_fields [OF f22] and nd = ip_ntoh_fields [OF d22]
  have ln: "unat (ip_len (ip_ntoh f)) = hlen + n" using size by (simp add: nf v e unat_of_nat del: of_nat_add)
  have lh: "iphlen (ip_ntoh f) = hlen" by (simp add: nf v(4) iphlen_frag_data [OF fits])
  have fo: "ip_fragoff (ip_ntoh f) = mf OR of_nat (off div 8)" by (simp add: nf v e)
  have k: "off div 8 < 8192" using size by simp
  show "ip_fragoff (ip_ntoh f) AND IP_FRAG_MF = mf" unfolding fo by (rule frag_field_bits(2) [OF k bits(2)])
  have "ipoff (ip_ntoh f) = off" unfolding ipoff_def fo frag_field_bits(1) [OF k bits(2)] using bits(1) by simp
  moreover have "same_datagram (ip_ntoh f) (ip_ntoh d)" by (simp add: same_datagram_def nf nd v e)
  ultimately show "frag_piece (ip_ntoh d) hlen off (ip_ntoh f)"
    using ln lh len size by (simp add: frag_piece_def)
  show "frag_bytes (ip_ntoh f) = n" by (simp add: frag_bytes_def ln lh)
  have "drop (14 + hlen) (ip_ntoh f) = drop hlen (drop 14 f)" using h(1) nf(8) [of "14 + hlen"] by (simp add: add.commute)
  also have "\<dots> = drop (14 + hlen) (frag_data d hlen n off mf)" unfolding f(1) by (simp add: add.commute)
  also have "\<dots> = slice (14 + hlen + off) n d" by (rule drop_frag_data [OF fits])
  finally show "frag_payload hlen (ip_ntoh f) = slice (ETH_HRD_SZ + hlen + off) n d"
    by (simp add: frag_payload_def ln slice_def)
qed

section \<open>The series a datagram is split into\<close>

function split_data :: "bytes \<Rightarrow> nat \<Rightarrow> nat \<Rightarrow> nat \<Rightarrow> nat \<Rightarrow> bytes list" where
  "split_data d hlen m off n =
     (if 0 < m \<and> m < n then frag_data d hlen m off IP_FRAG_MF # split_data d hlen m (off + m) (n - m)
      else [frag_data d hlen n off 0])"
  by pat_completeness auto
termination
  by (relation "measure (\<lambda>(d, hlen, m, off, n). n)") auto

declare split_data.simps [simp del]

lemma frag_fits_part: "frag_fits d hlen n off \<Longrightarrow> m \<le> n \<Longrightarrow> frag_fits d hlen m off"
  by (auto simp: frag_fits_def)

lemma frag_fits_rest: "frag_fits d hlen n off \<Longrightarrow> m \<le> n \<Longrightarrow> frag_fits d hlen (n - m) (off + m)"
  by (auto simp: frag_fits_def)

lemma slice_split: "m \<le> n \<Longrightarrow> slice a m d @ slice (a + m) (n - m) d = slice a n d"
  by (simp add: slice_def flip: take_add) (metis add.commute drop_drop le_add_diff_inverse take_add)

lemma frames_series:
  assumes fr: "\<And>e. length e \<ge> 14 \<Longrightarrow> drop 14 (frame e) = drop 14 e \<and> length (frame e) = length e"
    and "frag_fits d hlen n off" "8 dvd off" "8 dvd m" "hlen + off + n \<le> 65535" "0 < n"
  shows "frag_series (ip_ntoh d) hlen off (map (\<lambda>e. ip_ntoh (frame e)) (split_data d hlen m off n)) \<and>
    concat (map (\<lambda>e. frag_payload hlen (ip_ntoh (frame e))) (split_data d hlen m off n)) = slice (ETH_HRD_SZ + hlen + off) n d \<and>
    (\<Sum>e \<leftarrow> split_data d hlen m off n. frag_bytes (ip_ntoh (frame e))) = n \<and>
    (0 < m \<longrightarrow> (\<forall>e \<in> set (split_data d hlen m off n). length (frame e) \<le> ETH_HRD_SZ + hlen + m))"
  using assms(2-)
proof (induction d hlen m off n rule: split_data.induct)
  case (1 d hlen m off n)
  show ?case
  proof (cases "0 < m \<and> m < n")
    case True
    let ?e = "frag_data d hlen m off IP_FRAG_MF" and ?es = "split_data d hlen m (off + m) (n - m)"
    have fits: "frag_fits d hlen m off" "frag_fits d hlen (n - m) (off + m)"
      using frag_fits_part [OF "1.prems"(1)] frag_fits_rest [OF "1.prems"(1)] True by auto
    have e: "drop 14 (frame ?e) = drop 14 ?e" "14 \<le> length (frame ?e)"
      using fr [of ?e] length_frag_data [OF fits(1), of IP_FRAG_MF] by auto
    note r = frag_received [OF fits(1) e "1.prems"(2) disjI2 [OF refl]]
    have ne: "?es \<noteq> []" by (simp add: split_data.simps [of d hlen m "off + m"])
    have s: "split_data d hlen m off n = ?e # ?es" using True by (simp add: split_data.simps [of d hlen m off n])
    have IH: "frag_series (ip_ntoh d) hlen (off + m) (map (\<lambda>e. ip_ntoh (frame e)) ?es) \<and>
        concat (map (\<lambda>e. frag_payload hlen (ip_ntoh (frame e))) ?es) = slice (ETH_HRD_SZ + hlen + (off + m)) (n - m) d \<and>
        (\<Sum>e \<leftarrow> ?es. frag_bytes (ip_ntoh (frame e))) = n - m \<and>
        (0 < m \<longrightarrow> (\<forall>e \<in> set ?es. length (frame e) \<le> ETH_HRD_SZ + hlen + m))"
      using True "1.prems" fits by (intro "1.IH") auto
    show ?thesis
      using IH r True "1.prems"(4) ne slice_split [of m n "14 + hlen + off" d]
      unfolding s by (simp add: frag_series_Cons add.assoc)
  next
    case False
    let ?e = "frag_data d hlen n off 0"
    have e: "drop 14 (frame ?e) = drop 14 ?e" "14 \<le> length (frame ?e)"
      using fr [of ?e] length_frag_data [OF "1.prems"(1), of 0] by auto
    note r = frag_received [OF "1.prems"(1) e "1.prems"(2) disjI1 [OF refl] "1.prems"(4,5)]
    have "split_data d hlen m off n = [?e]" unfolding split_data.simps [of d hlen m off n] if_not_P [OF False] ..
    then show ?thesis using r False by auto
  qed
qed

section \<open>Sending the series\<close>

text \<open>
  The state after some fragments of the packet \<open>p\<close> went out: only buffers made since then, the counters of the
  devices and the wire differ.
\<close>

definition frags_out :: "nat \<Rightarrow> 'a ip_state_scheme \<Rightarrow> 'a ip_state_scheme \<Rightarrow> bool" where
  "frags_out p s t \<longleftrightarrow>
     same_net s t \<and> arp_cache t = arp_cache s \<and> arp_next t = arp_next s \<and> fault t = fault s \<and> pkb_inv t \<and>
     alloc_pkbs t - free_pkbs t = alloc_pkbs s - free_pkbs s \<and> pk_next s \<le> pk_next t \<and>
     (\<forall>q < pk_next s. pkb t q = pkb s q)"

definition eth_frame :: "bytes \<Rightarrow> bytes \<Rightarrow> bytes \<Rightarrow> bytes" where
  "eth_frame src dst e = hwacpy 6 src (hwacpy 0 dst (set_eth_pro (htons ETH_P_IP) e))"

lemma eth_frame_body: "drop 14 (eth_frame src dst e) = drop 14 e \<and> length (eth_frame src dst e) = length e"
  by (simp add: eth_frame_def drop_eth_frame)

text \<open>The next hop of a routed packet is resolved.\<close>

definition hop_known :: "rtentry \<Rightarrow> u32 \<Rightarrow> nat \<Rightarrow> 'a net_state_scheme \<Rightarrow> bool" where
  "hop_known rt dst i s \<longleftrightarrow>
     rt_flags rt AND RT_LOCALHOST = 0 \<and> arp_lookup ETH_P_IP dst s = Some i \<and> ae_state (ae s i) \<noteq> ARP_WAITING"

locale ip_device = reliable_device xmit
  for xmit :: "'a ip_state_scheme xmit_fun"
begin

lemma send_dev_resolved:
  assumes "pk_rtdst (pkb s q) = Some rt" "hop_known rt (next_hop rt (data_of s q)) i s"
  shows "ip_send_dev xmit n q s =
    netdev_tx xmit n q (pk_len (pkb s q) - 14) ETH_P_IP (ae_hwaddr (ae s i)) s"
  using assms by (simp add: ip_send_dev_def hop_known_def Let_def)

lemma frag_sent:
  fixes s :: "'a ip_state_scheme"
  assumes p: "p < pk_next s" "pk_rtdst (pkb s p) = Some rt" and fits: "frag_fits (data_of s p) hlen m off"
    and hop: "hop_known rt (next_hop rt (data_of s p)) i s" and pool: "pkb_inv s" "pool_room s"
  shows "case ip_frag p hlen (int m) (int off) mf s of (q, t) \<Rightarrow>
    frags_out p s (ip_send_dev xmit n q t) \<and>
    wire (ip_send_dev xmit n q t) = wire s @ [(n, eth_frame (net_hwaddr (dev s n)) (ae_hwaddr (ae s i))
      (frag_data (data_of s p) hlen m off mf))]"
proof -
  let ?d = "data_of s p" and ?q = "pk_next s"
  let ?e = "frag_data ?d hlen m off mf"
  define t where "t = upd_pkb ?q (\<lambda>c. c\<lparr>pk_pro := pk_pro (pkb s p), pk_type := pk_type (pkb s p),
       pk_indev := pk_indev (pkb s p), pk_rtdst := pk_rtdst (pkb s p), pk_data := ?e\<rparr>)
       (snd (alloc_pkb (int (ETH_HRD_SZ + hlen + m)) s))"
  have frag: "ip_frag p hlen (int m) (int off) mf s = (?q, t)"
    unfolding t_def using fits p(1) by (intro ip_frag_eq) (auto simp: frag_fits_def)
  have q: "pk_rtdst (pkb t ?q) = Some rt" "data_of t ?q = ?e" "pk_live (pkb t ?q)" "pk_refcnt (pkb t ?q) = 1"
    "pk_len (pkb t ?q) = int (ETH_HRD_SZ + hlen + m)"
    using p(2) by (simp_all add: t_def)
  have t: "arp_cache t = arp_cache s" "arp_next t = arp_next s" "pkb_inv t" "fault t = fault s" "wire t = wire s"
    "dev t k = dev s k" "same_net s t" "alloc_pkbs t = alloc_pkbs s + 1" "free_pkbs t = free_pkbs s"
    "pk_next t = Suc ?q" for k
    using pool by (simp_all add: t_def pkb_inv_upd alloc_pkb_inv alloc_fault same_net_def)
      (simp add: alloc_pkb_def)
  have old: "pkb t r = pkb s r" if "r < ?q" for r using that by (simp add: t_def)
  have "next_hop rt ?e = next_hop rt ?d" by (simp add: next_hop_def frag_data_fields [OF fits])
  then have "hop_known rt (next_hop rt (data_of t ?q)) i t"
    using hop t(1) by (simp add: hop_known_def arp_lookup_def q(2))
  then have send: "ip_send_dev xmit n ?q t = netdev_tx xmit n ?q (int (hlen + m)) ETH_P_IP (ae_hwaddr (ae s i)) t"
    using send_dev_resolved [OF q(1)] q(5) t(1) by simp
  have len: "length ?e = 14 + hlen + m" by (rule length_frag_data [OF fits])
  have "wire (ip_send_dev xmit n ?q t) = wire s @ [(n, eth_frame (net_hwaddr (dev s n)) (ae_hwaddr (ae s i)) ?e)]"
    unfolding send by (subst netdev_tx_sends) (simp_all add: q(2) t(5,6) len eth_frame_def)
  moreover have "frags_out p s (ip_send_dev xmit n ?q t)"
    unfolding send frags_out_def
    using t old q(3,4) netdev_tx_inv [OF t(3) q(3)] same_net_tx [of t] same_net_trans [OF t(7)]
    by (simp add: netdev_tx_simps netdev_tx_pkb)
  ultimately show ?thesis by (simp add: frag)
qed

end

interpretation vip: ip_device "veth_xmit (\<lambda>f. int (length f))" ..

lemma frags_out_trans: "frags_out p s t \<Longrightarrow> frags_out p t u \<Longrightarrow> frags_out p s u"
  by (auto simp: frags_out_def dest: same_net_trans)

lemma frags_out_keeps:
  assumes "frags_out p s t" "p < pk_next s"
  shows "pkb t p = pkb s p" "p < pk_next t" "hop_known rt a i t = hop_known rt a i s" "pkb_inv t"
    "pool_room s \<Longrightarrow> pool_room t" "net_hwaddr (dev t n) = net_hwaddr (dev s n)" "ae t i = ae s i"
  using assms by (auto simp: frags_out_def hop_known_def arp_lookup_def same_net_def pool_room_def)

context ip_device
begin

lemma frag_loop:
  fixes s :: "'a ip_state_scheme"
  assumes "p < pk_next s" "pk_rtdst (pkb s p) = Some rt" "data_of s p = d" "frag_fits d hlen n off"
    and "hop_known rt (next_hop rt d) i s" "pkb_inv s" "pool_room s" "0 < m" "0 < n" "n \<le> k"
  shows "\<exists>n' off' t. ip_send_frag_loop k xmit nd p hlen (int m) (int n) (int off) s = (int n', int off', t) \<and>
    0 < n' \<and> frag_fits d hlen n' off' \<and> (t = s \<or> frags_out p s t) \<and>
    wire t @ [(nd, eth_frame (net_hwaddr (dev s nd)) (ae_hwaddr (ae s i)) (frag_data d hlen n' off' 0))] =
    wire s @ map (\<lambda>e. (nd, eth_frame (net_hwaddr (dev s nd)) (ae_hwaddr (ae s i)) e)) (split_data d hlen m off n)"
  using assms
proof (induction k arbitrary: s off n)
  case (Suc k)
  let ?F = "eth_frame (net_hwaddr (dev s nd)) (ae_hwaddr (ae s i))"
  show ?case
  proof (cases "m < n")
    case True
    have fits: "frag_fits d hlen m off" "frag_fits d hlen (n - m) (off + m)"
      using frag_fits_part [OF Suc.prems(4)] frag_fits_rest [OF Suc.prems(4)] True by auto
    obtain q u where qu: "ip_frag p hlen (int m) (int off) IP_FRAG_MF s = (q, u)" by fastforce
    define t where "t = ip_send_dev xmit nd q u"
    from frag_sent [where p = p and s = s and rt = rt and hlen = hlen and m = m and off = off and i = i and mf = IP_FRAG_MF and n = nd] Suc.prems fits(1) qu
    have out: "frags_out p s t" and w: "wire t = wire s @ [(nd, ?F (frag_data d hlen m off IP_FRAG_MF))]"
      by (simp_all add: t_def)
    note keep = frags_out_keeps [OF out Suc.prems(1)]
    have loop: "ip_send_frag_loop (Suc k) xmit nd p hlen (int m) (int n) (int off) s =
        ip_send_frag_loop k xmit nd p hlen (int m) (int (n - m)) (int (off + m)) t"
      using True qu by (simp add: t_def of_nat_diff)
    have "\<exists>n' off' v. ip_send_frag_loop k xmit nd p hlen (int m) (int (n - m)) (int (off + m)) t = (int n', int off', v) \<and>
        0 < n' \<and> frag_fits d hlen n' off' \<and> (v = t \<or> frags_out p t v) \<and>
        wire v @ [(nd, eth_frame (net_hwaddr (dev t nd)) (ae_hwaddr (ae t i)) (frag_data d hlen n' off' 0))] =
        wire t @ map (\<lambda>e. (nd, eth_frame (net_hwaddr (dev t nd)) (ae_hwaddr (ae t i)) e)) (split_data d hlen m (off + m) (n - m))"
      using Suc.prems fits(2) True keep by (intro Suc.IH) auto
    moreover have "split_data d hlen m off n = frag_data d hlen m off IP_FRAG_MF # split_data d hlen m (off + m) (n - m)"
      using True Suc.prems(8) by (simp add: split_data.simps [of d hlen m off n])
    ultimately show ?thesis
      using out w keep(6,7) frags_out_trans [OF out] unfolding loop by auto
  next
    case False
    then have "split_data d hlen m off n = [frag_data d hlen n off 0]" by (subst split_data.simps) simp
    then show ?thesis using False Suc.prems by auto
  qed
qed simp

end

section \<open>The datagram comes back\<close>

lemma drop_eqI:
  assumes "length xs = length ys" "\<And>k. i \<le> k \<Longrightarrow> k < length ys \<Longrightarrow> rd8 xs k = rd8 ys k"
  shows "drop i xs = drop i ys"
proof (rule nth_equalityI)
  fix j assume "j < length (drop i xs)"
  then show "drop i xs ! j = drop i ys ! j" using assms(2) [of "i + j"] assms(1) by (simp add: rd8_def)
qed (simp add: assms(1))

lemma rd8_append: "rd8 (xs @ ys) k = (if k < length xs then rd8 xs k else rd8 ys (k - length xs))"
  by (auto simp: rd8_def nth_append)

lemma rd8_take: "rd8 (take n xs) k = (if k < n then rd8 xs k else 0)"
  by (simp add: rd8_def)

lemma rd8_ip_ntoh:
  "22 \<le> length d \<Longrightarrow> rd8 (ip_ntoh d) k =
    (if k = 16 then lo8 (ntohs (ip_len d)) else if k = 17 then hi8 (ntohs (ip_len d))
     else if k = 18 then lo8 (ntohs (ip_id d)) else if k = 19 then hi8 (ntohs (ip_id d))
     else if k = 20 then lo8 (ntohs (ip_fragoff d)) else if k = 21 then hi8 (ntohs (ip_fragoff d)) else rd8 d k)"
  by (auto simp: ip_ntoh_def Let_def rd8_wr16)

lemma hd_split_data: "\<exists>m' mf. m' \<le> n \<and> hd (split_data d hlen m off n) = frag_data d hlen m' off mf"
proof (cases "0 < m \<and> m < n")
  case True
  then have "m \<le> n \<and> hd (split_data d hlen m off n) = frag_data d hlen m off IP_FRAG_MF"
    by (simp add: split_data.simps [of d hlen m off n])
  then show ?thesis by blast
next
  case False
  then have "hd (split_data d hlen m off n) = frag_data d hlen n off 0" by (subst split_data.simps) auto
  then show ?thesis by blast
qed

lemma split_data_members:
  "frag_fits d hlen n off \<Longrightarrow> e \<in> set (split_data d hlen m off n) \<Longrightarrow>
   \<exists>m' off' mf. e = frag_data d hlen m' off' mf \<and> frag_fits d hlen m' off'"
proof (induction d hlen m off n rule: split_data.induct)
  case (1 d hlen m off n)
  show ?case
  proof (cases "0 < m \<and> m < n")
    case True
    then have s: "split_data d hlen m off n = frag_data d hlen m off IP_FRAG_MF # split_data d hlen m (off + m) (n - m)"
      by (simp add: split_data.simps [of d hlen m off n])
    have fits: "frag_fits d hlen m off" "frag_fits d hlen (n - m) (off + m)"
      using frag_fits_part [OF "1.prems"(1)] frag_fits_rest [OF "1.prems"(1)] True by auto
    show ?thesis
    proof (cases "e = frag_data d hlen m off IP_FRAG_MF")
      case False
      with "1.prems"(2) have "e \<in> set (split_data d hlen m (off + m) (n - m))" unfolding s by simp
      from "1.IH" [OF True fits(2) this] show ?thesis .
    qed (use fits in blast)
  next
    case False
    then have "split_data d hlen m off n = [frag_data d hlen n off 0]" by (subst split_data.simps) auto
    with "1.prems" show ?thesis by auto
  qed
qed

lemma joined_frames:
  assumes fr: "\<And>e. length e \<ge> 14 \<Longrightarrow> drop 14 (frame e) = drop 14 e \<and> length (frame e) = length e"
    and fits: "frag_fits d hlen n 0" and "8 dvd m" "unat (ntohs (ip_len d)) = hlen + n" "0 < n" "ip_fragoff d = 0"
  shows "drop 14 (set_ip_cksum 0 (joined hlen (map (\<lambda>e. ip_ntoh (frame e)) (split_data d hlen m 0 n)))) =
    drop 14 (set_ip_cksum 0 (ip_ntoh (take (14 + hlen + n) d)))"
proof -
  let ?es = "split_data d hlen m 0 n" and ?r = "take (14 + hlen + n) d"
  obtain m' mf where m': "m' \<le> n" "hd ?es = frag_data d hlen m' 0 mf" using hd_split_data by blast
  note fits' = frag_fits_part [OF fits m'(1)]
  define f where "f = frame (frag_data d hlen m' 0 mf)"
  have f: "drop 14 f = drop 14 (frag_data d hlen m' 0 mf)" "length f = 14 + hlen + m'"
    using fr [of "frag_data d hlen m' 0 mf"] length_frag_data [OF fits', of mf] by (auto simp: f_def)
  have h: "20 \<le> hlen" "14 + hlen + n \<le> length d" using fits by (auto simp: frag_fits_def)
  have L: "of_nat (hlen + n) = ntohs (ip_len d)" unfolding assms(4) [symmetric] by simp
  have le: "hlen + n \<le> 65535" using unat_u16_lt [of "ntohs (ip_len d)"] assms(4) by linarith
  note ser = frames_series [where frame = frame and off = 0, OF fr fits _ assms(3) _ assms(5)]
  have j: "joined hlen (map (\<lambda>e. ip_ntoh (frame e)) ?es) =
      set_ip_len (ntohs (ip_len d)) (set_ip_fragoff 0 (take (14 + hlen) (ip_ntoh f))) @ slice (14 + hlen) n d"
  proof -
    have ne: "?es \<noteq> []" by (subst split_data.simps) simp
    have "hd (map (\<lambda>e. ip_ntoh (frame e)) ?es) = ip_ntoh f" using ne m'(2) by (simp add: hd_map f_def)
    moreover have "sum_list (map frag_bytes (map (\<lambda>e. ip_ntoh (frame e)) ?es)) = n"
      "concat (map (frag_payload hlen) (map (\<lambda>e. ip_ntoh (frame e)) ?es)) = slice (14 + hlen) n d"
      using ser le by (simp_all add: comp_def)
    ultimately show ?thesis unfolding joined_def L [symmetric] by simp
  qed
  show ?thesis unfolding j
  proof (rule drop_eqI)
    show "length (set_ip_cksum 0 (set_ip_len (ntohs (ip_len d)) (set_ip_fragoff 0 (take (14 + hlen) (ip_ntoh f))) @
        slice (14 + hlen) n d)) = length (set_ip_cksum 0 (ip_ntoh ?r))"
      using h f(2) by simp
  next
    fix k assume k: "14 \<le> k" "k < length (set_ip_cksum 0 (ip_ntoh ?r))"
    have same: "rd8 f k = rd8 d k" if "14 \<le> k" "k < 14 + hlen" "k \<notin> {16, 17, 20, 21, 24, 25}" for k
      using rd8_frag_data [OF fits' that] ip_views_cong(1) [OF f(1) that(1)] by simp
    have id: "ip_id f = ip_id d"
      using ip_views_cong(2) [OF f(1), of 18] frag_data_fields(3) [OF fits', of mf] by simp
    have r: "ip_len ?r = ip_len d" "ip_id ?r = ip_id d" "ip_fragoff ?r = 0"
      using h assms(6) by (simp_all add: rd16_def rd8_take)
    have len: "length (take (14 + hlen) (ip_ntoh f)) = 14 + hlen" "22 \<le> length f" "22 \<le> length ?r"
      "length ?r = 14 + hlen + n" "length (ip_ntoh ?r) = 14 + hlen + n"
      using f(2) h by auto
    show "rd8 (set_ip_cksum 0 (set_ip_len (ntohs (ip_len d)) (set_ip_fragoff 0 (take (14 + hlen) (ip_ntoh f))) @
        slice (14 + hlen) n d)) k = rd8 (set_ip_cksum 0 (ip_ntoh ?r)) k"
    proof (cases "k < 14 + hlen")
      case True
      with k(1) h(1) same [of k] show ?thesis
        by (auto simp: rd8_wr16 rd8_append rd8_take rd8_ip_ntoh [OF len(2)] rd8_ip_ntoh [OF len(3)] r id len htons_0
            simp del: length_take)
    next
      case False
      with k(2) h(1) show ?thesis
        by (auto simp: rd8_wr16 rd8_append rd8_take rd8_ip_ntoh [OF len(3)] len rd8_slice simp del: length_take)
    qed
  qed
qed

context ip_device
begin

lemma send_frag_wire:
  fixes s :: "'a ip_state_scheme"
  assumes p: "pk_live (pkb s p)" "pk_rtdst (pkb s p) = Some rt" and d: "data_of s p = d"
    and fits: "frag_fits d (iphlen d) n 0" "unat (ntohs (ip_len d)) = iphlen d + n" "0 < n" "ip_fragoff d = 0"
    and mtu: "int (iphlen d) + 8 \<le> net_mtu (dev s nd)"
    and hop: "hop_known rt (next_hop rt d) i s" and pool: "pkb_inv s" "pool_room s"
  shows "let t = ip_send_frag xmit nd p s; F = eth_frame (net_hwaddr (dev s nd)) (ae_hwaddr (ae s i));
      m = nat (net_mtu (dev s nd) - int (iphlen d)) div 8 * 8
    in wire t = wire s @ map (\<lambda>e. (nd, F e)) (split_data d (iphlen d) m 0 n) \<and> fault t = fault s \<and> pkb_inv t \<and>
      pk_refcnt (pkb t p) = pk_refcnt (pkb s p) - 1 \<and> arp_cache t = arp_cache s \<and> same_net s t"
proof -
  let ?h = "iphlen d" and ?F = "eth_frame (net_hwaddr (dev s nd)) (ae_hwaddr (ae s i))"
  define m where "m = nat (net_mtu (dev s nd) - int ?h) div 8 * 8"
  have lt: "p < pk_next s" using p(1) pool(1) by (rule pkb_invD(1) [rotated])
  have m: "(net_mtu (dev s nd) - int ?h) div 8 * 8 = int m" "0 < m" using mtu by (auto simp: m_def zdiv_int)
  have n: "int (unat (ntohs (ip_len d))) - int ?h = int n" using fits(2) by simp
  obtain n' off' u where loop: "ip_send_frag_loop n xmit nd p ?h (int m) (int n) 0 s = (int n', int off', u)"
    and n': "0 < n'" "frag_fits d ?h n' off'" "u = s \<or> frags_out p s u"
    and w: "wire u @ [(nd, ?F (frag_data d ?h n' off' 0))] = wire s @ map (\<lambda>e. (nd, ?F e)) (split_data d ?h m 0 n)"
    using frag_loop [OF lt p(2) d fits(1) hop pool m(2) fits(3) order.refl, of nd] by auto
  have u: "pkb u p = pkb s p" "p < pk_next u" "hop_known rt (next_hop rt d) i u" "pkb_inv u" "pool_room u"
    "net_hwaddr (dev u nd) = net_hwaddr (dev s nd)" "ae u i = ae s i" "arp_cache u = arp_cache s" "same_net s u" "fault u = fault s"
    using n'(3) frags_out_keeps [of p s u] lt hop pool by (auto simp: frags_out_def)
  obtain q v where qv: "ip_frag p ?h (int n') (int off') 0 u = (q, v)" by fastforce
  define t where "t = ip_send_dev xmit nd q v"
  have out: "frags_out p u t" and wt: "wire t = wire u @ [(nd, ?F (frag_data d ?h n' off' 0))]"
    using frag_sent [where p = p and s = u and rt = rt and hlen = ?h and m = n' and off = off' and i = i and mf = 0 and n = nd]
      p(2) d u n'(2) qv by (simp_all add: t_def)
  have "ip_send_frag xmit nd p s = free_pkb p t"
    using n'(1) fits(4) d u(1) qv n loop m(1)
    by (simp add: ip_send_frag_def Let_def t_def)
  moreover have "pkb t p = pkb s p" using frags_out_keeps(1) [OF out u(2)] u(1) by simp
  moreover have "fault t = fault s" "pkb_inv t" "arp_cache t = arp_cache s" "same_net s t"
    using out u same_net_trans [OF u(9)] by (auto simp: frags_out_def)
  ultimately show ?thesis
    using w wt p(1) free_pkb_inv [of t p] unfolding Let_def m_def [symmetric]
    by (auto simp: free_pkb_live same_net_def)
qed

end

text \<open>
  C5: fragmentation loses nothing. A datagram larger than the MTU of the tap device, whose next hop is
  resolved, leaves the host as a sequence of ethernet frames, each within the MTU and with a valid header
  checksum. What a receiver sees of them is a gapless series of fragments, and joining that series, as
  \<open>ip_reass\<close> does in any order of arrival, gives the datagram back byte by byte (the header checksum apart,
  which every fragment has its own). The packet is released once and no fault occurs.
\<close>

theorem ip_send_frag_restores:
  fixes s :: "'a ip_state_scheme"
  assumes "pk_live (pkb s p)" "pk_rtdst (pkb s p) = Some rt" "hop_known rt (next_hop rt (data_of s p)) i s"
    and "pkb_inv s" "pool_room s" "ip_fragoff (data_of s p) = 0"
    and "20 \<le> iphlen (data_of s p)" "iphlen (data_of s p) < unat (ntohs (ip_len (data_of s p)))"
      "ETH_HRD_SZ + unat (ntohs (ip_len (data_of s p))) \<le> length (data_of s p)"
    and "int (iphlen (data_of s p)) + 8 \<le> net_mtu (dev s n)"
  shows "let d = data_of s p; hlen = iphlen d; t = ip_send_frag (veth_xmit (\<lambda>f. int (length f))) n p s
    in \<exists>fs. wire t = wire s @ map (Pair n) fs \<and> fault t = fault s \<and> pkb_inv t \<and>
      pk_refcnt (pkb t p) = pk_refcnt (pkb s p) - 1 \<and>
      (\<forall>f \<in> set fs. int (length f) \<le> int ETH_HRD_SZ + net_mtu (dev s n) \<and> ip_chksum (drop ETH_HRD_SZ f) (int hlen) = 0) \<and>
      frag_series (ip_ntoh d) hlen 0 (map ip_ntoh fs) \<and>
      drop ETH_HRD_SZ (set_ip_cksum 0 (joined hlen (map ip_ntoh fs))) =
        drop ETH_HRD_SZ (set_ip_cksum 0 (ip_ntoh (take (ETH_HRD_SZ + unat (ntohs (ip_len d))) d)))"
proof -
  define d where "d = data_of s p"
  let ?h = "iphlen d" and ?F = "eth_frame (net_hwaddr (dev s n)) (ae_hwaddr (ae s i))"
  define k where "k = unat (ntohs (ip_len d)) - ?h"
  define m where "m = nat (net_mtu (dev s n) - int ?h) div 8 * 8"
  let ?es = "split_data d ?h m 0 k"
  note a = assms [folded d_def]
  have fits: "frag_fits d ?h k 0" and k: "unat (ntohs (ip_len d)) = ?h + k" "0 < k"
    using a by (auto simp: frag_fits_def k_def)
  have le: "?h + k \<le> 65535" using unat_u16_lt [of "ntohs (ip_len d)"] k by linarith
  have m8: "8 dvd m" "0 < m" "int (?h + m) \<le> net_mtu (dev s n)" using a(10) by (auto simp: m_def)
  note body = eth_frame_body [of "net_hwaddr (dev s n)" "ae_hwaddr (ae s i)"]
  note send = vip.send_frag_wire [OF a(1,2) d_def [symmetric] fits k a(6,10,3,4,5), folded m_def]
  have ser: "frag_series (ip_ntoh d) ?h 0 (map ip_ntoh (map ?F ?es))" "\<forall>e \<in> set ?es. length (?F e) \<le> 14 + ?h + m"
    using frames_series [where frame = ?F, OF body fits _ m8(1) _ k(2)] le m8(2) by (auto simp: comp_def)
  have sum: "ip_chksum (drop 14 (?F e)) (int ?h) = 0" if "e \<in> set ?es" for e
    using split_data_members [OF fits that] body chksum_frag_data by metis
  have "int (length (?F e)) \<le> 14 + net_mtu (dev s n)" if "e \<in> set ?es" for e using ser(2) that m8(3) by fastforce
  with sum have "\<forall>f \<in> set (map ?F ?es). int (length f) \<le> int ETH_HRD_SZ + net_mtu (dev s n) \<and>
      ip_chksum (drop ETH_HRD_SZ f) (int ?h) = 0" by simp
  moreover have "drop ETH_HRD_SZ (set_ip_cksum 0 (joined ?h (map ip_ntoh (map ?F ?es)))) =
      drop ETH_HRD_SZ (set_ip_cksum 0 (ip_ntoh (take (ETH_HRD_SZ + unat (ntohs (ip_len d))) d)))"
    using joined_frames [where frame = ?F, OF body fits m8(1) k a(6)] k(1) by (simp add: comp_def add.assoc)
  ultimately show ?thesis
    using send ser(1) unfolding Let_def d_def [symmetric] by (intro exI [of _ "map ?F ?es"]) (simp add: comp_def)
qed

definition sample_datagram :: bytes where
  "sample_datagram = [2,0,0,0,0,1, 2,0,0,0,0,2, 8,0, 0x45,0, 0,39, 0,7, 0,0, 64,17, 0,0, 10,0,0,2, 10,0,0,1,
     1,2,3,4,5,6,7,8,9,10,11,12,13,14,15,16,17,18,19]"

definition sample_route :: rtentry where
  "sample_route = \<lparr>rt_net = 0x0000000a, rt_netmask = 0x00ffffff, rt_gw = 0, rt_flags = 0, rt_metric = 0, rt_dev = 0\<rparr>"

text \<open>A host whose tap device has an MTU of 28 bytes and that has resolved 10.0.0.1.\<close>

definition sample_host :: "bytes list \<Rightarrow> ip_state" where
  "sample_host ds = upd_pkb 0 (\<lambda>b. b\<lparr>pk_rtdst := Some sample_route\<rparr>) (upd_dev 0 (\<lambda>v. v\<lparr>net_mtu := 28\<rparr>)
     ((sample_ip_pool ds)\<lparr>arp_cache := (zero_arpentry\<lparr>ae_state := ARP_RESOLVED, ae_pro := ETH_P_IP,
        ae_ipaddr := 0x0100000a, ae_hwaddr := [2,0,0,0,0,1]\<rparr>) # replicate 19 zero_arpentry\<rparr>))"

lemma arp_cache_update_pool [simp]:
  "pkb_inv (s\<lparr>arp_cache := c\<rparr>) = pkb_inv s" "pool_room (s\<lparr>arp_cache := c\<rparr>) = pool_room s"
  "pkb (s\<lparr>arp_cache := c\<rparr>) p = pkb s p" "dev (s\<lparr>arp_cache := c\<rparr>) n = dev s n"
  "pkb_inv (upd_dev n f t) = pkb_inv t" "pool_room (upd_dev n f t) = pool_room t" "pool_room (upd_pkb p g t) = pool_room t"
  by (simp_all add: pkb_inv_def live_pkbs_def pool_room_def pkb_def dev_def upd_dev_def)

lemma sample_host_ok:
  assumes "length ds < 200000" "0 < length ds"
  shows "pkb_inv (sample_host ds)" "pool_room (sample_host ds)" "pk_live (pkb (sample_host ds) 0)"
    "pk_rtdst (pkb (sample_host ds) 0) = Some sample_route" "data_of (sample_host ds) 0 = ds ! 0"
    "net_mtu (dev (sample_host ds) 0) = 28" "wire (sample_host ds) = []" "fault (sample_host ds) = None"
    "hop_known sample_route 0x0100000a 0 (sample_host ds)"
proof -
  show "wire (sample_host ds) = []" "fault (sample_host ds) = None"
    by (simp_all add: sample_host_def sample_ip_pool_fields)
      (simp add: sample_ip_pool_def empty_ip_def empty_rt_def rt_state.extend_def ip_state.fields_def
        net_state.extend_def empty_net_def)
qed (use assms sample_ip_pool_pkb [where ds = ds and p = 0] in \<open>simp_all add: sample_host_def sample_ip_pool_ok pkb_inv_upd hop_known_def
   arp_lookup_def upt_rec [of 0] sample_route_def\<close>)

theorem ip_send_frag_restores_witness:
  "\<exists>fs. wire (ip_send_frag (veth_xmit (\<lambda>f. int (length f))) 0 0 (sample_host [sample_datagram])) = map (Pair 0) fs \<and>
    (\<forall>f \<in> set fs. length f \<le> 42) \<and> frag_series (ip_ntoh sample_datagram) 20 0 (map ip_ntoh fs) \<and>
    drop 14 (set_ip_cksum 0 (joined 20 (map ip_ntoh fs))) =
      [0x45,0, 39,0, 7,0, 0,0, 64,17, 0,0, 10,0,0,2, 10,0,0,1, 1,2,3,4,5,6,7,8,9,10,11,12,13,14,15,16,17,18,19]"
proof -
  let ?s = "sample_host [sample_datagram]"
  have v: "iphlen sample_datagram = 20" "ip_fragoff sample_datagram = 0" "unat (ntohs (ip_len sample_datagram)) = 39"
    "length sample_datagram = 53" "next_hop sample_route sample_datagram = 0x0100000a"
    by (simp_all add: sample_datagram_def iphlen_def ip_hlen_def next_hop_def sample_route_def eval_simps)
  have j: "drop 14 (set_ip_cksum 0 (ip_ntoh sample_datagram)) =
      [0x45,0, 39,0, 7,0, 0,0, 64,17, 0,0, 10,0,0,2, 10,0,0,1, 1,2,3,4,5,6,7,8,9,10,11,12,13,14,15,16,17,18,19]"
    by (simp add: sample_datagram_def ip_ntoh_def Let_def eval_simps)
  have "take 53 sample_datagram = sample_datagram" using v(4) by simp
  with ip_send_frag_restores [of ?s 0 sample_route 0 0] show ?thesis
    by (simp add: sample_host_ok v Let_def j) force
qed

end
