(* ===== verification/Ip_Wire.thy ===== *)
theory Ip_Wire
  imports Ip_Split
begin

text \<open>
  What the IP output functions put on the wire when the packet fits the MTU and the next hop is resolved:
  the lemmas that the protocols above IP rest on.
\<close>

lemma upd_data_const: "data_of s p = d \<Longrightarrow> upd_data p f s = upd_data p (\<lambda>_. f d) s"
  by (rule upd_pkb_cong) (cases "pkb s p", simp)

text \<open>The address a packet for \<open>dst\<close> is handed to.\<close>

definition hop_addr :: "rtentry \<Rightarrow> u32 \<Rightarrow> u32" where
  "hop_addr rt dst = (if rt_flags rt AND RT_DEFAULT \<noteq> 0 \<or> rt_metric rt > 0 then rt_gw rt else dst)"

lemma next_hop_addr: "next_hop rt d = hop_addr rt (ip_dst d)"
  by (simp add: next_hop_def hop_addr_def)

lemma hop_known_cong: "arp_cache t = arp_cache s \<Longrightarrow> hop_known rt a i t = hop_known rt a i s"
  by (simp add: hop_known_def arp_lookup_def)

text \<open>The header \<open>ip_send_info\<close> fills in, and the packet with source address and checksum.\<close>

definition info_header :: "u8 \<Rightarrow> u16 \<Rightarrow> u16 \<Rightarrow> u8 \<Rightarrow> u8 \<Rightarrow> u32 \<Rightarrow> bytes \<Rightarrow> bytes" where
  "info_header tos len ident ttl pro dst d =
     set_ip_dst dst (set_ip_pro pro (set_ip_ttl ttl (set_ip_fragoff 0 (set_ip_id (htons ident)
       (set_ip_len (htons len) (set_ip_tos tos (set_ip_hlen 5 (set_ip_ver 4 d))))))))"

definition ready_packet :: "u32 \<Rightarrow> bytes \<Rightarrow> bytes" where
  "ready_packet src d = ip_set_checksum (set_ip_src src d)"

context ip_device
begin

text \<open>
  A packet that already has its route and its source address. Its buffer may be larger than the packet: what is sent are the
  \<open>m\<close> bytes that \<^verbatim>\<open>pk_len\<close> counts.
\<close>

lemma send_out_routed_part:
  fixes s :: "'a ip_state_scheme"
  assumes p: "pk_live (pkb s p)" "pk_rtdst (pkb s p) = Some rt" "data_of s p = d" "pk_len (pkb s p) = int m" "m \<le> length d"
    and hop: "hop_known rt (next_hop rt d) i s"
    and len: "34 \<le> m" "int (unat (ntohs (ip_len d))) \<le> net_mtu (dev s (rt_dev rt))" and inv: "pkb_inv s"
  shows "let t = ip_send_out xmit p s; n = rt_dev rt
    in wire t = wire s @ [(n, take m (eth_frame (net_hwaddr (dev s n)) (ae_hwaddr (ae s i)) (ip_set_checksum d)))] \<and>
      fault t = fault s \<and> pkb_inv t \<and> pk_refcnt (pkb t p) = pk_refcnt (pkb s p) - 1 \<and> pk_len (pkb t p) = pk_len (pkb s p) \<and>
      (\<forall>q. q \<noteq> p \<longrightarrow> pkb t q = pkb s q) \<and> arp_cache t = arp_cache s \<and> same_net s t \<and> pk_next t = pk_next s"
proof -
  let ?n = "rt_dev rt" and ?e = "ip_set_checksum d"
  define u where "u = upd_pkb p (\<lambda>b. b\<lparr>pk_pro := ETH_P_IP, pk_data := ?e\<rparr>) s"
  have e: "ip_len ?e = ip_len d" "ip_dst ?e = ip_dst d" "length ?e = length d"
    by (simp_all add: ip_set_checksum_eq)
  have u: "pk_rtdst (pkb u p) = Some rt" "data_of u p = ?e" "pk_live (pkb u p)" "pk_len (pkb u p) = int m"
    "pkb_inv u" "same_net s u"
    using p inv by (simp_all add: u_def pkb_inv_upd same_net_def)
  have hop': "hop_known rt (next_hop rt (data_of u p)) i u"
    using hop hop_known_cong [of u s] by (simp add: u(2) next_hop_addr e u_def)
  have "ip_send_out xmit p s = ip_send_dev xmit ?n p u"
    using p(2,3) len(2)
    by (simp add: ip_send_out_def Let_def e u_def comp_def)
      (intro arg_cong [where f = "ip_send_dev xmit ?n p"] upd_pkb_cong, cases "pkb s p", simp)
  also have "\<dots> = netdev_tx xmit ?n p (int m - 14) ETH_P_IP (ae_hwaddr (ae s i)) u"
    using send_dev_resolved [OF u(1) hop'] u(4) by (simp add: u_def)
  finally have send: "ip_send_out xmit p s = netdev_tx xmit ?n p (int m - 14) ETH_P_IP (ae_hwaddr (ae s i)) u" .
  have "wire (ip_send_out xmit p s) = wire s @ [(?n, take m (eth_frame (net_hwaddr (dev s ?n)) (ae_hwaddr (ae s i)) ?e))]"
    unfolding send using len(1) p(5) by (subst netdev_tx_sends) (simp_all add: u(2) e(3) eth_frame_def, simp_all add: u_def)
  moreover have "same_net s (ip_send_out xmit p s)" unfolding send using same_net_tx same_net_trans [OF u(6)] by blast
  moreover have "pk_len (pkb (ip_send_out xmit p s) p) = pk_len (pkb s p)"
    unfolding send by (simp add: netdev_tx_def Let_def xmit_simps p(4))
  ultimately show ?thesis
    unfolding Let_def using netdev_tx_inv [OF u(5,3)] u(3)
    by (simp add: send netdev_tx_simps netdev_tx_pkb) (simp add: u_def)
qed

lemma send_out_routed:
  fixes s :: "'a ip_state_scheme"
  assumes p: "pk_live (pkb s p)" "pk_rtdst (pkb s p) = Some rt" "data_of s p = d" "pk_len (pkb s p) = int (length d)"
    and hop: "hop_known rt (next_hop rt d) i s"
    and len: "34 \<le> length d" "int (unat (ntohs (ip_len d))) \<le> net_mtu (dev s (rt_dev rt))" and inv: "pkb_inv s"
  shows "let t = ip_send_out xmit p s; n = rt_dev rt
    in wire t = wire s @ [(n, eth_frame (net_hwaddr (dev s n)) (ae_hwaddr (ae s i)) (ip_set_checksum d))] \<and>
      fault t = fault s \<and> pkb_inv t \<and> pk_refcnt (pkb t p) = pk_refcnt (pkb s p) - 1 \<and> pk_len (pkb t p) = pk_len (pkb s p) \<and>
      (\<forall>q. q \<noteq> p \<longrightarrow> pkb t q = pkb s q) \<and> arp_cache t = arp_cache s \<and> same_net s t \<and> pk_next t = pk_next s"
proof -
  have "take (length d) (eth_frame src dst (ip_set_checksum d)) = eth_frame src dst (ip_set_checksum d)" for src dst
    using eth_frame_body [of src dst "ip_set_checksum d"] by (simp add: ip_set_checksum_eq)
  then show ?thesis
    using send_out_routed_part [OF p(1-4) order_refl hop len inv] by simp
qed

lemma send_out_wire_part:
  fixes s :: "'a ip_state_scheme"
  assumes p: "pk_live (pkb s p)" "pk_rtdst (pkb s p) = None" "data_of s p = d" "pk_len (pkb s p) = int m" "m \<le> length d"
    and rt: "rt_lookup (ip_dst d) s = Some rt" "hop_known rt (next_hop rt d) i s"
    and len: "34 \<le> m" "int (unat (ntohs (ip_len d))) \<le> net_mtu (dev s (rt_dev rt))" and inv: "pkb_inv s"
  shows "let t = ip_send_out xmit p s; n = rt_dev rt
    in wire t = wire s @ [(n, take m (eth_frame (net_hwaddr (dev s n)) (ae_hwaddr (ae s i)) (ready_packet (net_ipaddr (dev s n)) d)))] \<and>
      fault t = fault s \<and> pkb_inv t \<and> pk_refcnt (pkb t p) = pk_refcnt (pkb s p) - 1 \<and>
      (\<forall>q. q \<noteq> p \<longrightarrow> pkb t q = pkb s q) \<and> arp_cache t = arp_cache s \<and> same_net s t \<and> pk_next t = pk_next s"
proof -
  let ?e = "set_ip_src (net_ipaddr (dev s (rt_dev rt))) d"
  define u where "u = upd_pkb p (\<lambda>b. b\<lparr>pk_rtdst := Some rt, pk_data := ?e\<rparr>) s"
  have look: "rt_lookup (ip_dst d) (upd_pkb p f s) = Some rt" for f using rt(1) by (simp add: rt_lookup_def)
  have eq: "upd_pkb p (\<lambda>b. pk_data_update (\<lambda>x. ip_set_checksum (set_ip_src a x)) (b\<lparr>pk_pro := ETH_P_IP, pk_rtdst := Some rt\<rparr>)) s =
      upd_pkb p (\<lambda>b. b\<lparr>pk_rtdst := Some rt, pk_pro := ETH_P_IP, pk_data := ip_set_checksum (set_ip_src a d)\<rparr>) s" for a
    using p(3) by (intro upd_pkb_cong) (cases "pkb s p", simp)
  have send: "ip_send_out xmit p s = ip_send_out xmit p u"
    using p(2,3) look by (simp add: ip_send_out_def rt_output_def Let_def u_def comp_def eq)
  have u: "pk_live (pkb u p)" "pk_rtdst (pkb u p) = Some rt" "data_of u p = ?e" "pk_len (pkb u p) = int m" "m \<le> length ?e"
    "hop_known rt (next_hop rt ?e) i u" "34 \<le> m" "int (unat (ntohs (ip_len ?e))) \<le> net_mtu (dev u (rt_dev rt))" "pkb_inv u"
    "same_net s u"
    using p rt(2) len inv hop_known_cong [of u s] by (simp_all add: u_def next_hop_addr pkb_inv_upd same_net_def)
  show ?thesis
    using send_out_routed_part [OF u(1-9)] same_net_trans [OF u(10)]
    unfolding Let_def send ready_packet_def by (auto simp: u_def)
qed

lemma send_out_wire:
  fixes s :: "'a ip_state_scheme"
  assumes p: "pk_live (pkb s p)" "pk_rtdst (pkb s p) = None" "data_of s p = d" "pk_len (pkb s p) = int (length d)"
    and rt: "rt_lookup (ip_dst d) s = Some rt" "hop_known rt (next_hop rt d) i s"
    and len: "34 \<le> length d" "int (unat (ntohs (ip_len d))) \<le> net_mtu (dev s (rt_dev rt))" and inv: "pkb_inv s"
  shows "let t = ip_send_out xmit p s; n = rt_dev rt
    in wire t = wire s @ [(n, eth_frame (net_hwaddr (dev s n)) (ae_hwaddr (ae s i)) (ready_packet (net_ipaddr (dev s n)) d))] \<and>
      fault t = fault s \<and> pkb_inv t \<and> pk_refcnt (pkb t p) = pk_refcnt (pkb s p) - 1 \<and>
      (\<forall>q. q \<noteq> p \<longrightarrow> pkb t q = pkb s q) \<and> arp_cache t = arp_cache s \<and> same_net s t \<and> pk_next t = pk_next s"
proof -
  have "take (length d) (eth_frame src dst (ready_packet ip d)) = eth_frame src dst (ready_packet ip d)" for src dst ip
    using eth_frame_body [of src dst "ready_packet ip d"] by (simp add: ready_packet_def ip_set_checksum_eq)
  then show ?thesis
    using send_out_wire_part [OF p(1-4) order_refl rt len inv] by simp
qed

end

lemma wr8_skip: "drop k (wr8 i v d) = drop k d" if "i < k" using that by (simp add: wr8_def)

lemma wr16_skip: "drop k (wr16 i v d) = drop k d" if "i + 1 < k" using that by (simp add: wr16_def wr8_def)

lemma wr32_skip: "drop k (wr32 i v d) = drop k d" if "i + 3 < k" using that by (simp add: wr32_def wr16_skip)

lemma info_header_fields:
  assumes "34 \<le> length d"
  shows "ip_dst (info_header tos len ident ttl pro dst d) = dst" "ip_len (info_header tos len ident ttl pro dst d) = htons len"
    "iphlen (info_header tos len ident ttl pro dst d) = 20" "ip_pro (info_header tos len ident ttl pro dst d) = pro"
    "ip_ttl (info_header tos len ident ttl pro dst d) = ttl" "ip_id (info_header tos len ident ttl pro dst d) = htons ident"
    "ip_fragoff (info_header tos len ident ttl pro dst d) = 0" "ip_ver (info_header tos len ident ttl pro dst d) = 4"
    "length (info_header tos len ident ttl pro dst d) = length d"
    "drop 34 (info_header tos len ident ttl pro dst d) = drop 34 d"
proof -
  have v: "ip_verhlen (info_header tos len ident ttl pro dst d) = 0x45"
  proof -
    have "((x AND 0x0f OR push_bit 4 4) AND 0xf0) OR (5 AND 0x0f) = (0x45 :: u8)" for x :: u8
    proof -
      have "((x AND 0x0f OR push_bit 4 4) AND 0xf0) = (x AND (0x0f AND 0xf0)) OR (push_bit 4 4 AND 0xf0)"
        by (simp only: bit.conj_disj_distrib2 and.assoc)
      then show ?thesis by simp
    qed
    with assms show ?thesis
      by (simp add: info_header_def set_ip_hlen_def set_ip_ver_def rd8_wr8 rd8_wr16)
  qed
  show "iphlen (info_header tos len ident ttl pro dst d) = 20" "ip_ver (info_header tos len ident ttl pro dst d) = 4"
    by (simp_all add: iphlen_def ip_hlen_def ip_ver_def v)
qed (use assms in \<open>simp_all add: info_header_def set_ip_hlen_def set_ip_ver_def rd8_wr8 rd8_wr16 wr8_skip wr16_skip wr32_skip\<close>)

lemma ready_packet_fields:
  assumes "34 \<le> length d" "20 \<le> iphlen d"
  shows "ip_src (ready_packet src d) = src" "ip_dst (ready_packet src d) = ip_dst d" "ip_len (ready_packet src d) = ip_len d"
    "ip_pro (ready_packet src d) = ip_pro d" "ip_ttl (ready_packet src d) = ip_ttl d" "ip_id (ready_packet src d) = ip_id d"
    "ip_fragoff (ready_packet src d) = ip_fragoff d" "iphlen (ready_packet src d) = iphlen d"
    "length (ready_packet src d) = length d" "drop 34 (ready_packet src d) = drop 34 d"
    "ip_chksum (drop 14 (ready_packet src d)) (int (iphlen d)) = 0"
proof -
  have h: "iphlen (set_ip_src src d) = iphlen d" by (simp add: iphlen_def ip_hlen_def)
  show "ip_chksum (drop 14 (ready_packet src d)) (int (iphlen d)) = 0"
    using ip_set_checksum_zero [of "set_ip_src src d"] assms by (simp add: ready_packet_def h)
  show "iphlen (ready_packet src d) = iphlen d" by (simp add: ready_packet_def ip_set_checksum_eq iphlen_wr16 h)
qed (use assms in \<open>simp_all add: ready_packet_def ip_set_checksum_eq wr16_skip wr32_skip rd8_wr16\<close>)

context ip_device
begin

lemma send_info_wire:
  fixes s :: "'a ip_state_scheme"
  assumes p: "pk_live (pkb s p)" "pk_rtdst (pkb s p) = None" "data_of s p = d" "pk_len (pkb s p) = int (length d)"
    and rt: "rt_lookup dst s = Some rt" "hop_known rt (hop_addr rt dst) i s"
    and len: "34 \<le> length d" "int (unat len) \<le> net_mtu (dev s (rt_dev rt))" and inv: "pkb_inv s"
  shows "let t = ip_send_info xmit p tos len ttl pro dst s; n = rt_dev rt
    in wire t = wire s @ [(n, eth_frame (net_hwaddr (dev s n)) (ae_hwaddr (ae s i))
        (ready_packet (net_ipaddr (dev s n)) (info_header tos len (ipid s) ttl pro dst d)))] \<and>
      fault t = fault s \<and> pkb_inv t \<and> pk_refcnt (pkb t p) = pk_refcnt (pkb s p) - 1 \<and>
      (\<forall>q. q \<noteq> p \<longrightarrow> pkb t q = pkb s q) \<and> arp_cache t = arp_cache s \<and> ipid t = ipid s + 1 \<and> pk_next t = pk_next s"
proof -
  let ?e = "info_header tos len (ipid s) ttl pro dst d"
  note h = info_header_fields [OF len(1), of tos len "ipid s" ttl pro dst]
  define u where "u = (upd_data p (\<lambda>_. ?e) s)\<lparr>ipid := ipid s + 1\<rparr>"
  have upd: "pkb (r\<lparr>ipid := k\<rparr>) q = pkb r q" "dev (r\<lparr>ipid := k\<rparr>) m = dev r m" for r :: "'a ip_state_scheme" and k q m
    by (simp_all add: pkb_def dev_def)
  have "pkb_inv u = pkb_inv (upd_data p (\<lambda>_. ?e) s)" by (rule pkb_inv_cong) (simp_all add: u_def upd)
  then have u: "pk_live (pkb u p)" "pk_rtdst (pkb u p) = None" "data_of u p = ?e" "pk_len (pkb u p) = int (length ?e)"
    "pkb_inv u" using p inv by (simp_all add: u_def upd h pkb_inv_upd)
  have rt': "rt_lookup (ip_dst ?e) u = Some rt" "hop_known rt (next_hop rt ?e) i u"
    using rt hop_known_cong [of u s] by (simp_all add: h u_def rt_lookup_def next_hop_addr)
  have "ip_send_info xmit p tos len ttl pro dst s = ip_send_out xmit p u"
    unfolding ip_send_info_def Let_def u_def info_header_def ip_fields_simps(3) by (subst upd_data_const [OF p(3)]) (rule refl)
  then show ?thesis
    using send_out_wire [OF u(1-4) rt' _ _ u(5)] len h
    unfolding Let_def by (auto simp: u_def upd same_net_def dest: more_fields)
qed

end

lemma hwaddr_at_self: "length hw = 6 \<Longrightarrow> hwaddr_at 0 hw = hw"
  by (rule nth_equalityI) (simp_all add: hwaddr_at_def rd8_def)

lemma eth_dst_frame: "14 \<le> length e \<Longrightarrow> length dst = 6 \<Longrightarrow> eth_dst (eth_frame src dst e) = dst"
proof -
  assume "14 \<le> length e" "length dst = 6"
  then have "eth_dst (eth_frame src dst e) = hwaddr_at 0 dst"
    by (simp add: eth_frame_def hwaddr_at_def rd8_eth_frame)
  with \<open>length dst = 6\<close> show ?thesis by (simp add: hwaddr_at_self)
qed

section \<open>The first bytes of a buffer\<close>

text \<open>What is read from the first \<open>m\<close> bytes of a buffer is read from the buffer.\<close>

lemma nsum_cong:
  assumes "\<And>i. i < n \<Longrightarrow> rd8 d i = rd8 e i"
  shows "nsum d n = nsum e n"
proof -
  have "rd16 d (2 * i) = rd16 e (2 * i)" if "i < n div 2" for i
    using that assms [of "2 * i"] assms [of "2 * i + 1"] by (simp add: rd16_def)
  then show ?thesis using assms [of "n - 1"] by (auto simp: nsum_def elim: oddE)
qed

lemma checksum_cong:
  assumes "\<And>i. i < n \<Longrightarrow> rd8 d i = rd8 e i"
  shows "checksum d (int n) c = checksum e (int n) c"
proof -
  have "sum16 d (int n) c = sum16 e (int n) c"
    using sum16_nat [of "int n" d c] sum16_nat [of "int n" e c] nsum_cong [OF assms]
    by (simp add: word_unat_eq_iff)
  then show ?thesis by (simp add: checksum_def)
qed

lemma take_views:
  assumes "take m d = f" "m \<le> length d"
  shows "i < m \<Longrightarrow> rd8 d i = rd8 f i" "i + 1 < m \<Longrightarrow> rd16 d i = rd16 f i" "i + 3 < m \<Longrightarrow> rd32 d i = rd32 f i"
proof -
  show r: "rd8 d i = rd8 f i" if "i < m" for i using that assms by (auto simp: rd8_def)
  show "i + 1 < m \<Longrightarrow> rd16 d i = rd16 f i" "i + 3 < m \<Longrightarrow> rd32 d i = rd32 f i"
    by (simp_all add: rd16_def rd32_def r)
qed

lemma take_ip_views:
  assumes "take m d = f" "m \<le> length d" "34 \<le> m"
  shows "iphlen d = iphlen f" "ip_ver d = ip_ver f" "ip_len d = ip_len f" "ip_fragoff d = ip_fragoff f" "ip_pro d = ip_pro f"
    "ip_src d = ip_src f" "ip_dst d = ip_dst f" "eth_dst d = eth_dst f" "eth_pro d = eth_pro f"
  using take_views [OF assms(1,2)] assms(3) by (simp_all add: iphlen_def ip_hlen_def ip_ver_def hwaddr_at_def)

lemma chksum_take:
  assumes "take m d = f" "m \<le> length d" "off + n \<le> m"
  shows "checksum (drop off d) (int n) c = checksum (drop off f) (int n) c"
  using assms take_views(1) [OF assms(1,2)] by (intro checksum_cong) (simp add: rd8_drop)

end
