(* ===== verification/Icmp.thy ===== *)
theory Icmp
  imports Ip_Wire
begin

text \<open>
  ICMP, \<^verbatim>\<open>src/ip/icmp.c\<close>: the handler table, the answers to echo requests and the error messages. The
  functions that hand a received packet to ICMP or make it send errors follow: \<^verbatim>\<open>rt_input\<close> of
  \<^verbatim>\<open>src/ip/route.c\<close>, \<^verbatim>\<open>ip_forward\<close> of \<^verbatim>\<open>src/ip/ip_forward.c\<close> and \<^verbatim>\<open>ip_timer\<close> of \<^verbatim>\<open>src/ip/ip_frag.c\<close>. Messages that
  only go to the debug log are left out.
\<close>

section \<open>The table\<close>

abbreviation (input) ICMP_T_ECHORLY :: u8 where "ICMP_T_ECHORLY \<equiv> 0"
abbreviation (input) ICMP_T_DESTUNREACH :: u8 where "ICMP_T_DESTUNREACH \<equiv> 3"
abbreviation (input) ICMP_T_REDIRECT :: u8 where "ICMP_T_REDIRECT \<equiv> 5"
abbreviation (input) ICMP_T_ECHOREQ :: u8 where "ICMP_T_ECHOREQ \<equiv> 8"
abbreviation (input) ICMP_T_TIMEEXCEED :: u8 where "ICMP_T_TIMEEXCEED \<equiv> 11"
abbreviation (input) ICMP_T_MAXNUM :: u8 where "ICMP_T_MAXNUM \<equiv> 18"
abbreviation (input) ICMP_NET_UNREACH :: u8 where "ICMP_NET_UNREACH \<equiv> 0"
abbreviation (input) ICMP_PORT_UNREACH :: u8 where "ICMP_PORT_UNREACH \<equiv> 3"
abbreviation (input) ICMP_FRAG_NEEDED :: u8 where "ICMP_FRAG_NEEDED \<equiv> 4"
abbreviation (input) ICMP_REDIRECT_HOST :: u8 where "ICMP_REDIRECT_HOST \<equiv> 1"
abbreviation (input) ICMP_EXC_TTL :: u8 where "ICMP_EXC_TTL \<equiv> 0"
abbreviation (input) ICMP_EXC_FRAGTIME :: u8 where "ICMP_EXC_FRAGTIME \<equiv> 1"

datatype icmp_handler = Echo_Reply | Dest_Unreach | Redirect | Echo_Request | Drop_Reply

record icmp_desc =
  desc_error :: bool
  desc_handler :: icmp_handler

definition icmp_table :: "icmp_desc list" where
  "icmp_table =
     [\<lparr>desc_error = False, desc_handler = Echo_Reply\<rparr>,
      \<lparr>desc_error = True, desc_handler = Drop_Reply\<rparr>,
      \<lparr>desc_error = True, desc_handler = Drop_Reply\<rparr>,
      \<lparr>desc_error = True, desc_handler = Dest_Unreach\<rparr>,
      \<lparr>desc_error = True, desc_handler = Drop_Reply\<rparr>,
      \<lparr>desc_error = True, desc_handler = Redirect\<rparr>,
      \<lparr>desc_error = True, desc_handler = Drop_Reply\<rparr>,
      \<lparr>desc_error = True, desc_handler = Drop_Reply\<rparr>,
      \<lparr>desc_error = False, desc_handler = Echo_Request\<rparr>,
      \<lparr>desc_error = True, desc_handler = Drop_Reply\<rparr>,
      \<lparr>desc_error = True, desc_handler = Drop_Reply\<rparr>,
      \<lparr>desc_error = True, desc_handler = Drop_Reply\<rparr>,
      \<lparr>desc_error = True, desc_handler = Drop_Reply\<rparr>,
      \<lparr>desc_error = False, desc_handler = Drop_Reply\<rparr>,
      \<lparr>desc_error = False, desc_handler = Drop_Reply\<rparr>,
      \<lparr>desc_error = False, desc_handler = Drop_Reply\<rparr>,
      \<lparr>desc_error = False, desc_handler = Drop_Reply\<rparr>,
      \<lparr>desc_error = False, desc_handler = Drop_Reply\<rparr>,
      \<lparr>desc_error = False, desc_handler = Drop_Reply\<rparr>]"

definition icmp_type_error :: "u8 \<Rightarrow> bool" where
  "icmp_type_error ty = desc_error (icmp_table ! unat ty)"

section \<open>Handlers\<close>

definition icmp_dest_unreach :: "nat \<Rightarrow> 'a ip_state_scheme \<Rightarrow> 'a ip_state_scheme" where
  "icmp_dest_unreach p s = free_pkb p s"

definition icmp_redirect :: "nat \<Rightarrow> 'a ip_state_scheme \<Rightarrow> 'a ip_state_scheme" where
  "icmp_redirect p s = free_pkb p s"

definition icmp_echo_reply :: "nat \<Rightarrow> 'a ip_state_scheme \<Rightarrow> 'a ip_state_scheme" where
  "icmp_echo_reply p s = free_pkb p s"

definition icmp_drop_reply :: "nat \<Rightarrow> 'a ip_state_scheme \<Rightarrow> 'a ip_state_scheme" where
  "icmp_drop_reply p s = free_pkb p s"

text \<open>The change of the checksum for a type that goes from 8 to 0.\<close>

definition echo_cksum :: "u16 \<Rightarrow> u16" where
  "echo_cksum c = (if c \<ge> 0xffff - ucast ICMP_T_ECHOREQ then c + (ucast ICMP_T_ECHOREQ + 1) else c + ucast ICMP_T_ECHOREQ)"

definition echo_to_reply :: "nat \<Rightarrow> bytes \<Rightarrow> bytes" where
  "echo_to_reply off d =
     (let d = wr8 off ICMP_T_ECHORLY d
      in wr16 (off + 2) (echo_cksum (icmp_cksum off d)) d)"

definition icmp_echo_request ::
  "'a ip_state_scheme xmit_fun \<Rightarrow> nat \<Rightarrow> 'a ip_state_scheme \<Rightarrow> 'a ip_state_scheme" where
  "icmp_echo_request xmit p s =
     (let d = data_of s p; off = ipdata d
      in if icmp_code off d \<noteq> 0 then free_pkb p s
         else
           let s = upd_data p (echo_to_reply off) s;
               s = upd_data p (\<lambda>d. set_ip_dst (ip_src d) d) s;
               s = upd_data p ip_ntoh s;
               s = upd_pkb p (\<lambda>b. b\<lparr>pk_rtdst := None, pk_indev := None, pk_type := PKT_NONE\<rparr>) s
           in ip_send_out xmit p s)"

definition icmp_handle ::
  "'a ip_state_scheme xmit_fun \<Rightarrow> icmp_handler \<Rightarrow> nat \<Rightarrow> 'a ip_state_scheme \<Rightarrow> 'a ip_state_scheme" where
  "icmp_handle xmit h p =
     (case h of
        Echo_Reply \<Rightarrow> icmp_echo_reply p
      | Dest_Unreach \<Rightarrow> icmp_dest_unreach p
      | Redirect \<Rightarrow> icmp_redirect p
      | Echo_Request \<Rightarrow> icmp_echo_request xmit p
      | Drop_Reply \<Rightarrow> icmp_drop_reply p)"

definition icmp_in ::
  "'a ip_state_scheme xmit_fun \<Rightarrow> nat \<Rightarrow> 'a ip_state_scheme \<Rightarrow> 'a ip_state_scheme" where
  "icmp_in xmit p s =
     (let d = data_of s p; off = ipdata d; icmplen = ipdlen d
      in if icmplen < int ICMP_HRD_SZ then free_pkb p s
         else if icmp_chksum (drop off d) icmplen \<noteq> 0 then free_pkb p s
         else if icmp_type off d > ICMP_T_MAXNUM then free_pkb p s
         else icmp_handle xmit (desc_handler (icmp_table ! unat (icmp_type off d))) p s)"

section \<open>Errors\<close>

definition icmp_suppressed :: "u8 \<Rightarrow> nat \<Rightarrow> 'a ip_state_scheme \<Rightarrow> bool" where
  "icmp_suppressed ty p s \<longleftrightarrow>
     (let d = data_of s p in
      int (unat (ntohs (ip_len d))) < int (iphlen d) + 8 \<or>
      pk_type (pkb s p) \<noteq> PKT_LOCALHOST \<or>
      MULTICAST (ip_dst d) \<or> BROADCAST (ip_dst d) \<or>
      ip_fragoff d AND htons IP_FRAG_OFF \<noteq> 0 \<or>
      icmp_type_error ty \<and> ip_pro d = IP_P_ICMP \<and>
        (icmp_type (ipdata d) d > ICMP_T_MAXNUM \<or> icmp_type_error (icmp_type (ipdata d) d)))"

definition icmp_send ::
  "'a ip_state_scheme xmit_fun \<Rightarrow> u8 \<Rightarrow> u8 \<Rightarrow> u32 \<Rightarrow> nat \<Rightarrow> 'a ip_state_scheme \<Rightarrow> 'a ip_state_scheme" where
  "icmp_send xmit ty code data p s =
     (if icmp_suppressed ty p s then s
      else
        let d = data_of s p;
            paylen = unat (ntohs (ip_len d));
            paylen = (if IP_HRD_SZ + ICMP_HRD_SZ + paylen > 576 then 576 - IP_HRD_SZ - ICMP_HRD_SZ else paylen);
            (q, s) = alloc_pkb (int (ETH_HRD_SZ + IP_HRD_SZ + ICMP_HRD_SZ + paylen)) s;
            s = (if length d < ETH_HRD_SZ + paylen then set_fault Out_Of_Bounds s else s);
            s = upd_data q (\<lambda>b.
                  let b = wr8 34 ty b;
                      b = wr8 35 code b;
                      b = wr16 36 0 b;
                      b = wr32 38 data b;
                      b = memcpy b 42 (drop ETH_HRD_SZ d) paylen
                  in wr16 36 (icmp_chksum (drop 34 b) (int (ICMP_HRD_SZ + paylen))) b) s
        in ip_send_info xmit q 0 (of_nat (IP_HRD_SZ + ICMP_HRD_SZ + paylen)) 0 IP_P_ICMP (ip_src d) s)"

section \<open>Users of the error messages\<close>

text \<open>\<open>rt_input\<close> takes the packet in host order.\<close>

definition rt_input ::
  "'a ip_state_scheme xmit_fun \<Rightarrow> nat \<Rightarrow> 'a ip_state_scheme \<Rightarrow> int \<times> 'a ip_state_scheme" where
  "rt_input xmit p s =
     (case rt_lookup (ip_dst (data_of s p)) s of
        None \<Rightarrow>
          let s = upd_data p ip_ntoh s;
              s = icmp_send xmit ICMP_T_DESTUNREACH ICMP_NET_UNREACH 0 p s
          in (- 1, free_pkb p s)
      | Some rt \<Rightarrow> (0, upd_pkb p (\<lambda>b. b\<lparr>pk_rtdst := Some rt\<rparr>) s))"

definition ip_forward ::
  "'a ip_state_scheme xmit_fun \<Rightarrow> nat \<Rightarrow> 'a ip_state_scheme \<Rightarrow> 'a ip_state_scheme" where
  "ip_forward xmit p s =
     (case pk_rtdst (pkb s p) of
        None \<Rightarrow> set_fault Null_Deref s
      | Some rt \<Rightarrow>
          if ip_ttl (data_of s p) \<le> 1
          then free_pkb p (icmp_send xmit ICMP_T_TIMEEXCEED ICMP_EXC_TTL 0 p s)
          else
            let s = upd_data p (\<lambda>d. set_ip_ttl (ip_ttl d - 1) d) s;
                s = upd_data p ip_set_checksum s;
                d = data_of s p;
                dst = next_hop rt d;
                s = (if pk_indev (pkb s p) = Some (rt_dev rt)
                     then case rt_lookup (ip_src d) s of
                            None \<Rightarrow> s
                          | Some srt \<Rightarrow>
                              if rt_metric srt = 0 \<and> equsubnet (rt_netmask srt) (ip_src d) dst
                              then icmp_send xmit ICMP_T_REDIRECT ICMP_REDIRECT_HOST dst p s else s
                     else s);
                d = data_of s p
            in if int (unat (ntohs (ip_len d))) > net_mtu (dev s (rt_dev rt))
               then if ip_fragoff d AND htons IP_FRAG_DF \<noteq> 0
                    then free_pkb p (icmp_send xmit ICMP_T_DESTUNREACH ICMP_FRAG_NEEDED 0 p s)
                    else ip_send_frag xmit (rt_dev rt) p s
               else ip_send_dev xmit (rt_dev rt) p s)"

text \<open>
  The timer of the datagrams under reassembly. The walk takes the records from the front; a record
  that is deleted makes the next one move to its index.
\<close>

fun ip_timer_loop ::
  "nat \<Rightarrow> 'a ip_state_scheme xmit_fun \<Rightarrow> int \<Rightarrow> nat \<Rightarrow> 'a ip_state_scheme \<Rightarrow> 'a ip_state_scheme" where
  "ip_timer_loop 0 xmit delta i s = s"
| "ip_timer_loop (Suc k) xmit delta i s =
     (if full_frag (frag_at s i) then ip_timer_loop k xmit delta (i + 1) s
      else
        let s = upd_frag i (\<lambda>f. f\<lparr>frag_ttl := frag_ttl f - delta\<rparr>) s
        in if frag_ttl (frag_at s i) \<le> 0
           then
             let s = (case frag_pkb (frag_at s i) of
                        [] \<Rightarrow> set_fault Out_Of_Bounds s
                      | p # ps \<Rightarrow>
                          let s = upd_data p ip_ntoh s
                          in icmp_send xmit ICMP_T_TIMEEXCEED ICMP_EXC_FRAGTIME 0 p s);
                 s = delete_frag i s
             in ip_timer_loop k xmit delta i s
           else ip_timer_loop k xmit delta (i + 1) s)"

definition ip_timer ::
  "'a ip_state_scheme xmit_fun \<Rightarrow> int \<Rightarrow> 'a ip_state_scheme \<Rightarrow> 'a ip_state_scheme" where
  "ip_timer xmit delta s = ip_timer_loop (length (frag_head s)) xmit delta 0 s"

section \<open>Echo replies\<close>

lemma echo_cksum_nat:
  "unat (echo_cksum c) = (if c \<ge> 0xfff7 then unat c + 9 - 65536 else unat c + 8)"
proof -
  have "c \<ge> 0xfff7 \<longleftrightarrow> 65527 \<le> unat c" by (simp add: word_le_nat_alt)
  moreover have "(unat c + 9) mod 65536 = unat c + 9 - 65536" if "65527 \<le> unat c"
  proof -
    have "unat c + 9 - 65536 < 65536" using unat_u16_lt [of c] by linarith
    with that show ?thesis by (simp add: le_mod_geq del: diff_less)
  qed
  ultimately show ?thesis
    by (auto simp: echo_cksum_def unat_word_ariths)
qed

lemma echo_reply_checksum:
  assumes e: "rd8 e 0 = 8" "rd8 e 1 = 0" "4 \<le> length e" "4 \<le> n" "n \<le> 65535"
    and ok: "checksum e (int n) 0 = 0" and c: "rd16 e 2 \<noteq> 0xfff7"
  shows "checksum (wr16 2 (echo_cksum (rd16 e 2)) (wr8 0 0 e)) (int n) 0 = 0"
proof -
  let ?c = "rd16 e 2"
  have first: "wr8 0 0 e = wr16 0 0 e"
    using e(2,3) by (simp add: wr16_def wr8_def rd8_def lo8_def hi8_def) (metis list_update_id list_update_swap n_not_Suc_n)
  have r0: "unat (rd16 e 0) = 8" using e(1,2) by (simp add: rd16_def mk16_def)
  have 1: "nsum (wr16 0 0 e) n + 8 = nsum e n"
    using nsum_replace [of 0 n e 0] e(3,4) r0 by simp
  have 2: "nsum (wr16 2 (echo_cksum ?c) (wr16 0 0 e)) n + unat ?c = nsum (wr16 0 0 e) n + unat (echo_cksum ?c)"
    using nsum_replace [of 2 n "wr16 0 0 e" "echo_cksum ?c"] e(3,4) by simp
  have ge: "unat ?c + 8 \<le> nsum e n"
    using nsum_replace [of 2 n "wr16 0 0 e" 0] e(3,4) 1 by simp
  have S: "nsum e n \<noteq> 0" "65535 dvd nsum e n" using ok checksum_zero [OF e(5), of e] by auto
  let ?S = "nsum (wr16 2 (echo_cksum ?c) (wr16 0 0 e)) n"
  have "?S \<noteq> 0 \<and> 65535 dvd ?S"
  proof (cases "?c \<ge> 0xfff7")
    case True
    then have "0xfff7 \<le> unat ?c" by (simp add: word_le_nat_alt)
    moreover have "unat ?c \<noteq> 0xfff7" using c by (metis unat_bintrunc of_nat_numeral of_nat_unat ucast_id)
    ultimately have "65535 < nsum e n" "?S + 65535 = nsum e n" using ge 1 2 echo_cksum_nat [of ?c] True by auto
    with S(2) show ?thesis by (metis dvd_add_left_iff dvd_refl nat_neq_iff add_0)
  next
    case False
    then have "?S = nsum e n" using 1 2 echo_cksum_nat [of ?c] by simp
    with S show ?thesis by simp
  qed
  then show ?thesis unfolding first checksum_zero [OF e(5)] .
qed
text \<open>The packet \<open>icmp_echo_request\<close> gives to \<open>ip_send_out\<close>.\<close>

definition echo_packet :: "bytes \<Rightarrow> bytes" where
  "echo_packet d = (let d = echo_to_reply (ipdata d) d in ip_ntoh (set_ip_dst (ip_src d) d))"

lemma echo_packet_fields:
  assumes "34 \<le> length d" "20 \<le> iphlen d"
  shows "ip_dst (echo_packet d) = ip_src d" "ip_len (echo_packet d) = ntohs (ip_len d)" "iphlen (echo_packet d) = iphlen d"
    "length (echo_packet d) = length d" "ip_pro (echo_packet d) = ip_pro d"
    "drop (ipdata d) (echo_packet d) =
       wr16 2 (echo_cksum (icmp_cksum (ipdata d) d)) (wr8 0 0 (drop (ipdata d) d))"
proof -
  let ?o = "ipdata d"
  let ?e = "echo_to_reply ?o d"
  have o: "34 \<le> ?o" using assms(2) by (simp add: ipdata_def)
  have e: "ip_src ?e = ip_src d" "ip_len ?e = ip_len d" "iphlen ?e = iphlen d" "length ?e = length d" "ip_pro ?e = ip_pro d"
    using o by (auto simp: echo_to_reply_def Let_def rd8_wr16 rd8_wr8 iphlen_def ip_hlen_def)
  have len: "22 \<le> length (set_ip_dst (ip_src ?e) ?e)" using assms(1) e(4) by simp
  note n = ip_ntoh_fields [OF len]
  have h: "iphlen (set_ip_dst v b) = iphlen b" for v b by (simp add: iphlen_def ip_hlen_def)
  have pkt: "echo_packet d = ip_ntoh (set_ip_dst (ip_src ?e) ?e)" by (simp add: echo_packet_def Let_def)
  show "ip_dst (echo_packet d) = ip_src d" "ip_len (echo_packet d) = ntohs (ip_len d)" "iphlen (echo_packet d) = iphlen d"
    "length (echo_packet d) = length d" "ip_pro (echo_packet d) = ip_pro d"
    unfolding pkt using n assms(1) e by (simp_all add: h)
  have "drop ?o (echo_packet d) = drop ?o ?e" unfolding pkt using o by (simp add: n(8) wr32_skip)
  also have "\<dots> = wr16 2 (echo_cksum (icmp_cksum ?o d)) (wr8 0 0 (drop ?o d))"
    using drop_wr16 [of ?o 2] drop_wr8 [of ?o 0] by (simp add: echo_to_reply_def Let_def)
  finally show "drop ?o (echo_packet d) = wr16 2 (echo_cksum (icmp_cksum ?o d)) (wr8 0 0 (drop ?o d))" .
qed

lemma icmp_in_echo:
  assumes "icmp_type (ipdata d) d = ICMP_T_ECHOREQ" "icmp_code (ipdata d) d = 0" "data_of s p = d"
    "int ICMP_HRD_SZ \<le> ipdlen d" "icmp_chksum (drop (ipdata d) d) (ipdlen d) = 0"
  shows "icmp_in xmit p s = ip_send_out xmit p (upd_pkb p (\<lambda>b. b\<lparr>pk_data := echo_packet d, pk_rtdst := None,
    pk_indev := None, pk_type := PKT_NONE\<rparr>) s)"
proof -
  have "icmp_in xmit p s = icmp_echo_request xmit p s"
    using assms by (simp add: icmp_in_def Let_def icmp_table_def icmp_handle_def)
  also have "\<dots> = ip_send_out xmit p (upd_pkb p (\<lambda>b. b\<lparr>pk_data := echo_packet d, pk_rtdst := None,
    pk_indev := None, pk_type := PKT_NONE\<rparr>) s)"
    using assms(2,3) unfolding icmp_echo_request_def Let_def
    by (simp, intro arg_cong [where f = "ip_send_out xmit p"] upd_pkb_cong)
      (cases "pkb s p", simp add: echo_packet_def Let_def)
  finally show ?thesis .
qed

text \<open>The frame of the reply to the request \<open>d\<close>: the packet's bytes, without what the buffer holds behind them.\<close>

definition echo_frame :: "'a ip_state_scheme \<Rightarrow> nat \<Rightarrow> nat \<Rightarrow> bytes \<Rightarrow> bytes" where
  "echo_frame s n i d =
     take (ETH_HRD_SZ + unat (ip_len d))
       (eth_frame (net_hwaddr (dev s n)) (ae_hwaddr (ae s i)) (ready_packet (net_ipaddr (dev s n)) (echo_packet d)))"

lemma icmp_echo_sent:
  fixes s :: "'a ip_state_scheme"
  assumes "data_of s p = d" "pk_len (pkb s p) = int (ETH_HRD_SZ + unat (ip_len d))" "pk_live (pkb s p)" "pkb_inv s"
    and "20 \<le> iphlen d" "ETH_HRD_SZ + unat (ip_len d) \<le> length d" "iphlen d + ICMP_HRD_SZ \<le> unat (ip_len d)"
    and "icmp_type (ipdata d) d = ICMP_T_ECHOREQ" "icmp_code (ipdata d) d = 0" "icmp_chksum (drop (ipdata d) d) (ipdlen d) = 0"
    and "rt_lookup (ip_src d) s = Some rt" "hop_known rt (hop_addr rt (ip_src d)) i s"
      "int (unat (ip_len d)) \<le> net_mtu (dev s (rt_dev rt))"
  shows "let t = icmp_in (veth_xmit (\<lambda>f. int (length f))) p s in
    wire t = wire s @ [(rt_dev rt, echo_frame s (rt_dev rt) i d)] \<and>
    fault t = fault s \<and> pkb_inv t \<and> pk_refcnt (pkb t p) = pk_refcnt (pkb s p) - 1"
proof -
  let ?x = "veth_xmit (\<lambda>f. int (length f))"
  define e where "e = echo_packet d"
  define s1 where "s1 = upd_pkb p (\<lambda>b. b\<lparr>pk_data := e, pk_rtdst := None, pk_indev := None, pk_type := PKT_NONE\<rparr>) s"
  have len: "34 \<le> length d" "34 \<le> ETH_HRD_SZ + unat (ip_len d)" using assms(5-7) by linarith+
  note e = echo_packet_fields [OF len(1) assms(5), folded e_def]
  have dlen: "ipdlen d = int (unat (ip_len d) - iphlen d)" using assms(7) by (simp add: ipdlen_def of_nat_diff)
  have dl8: "int ICMP_HRD_SZ \<le> ipdlen d" unfolding dlen of_nat_le_iff using assms(7) by linarith
  have "icmp_in ?x p s = ip_send_out ?x p s1"
    unfolding s1_def e_def by (intro icmp_in_echo assms(8,9,1,10) dl8)
  then show ?thesis
    using vip.send_out_wire_part [where s = s1 and p = p and d = e and m = "ETH_HRD_SZ + unat (ip_len d)" and rt = rt and i = i]
      assms e len hop_known_cong [of s1 s]
    by (simp add: s1_def pkb_inv_upd rt_lookup_def next_hop_addr Let_def echo_frame_def e_def)
qed

lemma echo_frame_fields:
  assumes "20 \<le> iphlen d" "ETH_HRD_SZ + unat (ip_len d) \<le> length d" "iphlen d + ICMP_HRD_SZ \<le> unat (ip_len d)"
    and "length (ae_hwaddr (ae s i)) = 6"
    and f: "f = echo_frame s n i d"
  shows "eth_dst f = ae_hwaddr (ae s i)" "ip_src f = net_ipaddr (dev s n)" "ip_dst f = ip_src d" "ip_pro f = ip_pro d"
    "length f = ETH_HRD_SZ + unat (ip_len d)" "ip_chksum (drop ETH_HRD_SZ f) (int (iphlen f)) = 0" "ipdata f = ipdata d"
    "drop (ipdata d) f = take (unat (ip_len d) - iphlen d)
       (wr16 2 (echo_cksum (icmp_cksum (ipdata d) d)) (wr8 0 0 (drop (ipdata d) d)))"
proof -
  let ?m = "ETH_HRD_SZ + unat (ip_len d)" and ?o = "ipdata d"
  define e where "e = echo_packet d"
  define g where "g = ready_packet (net_ipaddr (dev s n)) e"
  define F where "F = eth_frame (net_hwaddr (dev s n)) (ae_hwaddr (ae s i)) g"
  have len: "34 \<le> length d" "34 \<le> ?o" "34 \<le> ?m" using assms(1-3) by (simp_all add: ipdata_def)
  note e = echo_packet_fields [OF len(1) assms(1), folded e_def]
  have e': "34 \<le> length e" "20 \<le> iphlen e" using e(3,4) len assms(1) by simp_all
  note g = ready_packet_fields [OF e', of "net_ipaddr (dev s n)", folded g_def]
  have body: "drop 14 F = drop 14 g" "length F = length d" using eth_frame_body g(9) e(4) by (simp_all add: F_def)
  note v = ip_views_cong [OF body(1)]
  have fF: "take ?m F = f" by (simp add: f F_def g_def e_def echo_frame_def)
  have mF: "?m \<le> length F" using assms(2) body(2) by simp
  note t = take_ip_views [OF fF mF len(3)]
  show "eth_dst f = ae_hwaddr (ae s i)"
    using assms(4) g(9) e(4) len(1) by (simp add: t(8) [symmetric] F_def eth_dst_frame)
  show "ip_src f = net_ipaddr (dev s n)" "ip_dst f = ip_src d" "ip_pro f = ip_pro d"
    using t(5-7) v(1) [of 23] v(3) [of 26] v(3) [of 30] g e by simp_all
  show "length f = ?m" using mF by (simp flip: fF)
  have h: "iphlen f = iphlen d" using t(1) v(4) g(8) e(3) by simp
  then show "ipdata f = ?o" by (simp add: ipdata_def)
  have "ip_chksum (drop 14 f) (int (iphlen d)) = ip_chksum (drop 14 F) (int (iphlen d))"
    using chksum_take [OF fF mF, of 14 "iphlen d"] assms(3) by (simp add: ip_chksum_def)
  then show "ip_chksum (drop ETH_HRD_SZ f) (int (iphlen f)) = 0"
    using g(11) e(3) by (simp add: h body(1))
  have "drop ?o F = drop (?o - 14) (drop 14 F)" using len(2) by simp
  also have "\<dots> = drop (?o - 34) (drop 34 g)" using len(2) body(1) by simp
  also have "\<dots> = drop ?o e" using len(2) g(10) by simp
  finally have "drop ?o F = drop ?o e" .
  moreover have "?m - ?o = unat (ip_len d) - iphlen d" by (simp add: ipdata_def)
  ultimately show "drop ?o f = take (unat (ip_len d) - iphlen d) (wr16 2 (echo_cksum (icmp_cksum ?o d)) (wr8 0 0 (drop ?o d)))"
    using e(6) by (simp add: drop_take flip: fF)
qed

lemma echo_frame_icmp:
  assumes "20 \<le> iphlen d" "ETH_HRD_SZ + unat (ip_len d) \<le> length d" "iphlen d + ICMP_HRD_SZ \<le> unat (ip_len d)"
    and "icmp_type (ipdata d) d = ICMP_T_ECHOREQ" "icmp_code (ipdata d) d = 0"
      "icmp_chksum (drop (ipdata d) d) (ipdlen d) = 0" "icmp_cksum (ipdata d) d \<noteq> 0xfff7" "length (ae_hwaddr (ae s i)) = 6"
    and f: "f = echo_frame s n i d"
  shows "icmp_type (ipdata d) f = ICMP_T_ECHORLY" "icmp_chksum (drop (ipdata d) f) (ipdlen d) = 0"
    "drop (ipdata d + 4) f = drop (ipdata d + 4) (take (ETH_HRD_SZ + unat (ip_len d)) d)"
proof -
  let ?o = "ipdata d" and ?k = "unat (ip_len d) - iphlen d"
  let ?b = "drop ?o d"
  let ?r = "wr16 2 (echo_cksum (icmp_cksum ?o d)) (wr8 0 0 ?b)"
  have skip: "drop ?o f = take ?k ?r" by (rule echo_frame_fields(8) [OF assms(1-3,8) f])
  have l: "?k \<le> length ?b" "8 \<le> ?k" using assms(2,3) by (simp_all add: ipdata_def)
  have b: "rd8 ?b 0 = 8" "rd8 ?b 1 = 0" "rd16 ?b 2 \<noteq> 0xfff7" "4 \<le> length ?b"
    using assms(4,5,7) l by (simp_all add: rd8_drop rd16_drop)
  have k: "4 \<le> ?k" "?k \<le> 65535" using l unat_u16_lt [of "ip_len d"] by linarith+
  have dlen: "ipdlen d = int ?k" using assms(3) by (simp add: ipdlen_def of_nat_diff)
  have "checksum ?r (int ?k) 0 = 0"
    using echo_reply_checksum [OF b(1,2,4) k assms(6) [unfolded icmp_chksum_def dlen] b(3)] unfolding rd16_drop by simp
  moreover have "?k \<le> length ?r" using l by simp
  ultimately show "icmp_chksum (drop ?o f) (ipdlen d) = 0"
    using chksum_take [OF skip [symmetric], of 0 ?k 0] by (simp add: icmp_chksum_def dlen)
  have "?o < length d" "0 < ?k" using l by simp_all
  then show "icmp_type ?o f = ICMP_T_ECHORLY"
    using take_views(1) [OF skip [symmetric], of 0] rd8_drop [of ?o f 0] l by (simp add: rd8_wr16 rd8_wr8)
  have "drop (?o + 4) f = drop 4 (drop ?o f)" by (simp add: add.commute)
  also have "\<dots> = take (?k - 4) (drop 4 ?r)" unfolding skip by (simp add: drop_take)
  also have "\<dots> = take (?k - 4) (drop (?o + 4) d)" by (simp add: wr16_skip wr8_skip add.commute)
  also have "\<dots> = drop (?o + 4) (take (ETH_HRD_SZ + unat (ip_len d)) d)" by (simp add: drop_take ipdata_def add.commute)
  finally show "drop (?o + 4) f = drop (?o + 4) (take (ETH_HRD_SZ + unat (ip_len d)) d)" .
qed

text \<open>
  C6: a host answers pings. For an echo request with a valid checksum whose sender is reachable over a resolved
  next hop, \<open>icmp_in\<close> sends exactly one frame: to the hardware address of the next hop, from the address of the
  outgoing device to the sender of the request, with a valid IP header checksum, type \<open>ICMP_T_ECHORLY\<close>, a valid
  ICMP checksum (adjusted, not recomputed, by the code), and identifier, sequence number and data unchanged. The
  request is released and no fault occurs. The buffer may be larger than the request; nothing behind the request is sent.
  The one request whose answer is excluded has the checksum 0xfff7 (see the next property).
\<close>

theorem icmp_echo_answered:
  fixes s :: "'a ip_state_scheme"
  assumes "data_of s p = d" "pk_len (pkb s p) = int (ETH_HRD_SZ + unat (ip_len d))" "pk_live (pkb s p)" "pkb_inv s"
    and "20 \<le> iphlen d" "ETH_HRD_SZ + unat (ip_len d) \<le> length d" "iphlen d + ICMP_HRD_SZ \<le> unat (ip_len d)"
    and "icmp_type (ipdata d) d = ICMP_T_ECHOREQ" "icmp_code (ipdata d) d = 0"
      "icmp_chksum (drop (ipdata d) d) (ipdlen d) = 0" "icmp_cksum (ipdata d) d \<noteq> 0xfff7"
    and "rt_lookup (ip_src d) s = Some rt" "hop_known rt (hop_addr rt (ip_src d)) i s"
      "int (unat (ip_len d)) \<le> net_mtu (dev s (rt_dev rt))" "length (ae_hwaddr (ae s i)) = 6"
  shows "let t = icmp_in (veth_xmit (\<lambda>f. int (length f))) p s; off = ipdata d in
    \<exists>f. wire t = wire s @ [(rt_dev rt, f)] \<and> eth_dst f = ae_hwaddr (ae s i) \<and>
      ip_src f = net_ipaddr (dev s (rt_dev rt)) \<and> ip_dst f = ip_src d \<and> length f = ETH_HRD_SZ + unat (ip_len d) \<and>
      ip_chksum (drop ETH_HRD_SZ f) (int (iphlen f)) = 0 \<and> ipdata f = off \<and>
      icmp_type off f = ICMP_T_ECHORLY \<and> icmp_chksum (drop off f) (ipdlen d) = 0 \<and>
      drop (off + 4) f = drop (off + 4) (take (ETH_HRD_SZ + unat (ip_len d)) d) \<and>
      fault t = fault s \<and> pkb_inv t \<and> pk_refcnt (pkb t p) = pk_refcnt (pkb s p) - 1"
  using icmp_echo_sent [OF assms(1-10,12-14)] echo_frame_fields [OF assms(5-7,15) refl]
    echo_frame_icmp [OF assms(5-11,15) refl]
  unfolding Let_def by (intro exI [of _ "echo_frame s (rt_dev rt) i d"] conjI) auto

definition sample_echo :: bytes where
  "sample_echo = [2,0,0,0,0,2, 2,0,0,0,0,1, 8,0, 0x45,0, 28,0, 7,0, 0,0, 64,1, 0,0, 10,0,0,1, 10,0,0,2,
     8,0, 0xf7,0xfd, 0,1, 0,1]"

lemma rt_head_update_simps [simp]:
  "pkb (s\<lparr>rt_head := r\<rparr>) p = pkb s p" "dev (s\<lparr>rt_head := r\<rparr>) n = dev s n" "pkb_inv (s\<lparr>rt_head := r\<rparr>) = pkb_inv s"
  "pool_room (s\<lparr>rt_head := r\<rparr>) = pool_room s" "hop_known rt a i (s\<lparr>rt_head := r\<rparr>) = hop_known rt a i s"
  by (simp_all add: pkb_def dev_def pkb_inv_def live_pkbs_def pool_room_def hop_known_def arp_lookup_def)

theorem icmp_echo_answered_witness:
  "\<exists>f. wire (icmp_in (veth_xmit (\<lambda>f. int (length f))) 0 ((sample_host [sample_echo])\<lparr>rt_head := [sample_route]\<rparr>)) = [(0, f)] \<and>
    icmp_type 34 f = ICMP_T_ECHORLY \<and> icmp_chksum (drop 34 f) 8 = 0 \<and> drop 38 f = [0,1,0,1] \<and> ip_dst f = 0x0100000a"
proof -
  let ?s = "(sample_host [sample_echo])\<lparr>rt_head := [sample_route]\<rparr>" and ?d = sample_echo
  have v: "iphlen ?d = 20" "length ?d = 42" "unat (ip_len ?d) = 28" "ipdata ?d = 34" "ipdlen ?d = 8"
    "icmp_type 34 ?d = 8" "icmp_code 34 ?d = 0" "rd16 ?d 36 = 0xfdf7" "ip_src ?d = 0x0100000a" "drop 38 ?d = [0,1,0,1]"
    by (simp_all add: sample_echo_def iphlen_def ip_hlen_def ipdata_def ipdlen_def eval_simps)
  have c: "icmp_chksum (drop 34 ?d) 8 = 0"
    by (simp add: icmp_chksum_def checksum_def sample_echo_def Let_def sum16.simps eval_simps)
  have h: "data_of ?s 0 = ?d" "pk_len (pkb ?s 0) = int (ETH_HRD_SZ + unat (ip_len ?d))" "pk_live (pkb ?s 0)" "pkb_inv ?s"
    "hop_known sample_route (hop_addr sample_route (ip_src ?d)) 0 ?s" "net_mtu (dev ?s (rt_dev sample_route)) = 28"
    using sample_host_ok [of "[sample_echo]"]
    by (simp_all add: v(3,9) hop_addr_def sample_route_def) (simp add: v(2) sample_host_def sample_ip_pool_pkb)
  have r: "rt_lookup (ip_src ?d) ?s = Some sample_route" "length (ae_hwaddr (ae ?s 0)) = 6" "wire ?s = []" "rt_dev sample_route = 0"
    using sample_host_ok(7) [of "[sample_echo]"] by (simp_all add: rt_lookup_def rt_match_def v(9) sample_route_def sample_host_def)
  from icmp_echo_answered [OF h(1-4) _ _ _ _ _ _ _ r(1) h(5)] show ?thesis
    unfolding v Let_def using sample_host_ok(6) [of "[sample_echo]"] by (simp add: v c r r(2) [simplified]) blast
qed


section \<open>Error messages\<close>

definition error_payload :: "bytes \<Rightarrow> nat" where
  "error_payload d = (let n = unat (ntohs (ip_len d)) in if IP_HRD_SZ + ICMP_HRD_SZ + n > 576 then 576 - IP_HRD_SZ - ICMP_HRD_SZ else n)"

definition error_body :: "u8 \<Rightarrow> u8 \<Rightarrow> u32 \<Rightarrow> bytes \<Rightarrow> bytes" where
  "error_body ty code data d =
     (let b = memcpy (wr32 38 data (wr16 36 0 (wr8 35 code (wr8 34 ty (replicate (42 + error_payload d) 0))))) 42
        (drop ETH_HRD_SZ d) (error_payload d)
      in wr16 36 (icmp_chksum (drop 34 b) (int (ICMP_HRD_SZ + error_payload d))) b)"

lemma error_payload_le: "error_payload d \<le> 548" "error_payload d \<le> unat (ntohs (ip_len d))"
  by (simp_all add: error_payload_def Let_def)

lemma icmp_send_eq:
  assumes "\<not> icmp_suppressed ty p s" "data_of s p = d" "ETH_HRD_SZ + unat (ntohs (ip_len d)) \<le> length d"
  shows "icmp_send xmit ty code data p s =
    ip_send_info xmit (pk_next s) 0 (of_nat (IP_HRD_SZ + ICMP_HRD_SZ + error_payload d)) 0 IP_P_ICMP (ip_src d)
      (upd_data (pk_next s) (\<lambda>_. error_body ty code data d) (snd (alloc_pkb (int (42 + error_payload d)) s)))"
proof -
  let ?n = "error_payload d"
  define A where "A = snd (alloc_pkb (int (14 + 20 + 8 + ?n)) s)"
  have a: "alloc_pkb (int (14 + 20 + 8 + ?n)) s = (pk_next s, A)" unfolding A_def by (metis alloc_simps(1) prod.collapse)
  have z: "data_of A (pk_next s) = replicate (42 + ?n) 0"
    unfolding A_def alloc_pkb_data nat_int by simp
  have n: "(if 20 + 8 + unat (ntohs (ip_len d)) > 576 then 576 - 20 - 8 else unat (ntohs (ip_len d))) = ?n"
    by (simp add: error_payload_def Let_def)
  have u: "upd_data (pk_next s) f A = upd_data (pk_next s) (\<lambda>_. f (replicate (42 + ?n) 0)) A" for f
    by (rule upd_data_const [OF z])
  have l: "\<not> length d < 14 + ?n" using assms(3) error_payload_le(2) [of d] by simp
  show ?thesis
    unfolding icmp_send_def if_not_P [OF assms(1)] assms(2) Let_def n a prod.case if_not_P [OF l]
    by (subst u) (simp add: A_def error_body_def Let_def)
qed

lemma error_body_fields:
  assumes "ETH_HRD_SZ + unat (ntohs (ip_len d)) \<le> length d"
  shows "length (error_body ty code data d) = 42 + error_payload d"
    "rd8 (error_body ty code data d) 34 = ty" "rd8 (error_body ty code data d) 35 = code"
    "rd32 (error_body ty code data d) 38 = data"
    "drop 42 (error_body ty code data d) = slice ETH_HRD_SZ (error_payload d) d"
    "icmp_chksum (drop 34 (error_body ty code data d)) (int (ICMP_HRD_SZ + error_payload d)) = 0"
proof -
  let ?n = "error_payload d"
  define h where "h = wr32 38 data (wr16 36 0 (wr8 35 code (wr8 34 ty (replicate 42 0))))"
  have lh: "length h = 42" by (simp add: h_def)
  have n: "?n \<le> length (drop 14 d)" using assms error_payload_le [of d] by simp
  have app: "wr8 i v (xs @ ys) = wr8 i v xs @ ys" if "i < length xs" for i v and xs ys :: bytes
    using that by (simp add: wr8_def list_update_append)
  have "memcpy (wr32 38 data (wr16 36 0 (wr8 35 code (wr8 34 ty (replicate (42 + ?n) 0))))) 42 (drop 14 d) ?n =
      h @ slice 14 ?n d"
    unfolding replicate_add h_def
    by (simp add: app wr16_append wr32_def memcpy_eq slice_def)
  then have b: "error_body ty code data d =
      wr16 36 (icmp_chksum (drop 34 (h @ slice 14 ?n d)) (int (8 + ?n))) (h @ slice 14 ?n d)"
    by (simp add: error_body_def Let_def)
  have len: "length (h @ slice 14 ?n d) = 42 + ?n" using lh n by simp
  show "length (error_body ty code data d) = 42 + ?n" unfolding b using len by simp
  show "rd8 (error_body ty code data d) 34 = ty" "rd8 (error_body ty code data d) 35 = code"
    "rd32 (error_body ty code data d) 38 = data"
    unfolding b using lh by (simp_all add: rd32_def rd16_def rd8_wr16 rd8_append) (simp_all add: h_def rd8_wr8 rd8_wr16 wr32_def)
  show "drop 42 (error_body ty code data d) = slice 14 ?n d"
    unfolding b by (simp add: wr16_skip lh)
  let ?e = "drop 34 (h @ slice 14 ?n d)"
  have k: "even (2 :: nat)" "2 + 2 \<le> 8 + ?n" "2 + 2 \<le> length ?e"
    using len by simp_all
  have z: "rd16 ?e 2 = 0"
    unfolding rd16_drop by (simp add: rd16_def rd8_append lh) (simp add: h_def rd8_wr16 wr32_def mk16_def lo8_def hi8_def)
  have "unat (0 :: u32) + nsum ?e (8 + ?n) + 65535 < 4294967296"
    using nsum_bound [of ?e "8 + ?n"] error_payload_le(1) [of d] by simp
  from checksum_field_verifies(1) [OF k z this]
  show "icmp_chksum (drop 34 (error_body ty code data d)) (int (8 + ?n)) = 0"
    unfolding b using drop_wr16 [of 34 2 _ "h @ slice 14 ?n d"] by (simp add: icmp_chksum_def)
qed
text \<open>
  C21: ICMP errors. A suppressed error (a packet too short to quote, not addressed to this host's hardware address,
  to a multicast or broadcast address, a later fragment, or itself an ICMP error) sends nothing and changes nothing.
  Otherwise \<open>icmp_send\<close> sends exactly one frame: an ICMP message of the given type, code and data to the source of the
  packet, at most 576 bytes of IP, both checksums valid, that quotes the first bytes of the offending packet from its
  IP header on. The packet itself is kept. (The message has time to live 0, a finding of the development.)
\<close>

theorem icmp_error_message:
  fixes s :: "'a ip_state_scheme"
  assumes "data_of s p = d" "p < pk_next s" "pkb_inv s" "pool_room s"
    and "ETH_HRD_SZ + unat (ntohs (ip_len d)) \<le> length d" "rt_lookup (ip_src d) s = Some rt"
      "hop_known rt (hop_addr rt (ip_src d)) i s" "576 \<le> net_mtu (dev s (rt_dev rt))"
  shows "let t = icmp_send (veth_xmit (\<lambda>f. int (length f))) ty code data p s in
    if icmp_suppressed ty p s then t = s
    else \<exists>f n. wire t = wire s @ [(rt_dev rt, f)] \<and> n = min (unat (ntohs (ip_len d))) 548 \<and>
      unat (ntohs (ip_len f)) = 28 + n \<and> length f = 42 + n \<and> ip_dst f = ip_src d \<and> ip_src f = net_ipaddr (dev s (rt_dev rt)) \<and>
      ip_pro f = IP_P_ICMP \<and> ip_ttl f = 0 \<and> ip_chksum (drop ETH_HRD_SZ f) 20 = 0 \<and>
      icmp_type 34 f = ty \<and> icmp_code 34 f = code \<and> rd32 f 38 = data \<and>
      icmp_chksum (drop 34 f) (int (8 + n)) = 0 \<and> drop 42 f = slice ETH_HRD_SZ n d \<and>
      fault t = fault s \<and> pkb_inv t \<and> pkb t p = pkb s p"
proof (cases "icmp_suppressed ty p s")
  case True
  then show ?thesis by (simp add: icmp_send_def)
next
  case False
  let ?x = "veth_xmit (\<lambda>f. int (length f))" and ?q = "pk_next s" and ?n = "error_payload d" and ?m = "rt_dev rt"
  define b where "b = error_body ty code data d"
  define A where "A = snd (alloc_pkb (int (42 + ?n)) s)"
  define u where "u = upd_data ?q (\<lambda>_. b) A"
  define len where "len = (of_nat (IP_HRD_SZ + ICMP_HRD_SZ + ?n) :: u16)"
  define t where "t = icmp_send ?x ty code data p s"
  note b = error_body_fields [OF assms(5), of ty code data, folded b_def]
  have n: "?n = min (unat (ntohs (ip_len d))) 548" by (simp add: error_payload_def Let_def min_def)
  have ul: "unat len = 28 + ?n" using error_payload_le(1) [of d] by (simp add: len_def unat_of_nat del: of_nat_add)
  have A: "pkb_inv A" "fault A = fault s" "wire A = wire s" "rt_head A = rt_head s" "arp_cache A = arp_cache s"
    "dev A k = dev s k" "pk_live (pkb A ?q)" "pk_rtdst (pkb A ?q) = None" "pk_len (pkb A ?q) = int (42 + ?n)" "pkb A p = pkb s p" for k
    using assms(2-4) by (simp_all add: A_def alloc_pkb_inv alloc_fault) (simp add: alloc_pkb_def)
  have u: "pk_live (pkb u ?q)" "pk_rtdst (pkb u ?q) = None" "data_of u ?q = b" "pk_len (pkb u ?q) = int (length b)"
    "rt_lookup (ip_src d) u = Some rt" "hop_known rt (hop_addr rt (ip_src d)) i u" "34 \<le> length b"
    "int (unat len) \<le> net_mtu (dev u ?m)" "pkb_inv u"
    using A assms(6-8) b(1) hop_known_cong [of u s] error_payload_le(1) [of d]
    by (simp_all add: u_def rt_lookup_def pkb_inv_upd ul)
  have "t = ip_send_info ?x ?q 0 len 0 IP_P_ICMP (ip_src d) u"
    unfolding t_def icmp_send_eq [OF False assms(1,5)] len_def u_def b_def A_def ..
  note w = vip.send_info_wire [OF u, of 0 0 IP_P_ICMP, folded this, unfolded Let_def]
  define h where "h = info_header 0 len (ipid u) 0 IP_P_ICMP (ip_src d) b"
  define g where "g = ready_packet (net_ipaddr (dev s ?m)) h"
  define f where "f = eth_frame (net_hwaddr (dev s ?m)) (ae_hwaddr (ae s i)) g"
  note h = info_header_fields [OF u(7), of 0 len "ipid u" 0 IP_P_ICMP "ip_src d", folded h_def]
  note g = ready_packet_fields [of h "net_ipaddr (dev s ?m)", folded g_def]
  have hl: "34 \<le> length h" "20 \<le> iphlen h" using h(3,9) u(7) by simp_all
  have body: "drop 14 f = drop 14 g" "length f = length g" using eth_frame_body by (simp_all add: f_def)
  note v = ip_views_cong [OF body(1)]
  have fb: "drop 34 f = drop 34 b"
    using arg_cong [OF body(1), of "drop 20"] g(10) [OF hl] h(10) by simp
  have r: "rd8 f k = rd8 b k" if "34 \<le> k" for k
    using rd8_drop [of 34 f "k - 34"] rd8_drop [of 34 b "k - 34"] fb that by simp
  have 1: "wire t = wire s @ [(?m, f)]" using w by (simp add: f_def g_def h_def u_def A)
  have 2: "icmp_type 34 f = ty" "icmp_code 34 f = code" "rd32 f 38 = data" "length f = 42 + ?n"
    using b(1-4) r body(2) g(9) [OF hl] h(9) by (simp_all add: rd32_def rd16_def)
  have 3: "icmp_chksum (drop 34 f) (int (8 + ?n)) = 0" "drop 42 f = slice ETH_HRD_SZ ?n d"
  proof -
    have "drop 42 f = drop 42 b" using arg_cong [OF fb, of "drop 8"] by simp
    then show "icmp_chksum (drop 34 f) (int (8 + ?n)) = 0" "drop 42 f = slice ETH_HRD_SZ ?n d"
      unfolding fb using b(5,6) by simp_all
  qed
  have 4: "unat (ntohs (ip_len f)) = 28 + ?n" "ip_dst f = ip_src d" "ip_src f = net_ipaddr (dev s ?m)" "ip_pro f = IP_P_ICMP"
    "ip_ttl f = 0" "ip_chksum (drop ETH_HRD_SZ f) 20 = 0"
    using g [OF hl] h ul by (simp_all add: v body(1))
  have 5: "fault t = fault s" "pkb_inv t" "pkb t p = pkb s p" using w assms(2) A by (auto simp: u_def)
  show ?thesis
    unfolding Let_def t_def [symmetric] if_not_P [OF False]
    by (intro exI [of _ f] exI [of _ ?n] conjI 1 2 3 4 5 n)
qed
definition sample_udp_in :: bytes where
  "sample_udp_in = [2,0,0,0,0,2, 2,0,0,0,0,1, 8,0, 0x45,0, 0,29, 0,7, 0,0, 64,17, 0,0, 10,0,0,1, 10,0,0,2,
     0x30,0x39, 0,7, 0,9, 0,0, 65]"

definition sample_router :: "bytes list \<Rightarrow> ip_state" where
  "sample_router ds = upd_dev 0 (\<lambda>v. v\<lparr>net_mtu := 1500\<rparr>) ((sample_host ds)\<lparr>rt_head := [sample_route]\<rparr>)"

lemma rt_head_upd_dev [simp]: "rt_head (upd_dev n f s) = rt_head s"
  by (simp add: upd_dev_def)

lemma sample_host_fields:
  assumes "0 < length ds"
  shows "pk_type (pkb (sample_host ds) 0) = PKT_LOCALHOST" "pk_next (sample_host ds) = length ds"
    "ae_hwaddr (ae (sample_host ds) 0) = [2,0,0,0,0,1]" "pk_len (pkb (sample_host ds) 0) = int (length (ds ! 0))"
  using assms by (simp_all add: sample_host_def) (simp_all add: sample_ip_pool_def pkb_def)

lemma sample_router_ok:
  assumes "length ds < 200000" "0 < length ds"
  shows "data_of (sample_router ds) 0 = ds ! 0" "0 < pk_next (sample_router ds)" "pkb_inv (sample_router ds)"
    "pool_room (sample_router ds)" "hop_known sample_route 0x0100000a 0 (sample_router ds)"
    "net_mtu (dev (sample_router ds) 0) = 1500" "wire (sample_router ds) = []" "rt_head (sample_router ds) = [sample_route]"
    "pk_type (pkb (sample_router ds) 0) = PKT_LOCALHOST" "fault (sample_router ds) = None" "pk_live (pkb (sample_router ds) 0)"
    "ae_hwaddr (ae (sample_router ds) 0) = [2,0,0,0,0,1]"
  using sample_host_ok [OF assms] sample_host_fields [OF assms(2)] assms
    hop_known_cong [of "sample_router ds" "sample_host ds"]
  by (simp_all add: sample_router_def)

theorem icmp_error_message_witness:
  "\<exists>f. wire (icmp_send (veth_xmit (\<lambda>f. int (length f))) ICMP_T_DESTUNREACH ICMP_PORT_UNREACH 0 0 (sample_router [sample_udp_in])) = [(0, f)] \<and>
    ip_dst f = 0x0100000a \<and> icmp_type 34 f = 3 \<and> icmp_code 34 f = 3 \<and> icmp_chksum (drop 34 f) 37 = 0 \<and> drop 42 f = drop 14 sample_udp_in"
proof -
  let ?s = "sample_router [sample_udp_in]" and ?d = sample_udp_in
  have v: "length ?d = 43" "ntohs (ip_len ?d) = 29" "iphlen ?d = 20" "ip_src ?d = 0x0100000a" "ip_dst ?d = 0x0200000a"
    "ip_fragoff ?d = 0" "ip_pro ?d = 17" "hop_addr sample_route 0x0100000a = 0x0100000a"
    "rt_dev sample_route = 0"
    by (simp_all add: sample_udp_in_def iphlen_def ip_hlen_def hop_addr_def sample_route_def eval_simps)
  note r = sample_router_ok [of "[sample_udp_in]", simplified]
  have sup: "\<not> icmp_suppressed ICMP_T_DESTUNREACH 0 ?s"
    by (simp add: icmp_suppressed_def Let_def r v MULTICAST_def BROADCAST_def)
  have look: "rt_lookup 0x0100000a ?s = Some sample_route" by (simp add: rt_lookup_def rt_match_def r sample_route_def)
  have "slice 14 29 ?d = drop 14 ?d" by (simp add: slice_def v(1))
  with icmp_error_message [where s = ?s and p = 0 and d = ?d and rt = sample_route and i = 0 and ty = ICMP_T_DESTUNREACH
      and code = ICMP_PORT_UNREACH and data = 0] sup look
  show ?thesis by (simp add: r v Let_def) blast
qed

end
