(* ===== verification/Sock.thy ===== *)
theory Sock
  imports Icmp
begin

text \<open>
  The protocol control blocks and the waiting of threads: \<^verbatim>\<open>src/include/sock.h\<close>, \<^verbatim>\<open>src/socket/sock.c\<close>,
  \<^verbatim>\<open>src/include/wait.h\<close> and the structures of \<^verbatim>\<open>src/include/socket.h\<close>. A \<open>struct sock\<close> and a \<open>struct socket\<close> live in heaps;
  a pointer to the \<^verbatim>\<open>sleep\<close> member of a socket is the address of the socket. The hash tables of all protocols are
  one function from list heads to the socks linked there; the node inside a sock remembers its head, which
  is what \<^verbatim>\<open>pprev\<close> is for.

  A call that blocks hands the state to the other threads: what they do until the sleeping thread runs again is
  the argument \<open>env\<close>.
\<close>

section \<open>Structures\<close>

record tapip_wait =
  w_notified :: bool
  w_dead :: bool
  w_sleep :: bool

record sock_addr =
  src_addr :: u32
  dst_addr :: u32
  src_port :: u16
  dst_port :: u16

datatype sock_ops = Raw_Ops | Udp_Ops | Tcp_Ops

datatype hlist_head = Raw_Head nat | Udp_Head nat | Tcp_Ehead nat | Tcp_Lhead nat | Tcp_Bhead nat

record sock =
  sk_protocol :: u8
  sk_addr :: sock_addr
  sk_sock :: "nat option"
  sk_ops :: sock_ops
  sk_dst :: "rtentry option"
  recv_queue :: "nat list"
  recv_wait :: "nat option"
  sk_hash :: u32
  hash_list :: "hlist_head option"
  sk_refcnt :: int
  sk_live :: bool

abbreviation (input) sk_saddr :: "sock \<Rightarrow> u32" where "sk_saddr k \<equiv> src_addr (sk_addr k)"
abbreviation (input) sk_daddr :: "sock \<Rightarrow> u32" where "sk_daddr k \<equiv> dst_addr (sk_addr k)"
abbreviation (input) sk_sport :: "sock \<Rightarrow> u16" where "sk_sport k \<equiv> src_port (sk_addr k)"
abbreviation (input) sk_dport :: "sock \<Rightarrow> u16" where "sk_dport k \<equiv> dst_port (sk_addr k)"
abbreviation (input) set_saddr :: "u32 \<Rightarrow> sock \<Rightarrow> sock" where "set_saddr a \<equiv> sk_addr_update (\<lambda>x. x\<lparr>src_addr := a\<rparr>)"
abbreviation (input) set_daddr :: "u32 \<Rightarrow> sock \<Rightarrow> sock" where "set_daddr a \<equiv> sk_addr_update (\<lambda>x. x\<lparr>dst_addr := a\<rparr>)"
abbreviation (input) set_sport :: "u16 \<Rightarrow> sock \<Rightarrow> sock" where "set_sport a \<equiv> sk_addr_update (\<lambda>x. x\<lparr>src_port := a\<rparr>)"
abbreviation (input) set_dport :: "u16 \<Rightarrow> sock \<Rightarrow> sock" where "set_dport a \<equiv> sk_addr_update (\<lambda>x. x\<lparr>dst_port := a\<rparr>)"

datatype socket_state = SS_UNCONNECTED | SS_BIND | SS_LISTEN | SS_CONNECTING | SS_CONNECTED

record socket =
  so_state :: socket_state
  so_family :: int
  so_type :: int
  so_sleep :: tapip_wait
  so_ops :: bool \<comment> \<open>\<^verbatim>\<open>&inet_ops\<close> or NULL\<close>
  so_sk :: "nat option"
  so_refcnt :: int
  so_rx_cb :: "nat option" \<comment> \<open>the callback of the application, with its private data\<close>
  so_live :: bool

record sk_state = ip_state +
  sk_heap :: "nat \<Rightarrow> sock"
  sk_next :: nat
  alloc_socks :: int
  free_socks :: int
  hlists :: "hlist_head \<Rightarrow> nat list"
  so_heap :: "nat \<Rightarrow> socket"
  so_next :: nat

definition upd_sk :: "nat \<Rightarrow> (sock \<Rightarrow> sock) \<Rightarrow> 'a sk_state_scheme \<Rightarrow> 'a sk_state_scheme" where
  "upd_sk k f s = s\<lparr>sk_heap := (sk_heap s)(k := f (sk_heap s k))\<rparr>"

definition upd_so :: "nat \<Rightarrow> (socket \<Rightarrow> socket) \<Rightarrow> 'a sk_state_scheme \<Rightarrow> 'a sk_state_scheme" where
  "upd_so k f s = s\<lparr>so_heap := (so_heap s)(k := f (so_heap s k))\<rparr>"

abbreviation (input) sk_at :: "'a sk_state_scheme \<Rightarrow> nat \<Rightarrow> sock" where "sk_at s k \<equiv> sk_heap s k"
abbreviation (input) so_at :: "'a sk_state_scheme \<Rightarrow> nat \<Rightarrow> socket" where "so_at s k \<equiv> so_heap s k"

section \<open>wait.h\<close>

definition wait_init :: tapip_wait where
  "wait_init = \<lparr>w_notified = False, w_dead = False, w_sleep = False\<rparr>"

text \<open>\<open>wake_up\<close> of a NULL pointer locks a mutex at a small address: a fault.\<close>

definition wake_up :: "nat option \<Rightarrow> 'a sk_state_scheme \<Rightarrow> 'a sk_state_scheme" where
  "wake_up w s =
     (case w of
        None \<Rightarrow> set_fault Null_Deref s
      | Some k \<Rightarrow>
          if w_dead (so_sleep (so_at s k)) then s
          else if w_notified (so_sleep (so_at s k)) then s
          else upd_so k (so_sleep_update (\<lambda>x. x\<lparr>w_notified := True\<rparr>)) s)"

definition sleep_on ::
  "('a sk_state_scheme \<Rightarrow> 'a sk_state_scheme) \<Rightarrow> nat option \<Rightarrow> 'a sk_state_scheme \<Rightarrow> int \<times> 'a sk_state_scheme" where
  "sleep_on env w s =
     (case w of
        None \<Rightarrow> (0, set_fault Null_Deref s)
      | Some k \<Rightarrow>
          let s = (if w_dead (so_sleep (so_at s k)) then s
                   else
                     let s = upd_so k (so_sleep_update (\<lambda>x. x\<lparr>w_sleep := True\<rparr>)) s;
                         s = (if w_notified (so_sleep (so_at s k)) then s else env s)
                     in upd_so k (so_sleep_update (\<lambda>x. x\<lparr>w_notified := False, w_sleep := False\<rparr>)) s)
          in (if w_dead (so_sleep (so_at s k)) then - 1 else 0, s))"

definition wait_exit :: "nat \<Rightarrow> 'a sk_state_scheme \<Rightarrow> 'a sk_state_scheme" where
  "wait_exit k s =
     (if w_dead (so_sleep (so_at s k)) then s
      else upd_so k (so_sleep_update (\<lambda>x. x\<lparr>w_dead := True\<rparr>)) s)"

section \<open>sock.c\<close>

definition get_sock :: "nat \<Rightarrow> 'a sk_state_scheme \<Rightarrow> 'a sk_state_scheme" where
  "get_sock k = upd_sk k (\<lambda>x. x\<lparr>sk_refcnt := sk_refcnt x + 1\<rparr>)"

definition free_sock :: "nat \<Rightarrow> 'a sk_state_scheme \<Rightarrow> 'a sk_state_scheme" where
  "free_sock k s =
     (let s = (if sk_live (sk_at s k) then s else set_fault Double_Free s);
          s = upd_sk k (\<lambda>x. x\<lparr>sk_refcnt := sk_refcnt x - 1\<rparr>) s
      in if sk_refcnt (sk_at s k) \<le> 0
         then upd_sk k (\<lambda>x. x\<lparr>sk_live := False\<rparr>) (s\<lparr>free_socks := free_socks s + 1\<rparr>) else s)"

definition sock_add_hash :: "nat \<Rightarrow> hlist_head \<Rightarrow> 'a sk_state_scheme \<Rightarrow> 'a sk_state_scheme" where
  "sock_add_hash k h s =
     (let s = get_sock k s;
          s = s\<lparr>hlists := (hlists s)(h := k # hlists s h)\<rparr>
      in upd_sk k (\<lambda>x. x\<lparr>hash_list := Some h\<rparr>) s)"

definition sock_del_hash :: "nat \<Rightarrow> 'a sk_state_scheme \<Rightarrow> 'a sk_state_scheme" where
  "sock_del_hash k s =
     (case hash_list (sk_at s k) of
        None \<Rightarrow> s
      | Some h \<Rightarrow>
          let s = s\<lparr>hlists := (hlists s)(h := remove1 k (hlists s h))\<rparr>;
              s = upd_sk k (\<lambda>x. x\<lparr>hash_list := None\<rparr>) s
          in free_sock k s)"

definition sock_recv_notify :: "nat \<Rightarrow> 'a sk_state_scheme \<Rightarrow> 'a sk_state_scheme" where
  "sock_recv_notify k s =
     (if recv_queue (sk_at s k) \<noteq> [] \<and> recv_wait (sk_at s k) \<noteq> None then wake_up (recv_wait (sk_at s k)) s else s)"

text \<open>
  The waiting loop of \<open>sock_recv_pkb\<close>: \<open>env\<close> also gives the result of \<^verbatim>\<open>pthread_cond_wait\<close>, true for an error. The
  value None is a thread that waits forever.
\<close>

partial_function (option) sock_recv_loop ::
  "('a sk_state_scheme \<Rightarrow> bool \<times> 'a sk_state_scheme) \<Rightarrow> nat \<Rightarrow> nat \<Rightarrow> 'a sk_state_scheme \<Rightarrow> 'a sk_state_scheme option" where
  "sock_recv_loop env k w s =
     (if recv_queue (sk_at s k) \<noteq> [] then Some s
      else
        let s = upd_so w (so_sleep_update (\<lambda>x. x\<lparr>w_sleep := True\<rparr>)) s;
            (err, s) = env s
        in if err \<or> w_dead (so_sleep (so_at s w)) then Some s else sock_recv_loop env k w s)"

definition sock_recv_pkb ::
  "('a sk_state_scheme \<Rightarrow> bool \<times> 'a sk_state_scheme) \<Rightarrow> nat \<Rightarrow> 'a sk_state_scheme \<Rightarrow>
   (nat option \<times> 'a sk_state_scheme) option" where
  "sock_recv_pkb env k s =
     (case recv_wait (sk_at s k) of
        None \<Rightarrow> Some (None, set_fault Null_Deref s)
      | Some w \<Rightarrow>
          case sock_recv_loop env k w s of
            None \<Rightarrow> None
          | Some s \<Rightarrow>
              let s = upd_so w (so_sleep_update (\<lambda>x. x\<lparr>w_sleep := False\<rparr>)) s
              in case recv_queue (sk_at s k) of
                   [] \<Rightarrow> Some (None, s)
                 | p # ps \<Rightarrow> Some (Some p, upd_sk k (\<lambda>x. x\<lparr>recv_queue := ps\<rparr>) s))"

text \<open>\<open>unhash\<close> is the entry of the operation table; every protocol has one.\<close>

fun sock_drop_queue :: "nat \<Rightarrow> nat list \<Rightarrow> 'a sk_state_scheme \<Rightarrow> 'a sk_state_scheme" where
  "sock_drop_queue k [] s = s"
| "sock_drop_queue k (p # ps) s = sock_drop_queue k ps (free_pkb p (upd_sk k (\<lambda>x. x\<lparr>recv_queue := ps\<rparr>) s))"

definition sock_close ::
  "(nat \<Rightarrow> 'a sk_state_scheme \<Rightarrow> 'a sk_state_scheme) \<Rightarrow> nat \<Rightarrow> 'a sk_state_scheme \<Rightarrow> int \<times> 'a sk_state_scheme" where
  "sock_close unhash k s =
     (let s = upd_sk k (\<lambda>x. x\<lparr>recv_wait := None\<rparr>) s;
          s = unhash k s
      in (0, sock_drop_queue k (recv_queue (sk_at s k)) s))"

definition sock_autobind ::
  "(nat \<Rightarrow> u16 \<Rightarrow> 'a sk_state_scheme \<Rightarrow> int \<times> 'a sk_state_scheme) option \<Rightarrow> nat \<Rightarrow> 'a sk_state_scheme \<Rightarrow>
   int \<times> 'a sk_state_scheme" where
  "sock_autobind set_port k s = (case set_port of None \<Rightarrow> (- 1, s) | Some f \<Rightarrow> f k 0 s)"

text \<open>A zeroed control block, as \<^verbatim>\<open>xzalloc\<close> returns it.\<close>

definition zero_sock :: sock where
  "zero_sock = \<lparr>sk_protocol = 0, sk_addr = \<lparr>src_addr = 0, dst_addr = 0, src_port = 0, dst_port = 0\<rparr>, sk_sock = None,
     sk_ops = Raw_Ops, sk_dst = None, recv_queue = [], recv_wait = None, sk_hash = 0, hash_list = None, sk_refcnt = 0,
     sk_live = True\<rparr>"

definition new_sock :: "sock \<Rightarrow> 'a sk_state_scheme \<Rightarrow> nat \<times> 'a sk_state_scheme" where
  "new_sock x s =
     (sk_next s, s\<lparr>sk_heap := (sk_heap s)(sk_next s := x), sk_next := sk_next s + 1, alloc_socks := alloc_socks s + 1\<rparr>)"

section \<open>What the operations leave alone\<close>

lemma sk_more_fields:
  assumes "net_state.more s = net_state.more t"
  shows "sk_heap s = sk_heap t" "sk_next s = sk_next t" "alloc_socks s = alloc_socks t" "free_socks s = free_socks t"
    "hlists s = hlists t" "so_heap s = so_heap t" "so_next s = so_next t" "sk_state.more s = sk_state.more t"
  using assms by (cases s; cases t; simp)+

lemma sk_fields_simps [simp]:
  "sk_heap (upd_pkb q g s) = sk_heap s" "sk_next (upd_pkb q g s) = sk_next s"
  "alloc_socks (upd_pkb q g s) = alloc_socks s" "free_socks (upd_pkb q g s) = free_socks s"
  "hlists (upd_pkb q g s) = hlists s" "so_heap (upd_pkb q g s) = so_heap s" "so_next (upd_pkb q g s) = so_next s"
  "sk_heap (snd (alloc_pkb len s)) = sk_heap s" "sk_next (snd (alloc_pkb len s)) = sk_next s"
  "alloc_socks (snd (alloc_pkb len s)) = alloc_socks s" "free_socks (snd (alloc_pkb len s)) = free_socks s"
  "hlists (snd (alloc_pkb len s)) = hlists s" "so_heap (snd (alloc_pkb len s)) = so_heap s"
  "so_next (snd (alloc_pkb len s)) = so_next s" "sk_heap (free_pkb q s) = sk_heap s"
  "sk_next (free_pkb q s) = sk_next s" "alloc_socks (free_pkb q s) = alloc_socks s"
  "free_socks (free_pkb q s) = free_socks s" "hlists (free_pkb q s) = hlists s"
  "so_heap (free_pkb q s) = so_heap s" "so_next (free_pkb q s) = so_next s" "sk_heap (set_fault e s) = sk_heap s"
  "sk_next (set_fault e s) = sk_next s" "alloc_socks (set_fault e s) = alloc_socks s"
  "free_socks (set_fault e s) = free_socks s" "hlists (set_fault e s) = hlists s"
  "so_heap (set_fault e s) = so_heap s" "so_next (set_fault e s) = so_next s" "sk_heap (get_pkb q s) = sk_heap s"
  "sk_next (get_pkb q s) = sk_next s" "alloc_socks (get_pkb q s) = alloc_socks s"
  "free_socks (get_pkb q s) = free_socks s" "hlists (get_pkb q s) = hlists s" "so_heap (get_pkb q s) = so_heap s"
  "so_next (get_pkb q s) = so_next s" "sk_heap (upd_dev m h s) = sk_heap s" "sk_next (upd_dev m h s) = sk_next s"
  "alloc_socks (upd_dev m h s) = alloc_socks s" "free_socks (upd_dev m h s) = free_socks s"
  "hlists (upd_dev m h s) = hlists s" "so_heap (upd_dev m h s) = so_heap s" "so_next (upd_dev m h s) = so_next s"
  "sk_state.more (upd_pkb q g s) = sk_state.more s" "sk_state.more (snd (alloc_pkb len s)) = sk_state.more s"
  "sk_state.more (free_pkb q s) = sk_state.more s" "sk_state.more (set_fault e s) = sk_state.more s"
  "sk_state.more (get_pkb q s) = sk_state.more s" "sk_state.more (upd_dev m h s) = sk_state.more s"
  by (rule sk_more_fields; simp add: get_pkb_def upd_dev_def)+

lemma set_fault_pool [simp]:
  "live_pkbs (set_fault e s) = live_pkbs s" "pkb_inv (set_fault e s) = pkb_inv s" "pool_room (set_fault e s) = pool_room s"
  by (simp_all add: set_fault_def live_pkbs_def pkb_inv_def pool_room_def pkb_def split: option.split)

lemma upd_sk_simps [simp]:
  "fault (upd_sk k f s) = fault s" "pk_next (upd_sk k f s) = pk_next s" "alloc_pkbs (upd_sk k f s) = alloc_pkbs s"
  "free_pkbs (upd_sk k f s) = free_pkbs s" "dev_next (upd_sk k f s) = dev_next s"
  "net_devices (upd_sk k f s) = net_devices s" "loop (upd_sk k f s) = loop s"
  "arp_cache (upd_sk k f s) = arp_cache s" "arp_next (upd_sk k f s) = arp_next s" "wire (upd_sk k f s) = wire s"
  "rt_head (upd_sk k f s) = rt_head s" "frag_head (upd_sk k f s) = frag_head s" "ipid (upd_sk k f s) = ipid s"
  "sk_next (upd_sk k f s) = sk_next s" "alloc_socks (upd_sk k f s) = alloc_socks s"
  "free_socks (upd_sk k f s) = free_socks s" "hlists (upd_sk k f s) = hlists s"
  "so_heap (upd_sk k f s) = so_heap s" "so_next (upd_sk k f s) = so_next s" "pkb (upd_sk k f s) p = pkb s p"
  "dev (upd_sk k f s) n = dev s n" "live_pkbs (upd_sk k f s) = live_pkbs s" "pkb_inv (upd_sk k f s) = pkb_inv s"
  "pool_room (upd_sk k f s) = pool_room s"
  "sk_heap (upd_sk k f s) j = (if j = k then f (sk_heap s k) else sk_heap s j)"
  "sk_state.more (upd_sk k f s) = sk_state.more s"
  by (simp_all add: upd_sk_def pkb_def dev_def live_pkbs_def pkb_inv_def pool_room_def)

lemma upd_so_simps [simp]:
  "fault (upd_so k f s) = fault s" "pk_next (upd_so k f s) = pk_next s" "alloc_pkbs (upd_so k f s) = alloc_pkbs s"
  "free_pkbs (upd_so k f s) = free_pkbs s" "dev_next (upd_so k f s) = dev_next s"
  "net_devices (upd_so k f s) = net_devices s" "loop (upd_so k f s) = loop s"
  "arp_cache (upd_so k f s) = arp_cache s" "arp_next (upd_so k f s) = arp_next s" "wire (upd_so k f s) = wire s"
  "rt_head (upd_so k f s) = rt_head s" "frag_head (upd_so k f s) = frag_head s" "ipid (upd_so k f s) = ipid s"
  "sk_heap (upd_so k f s) = sk_heap s" "sk_next (upd_so k f s) = sk_next s"
  "alloc_socks (upd_so k f s) = alloc_socks s" "free_socks (upd_so k f s) = free_socks s"
  "hlists (upd_so k f s) = hlists s" "so_next (upd_so k f s) = so_next s" "pkb (upd_so k f s) p = pkb s p"
  "dev (upd_so k f s) n = dev s n" "live_pkbs (upd_so k f s) = live_pkbs s" "pkb_inv (upd_so k f s) = pkb_inv s"
  "pool_room (upd_so k f s) = pool_room s"
  "so_heap (upd_so k f s) j = (if j = k then f (so_heap s k) else so_heap s j)"
  "sk_state.more (upd_so k f s) = sk_state.more s"
  by (simp_all add: upd_so_def pkb_def dev_def live_pkbs_def pkb_inv_def pool_room_def)

lemma sk_update_simps [simp]:
  "pkb (s\<lparr>hlists := h\<rparr>) p = pkb s p" "dev (s\<lparr>hlists := h\<rparr>) n = dev s n"
  "live_pkbs (s\<lparr>hlists := h\<rparr>) = live_pkbs s" "pkb_inv (s\<lparr>hlists := h\<rparr>) = pkb_inv s"
  "pool_room (s\<lparr>hlists := h\<rparr>) = pool_room s" "pkb (s\<lparr>free_socks := f\<rparr>) p = pkb s p"
  "dev (s\<lparr>free_socks := f\<rparr>) n = dev s n" "live_pkbs (s\<lparr>free_socks := f\<rparr>) = live_pkbs s"
  "pkb_inv (s\<lparr>free_socks := f\<rparr>) = pkb_inv s"
  "pool_room (s\<lparr>free_socks := f\<rparr>) = pool_room s"
  by (simp_all add: pkb_def dev_def live_pkbs_def pkb_inv_def pool_room_def)

lemma sock_ref_simps [simp]:
  "fault (get_sock k s) = fault s" "pk_next (get_sock k s) = pk_next s" "alloc_pkbs (get_sock k s) = alloc_pkbs s"
  "free_pkbs (get_sock k s) = free_pkbs s" "dev_next (get_sock k s) = dev_next s"
  "net_devices (get_sock k s) = net_devices s" "loop (get_sock k s) = loop s"
  "arp_cache (get_sock k s) = arp_cache s" "arp_next (get_sock k s) = arp_next s" "wire (get_sock k s) = wire s"
  "rt_head (get_sock k s) = rt_head s" "frag_head (get_sock k s) = frag_head s" "ipid (get_sock k s) = ipid s"
  "sk_next (get_sock k s) = sk_next s" "alloc_socks (get_sock k s) = alloc_socks s"
  "so_heap (get_sock k s) = so_heap s" "so_next (get_sock k s) = so_next s" "pkb (get_sock k s) p = pkb s p"
  "dev (get_sock k s) n = dev s n" "live_pkbs (get_sock k s) = live_pkbs s" "pkb_inv (get_sock k s) = pkb_inv s"
  "pool_room (get_sock k s) = pool_room s" "sk_state.more (get_sock k s) = sk_state.more s"
  "pk_next (free_sock k s) = pk_next s" "alloc_pkbs (free_sock k s) = alloc_pkbs s"
  "free_pkbs (free_sock k s) = free_pkbs s" "dev_next (free_sock k s) = dev_next s"
  "net_devices (free_sock k s) = net_devices s" "loop (free_sock k s) = loop s"
  "arp_cache (free_sock k s) = arp_cache s" "arp_next (free_sock k s) = arp_next s" "wire (free_sock k s) = wire s"
  "rt_head (free_sock k s) = rt_head s" "frag_head (free_sock k s) = frag_head s" "ipid (free_sock k s) = ipid s"
  "sk_next (free_sock k s) = sk_next s" "alloc_socks (free_sock k s) = alloc_socks s"
  "so_heap (free_sock k s) = so_heap s" "so_next (free_sock k s) = so_next s" "pkb (free_sock k s) p = pkb s p"
  "dev (free_sock k s) n = dev s n" "live_pkbs (free_sock k s) = live_pkbs s" "pkb_inv (free_sock k s) = pkb_inv s"
  "pool_room (free_sock k s) = pool_room s" "sk_state.more (free_sock k s) = sk_state.more s"
  "fault (sock_add_hash k h s) = fault s" "pk_next (sock_add_hash k h s) = pk_next s"
  "alloc_pkbs (sock_add_hash k h s) = alloc_pkbs s" "free_pkbs (sock_add_hash k h s) = free_pkbs s"
  "dev_next (sock_add_hash k h s) = dev_next s" "net_devices (sock_add_hash k h s) = net_devices s"
  "loop (sock_add_hash k h s) = loop s" "arp_cache (sock_add_hash k h s) = arp_cache s"
  "arp_next (sock_add_hash k h s) = arp_next s" "wire (sock_add_hash k h s) = wire s"
  "rt_head (sock_add_hash k h s) = rt_head s" "frag_head (sock_add_hash k h s) = frag_head s"
  "ipid (sock_add_hash k h s) = ipid s" "sk_next (sock_add_hash k h s) = sk_next s"
  "alloc_socks (sock_add_hash k h s) = alloc_socks s" "so_heap (sock_add_hash k h s) = so_heap s"
  "so_next (sock_add_hash k h s) = so_next s" "pkb (sock_add_hash k h s) p = pkb s p"
  "dev (sock_add_hash k h s) n = dev s n" "live_pkbs (sock_add_hash k h s) = live_pkbs s"
  "pkb_inv (sock_add_hash k h s) = pkb_inv s" "pool_room (sock_add_hash k h s) = pool_room s"
  "sk_state.more (sock_add_hash k h s) = sk_state.more s" "pk_next (sock_del_hash k s) = pk_next s"
  "alloc_pkbs (sock_del_hash k s) = alloc_pkbs s" "free_pkbs (sock_del_hash k s) = free_pkbs s"
  "dev_next (sock_del_hash k s) = dev_next s" "net_devices (sock_del_hash k s) = net_devices s"
  "loop (sock_del_hash k s) = loop s" "arp_cache (sock_del_hash k s) = arp_cache s"
  "arp_next (sock_del_hash k s) = arp_next s" "wire (sock_del_hash k s) = wire s"
  "rt_head (sock_del_hash k s) = rt_head s" "frag_head (sock_del_hash k s) = frag_head s"
  "ipid (sock_del_hash k s) = ipid s" "sk_next (sock_del_hash k s) = sk_next s"
  "alloc_socks (sock_del_hash k s) = alloc_socks s" "so_heap (sock_del_hash k s) = so_heap s"
  "so_next (sock_del_hash k s) = so_next s" "pkb (sock_del_hash k s) p = pkb s p"
  "dev (sock_del_hash k s) n = dev s n" "live_pkbs (sock_del_hash k s) = live_pkbs s"
  "pkb_inv (sock_del_hash k s) = pkb_inv s" "pool_room (sock_del_hash k s) = pool_room s"
  "sk_state.more (sock_del_hash k s) = sk_state.more s"
  by (simp_all add: get_sock_def free_sock_def sock_add_hash_def sock_del_hash_def Let_def split: option.split)

end
