(* ===== verification/Raw.thy ===== *)
theory Raw
  imports Sock
begin

text \<open>
  Raw sockets: \<^verbatim>\<open>src/ip/raw.c\<close> and \<^verbatim>\<open>src/socket/raw_sock.c\<close>.
\<close>

record raw_state = sk_state +
  raw_id :: u16

abbreviation (input) IP_P_IP :: int where "IP_P_IP \<equiv> 0"
abbreviation (input) RAW_DEFAULT_TTL :: u8 where "RAW_DEFAULT_TTL \<equiv> 64"
abbreviation (input) RAW_MAX_BUFSZ :: int where "RAW_MAX_BUFSZ \<equiv> 65536"

section \<open>raw_sock.c\<close>

definition raw_hash_func :: "nat \<Rightarrow> 'a sk_state_scheme \<Rightarrow> nat" where
  "raw_hash_func k s = unat (sk_protocol (sk_at s k) AND 0xff)"

definition raw_unhash :: "nat \<Rightarrow> 'a sk_state_scheme \<Rightarrow> 'a sk_state_scheme" where
  "raw_unhash k = sock_del_hash k"

definition raw_hash :: "nat \<Rightarrow> 'a sk_state_scheme \<Rightarrow> int \<times> 'a sk_state_scheme" where
  "raw_hash k s = (0, sock_add_hash k (Raw_Head (raw_hash_func k s)) s)"

definition raw_init_pkb :: "nat \<Rightarrow> nat \<Rightarrow> sock_addr option \<Rightarrow> 'a raw_state_scheme \<Rightarrow> 'a raw_state_scheme" where
  "raw_init_pkb k p skaddr s =
     (case skaddr of
        None \<Rightarrow> set_fault Null_Deref s
      | Some a \<Rightarrow>
          upd_data p (\<lambda>d.
            let d = set_ip_hlen 5 d;
                d = set_ip_ver 4 d;
                d = set_ip_tos 0 d;
                d = set_ip_len (htons (word_of_int (pk_len (pkb s p) - int ETH_HRD_SZ))) d;
                d = set_ip_id (htons (raw_id s)) d;
                d = set_ip_fragoff 0 d;
                d = set_ip_ttl RAW_DEFAULT_TTL d;
                d = set_ip_pro (sk_protocol (sk_at s k)) d;
                d = set_ip_src (sk_saddr (sk_at s k)) d
            in set_ip_dst (dst_addr a) d) s)"

text \<open>
  The length is read after \<open>ip_send_out\<close> has given the buffer away; the model reads what the block held last.
\<close>

definition raw_send_pkb ::
  "'a raw_state_scheme xmit_fun \<Rightarrow> nat \<Rightarrow> nat \<Rightarrow> 'a raw_state_scheme \<Rightarrow> int \<times> 'a raw_state_scheme" where
  "raw_send_pkb xmit k p s =
     (let s = ip_send_out xmit p s in (pk_len (pkb s p) - int ETH_HRD_SZ - int IP_HRD_SZ, s))"

definition raw_send_buf ::
  "'a raw_state_scheme xmit_fun \<Rightarrow> nat \<Rightarrow> bytes \<Rightarrow> int \<Rightarrow> sock_addr option \<Rightarrow> 'a raw_state_scheme \<Rightarrow>
   int \<times> 'a raw_state_scheme" where
  "raw_send_buf xmit k buf sz skaddr s =
     (if sz < 0 \<or> sz > RAW_MAX_BUFSZ then (- 1, s)
      else
        let (p, s) = alloc_pkb (int ETH_HRD_SZ + int IP_HRD_SZ + sz) s;
            s = upd_data p (\<lambda>d. memcpy d (ETH_HRD_SZ + IP_HRD_SZ) buf (nat sz)) s;
            s = raw_init_pkb k p skaddr s
        in raw_send_pkb xmit k p s)"

definition raw_alloc_sock :: "int \<Rightarrow> 'a raw_state_scheme \<Rightarrow> nat option \<times> 'a raw_state_scheme" where
  "raw_alloc_sock protocol s =
     (if protocol = IP_P_IP then (None, s)
      else
        let (k, s) = new_sock (zero_sock\<lparr>sk_ops := Raw_Ops, sk_hash := word_of_int protocol\<rparr>) s
        in (Some k, s\<lparr>raw_id := raw_id s + 1\<rparr>))"

definition raw_init :: "'a raw_state_scheme \<Rightarrow> 'a raw_state_scheme" where
  "raw_init s = s\<lparr>hlists := (\<lambda>h. case h of Raw_Head _ \<Rightarrow> [] | _ \<Rightarrow> hlists s h), raw_id := 0\<rparr>"

definition raw_match :: "u32 \<Rightarrow> u32 \<Rightarrow> u8 \<Rightarrow> sock \<Rightarrow> bool" where
  "raw_match src dst proto k \<longleftrightarrow>
     sk_protocol k = proto \<and> (sk_saddr k = 0 \<or> sk_saddr k = src) \<and> (sk_daddr k = 0 \<or> sk_daddr k = dst)"

text \<open>\<open>__raw_lookup_sock\<close>, on the socks that follow the given list head.\<close>

definition raw_lookup_in :: "nat list \<Rightarrow> u32 \<Rightarrow> u32 \<Rightarrow> u8 \<Rightarrow> 'a sk_state_scheme \<Rightarrow> nat option" where
  "raw_lookup_in ks src dst proto s = find (\<lambda>k. raw_match src dst proto (sk_at s k)) ks"

definition hlist_after :: "nat \<Rightarrow> 'a sk_state_scheme \<Rightarrow> nat list" where
  "hlist_after k s =
     (case hash_list (sk_at s k) of None \<Rightarrow> [] | Some h \<Rightarrow> tl (dropWhile (\<lambda>x. x \<noteq> k) (hlists s h)))"

definition raw_lookup_sock_next :: "nat \<Rightarrow> u32 \<Rightarrow> u32 \<Rightarrow> u8 \<Rightarrow> 'a sk_state_scheme \<Rightarrow> nat option" where
  "raw_lookup_sock_next k src dst proto s = raw_lookup_in (hlist_after k s) src dst proto s"

definition raw_lookup_sock :: "u32 \<Rightarrow> u32 \<Rightarrow> u8 \<Rightarrow> 'a sk_state_scheme \<Rightarrow> nat option" where
  "raw_lookup_sock src dst proto s =
     (let ks = hlists s (Raw_Head (unat (proto AND 0xff)))
      in if ks = [] then None else raw_lookup_in ks src dst proto s)"

section \<open>raw.c\<close>

definition raw_recv :: "nat \<Rightarrow> nat \<Rightarrow> 'a sk_state_scheme \<Rightarrow> 'a sk_state_scheme" where
  "raw_recv p k s =
     (if recv_wait (sk_at s k) = None then set_fault Null_Deref s
      else
        let s = upd_sk k (\<lambda>x. x\<lparr>recv_queue := recv_queue x @ [p]\<rparr>) s
        in upd_pkb p (\<lambda>b. b\<lparr>pk_sk := Some k\<rparr>) s)"

text \<open>The walk over all matching socks: as many rounds as the hash list has nodes are enough.\<close>

fun raw_in_loop :: "nat \<Rightarrow> nat \<Rightarrow> nat option \<Rightarrow> 'a sk_state_scheme \<Rightarrow> 'a sk_state_scheme" where
  "raw_in_loop n p None s = s"
| "raw_in_loop 0 p (Some k) s = set_fault Out_Of_Fuel s"
| "raw_in_loop (Suc n) p (Some k) s =
     (let (q, s) = copy_pkb p s;
          s = raw_recv q k s;
          d = data_of s p
      in raw_in_loop n p (raw_lookup_sock_next k (ip_src d) (ip_dst d) (ip_pro d) s) s)"

definition raw_in :: "nat \<Rightarrow> 'a sk_state_scheme \<Rightarrow> 'a sk_state_scheme" where
  "raw_in p s =
     (let d = data_of s p
      in raw_in_loop (length (hlists s (Raw_Head (unat (ip_pro d))))) p
           (raw_lookup_sock (ip_src d) (ip_dst d) (ip_pro d) s) s)"

end
