(* ===== verification/Udp.thy ===== *)
theory Udp
  imports Raw
begin

text \<open>
  UDP: the port table and the socket operations of \<^verbatim>\<open>src/udp/udp_sock.c\<close>, and the input side \<^verbatim>\<open>src/udp/udp.c\<close>. The slots of
  the table are the list heads \<^term>\<open>Udp_Head\<close>; their counters are a function.
\<close>

record udp_state = raw_state +
  slot_used :: "nat \<Rightarrow> int"
  best_slot :: nat
  best_update :: int
  udp_id :: u16

abbreviation (input) UDP_HASH_SIZE :: nat where "UDP_HASH_SIZE \<equiv> 128"
abbreviation (input) UDP_HASH_MASK :: u16 where "UDP_HASH_MASK \<equiv> 127"
abbreviation (input) UDP_BEST_UPDATE :: int where "UDP_BEST_UPDATE \<equiv> 10"
abbreviation (input) UDP_PORT_MAX :: u16 where "UDP_PORT_MAX \<equiv> 0xf000"
abbreviation (input) BEST_PORT_MIN :: u16 where "BEST_PORT_MIN \<equiv> 0x8000"
abbreviation (input) UDP_MAX_BUFSZ :: int where "UDP_MAX_BUFSZ \<equiv> 0xffff - 8"
abbreviation (input) UDP_DEFAULT_TTL :: u8 where "UDP_DEFAULT_TTL \<equiv> 64"

definition udp_slot :: "u16 \<Rightarrow> nat" where
  "udp_slot port = unat (port AND UDP_HASH_MASK)"

section \<open>Ports\<close>

definition udp_port_used_in :: "u16 \<Rightarrow> hlist_head \<Rightarrow> 'a sk_state_scheme \<Rightarrow> bool" where
  "udp_port_used_in port h s = list_ex (\<lambda>k. sk_sport (sk_at s k) = htons port) (hlists s h)"

definition udp_port_used :: "u16 \<Rightarrow> 'a sk_state_scheme \<Rightarrow> bool" where
  "udp_port_used port s = udp_port_used_in port (Udp_Head (udp_slot port)) s"

function udp_free_port :: "(u16 \<Rightarrow> bool) \<Rightarrow> u16 \<Rightarrow> u16" where
  "udp_free_port used port = (if port < UDP_PORT_MAX \<and> used port then udp_free_port used (port + of_nat UDP_HASH_SIZE) else port)"
  by auto

termination
proof (relation "measure (\<lambda>(u, p). 0x10000 - unat p)")
  fix used :: "u16 \<Rightarrow> bool" and port :: u16
  assume "port < UDP_PORT_MAX \<and> used port"
  then have "unat port < 0xf000" by (simp add: word_less_nat_alt)
  then have "unat (port + of_nat 128) = unat port + 128"
    by (simp add: unat_word_ariths)
  with \<open>unat port < 0xf000\<close> show "((used, port + of_nat 128), used, port) \<in> measure (\<lambda>(u, p). 0x10000 - unat p)"
    by simp
qed simp

declare udp_free_port.simps [simp del]

definition udp_get_best_port :: "'a udp_state_scheme \<Rightarrow> u16 \<times> 'a udp_state_scheme" where
  "udp_get_best_port s =
     (let best = best_slot s;
          port = of_nat best + BEST_PORT_MIN;
          port = (if slot_used s best \<noteq> 0 then udp_free_port (\<lambda>q. udp_port_used_in q (Udp_Head best) s) port else port)
      in if slot_used s best \<noteq> 0 \<and> port \<ge> UDP_PORT_MAX then (0, s)
         else (port, s\<lparr>slot_used := (slot_used s)(best := slot_used s best + 1)\<rparr>))"

definition udp_update_best :: "nat \<Rightarrow> 'a udp_state_scheme \<Rightarrow> 'a udp_state_scheme" where
  "udp_update_best h s =
     (if best_slot s \<noteq> h then if slot_used s h < slot_used s (best_slot s) then s\<lparr>best_slot := h\<rparr> else s else s)"

text \<open>The loop of \<open>udp_get_port_slow\<close> over the slots that are left.\<close>

fun udp_slow_loop :: "(nat \<Rightarrow> int) \<Rightarrow> nat list \<Rightarrow> nat \<Rightarrow> int \<Rightarrow> nat \<times> int" where
  "udp_slow_loop used [] best best_used = (best, best_used)"
| "udp_slow_loop used (i # is) best best_used =
     (if used i < best_used then udp_slow_loop used is i (used i) else udp_slow_loop used is best best_used)"

definition udp_get_port_slow :: "'a udp_state_scheme \<Rightarrow> u16 \<times> 'a udp_state_scheme" where
  "udp_get_port_slow s =
     (let (best, best_used) = udp_slow_loop (slot_used s) [0..<UDP_HASH_SIZE] (best_slot s) (slot_used s (best_slot s))
      in if best = best_slot s then (0, s)
         else udp_get_best_port (s\<lparr>best_slot := best, best_update := UDP_BEST_UPDATE\<rparr>))"

text \<open>The result of \<open>udp_get_port_slow\<close> is returned as it is, without \<^verbatim>\<open>_htons\<close>.\<close>

definition udp_get_port :: "'a udp_state_scheme \<Rightarrow> u16 \<times> 'a udp_state_scheme" where
  "udp_get_port s =
     (let best = best_slot s;
          (port, s) = udp_get_best_port s
      in if port = 0 then udp_get_port_slow s
         else
           let s = s\<lparr>best_update := best_update s - 1\<rparr>;
               s = (if best_update s \<le> 0
                    then let s = s\<lparr>best_update := UDP_BEST_UPDATE\<rparr>
                         in case find (\<lambda>i. slot_used s i < slot_used s best) [0..<UDP_HASH_SIZE] of
                              None \<Rightarrow> s
                            | Some i \<Rightarrow> s\<lparr>best_slot := i\<rparr>
                    else s)
           in (htons port, s))"

definition udp_hash :: "nat \<Rightarrow> 'a sk_state_scheme \<Rightarrow> int \<times> 'a sk_state_scheme" where
  "udp_hash k s = (0, sock_add_hash k (Udp_Head (unat (sk_hash (sk_at s k)))) s)"

definition udp_set_sport :: "nat \<Rightarrow> u16 \<Rightarrow> 'a udp_state_scheme \<Rightarrow> int \<times> 'a udp_state_scheme" where
  "udp_set_sport k nport s =
     (if nport \<noteq> 0 \<and> udp_port_used (ntohs nport) s then (- 1, s)
      else
        let (nport, s) = (if nport = 0 then udp_get_port s else (nport, s))
        in if nport = 0 then (- 1, s)
           else
             let hash = udp_slot (ntohs nport);
                 s = udp_update_best hash s;
                 s = upd_sk k (\<lambda>x. x\<lparr>sk_hash := of_nat hash\<rparr>) s;
                 s = upd_sk k (set_sport nport) s;
                 (r, s) = udp_hash k s
             in (0, s))"

definition udp_unset_sport :: "nat \<Rightarrow> 'a udp_state_scheme \<Rightarrow> 'a udp_state_scheme" where
  "udp_unset_sport k s =
     (let h = unat (sk_hash (sk_at s k));
          s = s\<lparr>slot_used := (slot_used s)(h := slot_used s h - 1)\<rparr>
      in udp_update_best h s)"

definition udp_unhash :: "nat \<Rightarrow> 'a udp_state_scheme \<Rightarrow> 'a udp_state_scheme" where
  "udp_unhash k s = sock_del_hash k (udp_unset_sport k s)"

section \<open>Sending\<close>

definition udp_send_pkb ::
  "'a udp_state_scheme xmit_fun \<Rightarrow> nat \<Rightarrow> nat \<Rightarrow> 'a udp_state_scheme \<Rightarrow> int \<times> 'a udp_state_scheme" where
  "udp_send_pkb xmit k p s =
     (let s = ip_send_out xmit p s
      in (pk_len (pkb s p) - int ETH_HRD_SZ - int IP_HRD_SZ - int UDP_HRD_SZ, s))"

definition udp_init_pkb ::
  "nat \<Rightarrow> nat \<Rightarrow> bytes \<Rightarrow> int \<Rightarrow> sock_addr \<Rightarrow> 'a udp_state_scheme \<Rightarrow> int \<times> 'a udp_state_scheme" where
  "udp_init_pkb k p buf sz skaddr s =
     (let s = upd_data p (\<lambda>d.
            let d = set_ip_hlen 5 d;
                d = set_ip_ver 4 d;
                d = set_ip_tos 0 d;
                d = set_ip_len (htons (word_of_int (pk_len (pkb s p) - int ETH_HRD_SZ))) d;
                d = set_ip_id (htons (udp_id s)) d;
                d = set_ip_fragoff 0 d;
                d = set_ip_ttl UDP_DEFAULT_TTL d;
                d = set_ip_pro (sk_protocol (sk_at s k)) d
            in set_ip_dst (dst_addr skaddr) d) s;
          (r, s) = rt_output p s
      in if r < 0 then (- 1, s)
         else
           let s = upd_data p (\<lambda>d.
                 let d = wr16 34 (sk_sport (sk_at s k)) d;
                     d = wr16 36 (dst_port skaddr) d;
                     d = wr16 38 (htons (word_of_int (sz + int UDP_HRD_SZ))) d
                 in memcpy d 42 buf (nat sz)) s;
               s = upd_data p (udp_set_checksum 34) s
           in (0, s))"

text \<open>
  \<open>udp_send_buf\<close>: without an address and without a connected destination the local variable \<^verbatim>\<open>sk_addr\<close> is read
  uninitialised; \<open>junk\<close> is what the stack holds.
\<close>

definition udp_send_buf ::
  "sock_addr \<Rightarrow> 'a udp_state_scheme xmit_fun \<Rightarrow> nat \<Rightarrow> bytes \<Rightarrow> int \<Rightarrow> sock_addr option \<Rightarrow>
   'a udp_state_scheme \<Rightarrow> int \<times> 'a udp_state_scheme" where
  "udp_send_buf junk xmit k buf sz skaddr s =
     (if sz \<le> 0 \<or> sz > UDP_MAX_BUFSZ then (- 1, s)
      else
        let a = (case skaddr of
                   Some a \<Rightarrow> junk\<lparr>dst_addr := dst_addr a, dst_port := dst_port a\<rparr>
                 | None \<Rightarrow>
                     if sk_dport (sk_at s k) \<noteq> 0
                     then junk\<lparr>dst_addr := sk_daddr (sk_at s k), dst_port := sk_dport (sk_at s k)\<rparr>
                     else junk)
        in if dst_addr a = 0 \<or> dst_port a = 0 then (- 1, s)
           else
             let (r, s) = (if sk_sport (sk_at s k) = 0 then udp_set_sport k 0 s else (0, s))
             in if r < 0 then (- 1, s)
                else
                  let (p, s) = alloc_pkb (int ETH_HRD_SZ + int IP_HRD_SZ + int UDP_HRD_SZ + sz) s;
                      (r, s) = udp_init_pkb k p buf sz a s
                  in if r < 0 then (- 1, free_pkb p s)
                     else udp_send_pkb xmit k p s)"

definition udp_lookup_sock :: "u16 \<Rightarrow> 'a sk_state_scheme \<Rightarrow> nat option \<times> 'a sk_state_scheme" where
  "udp_lookup_sock nport s =
     (let ks = hlists s (Udp_Head (udp_slot (ntohs nport)))
      in if ks = [] then (None, s)
         else case find (\<lambda>k. sk_sport (sk_at s k) = nport) ks of
                None \<Rightarrow> (None, s)
              | Some k \<Rightarrow> (Some k, get_sock k s))"

definition udp_init :: "'a udp_state_scheme \<Rightarrow> 'a udp_state_scheme" where
  "udp_init s = s\<lparr>hlists := (\<lambda>h. case h of Udp_Head _ \<Rightarrow> [] | _ \<Rightarrow> hlists s h), slot_used := (\<lambda>_. 0), best_slot := 0,
     best_update := UDP_BEST_UPDATE, udp_id := 0\<rparr>"

definition udp_alloc_sock :: "int \<Rightarrow> 'a udp_state_scheme \<Rightarrow> nat option \<times> 'a udp_state_scheme" where
  "udp_alloc_sock protocol s =
     (if protocol \<noteq> 0 \<and> protocol \<noteq> 17 then (None, s)
      else
        let (k, s) = new_sock (zero_sock\<lparr>sk_ops := Udp_Ops\<rparr>) s
        in (Some k, s\<lparr>udp_id := udp_id s + 1\<rparr>))"

section \<open>udp.c\<close>

text \<open>\<open>rxcb\<close> is the callback an application registered: it gets the socket and the packet.\<close>

definition udp_recv ::
  "'a udp_state_scheme xmit_fun \<Rightarrow> (nat \<Rightarrow> nat \<Rightarrow> 'a udp_state_scheme \<Rightarrow> 'a udp_state_scheme) \<Rightarrow> nat \<Rightarrow>
   'a udp_state_scheme \<Rightarrow> 'a udp_state_scheme" where
  "udp_recv xmit rxcb p s =
     (let d = data_of s p;
          (r, s) = udp_lookup_sock (udp_dst (ipdata d) d) s
      in case r of
           None \<Rightarrow> free_pkb p (icmp_send xmit ICMP_T_DESTUNREACH ICMP_PORT_UNREACH 0 p s)
         | Some k \<Rightarrow>
             case (case sk_sock (sk_at s k) of None \<Rightarrow> None | Some w \<Rightarrow> so_rx_cb (so_at s w)) of
               Some cb \<Rightarrow> free_pkb p (rxcb cb p s)
             | None \<Rightarrow>
                 if recv_wait (sk_at s k) = None then set_fault Null_Deref s
                 else free_sock k (upd_sk k (\<lambda>x. x\<lparr>recv_queue := recv_queue x @ [p]\<rparr>) s))"

definition udp_in ::
  "'a udp_state_scheme xmit_fun \<Rightarrow> (nat \<Rightarrow> nat \<Rightarrow> 'a udp_state_scheme \<Rightarrow> 'a udp_state_scheme) \<Rightarrow> nat \<Rightarrow>
   'a udp_state_scheme \<Rightarrow> 'a udp_state_scheme" where
  "udp_in xmit rxcb p s =
     (let d = data_of s p;
          off = ipdata d;
          udplen = ipdlen d;
          len = int (unat (ntohs (udp_length off d)))
      in if udplen < int UDP_HRD_SZ \<or> udplen < len then free_pkb p s
         else
           let udplen = (if udplen > len then len else udplen)
           in if udp_checksum off d \<noteq> 0 \<and>
                 udp_chksum (ip_src d) (ip_dst d) (word_of_int udplen) (drop off d) \<noteq> 0
              then free_pkb p s
              else udp_recv xmit rxcb p s)"

end
