(* ===== verification/Tcp_Sock.thy ===== *)
theory Tcp_Sock
  imports Udp Cbuf
begin

text \<open>
  The TCP control blocks: the structures of \<^verbatim>\<open>src/include/tcp.h\<close>, the hash tables of \<^verbatim>\<open>src/include/tcp_hash.h\<close> and the parts
  of \<^verbatim>\<open>src/tcp/tcp_sock.c\<close> that find, bind and hash a connection. A \<open>struct tcp_sock\<close> begins with its \<open>struct sock\<close>: both
  live at the same address of two heaps, so that the cast \<^verbatim>\<open>tcpsk\<close> is the identity.
\<close>

section \<open>Structures\<close>

datatype tcp_state =
    TCP_CLOSED | TCP_LISTEN | TCP_SYN_RECV | TCP_SYN_SENT | TCP_ESTABLISHED | TCP_CLOSE_WAIT
  | TCP_LAST_ACK | TCP_FIN_WAIT1 | TCP_FIN_WAIT2 | TCP_CLOSING | TCP_TIME_WAIT

datatype tcp_parent = No_Parent | Parent nat | Dead_Parent

text \<open>The list a control block is linked into by its member \<^verbatim>\<open>list\<close>.\<close>

datatype tcp_queue = Listen_Queue nat | Accept_Queue nat

text \<open>A segment that waits for reassembly: the overlay \<open>struct tcp_reass_head\<close> of its buffer.\<close>

record tcp_reass_head =
  trh_pkb :: nat
  trh_data :: nat \<comment> \<open>offset of the text in the buffer\<close>
  trh_seq :: u32
  trh_len :: u32

record tcp_sock =
  bhash_list :: "hlist_head option"
  bhash :: u32
  accept_backlog :: int
  backlog :: int
  listen_queue :: "nat list"
  accept_queue :: "nat list"
  t_list :: "tcp_queue option"
  tw_next :: "nat option"
  tw_timeout :: int
  wait_accept :: "nat option"
  wait_connect :: "nat option"
  parent :: tcp_parent
  t_flags :: u32
  rcv_buf :: "cbuf option"
  rcv_reass :: "tcp_reass_head list"
  snd_una :: u32
  snd_nxt :: u32
  snd_wnd :: u32
  snd_up :: u32
  snd_wl1 :: u32
  snd_wl2 :: u32
  iss :: u32
  rcv_nxt :: u32
  rcv_wnd :: u32
  rcv_up :: u32
  irs :: u32
  t_state :: tcp_state

text \<open>
  The segment under way; the pointers to its headers are the buffer and the offset of the TCP header in it.
\<close>

record tcp_segment =
  seg_seq :: u32
  seg_ack :: u32
  seg_lastseq :: u32
  seg_len :: u32
  seg_dlen :: u32
  seg_wnd :: u32
  seg_up :: u32
  seg_text :: nat
  seg_pkb :: nat
  seg_off :: nat

record stack_state = udp_state +
  tsk_heap :: "nat \<Rightarrow> tcp_sock"
  bfree :: int
  defport :: u16
  tcp_id :: int
  iss_seed :: u32
  timewait :: "nat option"

abbreviation (input) TCP_DEFAULT_WINDOW :: u32 where "TCP_DEFAULT_WINDOW \<equiv> 4096"
abbreviation (input) TCP_DEFAULT_TTL :: u8 where "TCP_DEFAULT_TTL \<equiv> 64"
abbreviation (input) TCP_MAX_BACKLOG :: int where "TCP_MAX_BACKLOG \<equiv> 128"
abbreviation (input) TCP_F_PUSH :: u32 where "TCP_F_PUSH \<equiv> 1"
abbreviation (input) TCP_F_ACKNOW :: u32 where "TCP_F_ACKNOW \<equiv> 2"
abbreviation (input) TCP_F_ACKDELAY :: u32 where "TCP_F_ACKDELAY \<equiv> 4"
abbreviation (input) TCP_BPORT_MIN :: u16 where "TCP_BPORT_MIN \<equiv> 0x8000"
abbreviation (input) TCP_BPORT_MAX :: u16 where "TCP_BPORT_MAX \<equiv> 0xf000"

abbreviation (input) tsk_at :: "'a stack_state_scheme \<Rightarrow> nat \<Rightarrow> tcp_sock" where "tsk_at s k \<equiv> tsk_heap s k"

definition upd_tsk :: "nat \<Rightarrow> (tcp_sock \<Rightarrow> tcp_sock) \<Rightarrow> 'a stack_state_scheme \<Rightarrow> 'a stack_state_scheme" where
  "upd_tsk k f s = s\<lparr>tsk_heap := (tsk_heap s)(k := f (tsk_heap s k))\<rparr>"

definition tcp_set_state :: "nat \<Rightarrow> tcp_state \<Rightarrow> 'a stack_state_scheme \<Rightarrow> 'a stack_state_scheme" where
  "tcp_set_state k st = upd_tsk k (\<lambda>t. t\<lparr>t_state := st\<rparr>)"

definition get_tcp_sock :: "nat \<Rightarrow> 'a stack_state_scheme \<Rightarrow> 'a stack_state_scheme" where
  "get_tcp_sock k = get_sock k"

section \<open>Queues of a listening socket\<close>

definition tcp_accept_queue_full :: "tcp_sock \<Rightarrow> bool" where
  "tcp_accept_queue_full t \<longleftrightarrow> accept_backlog t \<ge> backlog t"

text \<open>\<open>list_del\<close> of the member \<^verbatim>\<open>list\<close>: the block leaves the queue it is linked into.\<close>

definition tsk_list_del :: "nat \<Rightarrow> 'a stack_state_scheme \<Rightarrow> 'a stack_state_scheme" where
  "tsk_list_del k s =
     (let s' = upd_tsk k (\<lambda>t. t\<lparr>t_list := None\<rparr>) s
      in case t_list (tsk_at s k) of
           None \<Rightarrow> s
         | Some (Listen_Queue h) \<Rightarrow> upd_tsk h (\<lambda>t. t\<lparr>listen_queue := remove1 k (listen_queue t)\<rparr>) s'
         | Some (Accept_Queue h) \<Rightarrow> upd_tsk h (\<lambda>t. t\<lparr>accept_queue := remove1 k (accept_queue t)\<rparr>) s')"

text \<open>The counter that is incremented is that of the block itself, not that of its parent.\<close>

definition tcp_accept_enqueue :: "nat \<Rightarrow> 'a stack_state_scheme \<Rightarrow> 'a stack_state_scheme" where
  "tcp_accept_enqueue k s =
     (case parent (tsk_at s k) of
        Parent h \<Rightarrow>
          let s = tsk_list_del k s;
              s = upd_tsk h (\<lambda>t. t\<lparr>accept_queue := k # accept_queue t\<rparr>) s;
              s = upd_tsk k (\<lambda>t. t\<lparr>t_list := Some (Accept_Queue h)\<rparr>) s
          in upd_tsk k (\<lambda>t. t\<lparr>accept_backlog := accept_backlog t + 1\<rparr>) s
      | _ \<Rightarrow> set_fault Null_Deref s)"

definition tcp_accept_dequeue :: "nat \<Rightarrow> 'a stack_state_scheme \<Rightarrow> nat option \<times> 'a stack_state_scheme" where
  "tcp_accept_dequeue h s =
     (case accept_queue (tsk_at s h) of
        [] \<Rightarrow> (None, set_fault Null_Deref s)
      | k # _ \<Rightarrow>
          let s = tsk_list_del k s
          in (Some k, upd_tsk h (\<lambda>t. t\<lparr>accept_backlog := accept_backlog t - 1\<rparr>) s))"

section \<open>Established and listening connections\<close>

definition tcp_ehashfn :: "u32 \<Rightarrow> u32 \<Rightarrow> u16 \<Rightarrow> u16 \<Rightarrow> u32" where
  "tcp_ehashfn src dst sport dport =
     (let hash = (src XOR ucast sport) XOR (dst XOR ucast dport);
          hash = hash XOR drop_bit 16 hash;
          hash = hash XOR drop_bit 8 hash
      in hash AND 0x3f)"

definition tcp_ehash_conflict :: "hlist_head \<Rightarrow> nat \<Rightarrow> 'a sk_state_scheme \<Rightarrow> bool" where
  "tcp_ehash_conflict h k s =
     list_ex (\<lambda>j. sk_saddr (sk_at s k) = sk_saddr (sk_at s j) \<and> sk_daddr (sk_at s k) = sk_daddr (sk_at s j) \<and>
       sk_sport (sk_at s k) = sk_sport (sk_at s j) \<and> sk_dport (sk_at s k) = sk_dport (sk_at s j)) (hlists s h)"

definition found_sock :: "(nat \<Rightarrow> bool) \<Rightarrow> hlist_head \<Rightarrow> 'a sk_state_scheme \<Rightarrow> nat option \<times> 'a sk_state_scheme" where
  "found_sock P h s = (case find P (hlists s h) of None \<Rightarrow> (None, s) | Some k \<Rightarrow> (Some k, get_sock k s))"

definition tcp_lookup_sock_establish ::
  "u32 \<Rightarrow> u32 \<Rightarrow> u16 \<Rightarrow> u16 \<Rightarrow> 'a sk_state_scheme \<Rightarrow> nat option \<times> 'a sk_state_scheme" where
  "tcp_lookup_sock_establish src dst sport dport s =
     found_sock (\<lambda>k. sk_saddr (sk_at s k) = dst \<and> sk_daddr (sk_at s k) = src \<and>
         sk_sport (sk_at s k) = dport \<and> sk_dport (sk_at s k) = sport)
       (Tcp_Ehead (unat (tcp_ehashfn src dst sport dport))) s"

definition tcp_lookup_sock_listen :: "u32 \<Rightarrow> u16 \<Rightarrow> 'a sk_state_scheme \<Rightarrow> nat option \<times> 'a sk_state_scheme" where
  "tcp_lookup_sock_listen addr nport s =
     found_sock (\<lambda>k. (sk_saddr (sk_at s k) = 0 \<or> sk_saddr (sk_at s k) = addr) \<and> sk_sport (sk_at s k) = nport)
       (Tcp_Lhead (unat (ntohs nport AND 0x1f))) s"

definition tcp_lookup_sock ::
  "u32 \<Rightarrow> u32 \<Rightarrow> u16 \<Rightarrow> u16 \<Rightarrow> 'a sk_state_scheme \<Rightarrow> nat option \<times> 'a sk_state_scheme" where
  "tcp_lookup_sock src dst sport dport s =
     (case tcp_lookup_sock_establish src dst sport dport s of
        (Some k, s) \<Rightarrow> (Some k, s)
      | (None, s) \<Rightarrow> tcp_lookup_sock_listen dst dport s)"

definition tcp_hash :: "nat \<Rightarrow> 'a stack_state_scheme \<Rightarrow> int \<times> 'a stack_state_scheme" where
  "tcp_hash k s =
     (case t_state (tsk_at s k) of
        TCP_CLOSED \<Rightarrow> (- 1, s)
      | TCP_LISTEN \<Rightarrow>
          let h = ucast (ntohs (sk_sport (sk_at s k)) AND 0x1f);
              s = upd_sk k (\<lambda>x. x\<lparr>sk_hash := h\<rparr>) s
          in (0, sock_add_hash k (Tcp_Lhead (unat h)) s)
      | _ \<Rightarrow>
          let x = sk_at s k;
              h = tcp_ehashfn (sk_saddr x) (sk_daddr x) (sk_sport x) (sk_dport x)
          in if tcp_ehash_conflict (Tcp_Ehead (unat h)) k s then (- 1, s)
             else
               let s = upd_sk k (\<lambda>x. x\<lparr>sk_hash := h\<rparr>) s
               in (0, sock_add_hash k (Tcp_Ehead (unat h)) s))"

definition tcp_unhash :: "nat \<Rightarrow> 'a sk_state_scheme \<Rightarrow> 'a sk_state_scheme" where
  "tcp_unhash k s = upd_sk k (\<lambda>x. x\<lparr>sk_hash := 0\<rparr>) (sock_del_hash k s)"

section \<open>Ports\<close>

definition tcp_bslot :: "u16 \<Rightarrow> nat" where
  "tcp_bslot nport = unat (ntohs nport AND 0xff)"

definition tcp_port_used :: "u16 \<Rightarrow> 'a sk_state_scheme \<Rightarrow> bool" where
  "tcp_port_used nport s = list_ex (\<lambda>k. sk_sport (sk_at s k) = nport) (hlists s (Tcp_Bhead (tcp_bslot nport)))"

definition next_port :: "u16 \<Rightarrow> u16" where
  "next_port p = (if p + 1 > TCP_BPORT_MAX then TCP_BPORT_MIN else p + 1)"

text \<open>
  The search for a free port goes round the range; when every port of it is in use it never ends. A full round,
  0x7001 steps, decides this.
\<close>

fun tcp_port_loop :: "nat \<Rightarrow> 'a stack_state_scheme \<Rightarrow> 'a stack_state_scheme" where
  "tcp_port_loop 0 s = (if tcp_port_used (htons (defport s)) s then set_fault Out_Of_Fuel s else s)"
| "tcp_port_loop (Suc n) s =
     (if tcp_port_used (htons (defport s)) s then tcp_port_loop n (s\<lparr>defport := next_port (defport s)\<rparr>) else s)"

definition tcp_get_port :: "'a stack_state_scheme \<Rightarrow> u16 \<times> 'a stack_state_scheme" where
  "tcp_get_port s =
     (if bfree s \<le> 0 then (0, s)
      else
        let s = tcp_port_loop 0x7001 s;
            nport = htons (defport s)
        in (nport, s\<lparr>defport := next_port (defport s)\<rparr>))"

definition tcp_bhash :: "nat \<Rightarrow> 'a stack_state_scheme \<Rightarrow> 'a stack_state_scheme" where
  "tcp_bhash k s =
     (let s = get_tcp_sock k s;
          h = Tcp_Bhead (unat (bhash (tsk_at s k)));
          s = s\<lparr>hlists := (hlists s)(h := k # hlists s h)\<rparr>
      in upd_tsk k (\<lambda>t. t\<lparr>bhash_list := Some h\<rparr>) s)"

definition tcp_set_sport :: "nat \<Rightarrow> u16 \<Rightarrow> 'a stack_state_scheme \<Rightarrow> int \<times> 'a stack_state_scheme" where
  "tcp_set_sport k nport s =
     (if nport \<noteq> 0 \<and> tcp_port_used nport s then (- 1, s)
      else
        let (nport, s) = (if nport = 0 then tcp_get_port s else (nport, s))
        in if nport = 0 then (- 1, s)
           else
             let s = s\<lparr>bfree := bfree s - 1\<rparr>;
                 s = upd_sk k (set_sport nport) s;
                 s = upd_tsk k (\<lambda>t. t\<lparr>bhash := of_nat (tcp_bslot nport)\<rparr>) s
             in (0, tcp_bhash k s))"

definition tcp_unset_sport :: "'a stack_state_scheme \<Rightarrow> 'a stack_state_scheme" where
  "tcp_unset_sport s = s\<lparr>bfree := bfree s + 1\<rparr>"

definition tcp_unbhash :: "nat \<Rightarrow> 'a stack_state_scheme \<Rightarrow> 'a stack_state_scheme" where
  "tcp_unbhash k s =
     (case bhash_list (tsk_at s k) of
        None \<Rightarrow> s
      | Some h \<Rightarrow>
          let s = tcp_unset_sport s;
              s = s\<lparr>hlists := (hlists s)(h := remove1 k (hlists s h))\<rparr>;
              s = upd_tsk k (\<lambda>t. t\<lparr>bhash_list := None\<rparr>) s
          in free_sock k s)"

section \<open>Allocation\<close>

definition zero_tcp :: tcp_sock where
  "zero_tcp = \<lparr>bhash_list = None, bhash = 0, accept_backlog = 0, backlog = 0, listen_queue = [], accept_queue = [],
     t_list = None, tw_next = None, tw_timeout = 0, wait_accept = None, wait_connect = None, parent = No_Parent,
     t_flags = 0, rcv_buf = None, rcv_reass = [], snd_una = 0, snd_nxt = 0, snd_wnd = 0, snd_up = 0, snd_wl1 = 0,
     snd_wl2 = 0, iss = 0, rcv_nxt = 0, rcv_wnd = 0, rcv_up = 0, irs = 0, t_state = TCP_CLOSED\<rparr>"

definition tcp_alloc_sock :: "int \<Rightarrow> 'a stack_state_scheme \<Rightarrow> nat option \<times> 'a stack_state_scheme" where
  "tcp_alloc_sock protocol s =
     (if protocol \<noteq> 0 \<and> protocol \<noteq> 6 then (None, s)
      else
        let (k, s) = new_sock (zero_sock\<lparr>sk_ops := Tcp_Ops\<rparr>) s;
            s = upd_tsk k (\<lambda>_. zero_tcp\<lparr>rcv_wnd := TCP_DEFAULT_WINDOW\<rparr>) s
        in (Some k, s\<lparr>tcp_id := tcp_id s + 1\<rparr>))"

definition tcp_init :: "'a stack_state_scheme \<Rightarrow> 'a stack_state_scheme" where
  "tcp_init s =
     s\<lparr>hlists := (\<lambda>h. case h of Tcp_Ehead _ \<Rightarrow> [] | Tcp_Lhead _ \<Rightarrow> [] | _ \<Rightarrow> hlists s h),
       bfree := 0xf000 - 0x8000 + 1, tcp_id := 0\<rparr>"

definition alloc_new_iss :: "'a stack_state_scheme \<Rightarrow> u32 \<times> 'a stack_state_scheme" where
  "alloc_new_iss s =
     (let i = iss_seed s + 1; i = (if i \<ge> 0xffffffff then 12345678 else i) in (i, s\<lparr>iss_seed := i\<rparr>))"

section \<open>What the operations leave alone\<close>

lemma tcp_more_fields:
  assumes "sk_state.more s = sk_state.more t"
  shows "tsk_heap s = tsk_heap t" "bfree s = bfree t" "defport s = defport t" "tcp_id s = tcp_id t"
    "iss_seed s = iss_seed t" "timewait s = timewait t" "slot_used s = slot_used t" "best_slot s = best_slot t"
    "best_update s = best_update t" "udp_id s = udp_id t"
  using assms by (cases s; cases t; simp)+

lemma tcp_fields_simps [simp]:
  "tsk_heap (upd_pkb q g s) = tsk_heap s" "bfree (upd_pkb q g s) = bfree s" "defport (upd_pkb q g s) = defport s"
  "tcp_id (upd_pkb q g s) = tcp_id s" "iss_seed (upd_pkb q g s) = iss_seed s"
  "timewait (upd_pkb q g s) = timewait s" "tsk_heap (snd (alloc_pkb len s)) = tsk_heap s"
  "bfree (snd (alloc_pkb len s)) = bfree s" "defport (snd (alloc_pkb len s)) = defport s"
  "tcp_id (snd (alloc_pkb len s)) = tcp_id s" "iss_seed (snd (alloc_pkb len s)) = iss_seed s"
  "timewait (snd (alloc_pkb len s)) = timewait s" "tsk_heap (free_pkb q s) = tsk_heap s"
  "bfree (free_pkb q s) = bfree s" "defport (free_pkb q s) = defport s" "tcp_id (free_pkb q s) = tcp_id s"
  "iss_seed (free_pkb q s) = iss_seed s" "timewait (free_pkb q s) = timewait s"
  "tsk_heap (set_fault e s) = tsk_heap s" "bfree (set_fault e s) = bfree s" "defport (set_fault e s) = defport s"
  "tcp_id (set_fault e s) = tcp_id s" "iss_seed (set_fault e s) = iss_seed s"
  "timewait (set_fault e s) = timewait s" "tsk_heap (get_pkb q s) = tsk_heap s" "bfree (get_pkb q s) = bfree s"
  "defport (get_pkb q s) = defport s" "tcp_id (get_pkb q s) = tcp_id s" "iss_seed (get_pkb q s) = iss_seed s"
  "timewait (get_pkb q s) = timewait s" "tsk_heap (upd_sk k f s) = tsk_heap s" "bfree (upd_sk k f s) = bfree s"
  "defport (upd_sk k f s) = defport s" "tcp_id (upd_sk k f s) = tcp_id s" "iss_seed (upd_sk k f s) = iss_seed s"
  "timewait (upd_sk k f s) = timewait s" "tsk_heap (upd_so k h s) = tsk_heap s" "bfree (upd_so k h s) = bfree s"
  "defport (upd_so k h s) = defport s" "tcp_id (upd_so k h s) = tcp_id s" "iss_seed (upd_so k h s) = iss_seed s"
  "timewait (upd_so k h s) = timewait s" "tsk_heap (get_sock k s) = tsk_heap s" "bfree (get_sock k s) = bfree s"
  "defport (get_sock k s) = defport s" "tcp_id (get_sock k s) = tcp_id s" "iss_seed (get_sock k s) = iss_seed s"
  "timewait (get_sock k s) = timewait s" "tsk_heap (free_sock k s) = tsk_heap s" "bfree (free_sock k s) = bfree s"
  "defport (free_sock k s) = defport s" "tcp_id (free_sock k s) = tcp_id s" "iss_seed (free_sock k s) = iss_seed s"
  "timewait (free_sock k s) = timewait s" "tsk_heap (sock_add_hash k l s) = tsk_heap s"
  "bfree (sock_add_hash k l s) = bfree s" "defport (sock_add_hash k l s) = defport s"
  "tcp_id (sock_add_hash k l s) = tcp_id s" "iss_seed (sock_add_hash k l s) = iss_seed s"
  "timewait (sock_add_hash k l s) = timewait s" "tsk_heap (sock_del_hash k s) = tsk_heap s"
  "bfree (sock_del_hash k s) = bfree s" "defport (sock_del_hash k s) = defport s"
  "tcp_id (sock_del_hash k s) = tcp_id s" "iss_seed (sock_del_hash k s) = iss_seed s"
  "timewait (sock_del_hash k s) = timewait s"
  by (rule tcp_more_fields; simp)+

lemma upd_tsk_simps [simp]:
  "fault (upd_tsk k f s) = fault s" "pk_next (upd_tsk k f s) = pk_next s"
  "alloc_pkbs (upd_tsk k f s) = alloc_pkbs s" "free_pkbs (upd_tsk k f s) = free_pkbs s"
  "dev_next (upd_tsk k f s) = dev_next s" "net_devices (upd_tsk k f s) = net_devices s"
  "loop (upd_tsk k f s) = loop s" "arp_cache (upd_tsk k f s) = arp_cache s" "arp_next (upd_tsk k f s) = arp_next s"
  "wire (upd_tsk k f s) = wire s" "rt_head (upd_tsk k f s) = rt_head s" "frag_head (upd_tsk k f s) = frag_head s"
  "ipid (upd_tsk k f s) = ipid s" "sk_heap (upd_tsk k f s) = sk_heap s" "sk_next (upd_tsk k f s) = sk_next s"
  "alloc_socks (upd_tsk k f s) = alloc_socks s" "free_socks (upd_tsk k f s) = free_socks s"
  "hlists (upd_tsk k f s) = hlists s" "so_heap (upd_tsk k f s) = so_heap s" "so_next (upd_tsk k f s) = so_next s"
  "bfree (upd_tsk k f s) = bfree s" "defport (upd_tsk k f s) = defport s" "tcp_id (upd_tsk k f s) = tcp_id s"
  "iss_seed (upd_tsk k f s) = iss_seed s" "timewait (upd_tsk k f s) = timewait s" "pkb (upd_tsk k f s) p = pkb s p"
  "dev (upd_tsk k f s) n = dev s n" "live_pkbs (upd_tsk k f s) = live_pkbs s" "pkb_inv (upd_tsk k f s) = pkb_inv s"
  "pool_room (upd_tsk k f s) = pool_room s"
  "tsk_heap (upd_tsk k f s) j = (if j = k then f (tsk_heap s k) else tsk_heap s j)"
  by (simp_all add: upd_tsk_def pkb_def dev_def live_pkbs_def pkb_inv_def pool_room_def)


section \<open>Sample states\<close>

text \<open>A stack on top of a network state, with the given sockets and hash tables.\<close>

definition idle_socket :: socket where
  "idle_socket = \<lparr>so_state = SS_UNCONNECTED, so_family = 1, so_type = 1, so_sleep = wait_init, so_ops = True, so_sk = None,
     so_refcnt = 1, so_rx_cb = None, so_live = True\<rparr>"

definition stack_on :: "ip_state \<Rightarrow> (nat \<Rightarrow> sock) \<Rightarrow> (hlist_head \<Rightarrow> nat list) \<Rightarrow> (nat \<Rightarrow> tcp_sock) \<Rightarrow> stack_state" where
  "stack_on b sks hl tsks =
     udp_state.extend (raw_state.extend (sk_state.extend (ip_state.extend b
       (sk_state.fields sks 10 0 0 hl (\<lambda>_. idle_socket) 10)) (raw_state.fields 0)) (udp_state.fields (\<lambda>_. 0) 0 10 0))
       (stack_state.fields tsks 0x7001 0x8000 0 12345678 None)"

lemma stack_on_simps [simp]:
  "fault (stack_on b sks hl tsks) = fault b" "pk_next (stack_on b sks hl tsks) = pk_next b"
  "alloc_pkbs (stack_on b sks hl tsks) = alloc_pkbs b" "free_pkbs (stack_on b sks hl tsks) = free_pkbs b"
  "dev_next (stack_on b sks hl tsks) = dev_next b" "net_devices (stack_on b sks hl tsks) = net_devices b"
  "loop (stack_on b sks hl tsks) = loop b" "arp_cache (stack_on b sks hl tsks) = arp_cache b"
  "arp_next (stack_on b sks hl tsks) = arp_next b" "wire (stack_on b sks hl tsks) = wire b"
  "rt_head (stack_on b sks hl tsks) = rt_head b" "frag_head (stack_on b sks hl tsks) = frag_head b"
  "ipid (stack_on b sks hl tsks) = ipid b" "pkb (stack_on b sks hl tsks) p = pkb b p"
  "dev (stack_on b sks hl tsks) n = dev b n" "live_pkbs (stack_on b sks hl tsks) = live_pkbs b"
  "pkb_inv (stack_on b sks hl tsks) = pkb_inv b" "pool_room (stack_on b sks hl tsks) = pool_room b"
  "sk_heap (stack_on b sks hl tsks) = sks" "hlists (stack_on b sks hl tsks) = hl"
  "tsk_heap (stack_on b sks hl tsks) = tsks" "sk_next (stack_on b sks hl tsks) = 10"
  "so_heap (stack_on b sks hl tsks) = (\<lambda>_. idle_socket)" "timewait (stack_on b sks hl tsks) = None"
  "slot_used (stack_on b sks hl tsks) = (\<lambda>_. 0)" "best_slot (stack_on b sks hl tsks) = 0"
  "best_update (stack_on b sks hl tsks) = 10" "bfree (stack_on b sks hl tsks) = 0x7001"
  "defport (stack_on b sks hl tsks) = 0x8000" "iss_seed (stack_on b sks hl tsks) = 12345678"
  by (simp_all add: stack_on_def udp_state.extend_def raw_state.extend_def sk_state.extend_def ip_state.extend_def
      sk_state.fields_def raw_state.fields_def udp_state.fields_def stack_state.fields_def pkb_def dev_def live_pkbs_def
      pkb_inv_def pool_room_def)

end
