(* ===== verification/Tcp_Out.thy ===== *)
theory Tcp_Out
  imports Tcp_Sock
begin

text \<open>
  The sending side of TCP: \<^verbatim>\<open>src/tcp/tcp_out.c\<close> and the sending functions of \<^verbatim>\<open>src/tcp/tcp_text.c\<close>. A control block argument
  that may be NULL is an option; so is the segment that is answered.
\<close>

section \<open>Bit fields of the header\<close>

definition set_tcp_doff :: "nat \<Rightarrow> u16 \<Rightarrow> bytes \<Rightarrow> bytes" where
  "set_tcp_doff off v d = wr16 (off + 12) (tcp_flags off d AND 0xff0f OR push_bit 4 (v AND 0xf)) d"

definition set_tcp_bit :: "nat \<Rightarrow> nat \<Rightarrow> bytes \<Rightarrow> bytes" where
  "set_tcp_bit off n d = wr16 (off + 12) (set_bit n (tcp_flags off d)) d"

abbreviation (input) set_fin :: "nat \<Rightarrow> bytes \<Rightarrow> bytes" where "set_fin off \<equiv> set_tcp_bit off 8"
abbreviation (input) set_syn :: "nat \<Rightarrow> bytes \<Rightarrow> bytes" where "set_syn off \<equiv> set_tcp_bit off 9"
abbreviation (input) set_rst :: "nat \<Rightarrow> bytes \<Rightarrow> bytes" where "set_rst off \<equiv> set_tcp_bit off 10"
abbreviation (input) set_psh :: "nat \<Rightarrow> bytes \<Rightarrow> bytes" where "set_psh off \<equiv> set_tcp_bit off 11"
abbreviation (input) set_ack :: "nat \<Rightarrow> bytes \<Rightarrow> bytes" where "set_ack off \<equiv> set_tcp_bit off 12"

section \<open>tcp_out.c\<close>

definition tcp_init_pkb ::
  "nat option \<Rightarrow> nat \<Rightarrow> u32 \<Rightarrow> u32 \<Rightarrow> 'a stack_state_scheme \<Rightarrow> int \<times> 'a stack_state_scheme" where
  "tcp_init_pkb tsk p saddr daddr s =
     (let s = upd_data p (\<lambda>d.
            let d = set_ip_hlen 5 d;
                d = set_ip_ver 4 d;
                d = set_ip_tos 0 d;
                d = set_ip_len (htons (word_of_int (pk_len (pkb s p) - int ETH_HRD_SZ))) d;
                d = set_ip_id (htons (word_of_int (tcp_id s))) d;
                d = set_ip_fragoff 0 d;
                d = set_ip_ttl TCP_DEFAULT_TTL d;
                d = set_ip_pro IP_P_TCP d
            in set_ip_dst daddr d) s;
          (r, s) =
            (case (case tsk of None \<Rightarrow> None | Some k \<Rightarrow> sk_dst (sk_at s k)) of
               Some rt \<Rightarrow> (0 :: int, upd_pkb p (\<lambda>b. b\<lparr>pk_rtdst := Some rt\<rparr>) s)
             | None \<Rightarrow>
                 let (r, s) = rt_output p s
                 in if r < 0 then (- 1, s)
                    else (0, case tsk of None \<Rightarrow> s | Some k \<Rightarrow> upd_sk k (\<lambda>x. x\<lparr>sk_dst := pk_rtdst (pkb s p)\<rparr>) s))
      in if r < 0 then (- 1, s) else (0, upd_data p (set_ip_src saddr) s))"

definition tcp_send_out ::
  "'a stack_state_scheme xmit_fun \<Rightarrow> nat option \<Rightarrow> nat \<Rightarrow> tcp_segment option \<Rightarrow>
   'a stack_state_scheme \<Rightarrow> 'a stack_state_scheme" where
  "tcp_send_out xmit tsk p seg s =
     (case (case seg of
              Some g \<Rightarrow> Some (ip_dst (data_of s (seg_pkb g)), ip_src (data_of s (seg_pkb g)))
            | None \<Rightarrow>
                (case tsk of
                   Some k \<Rightarrow> Some (sk_saddr (sk_at s k), sk_daddr (sk_at s k))
                 | None \<Rightarrow> None)) of
        None \<Rightarrow> set_fault Assert_Failure s
      | Some (saddr, daddr) \<Rightarrow>
          let (r, s) = tcp_init_pkb tsk p saddr daddr s
          in if r < 0 then free_pkb p s
             else ip_send_out xmit p (upd_data p (tcp_set_checksum 34) s))"

definition tcp_send_reset ::
  "'a stack_state_scheme xmit_fun \<Rightarrow> nat option \<Rightarrow> tcp_segment \<Rightarrow> 'a stack_state_scheme \<Rightarrow> 'a stack_state_scheme" where
  "tcp_send_reset xmit tsk g s =
     (let t = data_of s (seg_pkb g); off = seg_off g
      in if tcp_rst off t then s
         else
           let (p, s) = alloc_pkb (int (ETH_HRD_SZ + IP_HRD_SZ + TCP_HRD_SZ)) s;
               s = upd_data p (\<lambda>d.
                 let d = wr16 34 (tcp_dst off t) d;
                     d = wr16 36 (tcp_src off t) d;
                     d = (if tcp_ack off t then wr32 38 (tcp_ackn off t) d
                          else set_ack 34 (wr32 42 (htonl (seg_seq g + seg_len g)) d));
                     d = set_tcp_doff 34 5 d
                 in set_rst 34 d) s
           in tcp_send_out xmit None p (Some g) s)"

text \<open>\<open>tcp_send_ack\<close> reads the segment it is given without a check.\<close>

definition tcp_send_ack ::
  "'a stack_state_scheme xmit_fun \<Rightarrow> nat \<Rightarrow> tcp_segment option \<Rightarrow> 'a stack_state_scheme \<Rightarrow> 'a stack_state_scheme" where
  "tcp_send_ack xmit k seg s =
     (case seg of
        None \<Rightarrow> set_fault Null_Deref s
      | Some g \<Rightarrow>
          let t = data_of s (seg_pkb g); off = seg_off g
          in if tcp_rst off t then s
             else
               let (p, s) = alloc_pkb (int (ETH_HRD_SZ + IP_HRD_SZ + TCP_HRD_SZ)) s;
                   c = tsk_at s k;
                   s = upd_data p (\<lambda>d.
                     let d = wr16 34 (tcp_dst off t) d;
                         d = wr16 36 (tcp_src off t) d;
                         d = set_tcp_doff 34 5 d;
                         d = wr32 38 (htonl (snd_nxt c)) d;
                         d = wr32 42 (htonl (rcv_nxt c)) d;
                         d = set_ack 34 d
                     in wr16 48 (htons (ucast (rcv_wnd c))) d) s
               in tcp_send_out xmit (Some k) p (Some g) s)"

definition tcp_send_synack ::
  "'a stack_state_scheme xmit_fun \<Rightarrow> nat \<Rightarrow> tcp_segment \<Rightarrow> 'a stack_state_scheme \<Rightarrow> 'a stack_state_scheme" where
  "tcp_send_synack xmit k g s =
     (let t = data_of s (seg_pkb g); off = seg_off g
      in if tcp_rst off t then s
         else
           let (p, s) = alloc_pkb (int (ETH_HRD_SZ + IP_HRD_SZ + TCP_HRD_SZ)) s;
               c = tsk_at s k;
               s = upd_data p (\<lambda>d.
                 let d = wr16 34 (tcp_dst off t) d;
                     d = wr16 36 (tcp_src off t) d;
                     d = set_tcp_doff 34 5 d;
                     d = wr32 38 (htonl (iss c)) d;
                     d = wr32 42 (htonl (rcv_nxt c)) d;
                     d = set_syn 34 d;
                     d = set_ack 34 d
                 in wr16 48 (htons (ucast (rcv_wnd c))) d) s
           in tcp_send_out xmit (Some k) p (Some g) s)"

definition tcp_send_syn ::
  "'a stack_state_scheme xmit_fun \<Rightarrow> nat \<Rightarrow> tcp_segment option \<Rightarrow> 'a stack_state_scheme \<Rightarrow> 'a stack_state_scheme" where
  "tcp_send_syn xmit k seg s =
     (let (p, s) = alloc_pkb (int (ETH_HRD_SZ + IP_HRD_SZ + TCP_HRD_SZ)) s;
          c = tsk_at s k; x = sk_at s k;
          s = upd_data p (\<lambda>d.
            let d = wr16 34 (sk_sport x) d;
                d = wr16 36 (sk_dport x) d;
                d = set_tcp_doff 34 5 d;
                d = wr32 38 (htonl (iss c)) d;
                d = set_syn 34 d
            in wr16 48 (htons (ucast (rcv_wnd c))) d) s
      in tcp_send_out xmit (Some k) p seg s)"

definition tcp_send_fin ::
  "'a stack_state_scheme xmit_fun \<Rightarrow> nat \<Rightarrow> 'a stack_state_scheme \<Rightarrow> 'a stack_state_scheme" where
  "tcp_send_fin xmit k s =
     (let (p, s) = alloc_pkb (int (ETH_HRD_SZ + IP_HRD_SZ + TCP_HRD_SZ)) s;
          c = tsk_at s k; x = sk_at s k;
          s = upd_data p (\<lambda>d.
            let d = wr16 34 (sk_sport x) d;
                d = wr16 36 (sk_dport x) d;
                d = set_tcp_doff 34 5 d;
                d = wr32 38 (htonl (snd_nxt c)) d;
                d = wr16 48 (htons (ucast (rcv_wnd c))) d;
                d = set_fin 34 d;
                d = wr32 42 (htonl (rcv_nxt c)) d
            in set_ack 34 d) s
      in tcp_send_out xmit (Some k) p None s)"

section \<open>tcp_text.c: sending\<close>

definition tcp_init_text ::
  "nat \<Rightarrow> nat \<Rightarrow> bytes \<Rightarrow> int \<Rightarrow> 'a stack_state_scheme \<Rightarrow> 'a stack_state_scheme" where
  "tcp_init_text k p buf sz s =
     (let c = tsk_at s k; x = sk_at s k;
          s = upd_data p (\<lambda>d.
            let d = wr16 34 (sk_sport x) d;
                d = wr16 36 (sk_dport x) d;
                d = set_tcp_doff 34 5 d;
                d = wr32 38 (htonl (snd_nxt c)) d;
                d = wr32 42 (htonl (rcv_nxt c)) d;
                d = set_ack 34 d;
                d = wr16 48 (htons (ucast (rcv_wnd c))) d
            in memcpy d 54 buf (nat sz)) s
      in upd_tsk k (\<lambda>t. t\<lparr>snd_nxt := snd_nxt t + word_of_int sz, snd_wnd := snd_wnd t - word_of_int sz\<rparr>) s)"

text \<open>
  The loop of \<open>tcp_send_text\<close>. With a positive segment size every round sends at least one byte, so \<open>len\<close> rounds
  are enough; a device whose MTU leaves no room for text makes the loop endless.
\<close>

fun tcp_text_loop ::
  "nat \<Rightarrow> 'a stack_state_scheme xmit_fun \<Rightarrow> nat \<Rightarrow> bytes \<Rightarrow> int \<Rightarrow> int \<Rightarrow> int \<Rightarrow> 'a stack_state_scheme \<Rightarrow>
   int \<times> 'a stack_state_scheme" where
  "tcp_text_loop 0 xmit k buf len slen segsize s =
     (if slen < len then (slen, set_fault Out_Of_Fuel s) else (slen, s))"
| "tcp_text_loop (Suc n) xmit k buf len slen segsize s =
     (if slen < len
      then
        let segsize = min segsize (len - slen);
            (p, s) = alloc_pkb (int (ETH_HRD_SZ + IP_HRD_SZ + TCP_HRD_SZ) + segsize) s;
            s = tcp_init_text k p (drop (nat slen) buf) segsize s;
            slen = slen + segsize;
            s = (if slen \<ge> len then upd_data p (set_psh 34) s else s);
            s = tcp_send_out xmit (Some k) p None s
        in tcp_text_loop n xmit k buf len slen segsize s
      else (slen, s))"

definition tcp_send_text ::
  "'a stack_state_scheme xmit_fun \<Rightarrow> nat \<Rightarrow> bytes \<Rightarrow> int \<Rightarrow> 'a stack_state_scheme \<Rightarrow> int \<times> 'a stack_state_scheme" where
  "tcp_send_text xmit k buf len s =
     (case sk_dst (sk_at s k) of
        None \<Rightarrow> (- 1, set_fault Null_Deref s)
      | Some rt \<Rightarrow>
          let segsize = net_mtu (dev s (rt_dev rt)) - int IP_HRD_SZ - int TCP_HRD_SZ;
              len = min len (sint (snd_wnd (tsk_at s k)));
              (slen, s) = tcp_text_loop (nat len) xmit k buf len 0 segsize s
          in if slen = 0 then (- 1, tcp_send_ack xmit k None s) else (slen, s))"

end
