(* ===== verification/Tcp_Text.thy ===== *)
theory Tcp_Text
  imports Tcp_Out
begin

text \<open>
  The receiving side of \<^verbatim>\<open>src/tcp/tcp_text.c\<close> and the reassembly of \<^verbatim>\<open>src/tcp/tcp_reass.c\<close>. The list of waiting segments is
  a list of overlays; the overlay of a buffer is written over the first 32 bytes of its data, whose last
  eight, the sequence number and the length, lie on the addresses of the IP header. (The 24 bytes of pointers in
  front are not read again as packet data, and the model leaves them as they are.)
\<close>

section \<open>Text for the user\<close>

definition tcp_free_buf :: "nat \<Rightarrow> 'a stack_state_scheme \<Rightarrow> 'a stack_state_scheme" where
  "tcp_free_buf k = upd_tsk k (\<lambda>t. t\<lparr>rcv_buf := None\<rparr>)"

definition tcp_write_buf :: "nat \<Rightarrow> bytes \<Rightarrow> u32 \<Rightarrow> 'a stack_state_scheme \<Rightarrow> int \<times> 'a stack_state_scheme" where
  "tcp_write_buf k data len s =
     (let s = (if rcv_buf (tsk_at s k) = None
               then upd_tsk k (\<lambda>t. t\<lparr>rcv_buf := Some (alloc_cbuf (sint (rcv_wnd t)))\<rparr>) s else s)
      in case write_cbuf (rcv_buf (tsk_at s k)) data (sint len) of
           None \<Rightarrow> (0, set_fault Out_Of_Fuel s)
         | Some (c, rlen) \<Rightarrow>
             let s = upd_tsk k (\<lambda>t. t\<lparr>rcv_buf := c\<rparr>) s;
                 s = (if rlen > 0
                      then upd_tsk k (\<lambda>t. t\<lparr>rcv_wnd := rcv_wnd t - word_of_int rlen, rcv_nxt := rcv_nxt t + word_of_int rlen\<rparr>) s
                      else s)
             in (rlen, s))"

text \<open>The macro \<open>ADJACENT_SEGMENT_HEAD\<close>; None is its \<^verbatim>\<open>goto out\<close>.\<close>

definition adjacent_segment_head :: "u32 \<Rightarrow> tcp_segment \<Rightarrow> tcp_segment option" where
  "adjacent_segment_head nseq g =
     (if nseq > seg_seq g
      then if seg_dlen g \<le> nseq - seg_seq g then None
           else Some (g\<lparr>seg_dlen := seg_dlen g - (nseq - seg_seq g), seg_text := seg_text g + unat (nseq - seg_seq g),
                  seg_seq := nseq\<rparr>)
      else Some g)"

section \<open>tcp_reass.c\<close>

fun tcp_free_reass :: "nat \<Rightarrow> tcp_reass_head list \<Rightarrow> 'a stack_state_scheme \<Rightarrow> 'a stack_state_scheme" where
  "tcp_free_reass k [] s = s"
| "tcp_free_reass k (t # ts) s = tcp_free_reass k ts (free_pkb (trh_pkb t) (upd_tsk k (\<lambda>c. c\<lparr>rcv_reass := ts\<rparr>) s))"

definition tcp_free_reass_head :: "nat \<Rightarrow> 'a stack_state_scheme \<Rightarrow> 'a stack_state_scheme" where
  "tcp_free_reass_head k s = tcp_free_reass k (rcv_reass (tsk_at s k)) s"

text \<open>
  The first loop stops at the first entry behind the segment and cuts the segment at the end of the entry
  in front of it. When there is none in front, that entry is read from the list head itself: its fields \<^verbatim>\<open>seq\<close>
  and \<^verbatim>\<open>len\<close> are then the members \<^verbatim>\<open>snd_wnd\<close> and \<^verbatim>\<open>snd_up\<close> that follow the head in the control block.
\<close>

definition reass_head_cut :: "tcp_sock \<Rightarrow> tcp_reass_head list \<Rightarrow> tcp_reass_head list \<Rightarrow> tcp_segment \<Rightarrow> tcp_segment option" where
  "reass_head_cut c pre rest g =
     (case rest of
        [] \<Rightarrow> Some g
      | _ # _ \<Rightarrow>
          adjacent_segment_head
            (if pre = [] then snd_wnd c + snd_up c else trh_seq (last pre) + trh_len (last pre)) g)"

text \<open>
  The second loop: entries that the segment covers are dropped, the segment is cut at the first one it does not
  cover. The first result is false for its \<^verbatim>\<open>goto out\<close>.
\<close>

fun reass_tail_cut ::
  "tcp_reass_head list \<Rightarrow> tcp_segment \<Rightarrow> 'a stack_state_scheme \<Rightarrow>
   bool \<times> tcp_segment \<times> tcp_reass_head list \<times> 'a stack_state_scheme" where
  "reass_tail_cut [] g s = (True, g, [], s)"
| "reass_tail_cut (t # ts) g s =
     (if seg_seq g + seg_dlen g < trh_seq t + trh_len t
      then if seg_seq g + seg_dlen g > trh_seq t
           then let g = g\<lparr>seg_dlen := trh_seq t - seg_seq g\<rparr>
                in (seg_dlen g \<noteq> 0, g, t # ts, s)
           else (True, g, t # ts, s)
      else reass_tail_cut ts g (free_pkb (trh_pkb t) s))"

text \<open>The third loop: entries that are next in the stream go to the user's buffer.\<close>

fun reass_write ::
  "nat \<Rightarrow> tcp_reass_head list \<Rightarrow> int \<Rightarrow> 'a stack_state_scheme \<Rightarrow> int \<times> 'a stack_state_scheme" where
  "reass_write k [] len s = (len, s)"
| "reass_write k (t # ts) len s =
     (if trh_seq t > rcv_nxt (tsk_at s k) then (len, s)
      else if trh_seq t \<noteq> rcv_nxt (tsk_at s k) then (len, set_fault Assert_Failure s)
      else
        let (rlen, s) = tcp_write_buf k (drop (trh_data t) (data_of s (trh_pkb t))) (trh_len t) s
        in if rlen \<le> 0 then (len, s)
           else
             let s = upd_tsk k (\<lambda>c. c\<lparr>rcv_reass := ts\<rparr>) s
             in reass_write k ts (len + rlen) (free_pkb (trh_pkb t) s))"

definition tcp_segment_reass ::
  "nat \<Rightarrow> tcp_segment \<Rightarrow> nat \<Rightarrow> 'a stack_state_scheme \<Rightarrow> tcp_segment \<times> 'a stack_state_scheme" where
  "tcp_segment_reass k g p s =
     (let c = tsk_at s k;
          pre = takeWhile (\<lambda>t. \<not> seg_seq g < trh_seq t) (rcv_reass c);
          rest = dropWhile (\<lambda>t. \<not> seg_seq g < trh_seq t) (rcv_reass c)
      in case reass_head_cut c pre rest g of
           None \<Rightarrow> (g, s)
         | Some g \<Rightarrow>
             let (ok, g, rest, s) = reass_tail_cut rest g s
             in if \<not> ok then (g, upd_tsk k (\<lambda>c. c\<lparr>rcv_reass := pre @ rest\<rparr>) s)
                else
                 let s = upd_data p (\<lambda>d. wr32 28 (seg_dlen g) (wr32 24 (seg_seq g) d)) s;
                     t = \<lparr>trh_pkb = p, trh_data = seg_text g, trh_seq = seg_seq g, trh_len = seg_dlen g\<rparr>;
                     s = upd_tsk k (\<lambda>c. c\<lparr>rcv_reass := pre @ t # rest\<rparr>) s;
                     s = get_pkb p s;
                     (len, s) = reass_write k (pre @ t # rest) 0 s
                 in (g, if len > 0 \<and> tcp_psh (seg_off g) (data_of s (seg_pkb g))
                        then upd_tsk k (\<lambda>c. c\<lparr>t_flags := t_flags c OR TCP_F_PUSH\<rparr>) s else s))"

section \<open>tcp_text.c: receiving\<close>

definition tcp_recv_notify :: "nat \<Rightarrow> 'a sk_state_scheme \<Rightarrow> 'a sk_state_scheme" where
  "tcp_recv_notify k s = (if recv_wait (sk_at s k) \<noteq> None then wake_up (recv_wait (sk_at s k)) s else s)"

definition set_tflags :: "nat \<Rightarrow> u32 \<Rightarrow> 'a stack_state_scheme \<Rightarrow> 'a stack_state_scheme" where
  "set_tflags k f = upd_tsk k (\<lambda>c. c\<lparr>t_flags := t_flags c OR f\<rparr>)"

definition tcp_recv_text ::
  "nat \<Rightarrow> tcp_segment \<Rightarrow> nat \<Rightarrow> 'a stack_state_scheme \<Rightarrow> tcp_segment \<times> 'a stack_state_scheme" where
  "tcp_recv_text k g p s =
     (let (g, s) =
            (if rcv_wnd (tsk_at s k) = 0 then (g, s)
             else
               case adjacent_segment_head (rcv_nxt (tsk_at s k)) g of
                 None \<Rightarrow> (g, s)
               | Some g \<Rightarrow>
                   if rcv_nxt (tsk_at s k) = seg_seq g \<and> rcv_reass (tsk_at s k) = []
                   then
                     let (rlen, s) = tcp_write_buf k (drop (seg_text g) (data_of s (seg_pkb g))) (seg_dlen g) s;
                         s = (if rlen > 0 \<and> tcp_psh (seg_off g) (data_of s (seg_pkb g)) then set_tflags k TCP_F_PUSH s else s)
                     in (g, set_tflags k TCP_F_ACKDELAY s)
                   else
                     let (g, s) = tcp_segment_reass k g p s
                     in (g, set_tflags k TCP_F_ACKNOW s))
      in (g, if t_flags (tsk_at s k) AND TCP_F_PUSH \<noteq> 0 then tcp_recv_notify k s else s))"

end
