(* ===== verification/Tcp_State.thy ===== *)
theory Tcp_State
  imports Tcp_Text
begin

text \<open>
  The input side of TCP: \<^verbatim>\<open>src/tcp/tcp_in.c\<close>, the state machine of \<^verbatim>\<open>src/tcp/tcp_state.c\<close> and the timer of the state
  TIME-WAIT, \<^verbatim>\<open>src/tcp/tcp_timer.c\<close>. The steps of \<open>tcp_process\<close> are definitions of their own, in the order and with the
  numbers the code gives them.
\<close>

section \<open>tcp_timer.c\<close>

abbreviation (input) TCP_TIMEWAIT_TIMEOUT :: int where "TCP_TIMEWAIT_TIMEOUT \<equiv> 2000000"

definition tcp_set_timewait_timer :: "nat \<Rightarrow> 'a stack_state_scheme \<Rightarrow> 'a stack_state_scheme" where
  "tcp_set_timewait_timer k s =
     (let s = tcp_set_state k TCP_TIME_WAIT s;
          s = upd_tsk k (\<lambda>c. c\<lparr>tw_timeout := TCP_TIMEWAIT_TIMEOUT\<rparr>) s;
          s = upd_tsk k (\<lambda>c. c\<lparr>tw_next := timewait s\<rparr>) s;
          s = s\<lparr>timewait := Some k\<rparr>
      in get_tcp_sock k s)"

text \<open>An assignment through \<^verbatim>\<open>pprev\<close>: the list head, or the link of a control block.\<close>

definition tw_link :: "nat option \<Rightarrow> nat option \<Rightarrow> 'a stack_state_scheme \<Rightarrow> 'a stack_state_scheme" where
  "tw_link pprev n s = (case pprev of None \<Rightarrow> s\<lparr>timewait := n\<rparr> | Some k \<Rightarrow> upd_tsk k (\<lambda>c. c\<lparr>tw_next := n\<rparr>) s)"

definition tcp_expire :: "nat \<Rightarrow> 'a stack_state_scheme \<Rightarrow> 'a stack_state_scheme" where
  "tcp_expire k s =
     (let s = (if parent (tsk_at s k) = No_Parent then tcp_unbhash k s else s);
          s = tcp_unhash k s;
          s = tcp_set_state k TCP_CLOSED s
      in free_sock k s)"

fun tcp_timewait_loop ::
  "nat \<Rightarrow> int \<Rightarrow> nat option \<Rightarrow> nat option \<Rightarrow> 'a stack_state_scheme \<Rightarrow> 'a stack_state_scheme" where
  "tcp_timewait_loop n delta pprev None s = s"
| "tcp_timewait_loop 0 delta pprev (Some k) s = set_fault Out_Of_Fuel s"
| "tcp_timewait_loop (Suc n) delta pprev (Some k) s =
     (let nxt = tw_next (tsk_at s k);
          s = upd_tsk k (\<lambda>c. c\<lparr>tw_next := None\<rparr>) s;
          s = upd_tsk k (\<lambda>c. c\<lparr>tw_timeout := tw_timeout c - delta\<rparr>) s
      in if tw_timeout (tsk_at s k) \<le> 0
         then tcp_timewait_loop n delta pprev nxt (tw_link pprev nxt (tcp_expire k s))
         else tcp_timewait_loop n delta (Some k) nxt s)"

definition tcp_timewait_timer :: "int \<Rightarrow> 'a stack_state_scheme \<Rightarrow> 'a stack_state_scheme" where
  "tcp_timewait_timer delta s = tcp_timewait_loop (sk_next s) delta None (timewait s) s"

text \<open>The timer thread: its start and one round of its loop, with the counter of the rounds.\<close>

abbreviation (input) TCP_TIMER_DELTA :: u32 where "TCP_TIMER_DELTA \<equiv> 200000"

definition tcp_timer_init :: "'a stack_state_scheme \<Rightarrow> 'a stack_state_scheme" where
  "tcp_timer_init s = s\<lparr>timewait := None\<rparr>"

definition tcp_timer_round :: "u32 \<Rightarrow> 'a stack_state_scheme \<Rightarrow> u32 \<times> 'a stack_state_scheme" where
  "tcp_timer_round i s =
     (let i = i + 1
      in (i, if i mod (1000000 div TCP_TIMER_DELTA) = 0 then tcp_timewait_timer 1000000 s else s))"

section \<open>CLOSED and LISTEN\<close>

definition tcp_listen_child_sock ::
  "nat \<Rightarrow> tcp_segment \<Rightarrow> 'a stack_state_scheme \<Rightarrow> nat option \<times> 'a stack_state_scheme" where
  "tcp_listen_child_sock k g s =
     (case tcp_alloc_sock (uint (sk_protocol (sk_at s k))) s of
        (None, s) \<Rightarrow> (None, set_fault Null_Deref s)
      | (Some j, s) \<Rightarrow>
          let d = data_of s (seg_pkb g);
              s = tcp_set_state j TCP_SYN_RECV s;
              s = upd_sk j (set_saddr (ip_dst d)) s;
              s = upd_sk j (set_daddr (ip_src d)) s;
              s = upd_sk j (set_sport (tcp_dst (seg_off g) d)) s;
              s = upd_sk j (set_dport (tcp_src (seg_off g) d)) s;
              (r, s) = tcp_hash j s
          in if r < 0 then (None, upd_sk j (\<lambda>x. x\<lparr>sk_live := False\<rparr>) s)
             else
               let s = get_tcp_sock k s;
                   s = upd_tsk j (\<lambda>c. c\<lparr>parent := Parent k\<rparr>) s;
                   s = upd_tsk k (\<lambda>c. c\<lparr>listen_queue := j # listen_queue c\<rparr>) s;
                   s = upd_tsk j (\<lambda>c. c\<lparr>t_list := Some (Listen_Queue k)\<rparr>) s
               in (Some j, get_tcp_sock j s))"

definition tcp_listen_segment ::
  "'a stack_state_scheme xmit_fun \<Rightarrow> nat \<Rightarrow> tcp_segment \<Rightarrow> nat \<Rightarrow> 'a stack_state_scheme \<Rightarrow> 'a stack_state_scheme" where
  "tcp_listen_segment xmit p g k s =
     (let d = data_of s (seg_pkb g); off = seg_off g
      in if tcp_rst off d then free_pkb p s
         else if tcp_ack off d then free_pkb p (tcp_send_reset xmit (Some k) g s)
         else if \<not> tcp_syn off d then free_pkb p s
         else
           case tcp_listen_child_sock k g s of
             (None, s) \<Rightarrow> free_pkb p s
           | (Some j, s) \<Rightarrow>
               let s = upd_tsk j (\<lambda>c. c\<lparr>irs := seg_seq g\<rparr>) s;
                   (i, s) = alloc_new_iss s;
                   s = upd_tsk j (\<lambda>c. c\<lparr>iss := i\<rparr>) s;
                   s = upd_tsk j (\<lambda>c. c\<lparr>rcv_nxt := seg_seq g + 1\<rparr>) s;
                   s = tcp_send_synack xmit j g s;
                   s = upd_tsk j (\<lambda>c. c\<lparr>snd_nxt := iss c + 1\<rparr>) s;
                   s = upd_tsk j (\<lambda>c. c\<lparr>snd_una := iss c\<rparr>) s
               in free_pkb p s)"

definition tcp_closed ::
  "'a stack_state_scheme xmit_fun \<Rightarrow> nat option \<Rightarrow> nat \<Rightarrow> tcp_segment \<Rightarrow> 'a stack_state_scheme \<Rightarrow> 'a stack_state_scheme" where
  "tcp_closed xmit tsk p g s =
     (let s = (if tsk = None then tcp_send_reset xmit tsk g s else s) in free_pkb p s)"

section \<open>SYN-SENT\<close>

definition tcp_synsent ::
  "'a stack_state_scheme xmit_fun \<Rightarrow> nat \<Rightarrow> tcp_segment \<Rightarrow> nat \<Rightarrow> 'a stack_state_scheme \<Rightarrow> 'a stack_state_scheme" where
  "tcp_synsent xmit p g k s =
     (let d = data_of s (seg_pkb g); off = seg_off g
      in if tcp_ack off d \<and> (seg_ack g \<le> iss (tsk_at s k) \<or> seg_ack g > snd_nxt (tsk_at s k))
         then free_pkb p (tcp_send_reset xmit (Some k) g s)
         else if tcp_rst off d
         then
           let s = (if tcp_ack off d
                    then let s = tcp_set_state k TCP_CLOSED s
                         in if wait_connect (tsk_at s k) \<noteq> None then wake_up (wait_connect (tsk_at s k)) s else s
                    else s)
           in free_pkb p s
         else if tcp_syn off d
         then
           let s = upd_tsk k (\<lambda>c. c\<lparr>irs := seg_seq g\<rparr>) s;
               s = upd_tsk k (\<lambda>c. c\<lparr>rcv_nxt := seg_seq g + 1\<rparr>) s;
               s = (if tcp_ack off d then upd_tsk k (\<lambda>c. c\<lparr>snd_una := seg_ack g\<rparr>) s else s)
           in if snd_una (tsk_at s k) > iss (tsk_at s k)
              then
                let s = tcp_set_state k TCP_ESTABLISHED s;
                    s = upd_tsk k (\<lambda>c. c\<lparr>snd_wnd := seg_wnd g, snd_wl1 := seg_seq g, snd_wl2 := seg_ack g\<rparr>) s;
                    s = tcp_send_ack xmit k (Some g) s;
                    s = wake_up (wait_connect (tsk_at s k)) s
                in free_pkb p s
              else tcp_send_synack xmit k g (tcp_set_state k TCP_SYN_RECV s)
         else free_pkb p s)"

section \<open>The other states\<close>

definition tcp_synrecv_ack :: "nat \<Rightarrow> 'a stack_state_scheme \<Rightarrow> int \<times> 'a stack_state_scheme" where
  "tcp_synrecv_ack k s =
     (case parent (tsk_at s k) of
        Parent h \<Rightarrow>
          if t_state (tsk_at s h) \<noteq> TCP_LISTEN then (- 1, s)
          else if tcp_accept_queue_full (tsk_at s h) then (- 1, s)
          else
            let s = tcp_accept_enqueue k s
            in (0, wake_up (wait_accept (tsk_at s h)) s)
      | _ \<Rightarrow> (- 1, set_fault Null_Deref s))"

definition seq_check :: "tcp_segment \<Rightarrow> tcp_sock \<Rightarrow> bool" where
  "seq_check g c \<longleftrightarrow>
     (let rcv_end = rcv_nxt c + (if rcv_wnd c \<noteq> 0 then rcv_wnd c else 1)
      in seg_seq g < rcv_end \<and> rcv_nxt c \<le> seg_lastseq g)"

definition tcp_set_window :: "nat \<Rightarrow> tcp_segment \<Rightarrow> 'a stack_state_scheme \<Rightarrow> 'a stack_state_scheme" where
  "tcp_set_window k g = upd_tsk k (\<lambda>c. c\<lparr>snd_wnd := seg_wnd g, snd_wl1 := seg_seq g, snd_wl2 := seg_ack g\<rparr>)"

definition tcp_update_window :: "nat \<Rightarrow> tcp_segment \<Rightarrow> 'a stack_state_scheme \<Rightarrow> 'a stack_state_scheme" where
  "tcp_update_window k g s =
     (let c = tsk_at s k
      in if (snd_una c \<le> seg_ack g \<and> seg_ack g \<le> snd_nxt c) \<and>
            (snd_wl1 c < seg_seq g \<or> snd_wl1 c = seg_seq g \<and> snd_wl2 c \<le> seg_ack g)
         then tcp_set_window k g s else s)"

text \<open>The label \<open>drop\<close>: an acknowledgement when a flag asks for one, then the buffer is released.\<close>

definition tcp_drop ::
  "'a stack_state_scheme xmit_fun \<Rightarrow> nat \<Rightarrow> tcp_segment \<Rightarrow> nat \<Rightarrow> 'a stack_state_scheme \<Rightarrow> 'a stack_state_scheme" where
  "tcp_drop xmit p g k s =
     (let s = (if t_flags (tsk_at s k) AND (TCP_F_ACKNOW OR TCP_F_ACKDELAY) \<noteq> 0 then tcp_send_ack xmit k (Some g) s else s)
      in free_pkb p s)"

text \<open>Second: a reset aborts the connection.\<close>

definition tcp_rst_step :: "nat \<Rightarrow> 'a stack_state_scheme \<Rightarrow> 'a stack_state_scheme" where
  "tcp_rst_step k s =
     (let s = (if t_state (tsk_at s k) = TCP_SYN_RECV
               then if parent (tsk_at s k) \<noteq> No_Parent then tcp_unhash k s
                    else if wait_connect (tsk_at s k) \<noteq> None then wake_up (wait_connect (tsk_at s k)) s else s
               else s);
          s = tcp_set_state k TCP_CLOSED s;
          s = tcp_unhash k s
      in tcp_unbhash k s)"

text \<open>Fourth: a SYN. The code goes on with the next step afterwards.\<close>

definition tcp_syn_step ::
  "'a stack_state_scheme xmit_fun \<Rightarrow> tcp_segment \<Rightarrow> nat \<Rightarrow> 'a stack_state_scheme \<Rightarrow> 'a stack_state_scheme" where
  "tcp_syn_step xmit g k s =
     (let s = tcp_send_reset xmit (Some k) g s;
          s = (if t_state (tsk_at s k) = TCP_SYN_RECV \<and> parent (tsk_at s k) \<noteq> No_Parent then tcp_unhash k s else s);
          s = tcp_set_state k TCP_CLOSED s
      in free_sock k s)"

text \<open>Fifth: the acknowledgement. The result is false when the code jumps to \<^verbatim>\<open>drop\<close>.\<close>

definition tcp_ack_step ::
  "'a stack_state_scheme xmit_fun \<Rightarrow> tcp_segment \<Rightarrow> nat \<Rightarrow> 'a stack_state_scheme \<Rightarrow> bool \<times> 'a stack_state_scheme" where
  "tcp_ack_step xmit g k s =
     (let c = tsk_at s k
      in if t_state c = TCP_SYN_RECV
         then
           if snd_una c \<le> seg_ack g \<and> seg_ack g \<le> snd_nxt c
           then
             let (r, s) = tcp_synrecv_ack k s
             in if r < 0 then (False, s)
                else
                  let s = upd_tsk k (\<lambda>c. c\<lparr>snd_una := seg_ack g\<rparr>) s;
                      s = tcp_set_window k g s
                  in (True, tcp_set_state k TCP_ESTABLISHED s)
           else (False, tcp_send_reset xmit (Some k) g s)
         else if t_state c \<in> {TCP_ESTABLISHED, TCP_CLOSE_WAIT, TCP_LAST_ACK, TCP_FIN_WAIT1, TCP_CLOSING}
         then
           if snd_una c < seg_ack g \<and> seg_ack g \<le> snd_nxt c
           then
             let s = upd_tsk k (\<lambda>c. c\<lparr>snd_una := seg_ack g\<rparr>) s
             in case t_state c of
                  TCP_FIN_WAIT1 \<Rightarrow> (True, tcp_update_window k g (tcp_set_state k TCP_FIN_WAIT2 s))
                | TCP_CLOSING \<Rightarrow> (False, tcp_set_timewait_timer k s)
                | TCP_LAST_ACK \<Rightarrow> (False, tcp_unbhash k (tcp_unhash k (tcp_set_state k TCP_CLOSED s)))
                | _ \<Rightarrow> (True, tcp_update_window k g s)
           else if seg_ack g > snd_nxt c then (False, s)
           else (True, tcp_update_window k g s)
         else (True, s))"

text \<open>Seventh: the text.\<close>

definition tcp_text_step ::
  "tcp_segment \<Rightarrow> nat \<Rightarrow> nat \<Rightarrow> 'a stack_state_scheme \<Rightarrow> tcp_segment \<times> 'a stack_state_scheme" where
  "tcp_text_step g p k s =
     (if t_state (tsk_at s k) \<in> {TCP_ESTABLISHED, TCP_FIN_WAIT1, TCP_FIN_WAIT2} \<and>
         (tcp_psh (seg_off g) (data_of s (seg_pkb g)) \<or> seg_dlen g > 0)
      then tcp_recv_text k g p s else (g, s))"

text \<open>Eighth: a FIN.\<close>

definition tcp_fin_step :: "tcp_segment \<Rightarrow> nat \<Rightarrow> 'a stack_state_scheme \<Rightarrow> 'a stack_state_scheme" where
  "tcp_fin_step g k s =
     (let s =
        (case t_state (tsk_at s k) of
           TCP_SYN_RECV \<Rightarrow> tcp_recv_notify k (set_tflags k TCP_F_PUSH (tcp_set_state k TCP_CLOSE_WAIT s))
         | TCP_ESTABLISHED \<Rightarrow> tcp_recv_notify k (set_tflags k TCP_F_PUSH (tcp_set_state k TCP_CLOSE_WAIT s))
         | TCP_FIN_WAIT1 \<Rightarrow> tcp_set_state k TCP_CLOSING s
         | TCP_TIME_WAIT \<Rightarrow> upd_tsk k (\<lambda>c. c\<lparr>tw_timeout := TCP_TIMEWAIT_TIMEOUT\<rparr>) s
         | TCP_FIN_WAIT2 \<Rightarrow> tcp_set_timewait_timer k s
         | _ \<Rightarrow> s);
         s = upd_tsk k (\<lambda>c. c\<lparr>rcv_nxt := seg_seq g + 1\<rparr>) s
      in set_tflags k TCP_F_ACKNOW s)"

definition tcp_process ::
  "'a stack_state_scheme xmit_fun \<Rightarrow> nat \<Rightarrow> tcp_segment \<Rightarrow> nat option \<Rightarrow> 'a stack_state_scheme \<Rightarrow> 'a stack_state_scheme" where
  "tcp_process xmit p g tsk s =
     (case tsk of
        None \<Rightarrow> tcp_closed xmit None p g s
      | Some k \<Rightarrow>
          let d = data_of s (seg_pkb g); off = seg_off g; c = tsk_at s k
          in if t_state c = TCP_CLOSED then tcp_closed xmit (Some k) p g s
             else if t_state c = TCP_LISTEN then tcp_listen_segment xmit p g k s
             else if t_state c = TCP_SYN_SENT then tcp_synsent xmit p g k s
             else if \<not> seq_check g c
             then tcp_drop xmit p g k (if tcp_rst off d then s else set_tflags k TCP_F_ACKNOW s)
             else if tcp_rst off d then tcp_drop xmit p g k (tcp_rst_step k s)
             else
               let s = (if tcp_syn off d then tcp_syn_step xmit g k s else s)
               in if \<not> tcp_ack off d then tcp_drop xmit p g k s
                  else
                    let (go, s) = tcp_ack_step xmit g k s
                    in if \<not> go then tcp_drop xmit p g k s
                       else
                         let (g, s) = tcp_text_step g p k s;
                             s = (if tcp_fin off d then tcp_fin_step g k s else s)
                         in tcp_drop xmit p g k s)"

section \<open>tcp_in.c\<close>

definition tcp_segment_init :: "nat \<Rightarrow> nat \<Rightarrow> bytes \<Rightarrow> tcp_segment" where
  "tcp_segment_init p off d =
     (let dlen = word_of_int (ipdlen d - int (tcphlen off d));
          len = dlen + of_bool (tcp_syn off d) + of_bool (tcp_fin off d);
          seq = ntohl (tcp_seq off d)
      in \<lparr>seg_seq = seq, seg_ack = (if tcp_ack off d then ntohl (tcp_ackn off d) else 0),
          seg_lastseq = (if len \<noteq> 0 then seq + len - 1 else seq), seg_len = len, seg_dlen = dlen,
          seg_wnd = ucast (ntohs (tcp_window off d)), seg_up = ucast (ntohs (tcp_urgptr off d)),
          seg_text = off + tcphlen off d, seg_pkb = p, seg_off = off\<rparr>)"

definition tcp_recv ::
  "'a stack_state_scheme xmit_fun \<Rightarrow> nat \<Rightarrow> 'a stack_state_scheme \<Rightarrow> 'a stack_state_scheme" where
  "tcp_recv xmit p s =
     (let d = data_of s p; off = ipdata d;
          g = tcp_segment_init p off d;
          (k, s) = tcp_lookup_sock (ip_src d) (ip_dst d) (tcp_src off d) (tcp_dst off d) s;
          s = tcp_process xmit p g k s
      in case k of None \<Rightarrow> s | Some k \<Rightarrow> free_sock k s)"

definition tcp_in ::
  "'a stack_state_scheme xmit_fun \<Rightarrow> nat \<Rightarrow> 'a stack_state_scheme \<Rightarrow> 'a stack_state_scheme" where
  "tcp_in xmit p s =
     (let d = data_of s p; off = ipdata d; tcplen = ipdlen d
      in if tcplen < int TCP_HRD_SZ \<or> tcplen < int (tcphlen off d) then free_pkb p s
         else if tcp_chksum (ip_src d) (ip_dst d) (word_of_int tcplen) (drop off d) \<noteq> 0 then free_pkb p s
         else tcp_recv xmit p s)"

end
