(* ===== verification/Tcp_Api.thy ===== *)
theory Tcp_Api
  imports Tcp_State
begin

text \<open>
  The operations of a TCP socket in \<^verbatim>\<open>src/tcp/tcp_sock.c\<close> that the socket layer calls. \<open>env\<close> is what the other threads do
  while the caller sleeps; the result None is a call that never returns.
\<close>

section \<open>Opening\<close>

definition tcp_wait_connect ::
  "('a stack_state_scheme \<Rightarrow> 'a stack_state_scheme) \<Rightarrow> nat \<Rightarrow> 'a stack_state_scheme \<Rightarrow> int \<times> 'a stack_state_scheme" where
  "tcp_wait_connect env k s =
     (let (err, s) = sleep_on env (wait_connect (tsk_at s k)) s
      in (err, upd_tsk k (\<lambda>c. c\<lparr>wait_connect := None\<rparr>) s))"

definition tcp_connect ::
  "('a stack_state_scheme \<Rightarrow> 'a stack_state_scheme) \<Rightarrow> 'a stack_state_scheme xmit_fun \<Rightarrow> nat \<Rightarrow> sock_addr \<Rightarrow>
   'a stack_state_scheme \<Rightarrow> int \<times> 'a stack_state_scheme" where
  "tcp_connect env xmit k skaddr s =
     (if t_state (tsk_at s k) \<noteq> TCP_CLOSED then (- 1, s)
      else
        let s = upd_sk k (set_daddr (dst_addr skaddr)) s;
            s = upd_sk k (set_dport (dst_port skaddr)) s;
            s = tcp_set_state k TCP_SYN_SENT s;
            (i, s) = alloc_new_iss s;
            s = upd_tsk k (\<lambda>c. c\<lparr>iss := i\<rparr>) s;
            s = upd_tsk k (\<lambda>c. c\<lparr>snd_una := iss c\<rparr>) s;
            s = upd_tsk k (\<lambda>c. c\<lparr>snd_nxt := iss c + 1\<rparr>) s;
            (r, s) = tcp_hash k s
        in if r < 0 then (- 1, tcp_set_state k TCP_CLOSED s)
           else
             let s = upd_tsk k (\<lambda>c. c\<lparr>wait_connect := sk_sock (sk_at s k)\<rparr>) s;
                 s = tcp_send_syn xmit k None s;
                 (err, s) = tcp_wait_connect env k s
             in if err \<noteq> 0 \<or> t_state (tsk_at s k) \<noteq> TCP_ESTABLISHED
                then (- 1, tcp_set_state k TCP_CLOSED (tcp_unbhash k (tcp_unhash k s)))
                else (err, s))"

definition tcp_listen :: "nat \<Rightarrow> int \<Rightarrow> 'a stack_state_scheme \<Rightarrow> int \<times> 'a stack_state_scheme" where
  "tcp_listen k bl s =
     (let oldstate = t_state (tsk_at s k)
      in if sk_sport (sk_at s k) = 0 then (- 1, s)
         else if bl > TCP_MAX_BACKLOG then (- 1, s)
         else if oldstate \<noteq> TCP_CLOSED \<and> oldstate \<noteq> TCP_LISTEN then (- 1, s)
         else
           let s = upd_tsk k (\<lambda>c. c\<lparr>backlog := bl\<rparr>) s;
               s = tcp_set_state k TCP_LISTEN s;
               s = (if oldstate \<noteq> TCP_LISTEN then snd (tcp_hash k s) else s)
           in (0, s))"

section \<open>Accepting\<close>

definition tcp_wait_accept ::
  "('a stack_state_scheme \<Rightarrow> 'a stack_state_scheme) \<Rightarrow> nat \<Rightarrow> 'a stack_state_scheme \<Rightarrow> int \<times> 'a stack_state_scheme" where
  "tcp_wait_accept env k s =
     (let s = upd_tsk k (\<lambda>c. c\<lparr>wait_accept := sk_sock (sk_at s k)\<rparr>) s;
          (err, s) = sleep_on env (wait_accept (tsk_at s k)) s
      in (err, upd_tsk k (\<lambda>c. c\<lparr>wait_accept := None\<rparr>) s))"

partial_function (option) tcp_accept_loop ::
  "('a stack_state_scheme \<Rightarrow> 'a stack_state_scheme) \<Rightarrow> nat \<Rightarrow> 'a stack_state_scheme \<Rightarrow>
   (bool \<times> 'a stack_state_scheme) option" where
  "tcp_accept_loop env k s =
     (if accept_queue (tsk_at s k) \<noteq> [] then Some (True, s)
      else
        let (err, s) = tcp_wait_accept env k s
        in if err < 0 then Some (False, s) else tcp_accept_loop env k s)"

definition tcp_accept ::
  "('a stack_state_scheme \<Rightarrow> 'a stack_state_scheme) \<Rightarrow> nat \<Rightarrow> 'a stack_state_scheme \<Rightarrow>
   (nat option \<times> 'a stack_state_scheme) option" where
  "tcp_accept env k s =
     (case tcp_accept_loop env k s of
        None \<Rightarrow> None
      | Some (False, s) \<Rightarrow> Some (None, s)
      | Some (True, s) \<Rightarrow>
          case tcp_accept_dequeue k s of
            (None, s) \<Rightarrow> Some (None, s)
          | (Some j, s) \<Rightarrow>
              let s = free_sock j s;
                  s = (case parent (tsk_at s j) of Parent h \<Rightarrow> free_sock h s | _ \<Rightarrow> set_fault Null_Deref s)
              in Some (Some j, upd_tsk j (\<lambda>c. c\<lparr>parent := Dead_Parent\<rparr>) s))"

section \<open>Closing\<close>

fun tcp_clear_loop :: "nat \<Rightarrow> nat list \<Rightarrow> 'a stack_state_scheme \<Rightarrow> 'a stack_state_scheme" where
  "tcp_clear_loop k [] s = s"
| "tcp_clear_loop k (j # js) s =
     (let s = tsk_list_del j s;
          s = (if t_state (tsk_at s j) = TCP_SYN_RECV
               then
                 let s = (case parent (tsk_at s j) of Parent h \<Rightarrow> free_sock h s | _ \<Rightarrow> set_fault Null_Deref s);
                     s = upd_tsk j (\<lambda>c. c\<lparr>parent := No_Parent\<rparr>) s;
                     s = tcp_unhash j s
                 in free_sock j s
               else s)
      in tcp_clear_loop k js s)"

definition tcp_clear_listen_queue :: "nat \<Rightarrow> 'a stack_state_scheme \<Rightarrow> 'a stack_state_scheme" where
  "tcp_clear_listen_queue k s = tcp_clear_loop k (listen_queue (tsk_at s k)) s"

definition tcp_close ::
  "'a stack_state_scheme xmit_fun \<Rightarrow> nat \<Rightarrow> 'a stack_state_scheme \<Rightarrow> int \<times> 'a stack_state_scheme" where
  "tcp_close xmit k s =
     (let s =
        (case t_state (tsk_at s k) of
           TCP_LISTEN \<Rightarrow> tcp_set_state k TCP_CLOSED (tcp_unbhash k (tcp_unhash k (tcp_clear_listen_queue k s)))
         | TCP_ESTABLISHED \<Rightarrow>
             upd_tsk k (\<lambda>c. c\<lparr>snd_nxt := snd_nxt c + 1\<rparr>) (tcp_send_fin xmit k (tcp_set_state k TCP_FIN_WAIT1 s))
         | TCP_CLOSE_WAIT \<Rightarrow>
             upd_tsk k (\<lambda>c. c\<lparr>snd_nxt := snd_nxt c + 1\<rparr>) (tcp_send_fin xmit k (tcp_set_state k TCP_LAST_ACK s))
         | _ \<Rightarrow> s)
      in (0, tcp_free_reass_head k (tcp_free_buf k s)))"

section \<open>Sending and receiving\<close>

definition tcp_send_buf ::
  "'a stack_state_scheme xmit_fun \<Rightarrow> nat \<Rightarrow> bytes \<Rightarrow> int \<Rightarrow> 'a stack_state_scheme \<Rightarrow> int \<times> 'a stack_state_scheme" where
  "tcp_send_buf xmit k buf len s =
     (if t_state (tsk_at s k) \<in> {TCP_ESTABLISHED, TCP_CLOSE_WAIT} then tcp_send_text xmit k buf len s else (- 1, s))"

definition cbuf_filled :: "tcp_sock \<Rightarrow> bool" where
  "cbuf_filled c \<longleftrightarrow> (case rcv_buf c of None \<Rightarrow> False | Some b \<Rightarrow> CBUFUSED b \<noteq> 0)"

text \<open>The inner loop waits until there is something to return; false is a \<open>sleep_on\<close> that failed.\<close>

partial_function (option) tcp_recv_wait ::
  "('a stack_state_scheme \<Rightarrow> 'a stack_state_scheme) \<Rightarrow> nat \<Rightarrow> int \<Rightarrow> int \<Rightarrow> 'a stack_state_scheme \<Rightarrow>
   (bool \<times> 'a stack_state_scheme) option" where
  "tcp_recv_wait env k rlen len s =
     (if t_flags (tsk_at s k) AND TCP_F_PUSH \<noteq> 0 \<or> cbuf_filled (tsk_at s k) \<or> rlen \<ge> len then Some (True, s)
      else
        let (err, s) = sleep_on env (recv_wait (sk_at s k)) s
        in if err < 0 then Some (False, s) else tcp_recv_wait env k rlen len s)"

partial_function (option) tcp_recv_loop ::
  "('a stack_state_scheme \<Rightarrow> 'a stack_state_scheme) \<Rightarrow> nat \<Rightarrow> bytes \<Rightarrow> int \<Rightarrow> int \<Rightarrow> 'a stack_state_scheme \<Rightarrow>
   (int \<times> bytes \<times> 'a stack_state_scheme) option" where
  "tcp_recv_loop env k out rlen len s =
     (if rlen < len
      then
        case read_cbuf (rcv_buf (tsk_at s k)) (len - rlen) of
          None \<Rightarrow> None
        | Some (c, d, curlen) \<Rightarrow>
            let s = upd_tsk k (\<lambda>t. t\<lparr>rcv_buf := c, rcv_wnd := rcv_wnd t + word_of_int curlen\<rparr>) s;
                rlen = rlen + curlen;
                out = out @ d
            in case tcp_recv_wait env k rlen len s of
                 None \<Rightarrow> None
               | Some (ok, s) \<Rightarrow>
                   if \<not> ok then Some (if rlen > 0 then rlen else - 1, out, s)
                   else if t_flags (tsk_at s k) AND TCP_F_PUSH \<noteq> 0 \<and> \<not> cbuf_filled (tsk_at s k)
                   then Some (rlen, out, upd_tsk k (\<lambda>c. c\<lparr>t_flags := t_flags c AND NOT TCP_F_PUSH\<rparr>) s)
                   else tcp_recv_loop env k out rlen len s
      else Some (rlen, out, s))"

definition tcp_recv_buf ::
  "('a stack_state_scheme \<Rightarrow> 'a stack_state_scheme) \<Rightarrow> nat \<Rightarrow> int \<Rightarrow> 'a stack_state_scheme \<Rightarrow>
   (int \<times> bytes \<times> 'a stack_state_scheme) option" where
  "tcp_recv_buf env k len s =
     (if t_state (tsk_at s k) \<in> {TCP_ESTABLISHED, TCP_FIN_WAIT1, TCP_FIN_WAIT2} \<or>
         t_state (tsk_at s k) = TCP_CLOSE_WAIT \<and> cbuf_filled (tsk_at s k)
      then tcp_recv_loop env k [] 0 len s
      else Some (- 1, [], s))"

end
