(* ===== verification/Ip_In.thy ===== *)
theory Ip_In
  imports Tcp_State Drivers
begin

text \<open>
  The input side of the stack below the sockets: \<^verbatim>\<open>src/ip/ip_in.c\<close> and \<^verbatim>\<open>src/net/net.c\<close>. At the end the knot between
  sending and receiving is tied: the transmit function of the loopback device calls \<open>net_in\<close> again.
\<close>

abbreviation (input) IP_VERSION_4 :: u8 where "IP_VERSION_4 \<equiv> 4"

type_synonym 's rxcb_fun = "nat \<Rightarrow> nat \<Rightarrow> 's \<Rightarrow> 's"

definition ip_deliver ::
  "'a stack_state_scheme xmit_fun \<Rightarrow> 'a stack_state_scheme rxcb_fun \<Rightarrow> nat \<Rightarrow> 'a stack_state_scheme \<Rightarrow> 'a stack_state_scheme" where
  "ip_deliver xmit rxcb p s =
     (let s = raw_in p s; pro = ip_pro (data_of s p)
      in if pro = IP_P_ICMP then icmp_in xmit p s
         else if pro = IP_P_TCP then tcp_in xmit p s
         else if pro = IP_P_UDP then udp_in xmit rxcb p s
         else free_pkb p s)"

definition ip_recv_local ::
  "'a stack_state_scheme xmit_fun \<Rightarrow> 'a stack_state_scheme rxcb_fun \<Rightarrow> nat \<Rightarrow> 'a stack_state_scheme \<Rightarrow> 'a stack_state_scheme" where
  "ip_recv_local xmit rxcb p s =
     (let d = data_of s p
      in if ip_fragoff d AND (IP_FRAG_OFF OR IP_FRAG_MF) \<noteq> 0
         then if ip_fragoff d AND IP_FRAG_DF \<noteq> 0 then free_pkb p s
              else case ip_reass p s of
                     (None, s) \<Rightarrow> s
                   | (Some q, s) \<Rightarrow> ip_deliver xmit rxcb q s
         else ip_deliver xmit rxcb p s)"

definition ip_recv_route ::
  "'a stack_state_scheme xmit_fun \<Rightarrow> 'a stack_state_scheme rxcb_fun \<Rightarrow> nat \<Rightarrow> 'a stack_state_scheme \<Rightarrow> 'a stack_state_scheme" where
  "ip_recv_route xmit rxcb p s =
     (let (r, s) = rt_input xmit p s
      in if r < 0 then s
         else
           case pk_rtdst (pkb s p) of
             None \<Rightarrow> set_fault Null_Deref s
           | Some rt \<Rightarrow>
               if rt_flags rt AND RT_LOCALHOST \<noteq> 0 then ip_recv_local xmit rxcb p s
               else ip_forward xmit p (upd_data p ip_ntoh s))"

text \<open>
  The checksum is computed over the header length the packet claims before that length is compared with the packet; the
  bytes behind the packet are those of the allocation.
\<close>

definition ip_in ::
  "'a stack_state_scheme xmit_fun \<Rightarrow> 'a stack_state_scheme rxcb_fun \<Rightarrow> nat \<Rightarrow> nat \<Rightarrow> 'a stack_state_scheme \<Rightarrow> 'a stack_state_scheme" where
  "ip_in xmit rxcb n p s =
     (let b = pkb s p; d = pk_data b; hlen = iphlen d
      in if pk_type b = PKT_OTHERHOST then free_pkb p s
         else if pk_len b < int (ETH_HRD_SZ + IP_HRD_SZ) then free_pkb p s
         else if ip_ver d \<noteq> IP_VERSION_4 then free_pkb p s
         else if hlen < IP_HRD_SZ then free_pkb p s
         else
           let s = (if length d < ETH_HRD_SZ + hlen then set_fault Out_Of_Bounds s else s)
           in if ip_chksum (drop ETH_HRD_SZ d) (int hlen) \<noteq> 0 then free_pkb p s
              else
                let s = upd_data p ip_ntoh s;
                    len = unat (ip_len (data_of s p))
                in if len < hlen \<or> pk_len (pkb s p) < int (ETH_HRD_SZ + len) then free_pkb p s
                   else
                     let s = (if pk_len (pkb s p) > int (ETH_HRD_SZ + len) then pkb_trim p (int (ETH_HRD_SZ + len)) s else s)
                     in ip_recv_route xmit rxcb p s)"

section \<open>net.c\<close>

text \<open>A RARP packet is neither handled nor released.\<close>

definition net_in ::
  "'a stack_state_scheme xmit_fun \<Rightarrow> 'a stack_state_scheme rxcb_fun \<Rightarrow> nat \<Rightarrow> nat \<Rightarrow> 'a stack_state_scheme \<Rightarrow> 'a stack_state_scheme" where
  "net_in xmit rxcb n p s =
     (let (ok, s) = eth_init n p s
      in if \<not> ok then s
         else
           let s = upd_pkb p (\<lambda>b. b\<lparr>pk_indev := Some n\<rparr>) s; pro = pk_pro (pkb s p)
           in if pro = ETH_P_RARP then s
              else if pro = ETH_P_ARP then arp_in xmit n p s
              else if pro = ETH_P_IP then ip_in xmit rxcb n p s
              else free_pkb p s)"

text \<open>One round of the loop of \<open>net_timer\<close>.\<close>

definition net_timer_tick :: "'a stack_state_scheme xmit_fun \<Rightarrow> 'a stack_state_scheme \<Rightarrow> 'a stack_state_scheme" where
  "net_timer_tick xmit s = ip_timer xmit 1 (arp_timer xmit 1 s)"

section \<open>The transmit functions\<close>

text \<open>
  \<open>dev_xmit\<close> selects the driver of a device. The loopback driver calls \<open>net_in\<close>, which may send again; the depth of this
  recursion is the number of packets that answer one another on the loopback device, and the model stops with a
  fault at \<open>fuel\<close>. \<open>wr\<close> and \<open>pwr\<close> are the results of \<^verbatim>\<open>write\<close> on the tap file and on the packet socket, \<open>put\<close>
  tells whether the shared memory pipe takes the frame.
\<close>

fun dev_xmit ::
  "nat \<Rightarrow> (bytes \<Rightarrow> int) \<Rightarrow> (bytes \<Rightarrow> int) \<Rightarrow> (bytes \<Rightarrow> bool) \<Rightarrow> 'a stack_state_scheme rxcb_fun \<Rightarrow> 'a stack_state_scheme xmit_fun" where
  "dev_xmit fuel wr pwr put rxcb n p s =
     (case net_ops (dev s n) of
        Veth_Ops \<Rightarrow> veth_xmit wr n p s
      | Peth_Ops \<Rightarrow> physical_eth_dev_xmit pwr n p s
      | Shmeth_Ops \<Rightarrow> shmeth_dev_xmit put n p s
      | Loop_Ops \<Rightarrow>
          (case fuel of
             0 \<Rightarrow> set_fault Out_Of_Fuel s
           | Suc fuel \<Rightarrow> loop_xmit (net_in (dev_xmit fuel wr pwr put rxcb) rxcb) n p s)
      | No_Ops \<Rightarrow> set_fault Null_Deref s)"

end
