(* ===== verification/Socket_Api.thy ===== *)
theory Socket_Api
  imports Tcp_Api Ip_In
begin

text \<open>
  The socket layer: \<^verbatim>\<open>src/socket/inet.c\<close> and \<^verbatim>\<open>src/socket/socket.c\<close>. The operation tables of the three protocols are functions of
  the constructor that stands for the table; an entry the table does not have is a call through NULL. A pointer argument
  that may be NULL is an option.
\<close>

section \<open>The operation tables\<close>

definition op_hash :: "nat \<Rightarrow> 'a stack_state_scheme \<Rightarrow> int \<times> 'a stack_state_scheme" where
  "op_hash k s = (case sk_ops (sk_at s k) of Raw_Ops \<Rightarrow> raw_hash k s | Udp_Ops \<Rightarrow> udp_hash k s | Tcp_Ops \<Rightarrow> tcp_hash k s)"

definition op_set_port :: "nat \<Rightarrow> u16 \<Rightarrow> 'a stack_state_scheme \<Rightarrow> (int \<times> 'a stack_state_scheme) option" where
  "op_set_port k port s =
     (case sk_ops (sk_at s k) of
        Raw_Ops \<Rightarrow> None | Udp_Ops \<Rightarrow> Some (udp_set_sport k port s) | Tcp_Ops \<Rightarrow> Some (tcp_set_sport k port s))"

definition op_close :: "'a stack_state_scheme xmit_fun \<Rightarrow> nat \<Rightarrow> 'a stack_state_scheme \<Rightarrow> int \<times> 'a stack_state_scheme" where
  "op_close xmit k s =
     (case sk_ops (sk_at s k) of
        Raw_Ops \<Rightarrow> sock_close raw_unhash k s
      | Udp_Ops \<Rightarrow> sock_close udp_unhash k s
      | Tcp_Ops \<Rightarrow> tcp_close xmit k s)"

definition op_send_buf ::
  "sock_addr \<Rightarrow> 'a stack_state_scheme xmit_fun \<Rightarrow> nat \<Rightarrow> bytes \<Rightarrow> int \<Rightarrow> sock_addr option \<Rightarrow>
   'a stack_state_scheme \<Rightarrow> int \<times> 'a stack_state_scheme" where
  "op_send_buf junk xmit k buf len skaddr s =
     (case sk_ops (sk_at s k) of
        Raw_Ops \<Rightarrow> raw_send_buf xmit k buf len skaddr s
      | Udp_Ops \<Rightarrow> udp_send_buf junk xmit k buf len skaddr s
      | Tcp_Ops \<Rightarrow> tcp_send_buf xmit k buf len s)"

section \<open>inet.c\<close>

abbreviation (input) AF_INET :: int where "AF_INET \<equiv> 1"
abbreviation (input) SOCK_STREAM :: int where "SOCK_STREAM \<equiv> 1"
abbreviation (input) SOCK_DGRAM :: int where "SOCK_DGRAM \<equiv> 2"
abbreviation (input) SOCK_RAW :: int where "SOCK_RAW \<equiv> 3"
abbreviation (input) SOCK_MAX :: int where "SOCK_MAX \<equiv> 4"

text \<open>The rows of \<open>inet_type_table\<close>: the allocator and the default protocol. Row 0 is empty.\<close>

definition inet_alloc_sock ::
  "int \<Rightarrow> int \<Rightarrow> 'a stack_state_scheme \<Rightarrow> (int \<times> nat option \<times> 'a stack_state_scheme) option" where
  "inet_alloc_sock type protocol s =
     (if type = SOCK_STREAM then let (k, s) = tcp_alloc_sock protocol s in Some (6, k, s)
      else if type = SOCK_DGRAM then let (k, s) = udp_alloc_sock protocol s in Some (17, k, s)
      else if type = SOCK_RAW then let (k, s) = raw_alloc_sock protocol s in Some (0, k, s)
      else None)"

definition inet_socket :: "nat \<Rightarrow> int \<Rightarrow> 'a stack_state_scheme \<Rightarrow> int \<times> 'a stack_state_scheme" where
  "inet_socket so protocol s =
     (let type = so_type (so_at s so)
      in if type \<ge> SOCK_MAX then (- 1, s)
         else
           case inet_alloc_sock type protocol s of
             None \<Rightarrow> (- 1, set_fault Null_Deref s)
           | Some (pro, None, s) \<Rightarrow> (- 1, s)
           | Some (pro, Some k, s) \<Rightarrow>
               let protocol = (if protocol = 0 then pro else protocol);
                   s = get_sock k s;
                   s = upd_so so (\<lambda>x. x\<lparr>so_sk := Some k\<rparr>) s;
                   s = upd_sk k (\<lambda>x. x\<lparr>recv_queue := [], hash_list := None\<rparr>) s;
                   s = upd_sk k (\<lambda>x. x\<lparr>sk_protocol := word_of_int protocol\<rparr>) s;
                   s = upd_sk k (\<lambda>x. x\<lparr>sk_sock := Some so\<rparr>) s;
                   s = (if sk_hash (sk_at s k) \<noteq> 0 then snd (op_hash k s) else s);
                   s = upd_sk k (\<lambda>x. x\<lparr>recv_wait := Some so\<rparr>) s
               in (0, s))"

definition inet_close :: "'a stack_state_scheme xmit_fun \<Rightarrow> nat \<Rightarrow> 'a stack_state_scheme \<Rightarrow> int \<times> 'a stack_state_scheme" where
  "inet_close xmit so s =
     (case so_sk (so_at s so) of
        None \<Rightarrow> (- 1, s)
      | Some k \<Rightarrow>
          let (err, s) = op_close xmit k s;
              s = free_sock k s
          in (err, upd_so so (\<lambda>x. x\<lparr>so_sk := None\<rparr>) s))"

text \<open>The result also holds the address that \<open>inet_accept\<close> stores for the caller.\<close>

definition inet_accept ::
  "('a stack_state_scheme \<Rightarrow> 'a stack_state_scheme) \<Rightarrow> nat \<Rightarrow> nat \<Rightarrow> sock_addr option \<Rightarrow> 'a stack_state_scheme \<Rightarrow>
   (int \<times> sock_addr option \<times> 'a stack_state_scheme) option" where
  "inet_accept env so newso skaddr s =
     (case so_sk (so_at s so) of
        None \<Rightarrow> Some (- 1, skaddr, s)
      | Some k \<Rightarrow>
          if sk_ops (sk_at s k) \<noteq> Tcp_Ops then Some (- 1, skaddr, set_fault Null_Deref s)
          else
            case tcp_accept env k s of
              None \<Rightarrow> None
            | Some (None, s) \<Rightarrow> Some (- 1, skaddr, s)
            | Some (Some j, s) \<Rightarrow>
                let s = get_sock j s;
                    s = upd_so newso (\<lambda>x. x\<lparr>so_sk := Some j\<rparr>) s;
                    skaddr = (case skaddr of
                        None \<Rightarrow> None
                      | Some a \<Rightarrow> Some (a\<lparr>src_addr := sk_daddr (sk_at s j), src_port := sk_dport (sk_at s j)\<rparr>))
                in Some (0, skaddr, s))"

definition inet_listen :: "nat \<Rightarrow> int \<Rightarrow> 'a stack_state_scheme \<Rightarrow> int \<times> 'a stack_state_scheme" where
  "inet_listen so bl s =
     (if so_type (so_at s so) \<noteq> SOCK_STREAM then (- 1, s)
      else case so_sk (so_at s so) of None \<Rightarrow> (- 1, s) | Some k \<Rightarrow> tcp_listen k bl s)"

definition inet_bind :: "nat \<Rightarrow> sock_addr \<Rightarrow> 'a stack_state_scheme \<Rightarrow> int \<times> 'a stack_state_scheme" where
  "inet_bind so skaddr s =
     (case so_sk (so_at s so) of
        None \<Rightarrow> (- 1, set_fault Null_Deref s)
      | Some k \<Rightarrow>
          if sk_sport (sk_at s k) \<noteq> 0 then (- 1, s)
          else if \<not> local_address s (src_addr skaddr) then (- 1, s)
          else
            let s = upd_sk k (set_saddr (src_addr skaddr)) s;
                (err, s) = (case op_set_port k (src_port skaddr) s of
                              Some r \<Rightarrow> r
                            | None \<Rightarrow> (0, upd_sk k (set_sport (src_port skaddr)) s))
            in if err < 0 then (err, upd_sk k (set_saddr 0) s)
               else (0, upd_sk k (set_dport 0) (upd_sk k (set_daddr 0) s)))"

definition inet_connect ::
  "('a stack_state_scheme \<Rightarrow> 'a stack_state_scheme) \<Rightarrow> 'a stack_state_scheme xmit_fun \<Rightarrow> nat \<Rightarrow> sock_addr \<Rightarrow>
   'a stack_state_scheme \<Rightarrow> int \<times> 'a stack_state_scheme" where
  "inet_connect env xmit so skaddr s =
     (if dst_port skaddr = 0 \<or> dst_addr skaddr = 0 then (- 1, s)
      else
        case so_sk (so_at s so) of
          None \<Rightarrow> (- 1, set_fault Null_Deref s)
        | Some k \<Rightarrow>
            if sk_dport (sk_at s k) \<noteq> 0 then (- 1, s)
            else
              let (r, s) = (if sk_sport (sk_at s k) = 0
                            then case op_set_port k 0 s of None \<Rightarrow> (- 1, s) | Some r \<Rightarrow> r
                            else (0, s))
              in if r < 0 then (- 1, s)
                 else
                   case rt_lookup (dst_addr skaddr) s of
                     None \<Rightarrow> (- 1, s)
                   | Some rt \<Rightarrow>
                       let s = upd_sk k (\<lambda>x. x\<lparr>sk_dst := Some rt\<rparr>) s;
                           s = upd_sk k (set_saddr (net_ipaddr (dev s (rt_dev rt)))) s
                       in if sk_ops (sk_at s k) = Tcp_Ops then tcp_connect env xmit k skaddr s else (- 1, s))"

definition inet_read ::
  "('a stack_state_scheme \<Rightarrow> 'a stack_state_scheme) \<Rightarrow> nat \<Rightarrow> int \<Rightarrow> 'a stack_state_scheme \<Rightarrow>
   (int \<times> bytes \<times> 'a stack_state_scheme) option" where
  "inet_read env so len s =
     (case so_sk (so_at s so) of
        None \<Rightarrow> Some (- 1, [], s)
      | Some k \<Rightarrow>
          if sk_ops (sk_at s k) = Tcp_Ops then tcp_recv_buf env k len s else Some (- 1, [], set_fault Null_Deref s))"

definition inet_send ::
  "sock_addr \<Rightarrow> 'a stack_state_scheme xmit_fun \<Rightarrow> nat \<Rightarrow> bytes \<Rightarrow> int \<Rightarrow> sock_addr option \<Rightarrow>
   'a stack_state_scheme \<Rightarrow> int \<times> 'a stack_state_scheme" where
  "inet_send junk xmit so buf len skaddr s =
     (case so_sk (so_at s so) of None \<Rightarrow> (- 1, s) | Some k \<Rightarrow> op_send_buf junk xmit k buf len skaddr s)"

definition inet_write ::
  "sock_addr \<Rightarrow> 'a stack_state_scheme xmit_fun \<Rightarrow> nat \<Rightarrow> bytes \<Rightarrow> int \<Rightarrow> 'a stack_state_scheme \<Rightarrow> int \<times> 'a stack_state_scheme" where
  "inet_write junk xmit so buf len s =
     (case so_sk (so_at s so) of None \<Rightarrow> (- 1, s) | Some k \<Rightarrow> op_send_buf junk xmit k buf len None s)"

definition inet_recv ::
  "('a stack_state_scheme \<Rightarrow> bool \<times> 'a stack_state_scheme) \<Rightarrow> nat \<Rightarrow> 'a stack_state_scheme \<Rightarrow>
   (nat option \<times> 'a stack_state_scheme) option" where
  "inet_recv env so s =
     (case so_sk (so_at s so) of
        None \<Rightarrow> Some (None, s)
      | Some k \<Rightarrow>
          if sk_ops (sk_at s k) = Tcp_Ops then Some (None, set_fault Null_Deref s) else sock_recv_pkb env k s)"

definition inet_init :: "'a stack_state_scheme \<Rightarrow> 'a stack_state_scheme" where
  "inet_init s = tcp_init (udp_init (raw_init s))"

section \<open>socket.c\<close>

definition free_socket :: "'a stack_state_scheme xmit_fun \<Rightarrow> nat \<Rightarrow> 'a stack_state_scheme \<Rightarrow> 'a stack_state_scheme" where
  "free_socket xmit so s =
     (let s = (if so_live (so_at s so) then s else set_fault Double_Free s);
          s = upd_so so (\<lambda>x. x\<lparr>so_refcnt := so_refcnt x - 1\<rparr>) s
      in if so_refcnt (so_at s so) \<le> 0
         then
           let s = (if so_ops (so_at s so)
                    then upd_so so (\<lambda>x. x\<lparr>so_ops := False\<rparr>) (snd (inet_close xmit so s)) else s)
           in upd_so so (\<lambda>x. x\<lparr>so_live := False\<rparr>) s
         else s)"

definition get_socket :: "nat \<Rightarrow> 'a sk_state_scheme \<Rightarrow> 'a sk_state_scheme" where
  "get_socket so = upd_so so (\<lambda>x. x\<lparr>so_refcnt := so_refcnt x + 1\<rparr>)"

definition alloc_socket :: "int \<Rightarrow> int \<Rightarrow> 'a sk_state_scheme \<Rightarrow> nat \<times> 'a sk_state_scheme" where
  "alloc_socket family type s =
     (so_next s,
      s\<lparr>so_heap := (so_heap s)(so_next s := \<lparr>so_state = SS_UNCONNECTED, so_family = family, so_type = type,
          so_sleep = wait_init, so_ops = False, so_sk = None, so_refcnt = 1, so_rx_cb = None, so_live = True\<rparr>),
        so_next := so_next s + 1\<rparr>)"

definition socket_open ::
  "'a stack_state_scheme xmit_fun \<Rightarrow> int \<Rightarrow> int \<Rightarrow> int \<Rightarrow> 'a stack_state_scheme \<Rightarrow> nat option \<times> 'a stack_state_scheme" where
  "socket_open xmit family type protocol s =
     (if family \<noteq> AF_INET then (None, s)
      else
        let (so, s) = alloc_socket family type s;
            s = upd_so so (\<lambda>x. x\<lparr>so_ops := True\<rparr>) s;
            (r, s) = inet_socket so protocol s
        in if r < 0 then (None, free_socket xmit so s) else (Some so, s))"

definition socket_listen ::
  "'a stack_state_scheme xmit_fun \<Rightarrow> nat option \<Rightarrow> int \<Rightarrow> 'a stack_state_scheme \<Rightarrow> int \<times> 'a stack_state_scheme" where
  "socket_listen xmit sock bl s =
     (case sock of
        None \<Rightarrow> (- 1, s)
      | Some so \<Rightarrow>
          if bl < 0 then (- 1, s)
          else
            let s = get_socket so s;
                (err, s) = (if so_ops (so_at s so) then inet_listen so bl s else (- 1, s))
            in (err, free_socket xmit so s))"

definition socket_close :: "'a stack_state_scheme xmit_fun \<Rightarrow> nat option \<Rightarrow> 'a stack_state_scheme \<Rightarrow> 'a stack_state_scheme" where
  "socket_close xmit sock s = (case sock of None \<Rightarrow> s | Some so \<Rightarrow> free_socket xmit so (wait_exit so s))"

definition socket_connect ::
  "('a stack_state_scheme \<Rightarrow> 'a stack_state_scheme) \<Rightarrow> 'a stack_state_scheme xmit_fun \<Rightarrow> nat option \<Rightarrow> sock_addr option \<Rightarrow>
   'a stack_state_scheme \<Rightarrow> int \<times> 'a stack_state_scheme" where
  "socket_connect env xmit sock skaddr s =
     (case (sock, skaddr) of
        (Some so, Some a) \<Rightarrow>
          let s = get_socket so s;
              (err, s) = (if so_ops (so_at s so) then inet_connect env xmit so a s else (- 1, s))
          in (err, free_socket xmit so s)
      | _ \<Rightarrow> (- 1, s))"

definition socket_bind ::
  "'a stack_state_scheme xmit_fun \<Rightarrow> nat option \<Rightarrow> sock_addr option \<Rightarrow> 'a stack_state_scheme \<Rightarrow> int \<times> 'a stack_state_scheme" where
  "socket_bind xmit sock skaddr s =
     (case (sock, skaddr) of
        (Some so, Some a) \<Rightarrow>
          let s = get_socket so s;
              (err, s) = (if so_ops (so_at s so) then inet_bind so a s else (- 1, s))
          in (err, free_socket xmit so s)
      | _ \<Rightarrow> (- 1, s))"

definition socket_accept ::
  "('a stack_state_scheme \<Rightarrow> 'a stack_state_scheme) \<Rightarrow> 'a stack_state_scheme xmit_fun \<Rightarrow> nat option \<Rightarrow> sock_addr option \<Rightarrow>
   'a stack_state_scheme \<Rightarrow> (nat option \<times> sock_addr option \<times> 'a stack_state_scheme) option" where
  "socket_accept env xmit sock skaddr s =
     (case sock of
        None \<Rightarrow> Some (None, skaddr, s)
      | Some so \<Rightarrow>
          let s = get_socket so s;
              (newso, s) = alloc_socket (so_family (so_at s so)) (so_type (so_at s so)) s;
              s = upd_so newso (\<lambda>x. x\<lparr>so_ops := so_ops (so_at s so)\<rparr>) s
          in case (if so_ops (so_at s so) then inet_accept env so newso skaddr s else Some (0, skaddr, s)) of
               None \<Rightarrow> None
             | Some (err, skaddr, s) \<Rightarrow>
                 if err < 0
                 then Some (None, skaddr, free_socket xmit so (upd_so newso (\<lambda>x. x\<lparr>so_live := False\<rparr>) s))
                 else Some (Some newso, skaddr, free_socket xmit so s))"

text \<open>A buffer argument is an option, None for NULL; the others are the arguments of the C function.\<close>

definition socket_send ::
  "sock_addr \<Rightarrow> 'a stack_state_scheme xmit_fun \<Rightarrow> nat option \<Rightarrow> bytes option \<Rightarrow> int \<Rightarrow> sock_addr option \<Rightarrow>
   'a stack_state_scheme \<Rightarrow> int \<times> 'a stack_state_scheme" where
  "socket_send junk xmit sock buf len skaddr s =
     (case (sock, buf, skaddr) of
        (Some so, Some d, Some a) \<Rightarrow>
          if len \<le> 0 then (- 1, s)
          else
            let s = get_socket so s;
                (err, s) = (if so_ops (so_at s so) then inet_send junk xmit so d len (Some a) s else (- 1, s))
            in (err, free_socket xmit so s)
      | _ \<Rightarrow> (- 1, s))"

definition socket_recv ::
  "('a stack_state_scheme \<Rightarrow> bool \<times> 'a stack_state_scheme) \<Rightarrow> 'a stack_state_scheme xmit_fun \<Rightarrow> nat option \<Rightarrow>
   'a stack_state_scheme \<Rightarrow> (nat option \<times> 'a stack_state_scheme) option" where
  "socket_recv env xmit sock s =
     (case sock of
        None \<Rightarrow> Some (None, s)
      | Some so \<Rightarrow>
          let s = get_socket so s
          in case (if so_ops (so_at s so) then inet_recv env so s else Some (None, s)) of
               None \<Rightarrow> None
             | Some (p, s) \<Rightarrow> Some (p, free_socket xmit so s))"

definition socket_write ::
  "sock_addr \<Rightarrow> 'a stack_state_scheme xmit_fun \<Rightarrow> nat option \<Rightarrow> bytes option \<Rightarrow> int \<Rightarrow>
   'a stack_state_scheme \<Rightarrow> int \<times> 'a stack_state_scheme" where
  "socket_write junk xmit sock buf len s =
     (case (sock, buf) of
        (Some so, Some d) \<Rightarrow>
          if len \<le> 0 then (- 1, s)
          else
            let s = get_socket so s;
                (err, s) = (if so_ops (so_at s so) then inet_write junk xmit so d len s else (- 1, s))
            in (err, free_socket xmit so s)
      | _ \<Rightarrow> (- 1, s))"

definition socket_read ::
  "('a stack_state_scheme \<Rightarrow> 'a stack_state_scheme) \<Rightarrow> 'a stack_state_scheme xmit_fun \<Rightarrow> nat option \<Rightarrow> bool \<Rightarrow> int \<Rightarrow>
   'a stack_state_scheme \<Rightarrow> (int \<times> bytes \<times> 'a stack_state_scheme) option" where
  "socket_read env xmit sock has_buf len s =
     (case sock of
        None \<Rightarrow> Some (- 1, [], s)
      | Some so \<Rightarrow>
          if \<not> has_buf \<or> len \<le> 0 then Some (- 1, [], s)
          else
            let s = get_socket so s
            in case (if so_ops (so_at s so) then inet_read env so len s else Some (- 1, [], s)) of
                 None \<Rightarrow> None
               | Some (r, d, s) \<Rightarrow> Some (r, d, free_socket xmit so s))"

definition sock_set_rx_callback :: "nat option \<Rightarrow> nat option \<Rightarrow> 'a sk_state_scheme \<Rightarrow> 'a sk_state_scheme" where
  "sock_set_rx_callback sock cb s = (case sock of None \<Rightarrow> s | Some so \<Rightarrow> upd_so so (\<lambda>x. x\<lparr>so_rx_cb := cb\<rparr>) s)"

definition socket_init :: "'a stack_state_scheme \<Rightarrow> 'a stack_state_scheme" where
  "socket_init s = inet_init s"

end
