(* ===== verification/Delivery.thy ===== *)
theory Delivery
  imports Ip_In
begin

text \<open>
  The way of a packet between the device and the sockets, and of a datagram from one host to another.
\<close>

section \<open>Input of an IP packet\<close>

text \<open>A packet whose header the checks of \<open>ip_in\<close> accept.\<close>

definition ip_wellformed :: "bytes \<Rightarrow> nat \<Rightarrow> bool" where
  "ip_wellformed d len \<longleftrightarrow>
     34 \<le> len \<and> ip_ver d = 4 \<and> 20 \<le> iphlen d \<and> ip_chksum (drop 14 d) (int (iphlen d)) = 0 \<and>
     iphlen d \<le> unat (ntohs (ip_len d)) \<and> 14 + unat (ntohs (ip_len d)) \<le> len"

lemma ip_in_accepts:
  assumes d: "data_of s p = d" "pk_len (pkb s p) = int len" "ip_wellformed d len" "len \<le> length d"
    "pk_type (pkb s p) \<noteq> PKT_OTHERHOST"
  shows "ip_in xmit rxcb n p s =
    (let t = upd_data p ip_ntoh s; m = 14 + unat (ntohs (ip_len d))
     in ip_recv_route xmit rxcb p (if m < len then pkb_trim p (int m) t else t))"
proof -
  have l: "22 \<le> length d" "14 + iphlen d \<le> length d" using assms(3,4) by (auto simp: ip_wellformed_def)
  have len: "ip_len (ip_ntoh d) = ntohs (ip_len d)" using ip_ntoh_fields(1) [OF l(1)] .
  show ?thesis
    using assms l(2) by (simp add: ip_in_def Let_def ip_wellformed_def len del: of_nat_unat)
qed

text \<open>
  C26: malformed packets are dropped without effect. A packet that fails one of the checks (shorter than the two headers, another
  version, a header length below 20, a wrong header checksum, a total length below the header's or beyond what was received) is
  released once by \<open>ip_in\<close>; nothing is sent, no fault occurs, and neither another buffer nor any table or socket changes. (The header
  must lie in the buffer: the checksum is computed before its length is checked.)
\<close>

theorem ip_in_rejects:
  fixes s :: "'a stack_state_scheme"
  assumes "data_of s p = d" "pk_len (pkb s p) = int len" "pk_live (pkb s p)" "len \<le> length d" "14 + iphlen d \<le> length d"
    and "\<not> ip_wellformed d len"
  shows "let t = ip_in xmit rxcb n p s in
    wire t = wire s \<and> fault t = fault s \<and> pk_refcnt (pkb t p) = pk_refcnt (pkb s p) - 1 \<and> (\<forall>q. q \<noteq> p \<longrightarrow> pkb t q = pkb s q) \<and>
    arp_cache t = arp_cache s \<and> dev_heap t = dev_heap s \<and> net_state.more t = net_state.more s"
proof -
  define t where "t = upd_data p ip_ntoh s"
  have "ip_in xmit rxcb n p s = free_pkb p s \<or> ip_in xmit rxcb n p s = free_pkb p t"
  proof (cases "len < 34 \<or> ip_ver d \<noteq> 4 \<or> iphlen d < 20 \<or> ip_chksum (drop 14 d) (int (iphlen d)) \<noteq> 0")
    case True
    then show ?thesis using assms by (auto simp: ip_in_def Let_def)
  next
    case False
    have "22 \<le> length d" using False assms(4) by simp
    then have l: "ip_len (ip_ntoh d) = ntohs (ip_len d)" by (rule ip_ntoh_fields(1))
    have "unat (ntohs (ip_len d)) < iphlen d \<or> int len < int (14 + unat (ntohs (ip_len d)))"
      using False assms(6) by (auto simp: ip_wellformed_def simp del: of_nat_unat)
    then show ?thesis using False assms by (auto simp: ip_in_def Let_def t_def l simp del: of_nat_unat)
  qed
  moreover have "pk_live (pkb t p)" "wire t = wire s" "fault t = fault s" "pk_refcnt (pkb t p) = pk_refcnt (pkb s p)"
    "q \<noteq> p \<Longrightarrow> pkb t q = pkb s q" "arp_cache t = arp_cache s" "dev_heap t = dev_heap s" "net_state.more t = net_state.more s" for q
    using assms(3) by (simp_all add: t_def)
  ultimately show ?thesis using assms(3) by (auto simp: Let_def free_pkb_live)
qed

text \<open>A packet of 43 bytes whose version is 6.\<close>

theorem ip_in_rejects_witness:
  "let s = stack_on (sample_router [wr8 14 0x65 sample_udp_in]) (\<lambda>_. zero_sock) (\<lambda>_. []) (\<lambda>_. zero_tcp);
       t = ip_in (veth_xmit (\<lambda>f. int (length f))) (\<lambda>_ _ s. s) 0 0 s in
   wire t = [] \<and> fault t = None \<and> pk_refcnt (pkb t 0) = pk_refcnt (pkb s 0) - 1"
proof -
  let ?d = "wr8 14 0x65 sample_udp_in"
  let ?s = "stack_on (sample_router [?d]) (\<lambda>_. zero_sock) (\<lambda>_. []) (\<lambda>_. zero_tcp)"
  note r = sample_router_ok [of "[?d]", simplified] and h = sample_host_fields [of "[?d]", simplified]
  have d: "length ?d = 43" "iphlen ?d = 20" "ip_ver ?d = 6"
    by (simp_all add: sample_udp_in_def iphlen_def ip_hlen_def ip_ver_def eval_simps wr8_def)
  have s: "data_of ?s 0 = ?d" "pk_len (pkb ?s 0) = int 43" "pk_live (pkb ?s 0)" "43 \<le> length ?d" "14 + iphlen ?d \<le> length ?d"
    "\<not> ip_wellformed ?d 43"
    using r h d by (simp_all add: ip_wellformed_def) (simp add: sample_router_def)
  show ?thesis
    using ip_in_rejects [OF s, of "veth_xmit (\<lambda>f. int (length f))" "\<lambda>_ _ s. s" 0] unfolding Let_def by (simp add: r)
qed

lemma net_in_ip:
  assumes "data_of s p = d" "pk_len (pkb s p) = int len" "14 \<le> len" "eth_dst d = net_hwaddr (dev s n)"
    "\<not> is_eth_multicast (eth_dst d)" "ntohs (eth_pro d) = ETH_P_IP"
  shows "net_in xmit rxcb n p s =
    ip_in xmit rxcb n p (upd_pkb p (\<lambda>b. b\<lparr>pk_type := PKT_LOCALHOST, pk_pro := ETH_P_IP, pk_indev := Some n\<rparr>) s)"
proof -
  have "length (net_hwaddr (dev s n)) = 6" by (simp flip: assms(4))
  then show ?thesis
    using assms by (simp add: net_in_def eth_init_def Let_def hwaddr_at_self comp_def)
qed

lemma ip_recv_route_local:
  assumes "rt_lookup (ip_dst (data_of s p)) s = Some rt" "rt_flags rt AND RT_LOCALHOST \<noteq> 0"
  shows "ip_recv_route xmit rxcb p s = ip_recv_local xmit rxcb p (upd_pkb p (\<lambda>b. b\<lparr>pk_rtdst := Some rt\<rparr>) s)"
  using assms by (simp add: ip_recv_route_def rt_input_def Let_def)

lemma ip_recv_local_whole:
  assumes "ip_fragoff (data_of s p) AND (IP_FRAG_OFF OR IP_FRAG_MF) = 0"
    "hlists s (Raw_Head (unat (ip_pro (data_of s p)))) = []"
  shows "ip_recv_local xmit rxcb p s =
    (let pro = ip_pro (data_of s p) in
     if pro = IP_P_ICMP then icmp_in xmit p s else if pro = IP_P_TCP then tcp_in xmit p s
     else if pro = IP_P_UDP then udp_in xmit rxcb p s else free_pkb p s)"
proof -
  have "(0xff :: u8) = - 1" by simp
  then have "x AND 0xff = x" for x :: u8 by (simp only: and.right_neutral)
  then have "raw_in p s = s" using assms(2) by (simp add: raw_in_def raw_lookup_sock_def Let_def)
  with assms(1) show ?thesis by (simp add: ip_recv_local_def ip_deliver_def Let_def)
qed

definition udp_wellformed :: "bytes \<Rightarrow> bool" where
  "udp_wellformed d \<longleftrightarrow>
     (let off = ipdata d; len = unat (ntohs (udp_length off d)) in
      8 \<le> unat (ip_len d) - iphlen d \<and> len \<le> unat (ip_len d) - iphlen d \<and> iphlen d \<le> unat (ip_len d) \<and>
      (udp_checksum off d = 0 \<or> udp_chksum (ip_src d) (ip_dst d) (ntohs (udp_length off d)) (drop off d) = 0))"

text \<open>A socket that receives the datagrams for a port, and no callback takes them away.\<close>

definition udp_receiver :: "'a sk_state_scheme \<Rightarrow> u16 \<Rightarrow> nat \<Rightarrow> bool" where
  "udp_receiver s nport k \<longleftrightarrow>
     fst (udp_lookup_sock nport s) = Some k \<and> recv_wait (sk_at s k) \<noteq> None \<and> sk_live (sk_at s k) \<and> 0 < sk_refcnt (sk_at s k) \<and>
     (case sk_sock (sk_at s k) of None \<Rightarrow> True | Some w \<Rightarrow> so_rx_cb (so_at s w) = None)"

lemma udp_in_recv:
  assumes "udp_wellformed (data_of s p)"
  shows "udp_in xmit rxcb p s = udp_recv xmit rxcb p s"
proof -
  let ?d = "data_of s p" and ?off = "ipdata (data_of s p)"
  let ?l = "ntohs (udp_length ?off ?d)"
  have w: "iphlen ?d + 8 \<le> unat (ip_len ?d)" "iphlen ?d + unat ?l \<le> unat (ip_len ?d)"
    "udp_checksum ?off ?d = 0 \<or> udp_chksum (ip_src ?d) (ip_dst ?d) ?l (drop ?off ?d) = 0"
    using assms by (auto simp: udp_wellformed_def Let_def)
  have "(if ipdlen ?d > int (unat ?l) then int (unat ?l) else ipdlen ?d) = int (unat ?l)"
    using w(2) by (simp add: ipdlen_def del: of_nat_unat)
  moreover have "\<not> (ipdlen ?d < int 8 \<or> ipdlen ?d < int (unat ?l))"
    using w(1,2) by (simp add: ipdlen_def del: of_nat_unat)
  moreover have "word_of_int (int (unat ?l)) = ?l" by simp
  ultimately show ?thesis
    using w(3) unfolding udp_in_def Let_def by (simp only: if_False) auto
qed

lemma udp_recv_queues:
  assumes "udp_receiver s (udp_dst (ipdata (data_of s p)) (data_of s p)) k"
  shows "let t = udp_recv xmit rxcb p s in
    sk_heap t k = (sk_heap s k)\<lparr>recv_queue := recv_queue (sk_heap s k) @ [p]\<rparr> \<and>
    (\<forall>j. j \<noteq> k \<longrightarrow> sk_heap t j = sk_heap s j) \<and> (\<forall>q. pkb t q = pkb s q) \<and> fault t = fault s \<and> wire t = wire s \<and>
    hlists t = hlists s"
proof -
  let ?port = "udp_dst (ipdata (data_of s p)) (data_of s p)"
  have look: "udp_lookup_sock ?port s = (Some k, get_sock k s)"
    using assms by (auto simp: udp_receiver_def udp_lookup_sock_def Let_def split: option.splits if_splits)
  show ?thesis
    using assms unfolding udp_recv_def Let_def look udp_receiver_def
    by (auto simp: get_sock_def free_sock_def Let_def split: option.splits)
qed

section \<open>Frames in receive buffers\<close>

text \<open>
  A receive buffer is as large as the MTU allows; the frame is its first part. What is read from the frame is read from
  the buffer.
\<close>

definition holds_frame :: "'a net_state_scheme \<Rightarrow> nat \<Rightarrow> bytes \<Rightarrow> bool" where
  "holds_frame s p f \<longleftrightarrow>
     pk_live (pkb s p) \<and> pk_len (pkb s p) = int (length f) \<and> length f \<le> length (data_of s p) \<and>
     take (length f) (data_of s p) = f"

lemma take_ip_ntoh:
  assumes "take m d = f" "m \<le> length d" "34 \<le> m"
  shows "take m (ip_ntoh d) = ip_ntoh f"
proof (rule nth_equalityI)
  show len: "length (take m (ip_ntoh d)) = length (ip_ntoh f)" using assms by auto
  fix i assume "i < length (take m (ip_ntoh d))"
  then have i: "i < m" "i < length d" "i < length f" using len by auto
  have "ip_id d = ip_id f" "22 \<le> length d" "22 \<le> length f" using take_views(2) [OF assms(1,2)] assms by auto
  then have "rd8 (ip_ntoh d) i = rd8 (ip_ntoh f) i"
    using take_ip_views(3,4) [OF assms] take_views(1) [OF assms(1,2) i(1)] by (simp add: rd8_ip_ntoh del: lo8_htons hi8_htons)
  with i show "take m (ip_ntoh d) ! i = ip_ntoh f ! i" by (simp add: rd8_def)
qed

lemma ip_wellformed_take:
  assumes "take m d = f" "m \<le> length d" "ip_wellformed f m"
  shows "ip_wellformed d m"
proof -
  have m: "34 \<le> m" "14 + iphlen f \<le> m" using assms(3) by (auto simp: ip_wellformed_def)
  then show ?thesis
    using assms(3) take_ip_views [OF assms(1,2) m(1)] chksum_take [OF assms(1,2) m(2)]
    by (simp add: ip_wellformed_def ip_chksum_def)
qed

lemma udp_wellformed_take:
  assumes "take m d = f" "m \<le> length d" "34 \<le> m" "14 + unat (ip_len f) \<le> m" "udp_wellformed f"
  shows "udp_wellformed d"
proof -
  let ?off = "ipdata f"
  have w: "iphlen f + 8 \<le> unat (ip_len f)" "iphlen f + unat (ntohs (udp_length ?off f)) \<le> unat (ip_len f)"
    using assms(5) by (auto simp: udp_wellformed_def Let_def)
  then have m: "?off + 8 \<le> m" "?off + unat (ntohs (udp_length ?off f)) \<le> m"
    using assms(4) by (simp_all add: ipdata_def)
  note v = take_ip_views [OF assms(1-3)]
  have off: "ipdata d = ?off" by (simp add: ipdata_def v)
  have u: "udp_length ?off d = udp_length ?off f" "udp_checksum ?off d = udp_checksum ?off f"
    using take_views(2) [OF assms(1,2)] m(1) by simp_all
  show ?thesis
    using assms(5) chksum_take [OF assms(1,2) m(2)]
    by (simp add: udp_wellformed_def Let_def off v u udp_chksum_def tcp_udp_chksum_def)
qed

section \<open>A UDP datagram from the device to the socket\<close>

text \<open>Host \<open>s\<close> owns the address and has a route to itself for it, and no raw socket listens for the protocol.\<close>

definition local_host :: "'a sk_state_scheme \<Rightarrow> nat \<Rightarrow> bytes \<Rightarrow> bool" where
  "local_host s n f \<longleftrightarrow>
     eth_dst f = net_hwaddr (dev s n) \<and> \<not> is_eth_multicast (eth_dst f) \<and> ntohs (eth_pro f) = ETH_P_IP \<and>
     hlists s (Raw_Head (unat (ip_pro f))) = [] \<and>
     (case rt_lookup (ip_dst f) s of None \<Rightarrow> False | Some rt \<Rightarrow> rt_flags rt AND RT_LOCALHOST \<noteq> 0)"

text \<open>What reaches the transport layer: the packet in host order, with its route.\<close>

lemma net_in_local:
  fixes s :: "'a stack_state_scheme"
  assumes f: "holds_frame s p f" "ip_wellformed f (length f)" "14 + unat (ntohs (ip_len f)) = length f"
    and frag: "ntohs (ip_fragoff f) AND (IP_FRAG_OFF OR IP_FRAG_MF) = 0" and host: "local_host s n f"
  shows "\<exists>rt. net_in xmit rxcb n p s =
    (let t = upd_pkb p (\<lambda>b. b\<lparr>pk_type := PKT_LOCALHOST, pk_pro := ETH_P_IP, pk_indev := Some n, pk_rtdst := Some rt,
           pk_data := ip_ntoh (pk_data b)\<rparr>) s; pro = ip_pro f in
     if pro = IP_P_ICMP then icmp_in xmit p t else if pro = IP_P_TCP then tcp_in xmit p t
     else if pro = IP_P_UDP then udp_in xmit rxcb p t else free_pkb p t)"
proof -
  let ?d = "data_of s p" and ?m = "length f"
  have d: "take ?m ?d = f" "?m \<le> length ?d" "pk_len (pkb s p) = int ?m" using f(1) by (auto simp: holds_frame_def)
  have m: "34 \<le> ?m" using f(2) by (simp add: ip_wellformed_def)
  note v = take_ip_views [OF d(1,2) m]
  have l: "22 \<le> length ?d" using m d(2) by simp
  note nt = ip_ntoh_fields [OF l]
  obtain rt where rt: "rt_lookup (ip_dst f) s = Some rt" "rt_flags rt AND RT_LOCALHOST \<noteq> 0"
    using host by (auto simp: local_host_def split: option.splits)
  have look: "rt_lookup (ip_dst f) (upd_pkb p g s) = Some rt" for g using rt(1) by (simp add: rt_lookup_def)
  define a where "a = upd_pkb p (\<lambda>b. b\<lparr>pk_type := PKT_LOCALHOST, pk_pro := ETH_P_IP, pk_indev := Some n\<rparr>) s"
  define b where "b = upd_data p ip_ntoh a"
  define t where "t = upd_pkb p (\<lambda>b. b\<lparr>pk_rtdst := Some rt\<rparr>) b"
  have "net_in xmit rxcb n p s = ip_in xmit rxcb n p a"
    unfolding a_def using host m by (intro net_in_ip [where len = ?m]) (auto simp: v d local_host_def)
  also have "\<dots> = ip_recv_route xmit rxcb p b"
    using ip_in_accepts [of a p ?d ?m xmit rxcb n] ip_wellformed_take [OF d(1,2) f(2)] d f(3)
    by (simp add: a_def b_def v Let_def)
  also have "\<dots> = ip_recv_local xmit rxcb p t"
    unfolding t_def by (rule ip_recv_route_local [OF _ rt(2)]) (simp add: b_def a_def nt v look comp_def)
  also have "\<dots> = (if ip_pro f = IP_P_ICMP then icmp_in xmit p t else if ip_pro f = IP_P_TCP then tcp_in xmit p t
     else if ip_pro f = IP_P_UDP then udp_in xmit rxcb p t else free_pkb p t)"
    using host frag by (subst ip_recv_local_whole) (simp_all add: t_def b_def a_def nt v local_host_def Let_def)
  finally have *: "net_in xmit rxcb n p s = (if ip_pro f = IP_P_ICMP then icmp_in xmit p t
    else if ip_pro f = IP_P_TCP then tcp_in xmit p t else if ip_pro f = IP_P_UDP then udp_in xmit rxcb p t else free_pkb p t)" .
  have t: "t = upd_pkb p (\<lambda>b. b\<lparr>pk_type := PKT_LOCALHOST, pk_pro := ETH_P_IP, pk_indev := Some n, pk_rtdst := Some rt,
      pk_data := ip_ntoh (pk_data b)\<rparr>) s"
    unfolding t_def b_def a_def by (simp add: comp_def) (rule upd_pkb_cong, cases "pkb s p", simp)
  show ?thesis using * unfolding t Let_def by blast
qed

section \<open>A UDP datagram from the socket to the wire\<close>

lemma set_ip_ver_hlen:
  assumes "14 < length d"
  shows "set_ip_ver 4 (set_ip_hlen 5 d) = set_ip_hlen 5 (set_ip_ver 4 d)"
proof -
  have 1: "((x AND 0xf0 OR (5 AND 0x0f)) AND 0x0f) OR push_bit 4 4 = (0x45 :: u8)" for x :: u8
  proof -
    have "((x AND 0xf0 OR (5 AND 0x0f)) AND 0x0f) = (x AND (0xf0 AND 0x0f)) OR ((5 AND 0x0f) AND 0x0f)"
      by (simp only: bit.conj_disj_distrib2 and.assoc)
    then show ?thesis by simp
  qed
  have 2: "((x AND 0x0f OR push_bit 4 4) AND 0xf0) OR (5 AND 0x0f) = (0x45 :: u8)" for x :: u8
  proof -
    have "((x AND 0x0f OR push_bit 4 4) AND 0xf0) = (x AND (0x0f AND 0xf0)) OR (push_bit 4 4 AND 0xf0)"
      by (simp only: bit.conj_disj_distrib2 and.assoc)
    then show ?thesis by simp
  qed
  have "set_ip_ver 4 (set_ip_hlen 5 d) = wr8 14 0x45 d" "set_ip_hlen 5 (set_ip_ver 4 d) = wr8 14 0x45 d"
    using assms 1 [of "rd8 d 14"] 2 [of "rd8 d 14"] by (simp_all add: set_ip_ver_def set_ip_hlen_def rd8_wr8) (simp_all add: wr8_def)
  then show ?thesis by simp
qed

text \<open>The bytes of a datagram: \<open>h\<close> is the packet with its IP header filled in.\<close>

definition udp_packet :: "u16 \<Rightarrow> u16 \<Rightarrow> bytes \<Rightarrow> bytes \<Rightarrow> bytes" where
  "udp_packet sport dport buf h =
     udp_set_checksum 34 (memcpy (wr16 38 (htons (word_of_int (int (length buf) + 8))) (wr16 36 dport (wr16 34 sport h)))
       42 buf (length buf))"

lemma unat_add_le: "unat (a + b) \<le> unat a + unat b" for a b :: u32
  by (simp add: unat_word_ariths)

lemma pseudo_sum_small:
  assumes "unat (a + b) < 0xfc000000" "n \<le> 1480"
  shows "unat (ucast (htons (ucast (17 :: u8))) + ucast (htons l) + a + b :: u32) + nsum d n + 65535 < 4294967296"
proof -
  have "unat (ucast (htons l) :: u32) \<le> 65535" 
    unfolding unat_ucast_u32 using unat_u16_lt [of "htons l"] by linarith
  moreover have "htons (ucast (17 :: u8)) = 0x1100" by (simp add: htons_def)
  ultimately have "unat (ucast (htons (ucast (17 :: u8))) + ucast (htons l) + (a + b) :: u32) \<le> 4352 + 65535 + unat (a + b)"
    using unat_add_le [of "ucast (htons (ucast (17 :: u8))) + ucast (htons l) :: u32" "a + b"]
      unat_add_le [of "0x1100 :: u32" "ucast (htons l)"] by simp
  with nsum_bound [of d n] assms show ?thesis by (simp add: add.assoc)
qed

lemma udp_packet_header:
  assumes "length h = 42 + length buf"
  shows "length (udp_packet sport dport buf h) = 42 + length buf" "k < 34 \<Longrightarrow> rd8 (udp_packet sport dport buf h) k = rd8 h k"
proof -
  define m where "m = wr16 38 (htons (word_of_int (int (length buf) + 8))) (wr16 36 dport (wr16 34 sport h))"
  define u where "u = memcpy m 42 buf (length buf)"
  have m: "length m = 42 + length buf" using assms by (simp add: m_def)
  have u: "length u = 42 + length buf" "k < 34 \<Longrightarrow> rd8 u k = rd8 h k" for k
    using m by (simp_all add: u_def memcpy_eq rd8_append rd8_take) (simp add: m_def rd8_wr16)
  have "\<exists>v. udp_set_checksum 34 u = wr16 40 v u" by (simp add: udp_set_checksum_def Let_def) blast
  then obtain v where v: "udp_packet sport dport buf h = wr16 40 v u" unfolding udp_packet_def m_def u_def by blast
  show "length (udp_packet sport dport buf h) = 42 + length buf" "k < 34 \<Longrightarrow> rd8 (udp_packet sport dport buf h) k = rd8 h k"
    by (simp_all add: v u rd8_wr16)
qed

lemma udp_packet_fields:
  fixes sport dport :: u16
  assumes h: "length h = 42 + length buf" "iphlen h = 20" "ip_len h = htons (of_nat (28 + length buf))" and n: "length buf \<le> 1472"
    and sum: "unat (ip_src h + ip_dst h) < 0xfc000000"
  defines "e \<equiv> ip_set_checksum (udp_packet sport dport buf h)"
  shows "length e = 42 + length buf" "drop 42 e = buf" "iphlen e = 20" "ip_len e = ip_len h" "ip_src e = ip_src h" "ip_dst e = ip_dst h"
    "ip_pro e = ip_pro h" "ip_fragoff e = ip_fragoff h" "ip_ver e = ip_ver h" "udp_src 34 e = sport" "udp_dst 34 e = dport"
    "ntohs (udp_length 34 e) = of_nat (8 + length buf)" "udp_chksum (ip_src e) (ip_dst e) (ntohs (udp_length 34 e)) (drop 34 e) = 0"
    "ip_chksum (drop 14 e) 20 = 0"
proof -
  let ?n = "length buf"
  define m where "m = wr16 38 (htons (word_of_int (int ?n + 8))) (wr16 36 dport (wr16 34 sport h))"
  define u where "u = memcpy m 42 buf ?n"
  have w: "word_of_int (int ?n + 8) = (of_nat (8 + ?n) :: u16)" by (simp add: add.commute)
  have lm: "length m = 42 + ?n" by (simp add: m_def h)
  have u: "u = take 42 m @ buf" by (simp add: u_def memcpy_eq lm)
  have lu: "length u = 42 + ?n" by (simp add: u lm)
  have ru: "rd8 u k = rd8 m k" if "k < 42" for k using that by (simp add: u rd8_append rd8_take lm)
  have vu: "rd16 u 34 = sport" "rd16 u 36 = dport" "rd16 u 38 = htons (of_nat (8 + ?n))"
  proof -
    have "rd16 u k = rd16 m k" if "k < 41" for k using that by (simp add: rd16_def ru)
    then show "rd16 u 34 = sport" "rd16 u 36 = dport" "rd16 u 38 = htons (of_nat (8 + ?n))"
      by (simp_all add: m_def h w add.commute)
  qed
  have ip: "rd8 u k = rd8 h k" if "k < 34" for k using that by (simp add: ru m_def rd8_wr16)
  define c where "c = (if tcp_udp_chksum (ip_src u) (ip_dst u) (ucast IP_P_UDP) (ntohs (udp_length 34 u)) (drop 34 (wr16 40 0 u)) = 0
    then 0xffff else tcp_udp_chksum (ip_src u) (ip_dst u) (ucast IP_P_UDP) (ntohs (udp_length 34 u)) (drop 34 (wr16 40 0 u)))"
  have uc: "udp_set_checksum 34 u = wr16 40 c u"
    unfolding udp_set_checksum_def Let_def by (auto simp: lu c_def)
  have pk: "udp_packet sport dport buf h = wr16 40 c u"
    using uc unfolding udp_packet_def u_def m_def .
  have e: "e = wr16 24 (checksum (drop 14 (wr16 24 0 (wr16 40 c u))) (int (iphlen (wr16 40 c u))) 0) (wr16 40 c u)"
    by (simp add: e_def pk ip_set_checksum_eq)
  have hu: "iphlen u = 20" using h(2) by (simp add: iphlen_def ip_hlen_def ip)
  show len: "length e = 42 + ?n" by (simp add: e lu)
  show "drop 42 e = buf" by (simp add: e wr16_skip u lm)
  show "iphlen e = 20" by (simp add: e iphlen_wr16 hu)
  show "ip_len e = ip_len h" "ip_src e = ip_src h" "ip_dst e = ip_dst h" "ip_fragoff e = ip_fragoff h"
    by (simp_all add: e) (simp_all add: rd16_def rd32_def ip)
  show "ip_pro e = ip_pro h" "ip_ver e = ip_ver h" by (simp_all add: e ip_ver_def rd8_wr16 ip)
  show p: "udp_src 34 e = sport" "udp_dst 34 e = dport" "ntohs (udp_length 34 e) = of_nat (8 + ?n)"
    by (simp_all add: e vu)
  have l: "unat (of_nat (8 + ?n) :: u16) = 8 + ?n" using n by (simp add: unat_of_nat del: of_nat_add)
  have a: "ip_src u = ip_src h" "ip_dst u = ip_dst h" by (simp_all add: rd32_def rd16_def ip)
  have "udp_chksum (ip_src (wr16 40 c u)) (ip_dst (wr16 40 c u)) (ntohs (udp_length 34 (wr16 40 c u))) (drop 34 (wr16 40 c u)) = 0"
    using udp_set_checksum_zero [of 34 u] pseudo_sum_small [OF sum, of "8 + ?n"] n l
    by (simp add: Let_def uc vu lu pseudo_acc_def a)
  then show "udp_chksum (ip_src e) (ip_dst e) (ntohs (udp_length 34 e)) (drop 34 e) = 0"
    by (simp add: e wr16_skip)
  show "ip_chksum (drop 14 e) 20 = 0"
    using ip_set_checksum_zero [of "wr16 40 c u"] lu hu
    by (simp add: e_def pk iphlen_wr16)
qed

lemma udp_init_pkb_eq:
  fixes s :: "'a udp_state_scheme"
  assumes z: "data_of s p = z" "14 < length z" "pk_len (pkb s p) = int (14 + len)" and sk: "sk_protocol (sk_at s k) = 17"
    and rt: "rt_lookup (dst_addr a) s = Some rt" and dst: "34 \<le> length z"
  shows "udp_init_pkb k p buf (int (length buf)) a s =
    (0, upd_pkb p (\<lambda>b. b\<lparr>pk_rtdst := Some rt, pk_data := udp_packet (sk_sport (sk_at s k)) (dst_port a) buf
      (set_ip_src (net_ipaddr (dev s (rt_dev rt))) (info_header 0 (of_nat len) (udp_id s) 64 17 (dst_addr a) z))\<rparr>) s)"
proof -
  let ?h = "info_header 0 (of_nat len) (udp_id s) 64 17 (dst_addr a) z"
  have l: "word_of_int (pk_len (pkb s p) - int ETH_HRD_SZ) = (of_nat len :: u16)" using z(3) by simp
  have h: "set_ip_dst (dst_addr a) (set_ip_pro (sk_protocol (sk_at s k)) (set_ip_ttl 64 (set_ip_fragoff 0 (set_ip_id (htons (udp_id s))
      (set_ip_len (htons (word_of_int (pk_len (pkb s p) - int ETH_HRD_SZ))) (set_ip_tos 0 (set_ip_ver 4 (set_ip_hlen 5 z)))))))) = ?h"
    unfolding l sk set_ip_ver_hlen [OF z(2)] info_header_def ..
  have d: "ip_dst ?h = dst_addr a" using info_header_fields(1) [OF dst] .
  have look: "rt_lookup (dst_addr a) (upd_pkb p f s) = Some rt" for f using rt by (simp add: rt_lookup_def)
  define t where "t = upd_data p (\<lambda>_. ?h) s"
  have t: "data_of t p = ?h" "rt_lookup (dst_addr a) t = Some rt" "dev t n = dev s n" for n
    by (simp_all add: t_def look)
  have r: "rt_output p t = (0, upd_data p (set_ip_src (net_ipaddr (dev s (rt_dev rt)))) (upd_pkb p (\<lambda>b. b\<lparr>pk_rtdst := Some rt\<rparr>) t))"
    by (simp add: rt_output_def t d Let_def comp_def)
  have "udp_init_pkb k p buf (int (length buf)) a s =
    (let (r, s) = rt_output p t in if r < 0 then (- 1, s) else
      let s = upd_data p (\<lambda>d. memcpy (wr16 38 (htons (word_of_int (int (length buf) + 8))) (wr16 36 (dst_port a)
            (wr16 34 (sk_sport (sk_at s k)) d))) 42 buf (nat (int (length buf)))) s
      in (0, upd_data p (udp_set_checksum 34) s))"
    unfolding udp_init_pkb_def Let_def t_def by (subst upd_data_const [OF z(1)], unfold h) (simp only: of_nat_numeral)
  also have "\<dots> = (0, upd_pkb p (\<lambda>b. b\<lparr>pk_rtdst := Some rt, pk_data := udp_packet (sk_sport (sk_at s k)) (dst_port a) buf
      (set_ip_src (net_ipaddr (dev s (rt_dev rt))) ?h)\<rparr>) s)"
    unfolding r Let_def prod.case
    by (simp add: t_def comp_def udp_packet_def)
  finally show ?thesis .
qed

text \<open>The frame a datagram becomes: addresses and ports of the sender, the payload, both checksums.\<close>

definition udp_frame :: "'a udp_state_scheme \<Rightarrow> nat \<Rightarrow> rtentry \<Rightarrow> nat \<Rightarrow> sock_addr \<Rightarrow> bytes \<Rightarrow> bytes" where
  "udp_frame s k rt i a buf =
     (let n = rt_dev rt;
          h = set_ip_src (net_ipaddr (dev s n))
                (info_header 0 (of_nat (28 + length buf)) (udp_id s) 64 17 (dst_addr a) (replicate (42 + length buf) 0))
      in eth_frame (net_hwaddr (dev s n)) (ae_hwaddr (ae s i))
           (ip_set_checksum (udp_packet (sk_sport (sk_at s k)) (dst_port a) buf h)))"

lemma udp_send_wire:
  fixes s :: "'a udp_state_scheme"
  assumes sk: "sk_sport (sk_at s k) \<noteq> 0" "sk_protocol (sk_at s k) = 17"
    and buf: "0 < length buf" "length buf \<le> 1472" "int (28 + length buf) \<le> net_mtu (dev s (rt_dev rt))"
    and a: "dst_addr a \<noteq> 0" "dst_port a \<noteq> 0"
    and rt: "rt_lookup (dst_addr a) s = Some rt" "hop_known rt (hop_addr rt (dst_addr a)) i s"
    and pool: "pkb_inv s" "pool_room s"
  shows "let (r, t) = udp_send_buf junk (veth_xmit (\<lambda>f. int (length f))) k buf (int (length buf)) (Some a) s
    in r = int (length buf) \<and> wire t = wire s @ [(rt_dev rt, udp_frame s k rt i a buf)] \<and> fault t = fault s \<and> pkb_inv t \<and>
      sk_heap t = sk_heap s"
proof -
  let ?x = "veth_xmit (\<lambda>f. int (length f))" and ?n = "length buf" and ?p = "pk_next s" and ?m = "rt_dev rt"
  let ?a = "junk\<lparr>dst_addr := dst_addr a, dst_port := dst_port a\<rparr>"
  define A where "A = snd (alloc_pkb (42 + int ?n) s)"
  have al: "alloc_pkb (42 + int ?n) s = (?p, A)" unfolding A_def by (metis alloc_simps(1) prod.collapse)
  have udpid: "udp_id A = udp_id s"
    unfolding A_def by (simp add: alloc_pkb_def new_pkb_def pkb_safe_def set_fault_def split: option.split)
  have A: "pkb_inv A" "fault A = fault s" "wire A = wire s" "rt_head A = rt_head s" "arp_cache A = arp_cache s"
    "dev A j = dev s j" "pk_live (pkb A ?p)" "pk_len (pkb A ?p) = int (14 + (28 + ?n))" "sk_heap A = sk_heap s"
    "data_of A ?p = replicate (42 + ?n) 0" for j
    using pool by (simp_all add: A_def alloc_pkb_inv alloc_fault) (simp_all add: alloc_pkb_def nat_add_distrib)
  define z where "z = replicate (42 + ?n) (0 :: u8)"
  define h where "h = set_ip_src (net_ipaddr (dev s ?m)) (info_header 0 (of_nat (28 + ?n)) (udp_id s) 64 17 (dst_addr a) z)"
  define d where "d = udp_packet (sk_sport (sk_at s k)) (dst_port a) buf h"
  define u where "u = upd_pkb ?p (\<lambda>b. b\<lparr>pk_rtdst := Some rt, pk_data := d\<rparr>) A"
  have lenz: "length z = 42 + ?n" and lz: "34 \<le> length z" by (simp_all add: z_def)
  note hf = info_header_fields [OF lz, of 0 "of_nat (28 + ?n)" "udp_id s" 64 17 "dst_addr a"]
  have look: "rt_lookup (dst_addr a) A = Some rt" using rt(1) A(4) by (simp add: rt_lookup_def)
  have init: "udp_init_pkb k ?p buf (int ?n) ?a A = (0, u)"
    using udp_init_pkb_eq [of A ?p z "28 + ?n" k ?a rt buf] A sk lz look
    by (simp add: u_def d_def h_def z_def udpid)
  have send: "udp_send_buf junk ?x k buf (int ?n) (Some a) s = udp_send_pkb ?x k ?p u"
    using buf sk a unfolding udp_send_buf_def by (simp add: Let_def al init)
  have hl: "length h = 42 + ?n" by (simp add: h_def hf lenz del: of_nat_add)
  note dh = udp_packet_header [OF hl, where sport = "sk_sport (sk_at s k)" and dport = "dst_port a", folded d_def]
  have "ip_len d = ip_len h" "ip_dst d = ip_dst h" by (simp_all add: rd16_def rd32_def dh)
  then have dl: "length d = 42 + ?n" "ip_len d = htons (of_nat (28 + ?n))" "ip_dst d = dst_addr a"
    by (simp_all add: dh h_def hf del: of_nat_add)
  have un: "unat (of_nat (28 + ?n) :: u16) = 28 + ?n" using buf(2) by (simp add: unat_of_nat del: of_nat_add)
  have u: "pk_live (pkb u ?p)" "pk_rtdst (pkb u ?p) = Some rt" "data_of u ?p = d" "pk_len (pkb u ?p) = int (length d)"
    "hop_known rt (next_hop rt d) i u" "34 \<le> length d" "int (unat (ntohs (ip_len d))) \<le> net_mtu (dev u ?m)" "pkb_inv u"
    using A rt(2) buf(3) hop_known_cong [of u s]
    by (simp_all add: u_def pkb_inv_upd dl next_hop_addr un del: of_nat_unat of_nat_add)
  note w = vip.send_out_routed [OF u, unfolded Let_def]
  have sk': "sk_heap (ip_send_out ?x ?p u) = sk_heap s"
    using w A(9) sk_more_fields(1) [of u "ip_send_out ?x ?p u"] by (simp add: same_net_def u_def)
  show ?thesis
    unfolding send udp_send_pkb_def using w sk'
    by (simp add: Let_def u_def A dl udp_frame_def d_def h_def z_def)
qed

section \<open>A datagram from one host to another\<close>

lemma udp_frame_fields:
  fixes s :: "'a udp_state_scheme" and k :: nat
  assumes "length buf \<le> 1472" "unat (net_ipaddr (dev s (rt_dev rt)) + dst_addr a) < 0xfc000000" "length (ae_hwaddr (ae s i)) = 6"
  defines "f \<equiv> udp_frame s k rt i a buf"
  shows "length f = 42 + length buf" "drop 42 f = buf" "ip_src f = net_ipaddr (dev s (rt_dev rt))" "ip_dst f = dst_addr a"
    "ip_pro f = 17" "ip_fragoff f = 0" "ntohs (ip_len f) = of_nat (28 + length buf)" "iphlen f = 20"
    "udp_src 34 f = sk_sport (sk_at s k)" "udp_dst 34 f = dst_port a" "eth_dst f = ae_hwaddr (ae s i)" "ntohs (eth_pro f) = ETH_P_IP"
    "ip_wellformed f (length f)" "udp_wellformed (ip_ntoh f)"
proof -
  let ?n = "length buf" and ?z = "replicate (42 + length buf) (0 :: u8)"
  define b where "b = info_header 0 (of_nat (28 + ?n)) (udp_id s) 64 17 (dst_addr a) ?z"
  define h where "h = set_ip_src (net_ipaddr (dev s (rt_dev rt))) b"
  define e where "e = ip_set_checksum (udp_packet (sk_sport (sk_at s k)) (dst_port a) buf h)"
  have z: "34 \<le> length ?z" by simp
  note bf = info_header_fields [OF z, of 0 "of_nat (28 + ?n)" "udp_id s" 64 17 "dst_addr a", folded b_def]
  have h: "length h = 42 + ?n" "iphlen h = 20" "ip_len h = htons (of_nat (28 + ?n))" "ip_src h = net_ipaddr (dev s (rt_dev rt))"
    "ip_dst h = dst_addr a" "ip_pro h = 17" "ip_fragoff h = 0" "ip_ver h = 4"
    using bf by (simp_all add: h_def iphlen_def ip_hlen_def ip_ver_def)
  have sum: "unat (ip_src h + ip_dst h) < 0xfc000000" using assms(2) by (simp add: h)
  note e = udp_packet_fields [OF h(1-3) assms(1) sum, of "sk_sport (sk_at s k)" "dst_port a", folded e_def]
  have f: "f = eth_frame (net_hwaddr (dev s (rt_dev rt))) (ae_hwaddr (ae s i)) e"
    by (simp add: f_def udp_frame_def Let_def e_def h_def b_def)
  have body: "drop 14 f = drop 14 e" "length f = length e" using eth_frame_body by (simp_all add: f)
  note v = ip_views_cong [OF body(1)]
  have un: "unat (of_nat (28 + ?n) :: u16) = 28 + ?n" "unat (of_nat (8 + ?n) :: u16) = 8 + ?n"
    using assms(1) by (simp_all add: unat_of_nat del: of_nat_add)
  show len: "length f = 42 + ?n" using body(2) e(1) by simp
  show "drop 42 f = buf" using arg_cong [OF body(1), of "drop 28"] e(2) by simp
  show ip: "ip_src f = net_ipaddr (dev s (rt_dev rt))" "ip_dst f = dst_addr a" "ip_pro f = 17" "ip_fragoff f = 0"
    "ntohs (ip_len f) = of_nat (28 + ?n)" "iphlen f = 20" "udp_src 34 f = sk_sport (sk_at s k)" "udp_dst 34 f = dst_port a"
    using e(11) by (simp_all add: v e h)
  show "eth_dst f = ae_hwaddr (ae s i)" unfolding f using assms(3) e(1) by (intro eth_dst_frame) simp_all
  show "ntohs (eth_pro f) = ETH_P_IP"
    using e(1) by (simp add: f eth_frame_def rd16_def rd8_eth_frame rd8_wr16 rd8_hwacpy)
  have ver: "ip_ver f = 4" using e(9) h by (simp add: ip_ver_def v)
  show "ip_wellformed f (length f)"
    using e(14) by (simp add: ip_wellformed_def len ver ip un body(1) del: of_nat_add)
  have l: "22 \<le> length f" using len by simp
  note nt = ip_ntoh_fields [OF l]
  have off: "ipdata (ip_ntoh f) = 34" by (simp add: ipdata_def nt ip)
  have d34: "drop 34 (ip_ntoh f) = drop 34 e" using nt(8) [of 34] arg_cong [OF body(1), of "drop 20"] by simp
  have r: "rd16 (ip_ntoh f) 38 = rd16 e 38" using rd16_drop [of 34 "ip_ntoh f" 4] rd16_drop [of 34 e 4] d34 by simp
  show "udp_wellformed (ip_ntoh f)"
    using e(12,13) by (simp add: udp_wellformed_def Let_def off nt ip un r d34 e(5,6) h(4,5) del: of_nat_add)
qed

lemma net_in_udp:
  fixes s :: "'a stack_state_scheme"
  assumes f: "holds_frame s p f" "ip_wellformed f (length f)" "14 + unat (ntohs (ip_len f)) = length f" "ip_fragoff f = 0"
      "ip_pro f = 17" "iphlen f = 20" "udp_wellformed (ip_ntoh f)"
    and host: "local_host s n f" "udp_receiver s (udp_dst 34 f) k"
  shows "let t = net_in xmit rxcb n p s in
    recv_queue (sk_at t k) = recv_queue (sk_at s k) @ [p] \<and> (\<forall>j. j \<noteq> k \<longrightarrow> sk_at t j = sk_at s j) \<and>
    take (length f) (data_of t p) = ip_ntoh f \<and> pk_live (pkb t p) \<and> pk_refcnt (pkb t p) = pk_refcnt (pkb s p) \<and>
    fault t = fault s \<and> wire t = wire s"
proof -
  have fr: "ntohs (ip_fragoff f) AND (IP_FRAG_OFF OR IP_FRAG_MF) = 0" by (simp add: f)
  obtain rt where rt: "net_in xmit rxcb n p s = udp_in xmit rxcb p (upd_pkb p (\<lambda>b. b\<lparr>pk_type := PKT_LOCALHOST,
      pk_pro := ETH_P_IP, pk_indev := Some n, pk_rtdst := Some rt, pk_data := ip_ntoh (pk_data b)\<rparr>) s)"
    using net_in_local [OF f(1-3) fr host(1), of xmit rxcb] by (auto simp: Let_def f(5))
  define t where "t = upd_pkb p (\<lambda>b. b\<lparr>pk_type := PKT_LOCALHOST,
      pk_pro := ETH_P_IP, pk_indev := Some n, pk_rtdst := Some rt, pk_data := ip_ntoh (pk_data b)\<rparr>) s"
  have m: "34 \<le> length f" using f(2) by (simp add: ip_wellformed_def)
  have d: "take (length f) (data_of s p) = f" "length f \<le> length (data_of s p)" using f(1) by (simp_all add: holds_frame_def)
  have t: "data_of t p = ip_ntoh (data_of s p)" "take (length f) (data_of t p) = ip_ntoh f" "length f \<le> length (data_of t p)"
    using take_ip_ntoh [OF d m] d(2) by (simp_all add: t_def)
  have l: "22 \<le> length f" using m by simp
  note nt = ip_ntoh_fields [OF l]
  have w: "udp_wellformed (data_of t p)"
    using udp_wellformed_take [OF t(2,3) m _ f(7)] f(3) by (simp add: nt)
  have off: "ipdata (data_of t p) = 34" using take_ip_views(1) [OF t(2,3) m] by (simp add: ipdata_def nt f)
  have "42 \<le> length f" using f(3,6,7) by (auto simp: udp_wellformed_def Let_def nt)
  then have "udp_dst 34 (data_of t p) = udp_dst 34 (ip_ntoh f)" using take_views(2) [OF t(2,3), of 36] by simp
  also have "\<dots> = udp_dst 34 f" using nt(8) [of 34] rd16_drop [of 34 "ip_ntoh f" 2] rd16_drop [of 34 f 2] by simp
  finally have port: "udp_dst (ipdata (data_of t p)) (data_of t p) = udp_dst 34 f" by (simp add: off)
  have r: "udp_receiver t (udp_dst 34 f) k"
    using host(2) by (auto simp: udp_receiver_def udp_lookup_sock_def t_def Let_def split: option.splits)
  have "net_in xmit rxcb n p s = udp_recv xmit rxcb p t" unfolding rt t_def [symmetric] by (rule udp_in_recv [OF w])
  then show ?thesis
    using udp_recv_queues [OF r [folded port], of xmit rxcb] t(2) f(1)
    by (simp add: Let_def) (simp add: t_def holds_frame_def)
qed

text \<open>
  C1: a UDP datagram from one host to another. \<open>udp_send_buf\<close> on a bound socket, with a route whose next hop is
  resolved and a payload that fits the MTU, returns the payload's length and puts one frame on the wire. Given to
  \<open>net_in\<close> on a host that has the hardware and the IP address and a socket bound to the destination port, that
  frame ends at the end of exactly that socket's receive queue, with the payload, the sender's address and
  the sender's port, and nothing else of the receiver changes: no fault, no packet sent, no other socket touched.
  (The sum of the two addresses must not be in the last 64 MB below 2^32, where the checksum of the code loses its carry.)
\<close>

theorem udp_datagram_delivered:
  fixes s :: "'a stack_state_scheme"
  assumes sender: "sk_sport (sk_at s k) \<noteq> 0" "sk_protocol (sk_at s k) = 17"
      "rt_lookup (dst_addr a) s = Some rt" "hop_known rt (hop_addr rt (dst_addr a)) i s" "length (ae_hwaddr (ae s i)) = 6"
      "pkb_inv s" "pool_room s"
    and datagram: "0 < length buf" "length buf \<le> 1472" "int (28 + length buf) \<le> net_mtu (dev s (rt_dev rt))"
      "dst_addr a \<noteq> 0" "dst_port a \<noteq> 0" "unat (net_ipaddr (dev s (rt_dev rt)) + dst_addr a) < 0xfc000000"
  shows "\<exists>t f. udp_send_buf junk (veth_xmit (\<lambda>f. int (length f))) k buf (int (length buf)) (Some a) s = (int (length buf), t) \<and>
    wire t = wire s @ [(rt_dev rt, f)] \<and> fault t = fault s \<and> pkb_inv t \<and>
    eth_dst f = ae_hwaddr (ae s i) \<and> ntohs (eth_pro f) = ETH_P_IP \<and> ip_dst f = dst_addr a \<and> ip_pro f = IP_P_UDP \<and>
    (\<forall>(r :: 'a stack_state_scheme) p n j xmit rxcb.
      holds_frame r p f \<and> local_host r n f \<and> udp_receiver r (dst_port a) j \<longrightarrow>
      (let u = net_in xmit rxcb n p r in
       recv_queue (sk_at u j) = recv_queue (sk_at r j) @ [p] \<and> slice 42 (length buf) (data_of u p) = buf \<and>
       ip_src (data_of u p) = net_ipaddr (dev s (rt_dev rt)) \<and> udp_src 34 (data_of u p) = sk_sport (sk_at s k) \<and>
       (\<forall>j'. j' \<noteq> j \<longrightarrow> sk_at u j' = sk_at r j') \<and> pk_live (pkb u p) \<and> fault u = fault r \<and> wire u = wire r))"
proof -
  let ?f = "udp_frame s k rt i a buf" and ?n = "length buf"
  note send = udp_send_wire [OF sender(1,2) datagram(1-5) sender(3,4,6,7), of junk]
  note f = udp_frame_fields [OF datagram(2,6) sender(5), of k]
  have len: "14 + unat (ntohs (ip_len ?f)) = length ?f"
    unfolding f(1,7) using datagram(2) by (simp add: unat_of_nat del: of_nat_add)
  have recv: "let u = net_in xmit rxcb n p r in
       recv_queue (sk_at u j) = recv_queue (sk_at r j) @ [p] \<and> slice 42 ?n (data_of u p) = buf \<and>
       ip_src (data_of u p) = net_ipaddr (dev s (rt_dev rt)) \<and> udp_src 34 (data_of u p) = sk_sport (sk_at s k) \<and>
       (\<forall>j'. j' \<noteq> j \<longrightarrow> sk_at u j' = sk_at r j') \<and> pk_live (pkb u p) \<and> fault u = fault r \<and> wire u = wire r"
    if h: "holds_frame r p ?f" "local_host r n ?f" "udp_receiver r (dst_port a) j" for r :: "'a stack_state_scheme" and p n j xmit rxcb
  proof -
    define u where "u = net_in xmit rxcb n p r"
    have u: "recv_queue (sk_at u j) = recv_queue (sk_at r j) @ [p]" "\<forall>j'. j' \<noteq> j \<longrightarrow> sk_at u j' = sk_at r j'"
      "take (length ?f) (data_of u p) = ip_ntoh ?f" "pk_live (pkb u p)" "fault u = fault r" "wire u = wire r"
      using net_in_udp [OF h(1) f(13) len f(6,5,8,14) h(2), of j xmit rxcb] h(3) f(10) by (simp_all add: u_def Let_def)
    have le: "length ?f \<le> length (data_of u p)" using arg_cong [OF u(3), of length] by (simp add: min_def split: if_splits)
    note v = take_views [OF u(3) le]
    have l: "22 \<le> length ?f" using f(1) by simp
    have "drop 42 (take (length ?f) (data_of u p)) = buf" unfolding u(3) using ip_ntoh_fields(8) [OF l, of 42] f(2) by simp
    then have "slice 42 ?n (data_of u p) = buf" by (simp add: slice_def f(1) drop_take)
    moreover have "udp_src 34 (ip_ntoh ?f) = udp_src 34 ?f"
      using ip_ntoh_fields(8) [OF l, of 34] rd16_drop [of 34 "ip_ntoh ?f" 0] rd16_drop [of 34 ?f 0] by simp
    ultimately show ?thesis
      unfolding Let_def u_def [symmetric] using u v(2) [of 34] v(3) [of 26] f(1,3,9) ip_ntoh_fields(5) [OF l] by auto
  qed
  obtain t where t: "udp_send_buf junk (veth_xmit (\<lambda>f. int (length f))) k buf (int ?n) (Some a) s = (int ?n, t)"
      "wire t = wire s @ [(rt_dev rt, ?f)]" "fault t = fault s" "pkb_inv t"
    using send by (auto split: prod.splits)
  show ?thesis by (intro exI [of _ t] exI [of _ ?f] conjI t f(11,12,4,5) allI impI recv) auto
qed

text \<open>The sender of the witness has address 0, its peer 10.0.0.1 with a socket bound to port 7.\<close>

definition udp_sender :: stack_state where
  "udp_sender = stack_on (sample_router [[]])
     (\<lambda>_. zero_sock\<lparr>sk_ops := Udp_Ops, sk_protocol := 17, sk_addr := \<lparr>src_addr = 0, dst_addr = 0, src_port = 0x3930, dst_port = 0\<rparr>\<rparr>)
     (\<lambda>_. []) (\<lambda>_. zero_tcp)"

definition udp_peer :: "bytes \<Rightarrow> stack_state" where
  "udp_peer f = stack_on (upd_dev 0 (\<lambda>v. v\<lparr>net_hwaddr := [2,0,0,0,0,1]\<rparr>)
       ((sample_router [f])\<lparr>rt_head := [sample_route\<lparr>rt_flags := RT_LOCALHOST\<rparr>]\<rparr>))
     (\<lambda>_. zero_sock\<lparr>sk_ops := Udp_Ops, sk_refcnt := 2, recv_wait := Some 0, sk_sock := Some 0,
        sk_addr := \<lparr>src_addr = 0, dst_addr = 0, src_port = 0x0700, dst_port = 0\<rparr>\<rparr>)
     (\<lambda>h. if h = Udp_Head 7 then [3] else []) (\<lambda>_. zero_tcp)"

definition port7 :: sock_addr where
  "port7 = \<lparr>src_addr = 0, dst_addr = 0x0100000a, src_port = 0, dst_port = 0x0700\<rparr>"

lemma udp_peer_ready:
  assumes "eth_dst f = [2,0,0,0,0,1]" "ntohs (eth_pro f) = ETH_P_IP" "ip_dst f = 0x0100000a" "ip_pro f = IP_P_UDP"
  shows "holds_frame (udp_peer f) 0 f" "local_host (udp_peer f) 0 f" "udp_receiver (udp_peer f) 0x0700 3"
proof -
  note r = sample_router_ok [of "[f]", simplified] and h = sample_host_fields [of "[f]", simplified]
  have "pk_len (pkb (sample_router [f]) 0) = int (length f)" by (simp add: sample_router_def h)
  with r show "holds_frame (udp_peer f) 0 f" by (simp add: holds_frame_def udp_peer_def)
  have 1: "rt_head (udp_peer f) = [sample_route\<lparr>rt_flags := RT_LOCALHOST\<rparr>]" "hlists (udp_peer f) = (\<lambda>h. if h = Udp_Head 7 then [3] else [])"
    "net_hwaddr (dev (udp_peer f) 0) = [2,0,0,0,0,1]"
    by (simp_all add: udp_peer_def)
  show "local_host (udp_peer f) 0 f"
    using assms by (simp add: local_host_def 1 rt_lookup_def rt_match_def sample_route_def is_eth_multicast_def eval_simps)
  have "udp_slot (htons 0x0700) = 7" by (simp add: udp_slot_def htons_def)
  then show "udp_receiver (udp_peer f) 0x0700 3"
    by (simp add: udp_receiver_def udp_lookup_sock_def 1 Let_def) (simp add: udp_peer_def zero_sock_def idle_socket_def)
qed

theorem udp_datagram_delivered_witness:
  "\<exists>t f. udp_send_buf port7 (veth_xmit (\<lambda>f. int (length f))) 2 [1,2,3] 3 (Some port7) udp_sender = (3, t) \<and> wire t = [(0, f)] \<and>
    recv_queue (sk_at (net_in (\<lambda>_ _ s. s) (\<lambda>_ _ s. s) 0 0 (udp_peer f)) 3) = [0] \<and>
    slice 42 3 (data_of (net_in (\<lambda>_ _ s. s) (\<lambda>_ _ s. s) 0 0 (udp_peer f)) 0) = [1,2,3]"
proof -
  note r = sample_router_ok [of "[[]]", simplified]
  have v: "hop_addr sample_route 0x0100000a = 0x0100000a" "rt_dev sample_route = 0"
    by (simp_all add: hop_addr_def sample_route_def)
  have look: "rt_lookup 0x0100000a udp_sender = Some sample_route"
    by (simp add: rt_lookup_def rt_match_def udp_sender_def r sample_route_def)
  have hop: "hop_known sample_route 0x0100000a 0 udp_sender"
    using r(5) hop_known_cong [of udp_sender "sample_router [[]]"] by (simp add: udp_sender_def hop_known_def arp_lookup_def)
  have ip: "net_ipaddr (dev udp_sender 0) = 0"
    by (simp add: udp_sender_def) (simp add: sample_router_def sample_host_def sample_ip_pool_def empty_ip_def empty_rt_def
      rt_state.extend_def ip_state.fields_def net_state.extend_def empty_net_def dev_def upd_dev_def)
  have s: "sk_sport (sk_at udp_sender 2) \<noteq> 0" "sk_protocol (sk_at udp_sender 2) = 17" "length (ae_hwaddr (ae udp_sender 0)) = 6"
    "pkb_inv udp_sender" "pool_room udp_sender" "net_mtu (dev udp_sender 0) = 1500" "wire udp_sender = []" "ae_hwaddr (ae udp_sender 0) = [2,0,0,0,0,1]"
    by (simp_all add: udp_sender_def r)
  have q: "0 < length [1,2,3 :: u8]" "length [1,2,3 :: u8] \<le> 1472" "int (28 + length [1,2,3 :: u8]) \<le> net_mtu (dev udp_sender 0)"
    "(0x0100000a :: u32) \<noteq> 0" "(0x0700 :: u16) \<noteq> 0" "unat (net_ipaddr (dev udp_sender 0) + 0x0100000a) < 0xfc000000"
    using s ip by simp_all
  have p7: "dst_addr port7 = 0x0100000a" "dst_port port7 = 0x0700" by (simp_all add: port7_def)
  have "\<exists>t f. udp_send_buf port7 (veth_xmit (\<lambda>f. int (length f))) 2 [1,2,3] (int (length [1,2,3 :: u8])) (Some port7) udp_sender =
      (int (length [1,2,3 :: u8]), t) \<and> wire t = wire udp_sender @ [(rt_dev sample_route, f)] \<and>
    recv_queue (sk_at (net_in (\<lambda>_ _ s. s) (\<lambda>_ _ s. s) 0 0 (udp_peer f)) 3) = recv_queue (sk_at (udp_peer f) 3) @ [0] \<and>
    slice 42 (length [1,2,3 :: u8]) (data_of (net_in (\<lambda>_ _ s. s) (\<lambda>_ _ s. s) 0 0 (udp_peer f)) 0) = [1,2,3]"
    using udp_datagram_delivered [of udp_sender 2 port7 sample_route 0 "[1,2,3]" port7,
        OF s(1,2) look [folded p7(1)] _ s(3-5), unfolded p7 v, OF hop q]
  proof (elim exE conjE, goal_cases)
    case (1 t f)
    with udp_peer_ready [of f] s show ?case by (intro exI [of _ t] exI [of _ f]) (auto simp: v p7 Let_def)
  qed
  moreover have "recv_queue (sk_at (udp_peer f) 3) = []" for f by (simp add: udp_peer_def zero_sock_def)
  ultimately show ?thesis using s v by (simp add: numeral_3_eq_3)
qed

end
