(* ===== verification/Ports.thy ===== *)
theory Ports
  imports Tcp_Sock
begin

text \<open>
  The port tables of UDP (\<^verbatim>\<open>src/udp/udp_sock.c\<close>) and TCP (\<^verbatim>\<open>src/tcp/tcp_sock.c\<close>): the contract of a port table as a
  locale, its interpretation on both tables, and the automatic choice of a port.
\<close>

section \<open>The contract of a port table\<close>

text \<open>
  Sockets are bound to ports and released again. The specification is a map from ports to sockets.
\<close>

datatype port_op = Bind nat u16 | Unbind nat

fun port_spec :: "port_op list \<Rightarrow> (u16 \<rightharpoonup> nat) \<Rightarrow> int list \<times> (u16 \<rightharpoonup> nat)" where
  "port_spec [] m = ([], m)"
| "port_spec (Bind k n # ops) m =
     (case m n of
        None \<Rightarrow> map_prod ((#) 0) id (port_spec ops (m(n \<mapsto> k)))
      | Some _ \<Rightarrow> map_prod ((#) (- 1)) id (port_spec ops m))"
| "port_spec (Unbind k # ops) m = port_spec ops (\<lambda>n. if m n = Some k then None else m n)"

text \<open>A client only binds a socket of its own that is not bound, and only releases one that is.\<close>

fun port_legal :: "nat set \<Rightarrow> port_op list \<Rightarrow> (u16 \<rightharpoonup> nat) \<Rightarrow> bool" where
  "port_legal K [] m \<longleftrightarrow> True"
| "port_legal K (Bind k n # ops) m \<longleftrightarrow> k \<in> K \<and> k \<notin> ran m \<and> n \<noteq> 0 \<and> port_legal K ops (if m n = None then m(n \<mapsto> k) else m)"
| "port_legal K (Unbind k # ops) m \<longleftrightarrow> k \<in> K \<and> k \<in> ran m \<and> port_legal K ops (\<lambda>n. if m n = Some k then None else m n)"

fun port_run :: "(nat \<Rightarrow> u16 \<Rightarrow> 's \<Rightarrow> int \<times> 's) \<Rightarrow> (nat \<Rightarrow> 's \<Rightarrow> 's) \<Rightarrow> port_op list \<Rightarrow> 's \<Rightarrow> int list \<times> 's" where
  "port_run bnd unb [] s = ([], s)"
| "port_run bnd unb (Bind k n # ops) s = (case bnd k n s of (r, t) \<Rightarrow> map_prod ((#) r) id (port_run bnd unb ops t))"
| "port_run bnd unb (Unbind k # ops) s = port_run bnd unb ops (unb k s)"

locale port_table =
  fixes ok :: "'s \<Rightarrow> bool" and bound :: "'s \<Rightarrow> u16 \<Rightarrow> nat \<Rightarrow> bool" and unbound :: "'s \<Rightarrow> nat \<Rightarrow> bool"
    and bnd :: "nat \<Rightarrow> u16 \<Rightarrow> 's \<Rightarrow> int \<times> 's" and unb :: "nat \<Rightarrow> 's \<Rightarrow> 's"
  assumes bind_used: "ok s \<Longrightarrow> n \<noteq> 0 \<Longrightarrow> bound s n j \<Longrightarrow> bnd k n s = (- 1, s)"
    and bind_free: "ok s \<Longrightarrow> n \<noteq> 0 \<Longrightarrow> unbound s k \<Longrightarrow> (\<And>j. \<not> bound s n j) \<Longrightarrow>
      fst (bnd k n s) = 0 \<and> ok (snd (bnd k n s)) \<and> (\<forall>m j. bound (snd (bnd k n s)) m j \<longleftrightarrow> (if m = n then j = k else bound s m j)) \<and>
      (\<forall>j. unbound (snd (bnd k n s)) j \<longleftrightarrow> j \<noteq> k \<and> unbound s j)"
    and unbind_bound: "ok s \<Longrightarrow> bound s n k \<Longrightarrow>
      ok (unb k s) \<and> (\<forall>m j. bound (unb k s) m j \<longleftrightarrow> j \<noteq> k \<and> bound s m j) \<and> (\<forall>j. unbound (unb k s) j \<longleftrightarrow> j = k \<or> unbound s j)"
begin

definition represents :: "nat set \<Rightarrow> 's \<Rightarrow> (u16 \<rightharpoonup> nat) \<Rightarrow> bool" where
  "represents K s m \<longleftrightarrow> ok s \<and> (\<forall>n k. bound s n k \<longleftrightarrow> m n = Some k) \<and> (\<forall>k \<in> K. k \<notin> ran m \<longrightarrow> unbound s k)"

lemma represents_bind:
  assumes "represents K s m" "k \<in> K" "k \<notin> ran m" "n \<noteq> 0" "m n = None"
  shows "fst (bnd k n s) = 0" "represents K (snd (bnd k n s)) (m(n \<mapsto> k))"
proof -
  have "ok s" "unbound s k" "\<And>j. \<not> bound s n j" using assms by (auto simp: represents_def)
  note f = bind_free [OF this(1) assms(4) this(2,3)]
  show "fst (bnd k n s) = 0" using f by blast
  show "represents K (snd (bnd k n s)) (m(n \<mapsto> k))"
    using f assms by (auto simp: represents_def ran_map_upd split: if_splits)
qed

lemma represents_bind_used:
  assumes "represents K s m" "n \<noteq> 0" "m n = Some j"
  shows "bnd k n s = (- 1, s)"
  using assms by (auto simp: represents_def intro: bind_used)

lemma represents_unbind:
  assumes "represents K s m" "k \<in> ran m"
  shows "represents K (unb k s) (\<lambda>n. if m n = Some k then None else m n)"
proof -
  obtain n where "m n = Some k" using assms(2) by (auto simp: ran_def)
  then have "ok s" "bound s n k" using assms(1) by (auto simp: represents_def)
  moreover have "ran (\<lambda>n. if m n = Some k then None else m n) = ran m - {k}"
    by (auto simp: ran_def) (metis option.inject)
  ultimately show ?thesis using unbind_bound [of s n k] assms(1) by (auto simp: represents_def)
qed

lemma run_refines:
  assumes "represents K s m" "port_legal K ops m"
  shows "fst (port_run bnd unb ops s) = fst (port_spec ops m) \<and> represents K (snd (port_run bnd unb ops s)) (snd (port_spec ops m))"
  using assms
proof (induction ops m arbitrary: s rule: port_spec.induct)
  case (2 k n ops m)
  show ?case
  proof (cases "m n")
    case None
    with "2.prems" have "fst (bnd k n s) = 0" "represents K (snd (bnd k n s)) (m(n \<mapsto> k))"
      by (auto intro!: represents_bind [of K])
    moreover have "(\<lambda>a. if a = n then Some k else m a) = m(n \<mapsto> k)" by (simp add: fun_upd_def)
    ultimately show ?thesis
      using "2.IH"(1) [OF None, of "snd (bnd k n s)"] "2.prems" None by (cases "bnd k n s") simp
  next
    case (Some j)
    then show ?thesis using represents_bind_used [OF "2.prems"(1) _ Some] "2.IH"(2) [OF Some "2.prems"(1)] "2.prems" by auto
  qed
next
  case (3 k ops m)
  then show ?case using represents_unbind [OF "3.prems"(1)] by simp
qed simp

end

section \<open>Sockets in buckets\<close>

text \<open>
  Both tables are arrays of lists: a socket is in the list of its port, its node knows the list, and no port occurs twice.
\<close>

definition buckets_ok ::
  "(u16 \<Rightarrow> nat) \<Rightarrow> (nat \<Rightarrow> hlist_head) \<Rightarrow> (hlist_head \<Rightarrow> nat list) \<Rightarrow> (nat \<Rightarrow> u16) \<Rightarrow> (nat \<Rightarrow> hlist_head option) \<Rightarrow> bool" where
  "buckets_ok slot hh L port node \<longleftrightarrow>
     (\<forall>h. distinct (map port (L (hh h))) \<and> (\<forall>k \<in> set (L (hh h)). slot (port k) = h \<and> node k = Some (hh h)))"

definition in_bucket :: "(u16 \<Rightarrow> nat) \<Rightarrow> (nat \<Rightarrow> hlist_head) \<Rightarrow> (hlist_head \<Rightarrow> nat list) \<Rightarrow> (nat \<Rightarrow> u16) \<Rightarrow> u16 \<Rightarrow> nat \<Rightarrow> bool" where
  "in_bucket slot hh L port n k \<longleftrightarrow> k \<in> set (L (hh (slot n))) \<and> port k = n"

lemma buckets_okD:
  assumes "buckets_ok slot hh L port node"
  shows "distinct (map port (L (hh h)))" "k \<in> set (L (hh h)) \<Longrightarrow> slot (port k) = h" "k \<in> set (L (hh h)) \<Longrightarrow> node k = Some (hh h)"
  using assms by (auto simp: buckets_ok_def)

lemma in_bucketD: "buckets_ok slot hh L port node \<Longrightarrow> in_bucket slot hh L port n k \<Longrightarrow> node k = Some (hh (slot n))"
  by (auto simp: in_bucket_def dest: buckets_okD)

lemma buckets_insert:
  assumes ok: "buckets_ok slot hh L port node" and "inj hh" and new: "node k = None" and free: "\<And>j. \<not> in_bucket slot hh L port n j"
    and L': "L' = L(hh (slot n) := k # L (hh (slot n)))" and port': "port' = port(k := n)" and node': "node' = node(k := Some (hh (slot n)))"
  shows "buckets_ok slot hh L' port' node'" "in_bucket slot hh L' port' m j \<longleftrightarrow> (if m = n then j = k else in_bucket slot hh L port m j)"
proof -
  have out: "k \<notin> set (L (hh h))" for h using buckets_okD(3) [OF ok, of k h] new by auto
  have head: "L' (hh h) = (if h = slot n then k # L (hh h) else L (hh h))" for h
    using \<open>inj hh\<close> by (auto simp: L' dest: injD)
  have mapo: "map port' (L (hh h)) = map port (L (hh h))" for h
    using out by (auto simp: port')
  have fresh: "n \<notin> port ` set (L (hh (slot n)))" using free by (auto simp: in_bucket_def)
  show "buckets_ok slot hh L' port' node'"
    unfolding buckets_ok_def
  proof (intro allI conjI ballI)
    fix h
    show "distinct (map port' (L' (hh h)))"
      using buckets_okD(1) [OF ok, of h] fresh unfolding head by (simp add: mapo del: map_eq_conv) (auto simp: port' out)
    fix j assume "j \<in> set (L' (hh h))"
    then show "slot (port' j) = h" "node' j = Some (hh h)"
      using buckets_okD [OF ok] out [of h] by (auto simp: head port' node' split: if_splits)
  qed
  show "in_bucket slot hh L' port' m j \<longleftrightarrow> (if m = n then j = k else in_bucket slot hh L port m j)"
    using out fresh by (auto simp: in_bucket_def head port')
qed

lemma buckets_remove:
  assumes ok: "buckets_ok slot hh L port node" and "inj hh" and k: "node k = Some (hh h)"
    and L': "L' = L(hh h := remove1 k (L (hh h)))" and node': "node' = node(k := None)"
  shows "buckets_ok slot hh L' port node'" "in_bucket slot hh L' port m j \<longleftrightarrow> j \<noteq> k \<and> in_bucket slot hh L port m j"
proof -
  have head: "L' (hh g) = (if g = h then remove1 k (L (hh g)) else L (hh g))" for g
    using \<open>inj hh\<close> by (auto simp: L' dest: injD)
  have in_iff: "i \<in> set (L' (hh g)) \<longleftrightarrow> i \<noteq> k \<and> i \<in> set (L (hh g))" for i g
    using buckets_okD(1) [OF ok, of g] buckets_okD(3) [OF ok, of _ g] k \<open>inj hh\<close> by (auto simp: head distinct_map dest: injD)
  have "distinct (map port (L' (hh g)))" for g
    using buckets_okD(1) [OF ok, of g] unfolding head
    by (auto simp: distinct_map intro: inj_on_subset [OF _ set_remove1_subset])
  then show "buckets_ok slot hh L' port node'"
    using buckets_okD [OF ok] in_iff by (auto simp: buckets_ok_def node')
  show "in_bucket slot hh L' port m j \<longleftrightarrow> j \<noteq> k \<and> in_bucket slot hh L port m j"
    by (auto simp: in_bucket_def in_iff)
qed

section \<open>The UDP table\<close>

text \<open>
  The table is well formed: a socket is in the slot of its port, its node knows the slot, and no port occurs twice.
\<close>

definition udp_table_ok :: "'a sk_state_scheme \<Rightarrow> bool" where
  "udp_table_ok s \<longleftrightarrow>
     buckets_ok (\<lambda>n. udp_slot (ntohs n)) Udp_Head (hlists s) (\<lambda>k. sk_sport (sk_at s k)) (\<lambda>k. hash_list (sk_at s k))"

abbreviation (input) udp_bound :: "'a sk_state_scheme \<Rightarrow> u16 \<Rightarrow> nat \<Rightarrow> bool" where
  "udp_bound s nport k \<equiv> fst (udp_lookup_sock nport s) = Some k"

lemma find_distinct_iff:
  "distinct (map f ks) \<Longrightarrow> find (\<lambda>k. f k = y) ks = Some k \<longleftrightarrow> k \<in> set ks \<and> f k = y"
  by (induction ks) (auto simp: image_iff)

lemma udp_lookup_iff:
  assumes "udp_table_ok s"
  shows "udp_bound s nport k \<longleftrightarrow> in_bucket (\<lambda>n. udp_slot (ntohs n)) Udp_Head (hlists s) (\<lambda>k. sk_sport (sk_at s k)) nport k"
proof -
  note d = buckets_okD(1) [OF assms [unfolded udp_table_ok_def], of "udp_slot (ntohs nport)"]
  show ?thesis using find_distinct_iff [OF d, of nport k] unfolding udp_lookup_sock_def Let_def in_bucket_def
    by (cases "find (\<lambda>k. sk_sport (sk_at s k) = nport) (hlists s (Udp_Head (udp_slot (ntohs nport))))") auto
qed

lemma inj_heads: "inj Udp_Head" "inj Tcp_Bhead"
  by (auto intro: injI)

lemma udp_slot_mod: "udp_slot p = unat p mod UDP_HASH_SIZE"
proof -
  have "p AND UDP_HASH_MASK = take_bit 7 p" by (simp add: take_bit_eq_mask mask_eq_exp_minus_1)
  then show ?thesis unfolding udp_slot_def by (simp only: unsigned_take_bit_eq) (simp add: take_bit_eq_mod)
qed

lemma unat_udp_slot [simp]: "unat (of_nat (udp_slot p) :: u32) = udp_slot p"
proof -
  have "udp_slot p < 128" by (simp add: udp_slot_mod)
  then show ?thesis by (simp add: unat_of_nat)
qed

lemma udp_used_iff:
  assumes "udp_table_ok s"
  shows "udp_port_used (ntohs nport) s \<longleftrightarrow> (\<exists>k. udp_bound s nport k)"
  by (auto simp: udp_lookup_iff [OF assms] in_bucket_def udp_port_used_def udp_port_used_in_def list_ex_iff)

lemma udp_update_best_sk [simp]:
  "sk_heap (udp_update_best h s) = sk_heap s" "hlists (udp_update_best h s) = hlists s"
  by (simp_all add: udp_update_best_def)

text \<open>Hashing a socket under a free port, as \<open>udp_set_sport\<close> does after it has chosen the port.\<close>

lemma udp_set_sport_hashed:
  fixes s :: "'a udp_state_scheme" and k :: nat
  assumes "nport \<noteq> 0" "\<not> udp_port_used (ntohs nport) s"
  defines "t \<equiv> snd (udp_set_sport k nport s)"
  shows "fst (udp_set_sport k nport s) = 0"
    "hlists t = (hlists s)(Udp_Head (udp_slot (ntohs nport)) := k # hlists s (Udp_Head (udp_slot (ntohs nport))))"
    "sk_at t j = (if j = k then set_sport nport (sk_at s k)\<lparr>sk_hash := of_nat (udp_slot (ntohs nport)), sk_refcnt := sk_refcnt (sk_at s k) + 1,
        hash_list := Some (Udp_Head (udp_slot (ntohs nport)))\<rparr> else sk_at s j)"
  using assms(1,2) unfolding t_def
  by (auto simp: udp_set_sport_def udp_hash_def sock_add_hash_def get_sock_def Let_def)

lemma udp_bind_table:
  fixes s :: "'a udp_state_scheme" and k :: nat
  assumes ok: "udp_table_ok s" and new: "hash_list (sk_at s k) = None" and port: "nport \<noteq> 0"
    and free: "\<not> udp_port_used (ntohs nport) s"
  defines "t \<equiv> snd (udp_set_sport k nport s)"
  shows "udp_table_ok t" "udp_bound t n j \<longleftrightarrow> (if n = nport then j = k else udp_bound s n j)"
proof -
  note set = udp_set_sport_hashed [OF port free, of k, folded t_def]
  have free': "\<not> in_bucket (\<lambda>n. udp_slot (ntohs n)) Udp_Head (hlists s) (\<lambda>k. sk_sport (sk_at s k)) nport j" for j
    using free udp_lookup_iff [OF ok] by (simp add: udp_used_iff [OF ok])
  have eq: "(\<lambda>j. sk_sport (sk_at t j)) = (\<lambda>j. sk_sport (sk_at s j))(k := nport)"
    "(\<lambda>j. hash_list (sk_at t j)) = (\<lambda>j. hash_list (sk_at s j))(k := Some (Udp_Head (udp_slot (ntohs nport))))"
    by (auto simp: set(3))
  note ins = buckets_insert [OF ok [unfolded udp_table_ok_def] inj_heads(1) new free' set(2) eq]
  show tok: "udp_table_ok t" using ins(1) by (simp add: udp_table_ok_def)
  show "udp_bound t n j \<longleftrightarrow> (if n = nport then j = k else udp_bound s n j)"
    using ins(2) by (simp add: udp_lookup_iff [OF ok] udp_lookup_iff [OF tok])
qed

lemma free_sock_sk [simp]:
  "hlists (free_sock k s) = hlists s" "sk_sport (sk_at (free_sock k s) j) = sk_sport (sk_at s j)"
  "hash_list (sk_at (free_sock k s) j) = hash_list (sk_at s j)"
  by (simp_all add: free_sock_def Let_def)

lemma udp_unhash_table:
  fixes s :: "'a udp_state_scheme" and k :: nat
  assumes ok: "udp_table_ok s" and k: "hash_list (sk_at s k) = Some (Udp_Head h)"
  defines "t \<equiv> udp_unhash k s"
  shows "udp_table_ok t" "udp_bound t n j \<longleftrightarrow> j \<noteq> k \<and> udp_bound s n j"
proof -
  have l: "hlists t = (hlists s)(Udp_Head h := remove1 k (hlists s (Udp_Head h)))"
    and p: "sk_sport (sk_at t i) = sk_sport (sk_at s i)"
    and o: "(\<lambda>i. hash_list (sk_at t i)) = (\<lambda>i. hash_list (sk_at s i))(k := None)" for i
    using k unfolding t_def
    by (auto simp: udp_unhash_def udp_unset_sport_def sock_del_hash_def udp_update_best_def Let_def)
  note rem = buckets_remove [OF ok [unfolded udp_table_ok_def] inj_heads(1) k l o]
  show tok: "udp_table_ok t" using rem(1) by (simp add: udp_table_ok_def p)
  show "udp_bound t n j \<longleftrightarrow> j \<noteq> k \<and> udp_bound s n j"
    using rem(2) by (simp add: udp_lookup_iff [OF ok] udp_lookup_iff [OF tok] p)
qed

section \<open>Ephemeral ports\<close>

lemma udp_free_port_range:
  assumes "port \<le> UDP_PORT_MAX + 127"
  shows "port \<le> udp_free_port used port \<and> unat (udp_free_port used port) mod 128 = unat port mod 128 \<and>
    udp_free_port used port \<le> UDP_PORT_MAX + 127 \<and> (udp_free_port used port < UDP_PORT_MAX \<longrightarrow> \<not> used (udp_free_port used port))"
  using assms
proof (induction used port rule: udp_free_port.induct)
  case (1 used port)
  show ?case
  proof (cases "port < UDP_PORT_MAX \<and> used port")
    case True
    then have "unat port < 0xf000" by (simp add: word_less_nat_alt)
    then have u: "unat (port + of_nat 128) = unat port + 128" by (simp add: unat_word_ariths)
    then have "port + of_nat 128 \<le> UDP_PORT_MAX + 127" "port \<le> port + of_nat 128"
      using \<open>unat port < 0xf000\<close> by (simp_all add: word_le_nat_alt)
    moreover have "unat (port + of_nat 128) mod 128 = unat port mod 128" unfolding u by simp
    ultimately show ?thesis
      using 1(1) [OF True] True by (subst (1 2 3 4 5) udp_free_port.simps) (auto intro: order_trans)
  next
    case False
    then show ?thesis using 1(2) by (subst (1 2 3 4 5) udp_free_port.simps) auto
  qed
qed

lemma udp_best_port:
  assumes best: "best_slot s < UDP_HASH_SIZE" and got: "fst (udp_get_best_port s) = port" "port \<noteq> 0"
    and counted: "slot_used s (best_slot s) = 0 \<longrightarrow> hlists s (Udp_Head (best_slot s)) = []"
  shows "BEST_PORT_MIN \<le> port" "port < UDP_PORT_MAX" "udp_slot port = best_slot s" "\<not> udp_port_used port s"
proof -
  let ?start = "of_nat (best_slot s) + BEST_PORT_MIN :: u16"
  let ?used = "\<lambda>q. udp_port_used_in q (Udp_Head (best_slot s)) s"
  have u: "unat ?start = best_slot s + 0x8000" using best by (simp add: unat_word_ariths unat_of_nat)
  then have st: "?start \<le> UDP_PORT_MAX + 127" "BEST_PORT_MIN \<le> ?start" "?start < UDP_PORT_MAX"
    using best by (simp_all add: word_le_nat_alt word_less_nat_alt)
  note r = udp_free_port_range [OF st(1), of ?used]
  have cases: "port = ?start \<and> hlists s (Udp_Head (best_slot s)) = [] \<or> port = udp_free_port ?used ?start \<and> port < UDP_PORT_MAX"
    using got counted by (auto simp: udp_get_best_port_def Let_def split: if_splits)
  then show "BEST_PORT_MIN \<le> port" "port < UDP_PORT_MAX" using r st by (auto intro: order_trans)
  have "unat port mod 128 = unat ?start mod 128" using cases r by auto
  moreover have "(best_slot s + 0x8000) mod 128 = best_slot s" using best mod_mult_self1 [of "best_slot s" 256 128] by simp
  ultimately show slot: "udp_slot port = best_slot s" by (simp add: u udp_slot_mod)
  show "\<not> udp_port_used port s"
    using cases r unfolding udp_port_used_def slot by (auto simp: udp_port_used_in_def)
qed

lemma udp_get_best_port_sk [simp]:
  "sk_heap (snd (udp_get_best_port s)) = sk_heap s" "hlists (snd (udp_get_best_port s)) = hlists s"
  by (simp_all add: udp_get_best_port_def Let_def)

lemma udp_get_port_best:
  assumes "fst (udp_get_best_port s) = port" "port \<noteq> 0"
  shows "fst (udp_get_port s) = htons port" "sk_heap (snd (udp_get_port s)) = sk_heap s" "hlists (snd (udp_get_port s)) = hlists s"
  using assms udp_get_best_port_sk [of s]
  by (auto simp: udp_get_port_def Let_def simp del: udp_get_best_port_sk split: prod.splits option.splits)

lemma udp_set_sport_auto:
  assumes "udp_get_port s = (nport, t)" "nport \<noteq> 0" "\<not> udp_port_used (ntohs nport) t"
  shows "udp_set_sport k 0 s = udp_set_sport k nport t"
  using assms by (simp add: udp_set_sport_def)

interpretation udp_ports: port_table "udp_table_ok :: 'a udp_state_scheme \<Rightarrow> bool" "\<lambda>s n k. udp_bound s n k"
  "\<lambda>s k. hash_list (sk_at s k) = None" udp_set_sport udp_unhash
proof
  fix s :: "'a udp_state_scheme" and n j k
  assume ok: "udp_table_ok s"
  show "udp_set_sport k n s = (- 1, s)" if "n \<noteq> 0" "udp_bound s n j"
    using that udp_used_iff [OF ok, of n] by (auto simp: udp_set_sport_def)
  show "fst (udp_set_sport k n s) = 0 \<and> udp_table_ok (snd (udp_set_sport k n s)) \<and>
      (\<forall>m j. udp_bound (snd (udp_set_sport k n s)) m j \<longleftrightarrow> (if m = n then j = k else udp_bound s m j)) \<and>
      (\<forall>j. hash_list (sk_at (snd (udp_set_sport k n s)) j) = None \<longleftrightarrow> j \<noteq> k \<and> hash_list (sk_at s j) = None)"
    if "n \<noteq> 0" "hash_list (sk_at s k) = None" "\<And>j. \<not> udp_bound s n j"
  proof -
    have free: "\<not> udp_port_used (ntohs n) s" using that(3) by (simp add: udp_used_iff [OF ok])
    note set = udp_set_sport_hashed [OF that(1) free, of k] and tab = udp_bind_table [OF ok that(2,1) free]
    show ?thesis by (intro conjI allI tab set) (simp add: set(3))
  qed
  show "udp_table_ok (udp_unhash k s) \<and> (\<forall>m j. udp_bound (udp_unhash k s) m j \<longleftrightarrow> j \<noteq> k \<and> udp_bound s m j) \<and>
      (\<forall>j. hash_list (sk_at (udp_unhash k s) j) = None \<longleftrightarrow> j = k \<or> hash_list (sk_at s j) = None)"
    if "udp_bound s n k"
  proof -
    have h: "hash_list (sk_at s k) = Some (Udp_Head (udp_slot (ntohs n)))"
      using that in_bucketD [OF ok [unfolded udp_table_ok_def]] by (simp add: udp_lookup_iff [OF ok])
    note tab = udp_unhash_table [OF ok h]
    show ?thesis using h
      by (intro conjI allI tab) (simp add: udp_unhash_def udp_unset_sport_def sock_del_hash_def udp_update_best_def Let_def)
  qed
qed

lemma udp_init_represents:
  assumes "\<forall>k \<in> K. hash_list (sk_at s k) = None"
  shows "udp_ports.represents K (udp_init s) Map.empty"
  unfolding udp_ports.represents_def using assms
  by (simp add: udp_table_ok_def buckets_ok_def udp_init_def udp_lookup_sock_def)

text \<open>
  C22: From the start of the stack, any sequence of explicit binds and closes of UDP sockets behaves like a map from
  ports to sockets: \<open>udp_set_sport\<close> succeeds exactly when the port is free, and \<open>udp_lookup_sock\<close> finds for every
  port the socket bound to it, or none.
\<close>

theorem udp_ports_refine:
  fixes s :: "'a udp_state_scheme"
  assumes "\<forall>k \<in> K. hash_list (sk_at s k) = None" "port_legal K ops Map.empty"
  shows "fst (port_run udp_set_sport udp_unhash ops (udp_init s)) = fst (port_spec ops Map.empty) \<and>
    fst (udp_lookup_sock nport (snd (port_run udp_set_sport udp_unhash ops (udp_init s)))) = snd (port_spec ops Map.empty) nport"
proof -
  let ?t = "snd (port_run udp_set_sport udp_unhash ops (udp_init s))"
  note r = udp_ports.run_refines [OF udp_init_represents [OF assms(1)] assms(2)]
  then have "fst (udp_lookup_sock nport ?t) = Some k \<longleftrightarrow> snd (port_spec ops Map.empty) nport = Some k" for k
    by (auto simp: udp_ports.represents_def)
  then show ?thesis using r by (metis option.exhaust)
qed

text \<open>A stack on which nothing has happened yet.\<close>

definition fresh_stack :: stack_state where
  "fresh_stack = stack_on (sample_router []) (\<lambda>_. zero_sock) (\<lambda>_. []) (\<lambda>_. zero_tcp)"

lemma port_sample:
  defines "ops \<equiv> [Bind 1 0x3500, Bind 2 0x3500, Unbind 1, Bind 2 0x3500]"
  shows "port_legal {1, 2} ops Map.empty" "fst (port_spec ops Map.empty) = [0, - 1, 0]" "snd (port_spec ops Map.empty) 0x3500 = Some 2"
    "snd (port_spec ops Map.empty) 0x3600 = None"
  by (simp_all add: ops_def ran_def)

theorem udp_ports_refine_witness:
  "fst (port_run udp_set_sport udp_unhash [Bind 1 0x3500, Bind 2 0x3500, Unbind 1, Bind 2 0x3500] (udp_init fresh_stack)) = [0, - 1, 0] \<and>
   fst (udp_lookup_sock 0x3500 (snd (port_run udp_set_sport udp_unhash [Bind 1 0x3500, Bind 2 0x3500, Unbind 1, Bind 2 0x3500]
     (udp_init fresh_stack)))) = Some 2"
proof -
  have "\<forall>k \<in> {1, 2}. hash_list (sk_at fresh_stack k) = None" by (simp add: fresh_stack_def zero_sock_def)
  from udp_ports_refine [OF this port_sample(1), of "0x3500"] show ?thesis unfolding port_sample .
qed

lemma udp_autobind:
  fixes s :: "'a udp_state_scheme" and k :: nat
  assumes ok: "udp_table_ok s" and new: "hash_list (sk_at s k) = None" and best: "best_slot s < UDP_HASH_SIZE"
    and counted: "slot_used s (best_slot s) = 0 \<longrightarrow> hlists s (Udp_Head (best_slot s)) = []"
    and got: "fst (udp_get_best_port s) \<noteq> 0"
  defines "port \<equiv> fst (udp_get_best_port s)" and "t \<equiv> snd (udp_set_sport k 0 s)"
  shows "fst (udp_set_sport k 0 s) = 0" "udp_table_ok t" "udp_bound t n j \<longleftrightarrow> (if n = htons port then j = k else udp_bound s n j)"
proof -
  obtain u where u: "udp_get_port s = (htons port, u)" "sk_heap u = sk_heap s" "hlists u = hlists s"
    using udp_get_port_best [OF refl got] by (cases "udp_get_port s") (auto simp: port_def)
  have free: "\<not> udp_port_used (ntohs (htons port)) u"
    using udp_best_port(4) [OF best refl got counted] u by (simp add: port_def udp_port_used_def udp_port_used_in_def)
  have nz: "htons port \<noteq> 0" using got by (simp add: port_def)
  have eq: "udp_set_sport k 0 s = udp_set_sport k (htons port) u" by (rule udp_set_sport_auto [OF u(1) nz free])
  have uok: "udp_table_ok u" "hash_list (sk_at u k) = None" using ok new u by (auto simp: udp_table_ok_def)
  note tab = udp_bind_table [where k = k, OF uok nz free, folded eq, folded t_def]
  show "fst (udp_set_sport k 0 s) = 0" unfolding eq by (rule udp_set_sport_hashed(1) [OF nz free])
  show "udp_table_ok t" by (rule tab(1))
  have "udp_bound u n j \<longleftrightarrow> udp_bound s n j" by (simp add: udp_lookup_iff [OF uok(1)] udp_lookup_iff [OF ok] u)
  then show "udp_bound t n j \<longleftrightarrow> (if n = htons port then j = k else udp_bound s n j)" using tab(2) by simp
qed



text \<open>
  C37: An explicit bind does not count in its slot. After the start, one socket bound to port 0x8000 and another one
  bound automatically get the same port, so that the first never receives a datagram again.
\<close>

theorem udp_autobind_duplicate:
  fixes s :: "'a udp_state_scheme"
  defines "t \<equiv> snd (udp_set_sport 0 (htons BEST_PORT_MIN) (udp_init s))"
  shows "fst (udp_set_sport 0 (htons BEST_PORT_MIN) (udp_init s)) = 0 \<and> fst (udp_set_sport 1 0 t) = 0 \<and>
    sk_sport (sk_at (snd (udp_set_sport 1 0 t)) 1) = htons BEST_PORT_MIN \<and>
    sk_sport (sk_at (snd (udp_set_sport 1 0 t)) 0) = htons BEST_PORT_MIN \<and>
    fst (udp_lookup_sock (htons BEST_PORT_MIN) (snd (udp_set_sport 1 0 t))) = Some 1"
proof -
  have slot: "udp_slot BEST_PORT_MIN = 0" by (simp add: udp_slot_def)
  have free: "\<not> udp_port_used (ntohs (htons BEST_PORT_MIN)) (udp_init s)"
    by (simp add: udp_port_used_def udp_port_used_in_def udp_init_def)
  have nz: "htons BEST_PORT_MIN \<noteq> 0" by simp
  note set = udp_set_sport_hashed [where k = 0, OF nz free, folded t_def]
  have t: "slot_used t = (\<lambda>_. 0)" "best_slot t = 0" "best_update t = 10"
    unfolding t_def using free by (simp_all add: udp_set_sport_def udp_update_best_def udp_hash_def udp_init_def sock_add_hash_def get_sock_def upd_sk_def Let_def)
  have "udp_get_port t = (htons BEST_PORT_MIN, t\<lparr>slot_used := (\<lambda>_. 0)(0 := 1), best_update := 9\<rparr>)"
    by (simp add: udp_get_port_def udp_get_best_port_def t)
  then show ?thesis using set
    by (simp add: udp_set_sport_def udp_hash_def sock_add_hash_def get_sock_def Let_def slot udp_lookup_sock_def)
qed

section \<open>The TCP table\<close>

text \<open>
  The bind table of TCP: the buckets are well formed, \<open>bfree\<close> counts every bound socket down from the size of the
  range, and the next port to try is in the range.
\<close>

definition tcp_bnodes :: "'a sk_state_scheme \<Rightarrow> nat" where
  "tcp_bnodes s = (\<Sum>h<256. length (hlists s (Tcp_Bhead h)))"

definition tcp_ports_ok :: "'a stack_state_scheme \<Rightarrow> bool" where
  "tcp_ports_ok s \<longleftrightarrow>
     buckets_ok tcp_bslot Tcp_Bhead (hlists s) (\<lambda>k. sk_sport (sk_at s k)) (\<lambda>k. bhash_list (tsk_at s k)) \<and>
     bfree s = 0x7001 - int (tcp_bnodes s) \<and> TCP_BPORT_MIN \<le> defport s \<and> defport s \<le> TCP_BPORT_MAX"

abbreviation (input) tcp_bound :: "'a sk_state_scheme \<Rightarrow> u16 \<Rightarrow> nat \<Rightarrow> bool" where
  "tcp_bound s n k \<equiv> in_bucket tcp_bslot Tcp_Bhead (hlists s) (\<lambda>k. sk_sport (sk_at s k)) n k"

lemma tcp_used_iff: "tcp_port_used n s \<longleftrightarrow> (\<exists>k. tcp_bound s n k)"
  by (auto simp: tcp_port_used_def in_bucket_def list_ex_iff)

lemma tcp_bslot_lt: "tcp_bslot n < 256"
proof -
  have "ntohs n AND 0xff = take_bit 8 (ntohs n)" by (simp add: take_bit_eq_mask mask_eq_exp_minus_1)
  then have "tcp_bslot n = unat (ntohs n) mod 256" unfolding tcp_bslot_def by (simp only: unsigned_take_bit_eq) (simp add: take_bit_eq_mod)
  then show ?thesis by simp
qed

lemma unat_tcp_bslot [simp]: "unat (of_nat (tcp_bslot n) :: u32) = tcp_bslot n"
  using tcp_bslot_lt [of n] by (simp add: unat_of_nat)

subsection \<open>The search for a free port\<close>

lemma next_port_nat:
  assumes "TCP_BPORT_MIN \<le> p" "p \<le> TCP_BPORT_MAX"
  shows "unat (next_port p) = 0x8000 + (unat p - 0x8000 + 1) mod 0x7001"
proof -
  have p: "0x8000 \<le> unat p" "unat p \<le> 0xf000" using assms by (simp_all add: word_le_nat_alt)
  then have s: "unat (p + 1) = unat p + 1" by (simp add: unat_word_ariths)
  show ?thesis
  proof (cases "unat p = 0xf000")
    case True
    then show ?thesis using s by (simp add: next_port_def word_less_nat_alt)
  next
    case False
    then have "\<not> p + 1 > TCP_BPORT_MAX" using s p by (simp add: word_less_nat_alt)
    then show ?thesis using s p False by (simp add: next_port_def)
  qed
qed

lemma next_port_range:
  assumes "TCP_BPORT_MIN \<le> p" "p \<le> TCP_BPORT_MAX"
  shows "TCP_BPORT_MIN \<le> next_port p" "next_port p \<le> TCP_BPORT_MAX"
proof -
  obtain r where "(unat p - 0x8000 + 1) mod 0x7001 = r" "r < 0x7001" by simp
  then show "TCP_BPORT_MIN \<le> next_port p" "next_port p \<le> TCP_BPORT_MAX"
    using next_port_nat [OF assms] by (simp_all add: word_le_nat_alt)
qed

lemma next_port_iter:
  assumes "TCP_BPORT_MIN \<le> p" "p \<le> TCP_BPORT_MAX"
  shows "TCP_BPORT_MIN \<le> (next_port ^^ i) p \<and> (next_port ^^ i) p \<le> TCP_BPORT_MAX \<and>
    unat ((next_port ^^ i) p) = 0x8000 + (unat p - 0x8000 + i) mod 0x7001"
proof (induction i)
  case 0
  have "0x8000 \<le> unat p" "unat p \<le> 0xf000" using assms by (simp_all add: word_le_nat_alt)
  then show ?case using assms by simp
next
  case (Suc i)
  let ?q = "(next_port ^^ i) p"
  have q: "TCP_BPORT_MIN \<le> ?q" "?q \<le> TCP_BPORT_MAX" and u: "unat ?q = 0x8000 + (unat p - 0x8000 + i) mod 0x7001"
    using Suc by blast+
  have "unat (next_port ?q) = 0x8000 + ((unat p - 0x8000 + i) mod 0x7001 + 1) mod 0x7001"
    unfolding next_port_nat [OF q] u by (simp only: diff_add_inverse)
  then have "unat (next_port ?q) = 0x8000 + (unat p - 0x8000 + Suc i) mod 0x7001"
    by (simp only: mod_add_left_eq add.assoc Suc_eq_plus1)
  then show ?case using next_port_range [OF q] by (simp only: funpow.simps o_apply simp_thms)
qed

lemma cycle_step: "a < m \<Longrightarrow> b < m \<Longrightarrow> (a + (b + m - a) mod m) mod m = (b :: nat)"
  by (simp add: mod_add_right_eq)

lemma tcp_port_reached:
  assumes "TCP_BPORT_MIN \<le> p" "p \<le> TCP_BPORT_MAX" "TCP_BPORT_MIN \<le> q" "q \<le> TCP_BPORT_MAX"
  shows "\<exists>i<0x7001. (next_port ^^ i) p = q"
proof -
  define a b where "a = unat p - 0x8000" and "b = unat q - 0x8000"
  have ab: "a < 0x7001" "b < 0x7001" "unat p = 0x8000 + a" "unat q = 0x8000 + b"
    using assms by (simp_all add: word_le_nat_alt a_def b_def)
  define i where "i = (b + 0x7001 - a) mod 0x7001"
  have "i < 0x7001" "(a + i) mod 0x7001 = b"
    using ab cycle_step [of a "0x7001" b] by (simp_all add: i_def)
  then have "unat ((next_port ^^ i) p) = unat q" using next_port_iter [OF assms(1,2), of i] ab by simp
  then show ?thesis using \<open>i < 0x7001\<close> by (auto simp: word_unat_eq_iff)
qed

lemma tcp_port_loop_finds:
  assumes "\<not> tcp_port_used (htons ((next_port ^^ i) (defport s))) s" "i \<le> n"
  shows "\<exists>j \<le> i. tcp_port_loop n s = s\<lparr>defport := (next_port ^^ j) (defport s)\<rparr> \<and> \<not> tcp_port_used (htons ((next_port ^^ j) (defport s))) s"
  using assms
proof (induction n arbitrary: s i)
  case 0
  then show ?case by simp
next
  case (Suc n)
  show ?case
  proof (cases "tcp_port_used (htons (defport s)) s")
    case False
    then show ?thesis by (intro exI [of _ 0]) simp
  next
    case True
    let ?s = "s\<lparr>defport := next_port (defport s)\<rparr>"
    have used: "tcp_port_used m ?s = tcp_port_used m s" for m by (simp add: tcp_port_used_def)
    from True Suc.prems obtain i' where i: "i = Suc i'" by (cases i) auto
    have f: "(next_port ^^ j) (next_port x) = (next_port ^^ Suc j) x" for j x by (simp add: funpow_swap1)
    from Suc.IH [of i' ?s] Suc.prems obtain j where "j \<le> i'" "tcp_port_loop n ?s = ?s\<lparr>defport := (next_port ^^ Suc j) (defport s)\<rparr>"
      "\<not> tcp_port_used (htons ((next_port ^^ Suc j) (defport s))) s"
      by (auto simp: i used f simp del: funpow.simps)
    then show ?thesis using True i by (intro exI [of _ "Suc j"]) simp
  qed
qed

lemma tcp_free_port_exists:
  assumes "tcp_bnodes s < 0x7001"
  shows "\<exists>p. TCP_BPORT_MIN \<le> p \<and> p \<le> TCP_BPORT_MAX \<and> \<not> tcp_port_used (htons p) s"
proof (rule ccontr)
  assume all: "\<not> (\<exists>p. TCP_BPORT_MIN \<le> p \<and> p \<le> TCP_BPORT_MAX \<and> \<not> tcp_port_used (htons p) s)"
  let ?ports = "\<lambda>h. (\<lambda>k. ntohs (sk_sport (sk_at s k))) ` set (hlists s (Tcp_Bhead h))"
  have "{TCP_BPORT_MIN..TCP_BPORT_MAX} \<subseteq> (\<Union>h<256. ?ports h)"
  proof
    fix p assume "p \<in> {TCP_BPORT_MIN..TCP_BPORT_MAX}"
    then have "tcp_port_used (htons p) s" using all by simp
    then obtain k where "k \<in> set (hlists s (Tcp_Bhead (tcp_bslot (htons p))))" "sk_sport (sk_at s k) = htons p"
      by (auto simp: tcp_port_used_def list_ex_iff)
    then have "p \<in> ?ports (tcp_bslot (htons p))" by (auto intro: image_eqI [of _ _ k])
    then show "p \<in> (\<Union>h<256. ?ports h)" using tcp_bslot_lt by blast
  qed
  then have "card {TCP_BPORT_MIN..TCP_BPORT_MAX} \<le> card (\<Union>h<256. ?ports h)" by (intro card_mono) auto
  also have "\<dots> \<le> (\<Sum>h<256. card (?ports h))" by (rule card_UN_le) simp
  also have "\<dots> \<le> tcp_bnodes s" unfolding tcp_bnodes_def
    by (intro sum_mono order_trans [OF card_image_le] card_length) simp
  finally have "card {TCP_BPORT_MIN..TCP_BPORT_MAX} \<le> tcp_bnodes s" .
  moreover have "card {TCP_BPORT_MIN..TCP_BPORT_MAX} = 0x7001"
  proof -
    have "unat ` {TCP_BPORT_MIN..TCP_BPORT_MAX} = {0x8000..0xf000}"
    proof (intro equalityI subsetI)
      fix x assume "x \<in> {0x8000..0xf000 :: nat}"
      then have "unat (of_nat x :: u16) = x" "of_nat x \<in> {TCP_BPORT_MIN..TCP_BPORT_MAX}"
        by (simp_all add: word_le_nat_alt unat_of_nat)
      then show "x \<in> unat ` {TCP_BPORT_MIN..TCP_BPORT_MAX}" by force
    qed (auto simp: word_le_nat_alt)
    then have "card (unat ` {TCP_BPORT_MIN..TCP_BPORT_MAX}) = 0x7001" by simp
    moreover have "inj_on unat {TCP_BPORT_MIN..TCP_BPORT_MAX}" by (simp add: inj_on_def word_unat_eq_iff)
    ultimately show ?thesis by (simp add: card_image)
  qed
  ultimately show False using assms by simp
qed

lemma tcp_get_port_free:
  assumes ok: "tcp_ports_ok s" and free: "bfree s > 0"
  shows "\<exists>p t. tcp_get_port s = (htons p, t) \<and> TCP_BPORT_MIN \<le> p \<and> p \<le> TCP_BPORT_MAX \<and> \<not> tcp_port_used (htons p) s \<and>
    t = s\<lparr>defport := next_port p\<rparr> \<and> tcp_ports_ok t"
proof -
  have d: "TCP_BPORT_MIN \<le> defport s" "defport s \<le> TCP_BPORT_MAX" and "tcp_bnodes s < 0x7001"
    using ok free by (auto simp: tcp_ports_ok_def)
  then obtain q where "TCP_BPORT_MIN \<le> q" "q \<le> TCP_BPORT_MAX" "\<not> tcp_port_used (htons q) s" using tcp_free_port_exists by blast
  moreover obtain i where "i < 0x7001" "(next_port ^^ i) (defport s) = q"
    using tcp_port_reached [OF d] calculation by blast
  ultimately obtain j where j: "tcp_port_loop 0x7001 s = s\<lparr>defport := (next_port ^^ j) (defport s)\<rparr>"
    "\<not> tcp_port_used (htons ((next_port ^^ j) (defport s))) s"
    using tcp_port_loop_finds [of i s "0x7001"] by auto
  let ?p = "(next_port ^^ j) (defport s)"
  have p: "TCP_BPORT_MIN \<le> ?p" "?p \<le> TCP_BPORT_MAX" using next_port_iter [OF d, of j] by blast+
  have "tcp_get_port s = (htons ?p, s\<lparr>defport := next_port ?p\<rparr>)" unfolding tcp_get_port_def Let_def j(1) using free by simp
  moreover have "tcp_ports_ok (s\<lparr>defport := next_port ?p\<rparr>)"
    using ok next_port_range [OF p] by (simp add: tcp_ports_ok_def tcp_bnodes_def)
  ultimately show ?thesis using p j(2) by blast
qed

subsection \<open>Binding\<close>

lemma sum_heads_upd:
  fixes n :: nat
  assumes "h < n"
  shows "(\<Sum>i<n. length ((g(Tcp_Bhead h := xs)) (Tcp_Bhead i))) + length (g (Tcp_Bhead h)) = (\<Sum>i<n. length (g (Tcp_Bhead i))) + length xs"
  using assms by (simp add: sum.remove [of "{..<n}" h])

lemma tcp_bnodes_upd:
  assumes "hlists t = (hlists s)(Tcp_Bhead (tcp_bslot n) := xs)"
  shows "tcp_bnodes t + length (hlists s (Tcp_Bhead (tcp_bslot n))) = tcp_bnodes s + length xs"
  unfolding tcp_bnodes_def assms by (rule sum_heads_upd [OF tcp_bslot_lt])

lemma tcp_set_sport_bound:
  fixes s :: "'a stack_state_scheme" and k :: nat
  assumes "nport \<noteq> 0" "\<not> tcp_port_used nport s"
  defines "t \<equiv> snd (tcp_set_sport k nport s)"
  shows "fst (tcp_set_sport k nport s) = 0"
    "hlists t = (hlists s)(Tcp_Bhead (tcp_bslot nport) := k # hlists s (Tcp_Bhead (tcp_bslot nport)))"
    "(\<lambda>j. sk_sport (sk_at t j)) = (\<lambda>j. sk_sport (sk_at s j))(k := nport)"
    "(\<lambda>j. bhash_list (tsk_at t j)) = (\<lambda>j. bhash_list (tsk_at s j))(k := Some (Tcp_Bhead (tcp_bslot nport)))"
    "bfree t = bfree s - 1" "defport t = defport s" "fault t = fault s"
  using assms(1,2) unfolding t_def
  by (simp_all add: tcp_set_sport_def tcp_bhash_def get_tcp_sock_def get_sock_def Let_def fun_eq_iff)

lemma tcp_bind_table:
  fixes s :: "'a stack_state_scheme" and k :: nat
  assumes ok: "tcp_ports_ok s" and new: "bhash_list (tsk_at s k) = None" and port: "nport \<noteq> 0" and free: "\<not> tcp_port_used nport s"
  defines "t \<equiv> snd (tcp_set_sport k nport s)"
  shows "tcp_ports_ok t" "tcp_bound t n j \<longleftrightarrow> (if n = nport then j = k else tcp_bound s n j)"
proof -
  note set = tcp_set_sport_bound [OF port free, of k, folded t_def]
  have free': "\<not> tcp_bound s nport j" for j using free by (auto simp: tcp_used_iff)
  have bk: "buckets_ok tcp_bslot Tcp_Bhead (hlists s) (\<lambda>k. sk_sport (sk_at s k)) (\<lambda>k. bhash_list (tsk_at s k))"
    using ok by (simp add: tcp_ports_ok_def)
  note ins = buckets_insert [OF bk inj_heads(2) new free' set(2,3,4)]
  have "tcp_bnodes t = tcp_bnodes s + 1"
    using tcp_bnodes_upd [OF set(2)] by simp
  then show "tcp_ports_ok t" using ok ins(1) set(5,6) by (simp add: tcp_ports_ok_def)
  show "tcp_bound t n j \<longleftrightarrow> (if n = nport then j = k else tcp_bound s n j)" by (rule ins(2))
qed

lemma tcp_unbhash_table:
  fixes s :: "'a stack_state_scheme" and k :: nat
  assumes ok: "tcp_ports_ok s" and k: "tcp_bound s m k"
  defines "t \<equiv> tcp_unbhash k s"
  shows "tcp_ports_ok t" "tcp_bound t n j \<longleftrightarrow> j \<noteq> k \<and> tcp_bound s n j"
    "(\<lambda>i. bhash_list (tsk_at t i)) = (\<lambda>i. bhash_list (tsk_at s i))(k := None)"
proof -
  have bk: "buckets_ok tcp_bslot Tcp_Bhead (hlists s) (\<lambda>k. sk_sport (sk_at s k)) (\<lambda>k. bhash_list (tsk_at s k))"
    using ok by (simp add: tcp_ports_ok_def)
  have h: "bhash_list (tsk_at s k) = Some (Tcp_Bhead (tcp_bslot m))" by (rule in_bucketD [OF bk k])
  have l: "hlists t = (hlists s)(Tcp_Bhead (tcp_bslot m) := remove1 k (hlists s (Tcp_Bhead (tcp_bslot m))))"
    and p: "sk_sport (sk_at t i) = sk_sport (sk_at s i)" and f: "bfree t = bfree s + 1" "defport t = defport s"
    and o: "(\<lambda>i. bhash_list (tsk_at t i)) = (\<lambda>i. bhash_list (tsk_at s i))(k := None)" for i
    using h unfolding t_def by (simp_all add: tcp_unbhash_def tcp_unset_sport_def Let_def fun_eq_iff)
  show "(\<lambda>i. bhash_list (tsk_at t i)) = (\<lambda>i. bhash_list (tsk_at s i))(k := None)" by (fact o)
  note rem = buckets_remove [OF bk inj_heads(2) h l o]
  have kin: "k \<in> set (hlists s (Tcp_Bhead (tcp_bslot m)))" using k by (simp add: in_bucket_def)
  then have "length (hlists s (Tcp_Bhead (tcp_bslot m))) = Suc (length (remove1 k (hlists s (Tcp_Bhead (tcp_bslot m)))))"
    using length_pos_if_in_set [OF kin] by (simp add: length_remove1)
  then have "tcp_bnodes s = tcp_bnodes t + 1"
    using tcp_bnodes_upd [OF l] by linarith
  then show "tcp_ports_ok t" using ok rem(1) f by (simp add: tcp_ports_ok_def p)
  show "tcp_bound t n j \<longleftrightarrow> j \<noteq> k \<and> tcp_bound s n j" using rem(2) by (simp add: p)
qed

interpretation tcp_ports: port_table "tcp_ports_ok :: 'a stack_state_scheme \<Rightarrow> bool" "\<lambda>s n k. tcp_bound s n k"
  "\<lambda>s k. bhash_list (tsk_at s k) = None" tcp_set_sport tcp_unbhash
proof
  fix s :: "'a stack_state_scheme" and n j k
  assume ok: "tcp_ports_ok s"
  show "tcp_set_sport k n s = (- 1, s)" if "n \<noteq> 0" "tcp_bound s n j"
    using that by (auto simp: tcp_set_sport_def tcp_used_iff)
  show "fst (tcp_set_sport k n s) = 0 \<and> tcp_ports_ok (snd (tcp_set_sport k n s)) \<and>
      (\<forall>m j. tcp_bound (snd (tcp_set_sport k n s)) m j \<longleftrightarrow> (if m = n then j = k else tcp_bound s m j)) \<and>
      (\<forall>j. bhash_list (tsk_at (snd (tcp_set_sport k n s)) j) = None \<longleftrightarrow> j \<noteq> k \<and> bhash_list (tsk_at s j) = None)"
    if "n \<noteq> 0" "bhash_list (tsk_at s k) = None" "\<And>j. \<not> tcp_bound s n j"
  proof -
    have free: "\<not> tcp_port_used n s" using that(3) by (simp add: tcp_used_iff)
    note set = tcp_set_sport_bound [OF that(1) free, of k] and tab = tcp_bind_table [OF ok that(2,1) free]
    show ?thesis using fun_cong [OF set(4)] by (intro conjI allI tab set(1)) simp
  qed
  show "tcp_ports_ok (tcp_unbhash k s) \<and> (\<forall>m j. tcp_bound (tcp_unbhash k s) m j \<longleftrightarrow> j \<noteq> k \<and> tcp_bound s m j) \<and>
      (\<forall>j. bhash_list (tsk_at (tcp_unbhash k s) j) = None \<longleftrightarrow> j = k \<or> bhash_list (tsk_at s j) = None)"
    if "tcp_bound s n k"
    using fun_cong [OF tcp_unbhash_table(3) [OF ok that]] by (intro conjI allI tcp_unbhash_table [OF ok that]) simp
qed

text \<open>The zeroed bind table and the static variable of \<open>tcp_get_port\<close>, at the start.\<close>

lemma tcp_init_represents:
  assumes "\<And>h. hlists s (Tcp_Bhead h) = []" "defport s = TCP_BPORT_MIN" "\<forall>k \<in> K. bhash_list (tsk_at s k) = None"
  shows "tcp_ports.represents K (tcp_init s) Map.empty"
proof -
  have "tcp_bnodes (tcp_init s) = 0" by (simp add: tcp_bnodes_def tcp_init_def assms(1))
  then show ?thesis unfolding tcp_ports.represents_def using assms
    by (simp add: tcp_ports_ok_def buckets_ok_def tcp_init_def in_bucket_def)
qed

text \<open>
  C23: From the start of the stack, any sequence of explicit binds and releases of TCP sockets behaves like a map from
  ports to sockets: \<open>tcp_set_sport\<close> succeeds exactly when the port is free, \<open>tcp_port_used\<close> tells which ports are
  bound, and the invariant with its count of free ports holds at the end.
\<close>

theorem tcp_ports_refine:
  fixes s :: "'a stack_state_scheme"
  assumes "\<And>h. hlists s (Tcp_Bhead h) = []" "defport s = TCP_BPORT_MIN" "\<forall>k \<in> K. bhash_list (tsk_at s k) = None"
    and "port_legal K ops Map.empty"
  shows "fst (port_run tcp_set_sport tcp_unbhash ops (tcp_init s)) = fst (port_spec ops Map.empty) \<and>
    tcp_port_used nport (snd (port_run tcp_set_sport tcp_unbhash ops (tcp_init s))) = (nport \<in> dom (snd (port_spec ops Map.empty))) \<and>
    tcp_ports_ok (snd (port_run tcp_set_sport tcp_unbhash ops (tcp_init s)))"
  using tcp_ports.run_refines [OF tcp_init_represents [OF assms(1,2,3)] assms(4)]
  unfolding tcp_ports.represents_def tcp_used_iff by auto

theorem tcp_ports_refine_witness:
  "fst (port_run tcp_set_sport tcp_unbhash [Bind 1 0x3500, Bind 2 0x3500, Unbind 1, Bind 2 0x3500] (tcp_init fresh_stack)) = [0, - 1, 0] \<and>
   \<not> tcp_port_used 0x3600 (snd (port_run tcp_set_sport tcp_unbhash [Bind 1 0x3500, Bind 2 0x3500, Unbind 1, Bind 2 0x3500] (tcp_init fresh_stack)))"
proof -
  have h: "hlists fresh_stack (Tcp_Bhead h) = []" for h by (simp add: fresh_stack_def)
  have d: "defport fresh_stack = TCP_BPORT_MIN" "\<forall>k \<in> {1, 2}. bhash_list (tsk_at fresh_stack k) = None"
    by (simp_all add: fresh_stack_def zero_tcp_def)
  from tcp_ports_refine [OF h d port_sample(1), of "0x3600"] show ?thesis unfolding port_sample dom_def by (simp add: port_sample(4))
qed

text \<open>
  C11: The search for a free port ends: as long as \<open>bfree\<close> is positive, \<open>tcp_get_port\<close> finds within one round of the
  range a port between 0x8000 and 0xf000 that no socket is bound to. So an automatic bind succeeds exactly when ports
  are left, and it keeps the invariant and every other binding.
\<close>

theorem tcp_autobind_ends:
  fixes s :: "'a stack_state_scheme"
  assumes ok: "tcp_ports_ok s" and new: "bhash_list (tsk_at s k) = None"
  shows "(bfree s \<le> 0 \<longrightarrow> tcp_set_sport k 0 s = (- 1, s)) \<and>
    (bfree s > 0 \<longrightarrow> (\<exists>p t. tcp_set_sport k 0 s = (0, t) \<and> TCP_BPORT_MIN \<le> p \<and> p \<le> TCP_BPORT_MAX \<and> \<not> tcp_port_used (htons p) s \<and>
       fault t = fault s \<and> sk_sport (sk_at t k) = htons p \<and> tcp_ports_ok t \<and>
       (\<forall>n. tcp_port_used n t \<longleftrightarrow> n = htons p \<or> tcp_port_used n s)))"
proof (intro conjI impI)
  show "tcp_set_sport k 0 s = (- 1, s)" if "bfree s \<le> 0" using that by (simp add: tcp_set_sport_def tcp_get_port_def)
  assume "bfree s > 0"
  from tcp_get_port_free [OF ok this] obtain p u where p: "tcp_get_port s = (htons p, u)" "TCP_BPORT_MIN \<le> p" "p \<le> TCP_BPORT_MAX"
    "\<not> tcp_port_used (htons p) s" "u = s\<lparr>defport := next_port p\<rparr>" "tcp_ports_ok u" by blast
  have free: "\<not> tcp_port_used (htons p) u" using p(4,5) by (simp add: tcp_port_used_def)
  have nz: "htons p \<noteq> 0" using p(2) by (auto simp: word_le_nat_alt)
  have newu: "bhash_list (tsk_at u k) = None" using new p(5) by simp
  let ?t = "snd (tcp_set_sport k (htons p) u)"
  have eq: "tcp_set_sport k 0 s = tcp_set_sport k (htons p) u" using p(1) nz free by (simp add: tcp_set_sport_def)
  note set = tcp_set_sport_bound [OF nz free, of k] and tab = tcp_bind_table [OF p(6) newu nz free]
  have "tcp_set_sport k 0 s = (0, ?t)" unfolding eq using set(1) by (cases "tcp_set_sport k (htons p) u") simp
  moreover have "fault ?t = fault s" "sk_sport (sk_at ?t k) = htons p"
    using set(7) p(5) fun_cong [OF set(3), of k] by simp_all
  moreover have "tcp_port_used n ?t \<longleftrightarrow> n = htons p \<or> tcp_port_used n s" for n
  proof -
    have "tcp_port_used n u = tcp_port_used n s" using p(5) by (simp add: tcp_port_used_def)
    moreover have "tcp_port_used n ?t \<longleftrightarrow> n = htons p \<or> tcp_port_used n u" unfolding tcp_used_iff tab(2) by auto
    ultimately show ?thesis by simp
  qed
  ultimately show "\<exists>p t. tcp_set_sport k 0 s = (0, t) \<and> TCP_BPORT_MIN \<le> p \<and> p \<le> TCP_BPORT_MAX \<and> \<not> tcp_port_used (htons p) s \<and>
       fault t = fault s \<and> sk_sport (sk_at t k) = htons p \<and> tcp_ports_ok t \<and> (\<forall>n. tcp_port_used n t \<longleftrightarrow> n = htons p \<or> tcp_port_used n s)"
    using p(2,3,4) tab(1) by blast
qed

lemma fresh_stack_ports: "tcp_ports_ok fresh_stack" "bhash_list (tsk_at fresh_stack k) = None" "bfree fresh_stack > 0"
proof -
  have "tcp_bnodes fresh_stack = 0" by (simp add: tcp_bnodes_def fresh_stack_def)
  then show "tcp_ports_ok fresh_stack" by (simp add: tcp_ports_ok_def buckets_ok_def fresh_stack_def)
qed (simp_all add: fresh_stack_def zero_tcp_def)

theorem tcp_autobind_ends_witness:
  "\<exists>p t. tcp_set_sport 3 0 fresh_stack = (0, t) \<and> TCP_BPORT_MIN \<le> p \<and> p \<le> TCP_BPORT_MAX \<and> sk_sport (sk_at t 3) = htons p"
  using tcp_autobind_ends [OF fresh_stack_ports(1,2), of 3] fresh_stack_ports(3) by blast

end
