(* ===== verification/Tcp_Frame.thy ===== *)
theory Tcp_Frame
  imports Tcp_Api
begin

text \<open>
  What the TCP functions leave alone. Sending over a device that satisfies \<open>net_device\<close> keeps every control block, and
  the functions that receive text, notify threads and move a block between tables keep the connection states.
\<close>

section \<open>Sending\<close>

text \<open>
  A segment that is sent keeps the control blocks; of the socket only the cached route may change. The sockets, the
  tables and the sleeping threads stay.
\<close>

definition quiet :: "'a stack_state_scheme \<Rightarrow> 'a stack_state_scheme \<Rightarrow> bool" where
  "quiet s t \<longleftrightarrow> tsk_heap t = tsk_heap s \<and> hlists t = hlists s \<and> so_heap t = so_heap s \<and> sk_next t = sk_next s \<and>
     timewait t = timewait s \<and> bfree t = bfree s \<and>
     (\<forall>j. (sk_heap t j)\<lparr>sk_dst := None\<rparr> = (sk_heap s j)\<lparr>sk_dst := None\<rparr>)"

lemma quiet_refl [simp]: "quiet s s"
  by (simp add: quiet_def)

lemma quiet_trans: "quiet s t \<Longrightarrow> quiet t u \<Longrightarrow> quiet s u"
  by (simp add: quiet_def)

lemma quiet_more: "net_state.more t = net_state.more s \<Longrightarrow> quiet s t"
  using sk_more_fields [of t s] tcp_more_fields [of t s] by (simp add: quiet_def)

lemma rt_output_more: "net_state.more (snd (rt_output p s)) = net_state.more s"
  by (simp add: rt_output_def Let_def split: option.split)

lemmas rt_output_fields = sk_more_fields [OF rt_output_more] tcp_more_fields [OF sk_more_fields(8) [OF rt_output_more]]

lemma tcp_init_pkb_quiet: "quiet s (snd (tcp_init_pkb tsk p saddr daddr s))"
  by (auto simp: quiet_def tcp_init_pkb_def Let_def case_prod_beta rt_output_fields split: option.split)

locale stack_device = net_device xmit
  for xmit :: "'a stack_state_scheme xmit_fun"
begin

lemma arp_request_more: "net_state.more (arp_request xmit i s) = net_state.more s"
  by (simp add: arp_request_def Let_def netdev_tx_simps case_prod_beta split: option.split)

lemma arp_alloc_more: "net_state.more (snd (arp_alloc s)) = net_state.more s" for s :: "'b net_state_scheme"
  by (simp add: arp_alloc_def Let_def split: option.split prod.split)

lemma ip_send_dev_more: "net_state.more (ip_send_dev xmit n p s) = net_state.more s"
  using arp_alloc_more [of s]
  by (auto simp: ip_send_dev_def ae_enqueue_def Let_def netdev_tx_simps arp_request_more split: option.split prod.split)

lemma ip_frag_more: "net_state.more (snd (ip_frag p hlen dlen off mf s)) = net_state.more s" for s :: "'b ip_state_scheme"
  by (simp add: ip_frag_def Let_def case_prod_beta)

lemma ip_send_frag_loop_more:
  "net_state.more (snd (snd (ip_send_frag_loop k xmit n p hlen mlen dlen off s))) = net_state.more s"
  by (induction k arbitrary: dlen off s) (simp_all add: Let_def case_prod_beta ip_send_dev_more ip_frag_more)

lemma ip_send_frag_more: "net_state.more (ip_send_frag xmit n p s) = net_state.more s"
  by (simp add: ip_send_frag_def Let_def case_prod_beta ip_send_dev_more ip_frag_more ip_send_frag_loop_more)

lemma ip_send_out_more: "net_state.more (ip_send_out xmit p s) = net_state.more s"
  by (simp add: ip_send_out_def Let_def case_prod_beta ip_send_dev_more ip_send_frag_more rt_output_more split: option.split)

lemma tcp_send_out_quiet: "quiet s (tcp_send_out xmit tsk p g s)"
proof -
  have "quiet s (free_pkb p t)" "quiet s (ip_send_out xmit p (upd_data p f t))" if "quiet s t" for t f
    by (rule quiet_trans [OF that]; rule quiet_more; simp add: ip_send_out_more)+
  then show ?thesis
    by (auto simp: tcp_send_out_def Let_def case_prod_beta tcp_init_pkb_quiet intro: quiet_more split: option.split)
qed

lemma alloc_send_quiet: "quiet s (tcp_send_out xmit tsk p g (upd_data p f (snd (alloc_pkb n s))))"
  by (rule quiet_trans [OF _ tcp_send_out_quiet]) (simp add: quiet_more)

lemma tcp_send_quiet:
  "quiet s (tcp_send_reset xmit tsk g s)" "quiet s (tcp_send_ack xmit k (Some g) s)" "quiet s (tcp_send_synack xmit k g s)"
  "quiet s (tcp_send_syn xmit k seg s)" "quiet s (tcp_send_fin xmit k s)"
  by (simp_all add: tcp_send_reset_def tcp_send_ack_def tcp_send_synack_def tcp_send_syn_def tcp_send_fin_def Let_def
      case_prod_beta alloc_send_quiet)

end

interpretation vstack: stack_device "veth_xmit wr" for wr ..

section \<open>Connection states\<close>

named_theorems state_simps \<open>what the functions do to the states of the connections\<close>

lemma quiet_state: "quiet s t \<Longrightarrow> t_state (tsk_at t j) = t_state (tsk_at s j)"
  by (simp add: quiet_def)

lemmas send_state [state_simps] = vstack.tcp_send_quiet [THEN quiet_state]

lemma wake_up_tsk [simp]: "tsk_heap (wake_up w s) = tsk_heap s" "hlists (wake_up w s) = hlists s" "sk_heap (wake_up w s) = sk_heap s"
  "sk_next (wake_up w s) = sk_next s"
  by (simp_all add: wake_up_def split: option.split)

lemma tcp_set_state_state [state_simps]: "t_state (tsk_at (tcp_set_state k st s) j) = (if j = k then st else t_state (tsk_at s j))"
  by (simp add: tcp_set_state_def)

lemma table_state [state_simps]:
  "t_state (tsk_at (tcp_unhash k s) j) = t_state (tsk_at s j)" "t_state (tsk_at (tcp_unbhash k s) j) = t_state (tsk_at s j)"
  "t_state (tsk_at (get_tcp_sock k s) j) = t_state (tsk_at s j)" "t_state (tsk_at (snd (tcp_hash k s)) j) = t_state (tsk_at s j)"
  by (simp_all add: tcp_unhash_def tcp_unbhash_def tcp_unset_sport_def get_tcp_sock_def tcp_hash_def Let_def
      split: option.split tcp_state.split)

lemma queue_state [state_simps]:
  "t_state (tsk_at (tsk_list_del k s) j) = t_state (tsk_at s j)" "t_state (tsk_at (tcp_accept_enqueue k s) j) = t_state (tsk_at s j)"
  by (simp_all add: tsk_list_del_def tcp_accept_enqueue_def Let_def split: option.split tcp_queue.split tcp_parent.split)

lemma timer_state [state_simps]:
  "t_state (tsk_at (tcp_set_timewait_timer k s) j) = (if j = k then TCP_TIME_WAIT else t_state (tsk_at s j))"
  by (simp add: tcp_set_timewait_timer_def Let_def state_simps)

lemma flag_state [state_simps]:
  "t_state (tsk_at (set_tflags k f s) j) = t_state (tsk_at s j)" "t_state (tsk_at (tcp_recv_notify k s) j) = t_state (tsk_at s j)"
  "t_state (tsk_at (tcp_set_window k g s) j) = t_state (tsk_at s j)" "t_state (tsk_at (tcp_update_window k g s) j) = t_state (tsk_at s j)"
  by (simp_all add: set_tflags_def tcp_recv_notify_def tcp_set_window_def tcp_update_window_def Let_def)

lemma write_state [state_simps]: "t_state (tsk_at (snd (tcp_write_buf k data len s)) j) = t_state (tsk_at s j)"
  by (simp add: tcp_write_buf_def Let_def split: option.split prod.split)

lemma reass_tail_cut_state [state_simps]:
  "t_state (tsk_at (snd (snd (snd (reass_tail_cut ts g s)))) j) = t_state (tsk_at s j)"
  by (induction ts g s rule: reass_tail_cut.induct) (simp_all add: Let_def)

lemma reass_write_state [state_simps]: "t_state (tsk_at (snd (reass_write k ts len s)) j) = t_state (tsk_at s j)"
  by (induction ts arbitrary: len s) (simp_all add: Let_def case_prod_beta state_simps)

lemma text_state [state_simps]:
  "t_state (tsk_at (snd (tcp_segment_reass k g p s)) j) = t_state (tsk_at s j)"
  "t_state (tsk_at (snd (tcp_recv_text k g p s)) j) = t_state (tsk_at s j)"
  "t_state (tsk_at (snd (tcp_text_step g p k s)) j) = t_state (tsk_at s j)"
proof -
  show 1: "t_state (tsk_at (snd (tcp_segment_reass k g p s)) j) = t_state (tsk_at s j)" for g
    by (simp add: tcp_segment_reass_def Let_def case_prod_beta state_simps split: option.split)
  show 2: "t_state (tsk_at (snd (tcp_recv_text k g p s)) j) = t_state (tsk_at s j)"
    by (simp add: tcp_recv_text_def Let_def case_prod_beta state_simps 1 split: option.split)
  show "t_state (tsk_at (snd (tcp_text_step g p k s)) j) = t_state (tsk_at s j)"
    by (simp add: tcp_text_step_def 2)
qed

lemma drop_state [state_simps]: "t_state (tsk_at (tcp_drop (veth_xmit wr) p g k s) j) = t_state (tsk_at s j)"
  by (simp add: tcp_drop_def Let_def state_simps)

end
