(* ===== verification/Tcp_Machine.thy ===== *)
theory Tcp_Machine
  imports Tcp_Frame
begin

text \<open>
  The connection states: the arrows of the state diagram of RFC 793 that the arrival of a segment may take, and that
  \<open>tcp_process\<close> takes no others.
\<close>

section \<open>The state diagram\<close>

text \<open>The arrows, by the control bits of the segment that arrives.\<close>

inductive tcp_arrow :: "bool \<Rightarrow> bool \<Rightarrow> bool \<Rightarrow> bool \<Rightarrow> tcp_state \<Rightarrow> tcp_state \<Rightarrow> bool"
  for rst syn ack fin where
  abort: "rst \<or> syn \<Longrightarrow> st \<notin> {TCP_CLOSED, TCP_LISTEN, TCP_SYN_SENT} \<Longrightarrow> tcp_arrow rst syn ack fin st TCP_CLOSED"
| refused: "rst \<Longrightarrow> ack \<Longrightarrow> tcp_arrow rst syn ack fin TCP_SYN_SENT TCP_CLOSED"
| connected: "syn \<Longrightarrow> ack \<Longrightarrow> \<not> rst \<Longrightarrow> tcp_arrow rst syn ack fin TCP_SYN_SENT TCP_ESTABLISHED"
| simultaneous: "syn \<Longrightarrow> \<not> ack \<Longrightarrow> \<not> rst \<Longrightarrow> tcp_arrow rst syn ack fin TCP_SYN_SENT TCP_SYN_RECV"
| accepted: "ack \<Longrightarrow> \<not> rst \<Longrightarrow> \<not> syn \<Longrightarrow> tcp_arrow rst syn ack fin TCP_SYN_RECV TCP_ESTABLISHED"
| fin_acked: "ack \<Longrightarrow> \<not> rst \<Longrightarrow> \<not> syn \<Longrightarrow> tcp_arrow rst syn ack fin TCP_FIN_WAIT1 TCP_FIN_WAIT2"
| closing_acked: "ack \<Longrightarrow> \<not> rst \<Longrightarrow> \<not> syn \<Longrightarrow> tcp_arrow rst syn ack fin TCP_CLOSING TCP_TIME_WAIT"
| last_acked: "ack \<Longrightarrow> \<not> rst \<Longrightarrow> \<not> syn \<Longrightarrow> tcp_arrow rst syn ack fin TCP_LAST_ACK TCP_CLOSED"
| peer_closed: "fin \<Longrightarrow> ack \<Longrightarrow> \<not> rst \<Longrightarrow> \<not> syn \<Longrightarrow> tcp_arrow rst syn ack fin TCP_ESTABLISHED TCP_CLOSE_WAIT"
| both_closed: "fin \<Longrightarrow> ack \<Longrightarrow> \<not> rst \<Longrightarrow> \<not> syn \<Longrightarrow> tcp_arrow rst syn ack fin TCP_FIN_WAIT1 TCP_CLOSING"
| fin_after: "fin \<Longrightarrow> ack \<Longrightarrow> \<not> rst \<Longrightarrow> \<not> syn \<Longrightarrow> tcp_arrow rst syn ack fin TCP_FIN_WAIT2 TCP_TIME_WAIT"

section \<open>The steps of \<open>tcp_process\<close>\<close>

lemma rst_step_state [state_simps]:
  "t_state (tsk_at (tcp_rst_step k s) j) = (if j = k then TCP_CLOSED else t_state (tsk_at s j))"
  by (simp add: tcp_rst_step_def Let_def state_simps)

lemma syn_step_state [state_simps]:
  "t_state (tsk_at (tcp_syn_step (veth_xmit wr) g k s) j) = (if j = k then TCP_CLOSED else t_state (tsk_at s j))"
  by (simp add: tcp_syn_step_def Let_def state_simps)

lemma synrecv_state [state_simps]: "t_state (tsk_at (snd (tcp_synrecv_ack k s)) j) = t_state (tsk_at s j)"
  by (simp add: tcp_synrecv_ack_def Let_def state_simps split: tcp_parent.split)

text \<open>What the acknowledgement makes of a state; only the first of each pair goes on with the text.\<close>

fun ack_next :: "tcp_state \<Rightarrow> (bool \<times> tcp_state) set" where
  "ack_next TCP_SYN_RECV = {(False, TCP_SYN_RECV), (True, TCP_ESTABLISHED)}"
| "ack_next TCP_FIN_WAIT1 = {(False, TCP_FIN_WAIT1), (True, TCP_FIN_WAIT1), (True, TCP_FIN_WAIT2)}"
| "ack_next TCP_CLOSING = {(False, TCP_CLOSING), (True, TCP_CLOSING), (False, TCP_TIME_WAIT)}"
| "ack_next TCP_LAST_ACK = {(False, TCP_LAST_ACK), (True, TCP_LAST_ACK), (False, TCP_CLOSED)}"
| "ack_next st = {(False, st), (True, st)}"

lemma ack_step_state:
  "(fst (tcp_ack_step (veth_xmit wr) g k s), t_state (tsk_at (snd (tcp_ack_step (veth_xmit wr) g k s)) k)) \<in> ack_next (t_state (tsk_at s k))"
  "j \<noteq> k \<Longrightarrow> t_state (tsk_at (snd (tcp_ack_step (veth_xmit wr) g k s)) j) = t_state (tsk_at s j)"
  by (cases "t_state (tsk_at s k)"; simp add: tcp_ack_step_def Let_def case_prod_beta state_simps)+

lemma fin_step_state [state_simps]:
  "t_state (tsk_at (tcp_fin_step g k s) j) =
     (if j = k then (case t_state (tsk_at s k) of TCP_SYN_RECV \<Rightarrow> TCP_CLOSE_WAIT | TCP_ESTABLISHED \<Rightarrow> TCP_CLOSE_WAIT
        | TCP_FIN_WAIT1 \<Rightarrow> TCP_CLOSING | TCP_FIN_WAIT2 \<Rightarrow> TCP_TIME_WAIT | st \<Rightarrow> st)
      else t_state (tsk_at s j))"
  by (simp add: tcp_fin_step_def Let_def state_simps split: tcp_state.split)

lemma child_state:
  assumes "j < sk_next s"
  shows "t_state (tsk_at (snd (tcp_listen_child_sock k g s)) j) = t_state (tsk_at s j)"
    "t_state (tsk_at (tcp_listen_segment (veth_xmit wr) p g k s) j) = t_state (tsk_at s j)"
proof -
  show 1: "t_state (tsk_at (snd (tcp_listen_child_sock k g s)) j) = t_state (tsk_at s j)"
    using assms by (simp add: tcp_listen_child_sock_def tcp_alloc_sock_def new_sock_def Let_def case_prod_beta state_simps)
  show "t_state (tsk_at (tcp_listen_segment (veth_xmit wr) p g k s) j) = t_state (tsk_at s j)"
    using 1 by (auto simp: tcp_listen_segment_def alloc_new_iss_def Let_def case_prod_beta state_simps split: option.split prod.split)
qed

lemma synsent_state:
  fixes s :: "'a stack_state_scheme" and wr :: "bytes \<Rightarrow> int" and p k :: nat and g :: tcp_segment
  assumes "t_state (tsk_at s k) = TCP_SYN_SENT" "snd_una (tsk_at s k) = iss (tsk_at s k)"
  defines "t \<equiv> tcp_synsent (veth_xmit wr) p g k s" and "d \<equiv> data_of s (seg_pkb g)" and "off \<equiv> seg_off g"
  shows "(tcp_arrow (tcp_rst off d) (tcp_syn off d) (tcp_ack off d) (tcp_fin off d))\<^sup>=\<^sup>= TCP_SYN_SENT (t_state (tsk_at t k))"
    "j \<noteq> k \<Longrightarrow> t_state (tsk_at t j) = t_state (tsk_at s j)"
  using assms(1,2) unfolding t_def d_def off_def
  by (auto simp: tcp_synsent_def Let_def state_simps intro: tcp_arrow.intros)

lemma arrows_after_ack:
  assumes "(go, st1) \<in> ack_next st" "st \<notin> {TCP_CLOSED, TCP_LISTEN, TCP_SYN_SENT}"
  shows "\<exists>st'. (tcp_arrow False False True fin)\<^sup>=\<^sup>= st st' \<and> (tcp_arrow False False True fin)\<^sup>=\<^sup>= st'
    (if go \<and> fin then (case st1 of TCP_SYN_RECV \<Rightarrow> TCP_CLOSE_WAIT | TCP_ESTABLISHED \<Rightarrow> TCP_CLOSE_WAIT
        | TCP_FIN_WAIT1 \<Rightarrow> TCP_CLOSING | TCP_FIN_WAIT2 \<Rightarrow> TCP_TIME_WAIT | st \<Rightarrow> st) else st1)"
  using assms by (cases st; cases go; cases fin; auto intro: tcp_arrow.intros)
    (intro exI [of _ TCP_FIN_WAIT2] conjI disjI1; rule tcp_arrow.intros; simp)

text \<open>A segment for a synchronised connection.\<close>

lemma process_state:
  fixes s :: "'a stack_state_scheme" and wr :: "bytes \<Rightarrow> int" and p k :: nat and g :: tcp_segment
  assumes "t_state (tsk_at s k) \<notin> {TCP_CLOSED, TCP_LISTEN, TCP_SYN_SENT}"
  defines "t \<equiv> tcp_process (veth_xmit wr) p g (Some k) s" and "d \<equiv> data_of s (seg_pkb g)" and "off \<equiv> seg_off g"
    and "a \<equiv> tcp_ack_step (veth_xmit wr) g k s"
  shows "t_state (tsk_at t k) =
    (if \<not> seq_check g (tsk_at s k) then t_state (tsk_at s k)
     else if tcp_rst off d \<or> tcp_syn off d then TCP_CLOSED
     else if \<not> tcp_ack off d then t_state (tsk_at s k)
     else if fst a \<and> tcp_fin off d
     then (case t_state (tsk_at (snd a) k) of TCP_SYN_RECV \<Rightarrow> TCP_CLOSE_WAIT | TCP_ESTABLISHED \<Rightarrow> TCP_CLOSE_WAIT
        | TCP_FIN_WAIT1 \<Rightarrow> TCP_CLOSING | TCP_FIN_WAIT2 \<Rightarrow> TCP_TIME_WAIT | st \<Rightarrow> st)
     else t_state (tsk_at (snd a) k))"
proof (cases "seq_check g (tsk_at s k) \<and> \<not> tcp_rst off d \<and> tcp_syn off d")
  case True
  let ?u = "tcp_syn_step (veth_xmit wr) g k s"
  have "t_state (tsk_at ?u k) = TCP_CLOSED" by (simp add: state_simps)
  then have "t_state (tsk_at (snd (tcp_ack_step (veth_xmit wr) g k ?u)) k) = TCP_CLOSED"
    using ack_step_state(1) [of wr g k ?u] by auto
  then show ?thesis using True assms(1) unfolding t_def d_def off_def
    by (simp add: tcp_process_def Let_def case_prod_beta state_simps)
next
  case False
  then show ?thesis using assms(1) unfolding t_def d_def off_def a_def
    by (auto simp: tcp_process_def Let_def case_prod_beta state_simps)
qed


text \<open>
  C7: When a segment arrives for a connection, \<open>tcp_process\<close> moves the connection along the arrows of the state diagram
  only: none, the one of its acknowledgement, the one of its FIN, or both in this order. No other connection
  changes its state.
\<close>

theorem tcp_process_arrows:
  fixes s :: "'a stack_state_scheme" and wr :: "bytes \<Rightarrow> int" and p k :: nat and g :: tcp_segment
  assumes "k < sk_next s" "t_state (tsk_at s k) = TCP_SYN_SENT \<longrightarrow> snd_una (tsk_at s k) = iss (tsk_at s k)"
  defines "t \<equiv> tcp_process (veth_xmit wr) p g (Some k) s" and "d \<equiv> data_of s (seg_pkb g)" and "off \<equiv> seg_off g"
  defines "arrow \<equiv> (tcp_arrow (tcp_rst off d) (tcp_syn off d) (tcp_ack off d) (tcp_fin off d))\<^sup>=\<^sup>="
  shows "(\<exists>st. arrow (t_state (tsk_at s k)) st \<and> arrow st (t_state (tsk_at t k))) \<and>
    (\<forall>j < sk_next s. j \<noteq> k \<longrightarrow> t_state (tsk_at t j) = t_state (tsk_at s j))"
proof -
  let ?st = "t_state (tsk_at s k)"
  have other: "t_state (tsk_at t j) = t_state (tsk_at s j)" if "j < sk_next s" "j \<noteq> k" for j
    using that assms(1,2) child_state(2) [of j s] synsent_state(2) [where s = s and k = k and wr = wr and p = p and g = g] unfolding t_def
    by (simp add: tcp_process_def tcp_closed_def Let_def case_prod_beta state_simps ack_step_state)
  have "\<exists>st. arrow ?st st \<and> arrow st (t_state (tsk_at t k))"
  proof (cases "?st \<in> {TCP_CLOSED, TCP_LISTEN, TCP_SYN_SENT}")
    case True
    then have "arrow ?st (t_state (tsk_at t k))"
      using child_state(2) [OF assms(1)] synsent_state(1) [where s = s and k = k and wr = wr and p = p and g = g] assms(2)
      by (auto simp: arrow_def t_def d_def off_def tcp_process_def tcp_closed_def Let_def state_simps)
    then show ?thesis by (auto simp: arrow_def)
  next
    case False
    let ?a = "tcp_ack_step (veth_xmit wr) g k s"
    have "(fst ?a, t_state (tsk_at (snd ?a) k)) \<in> ack_next ?st" by (rule ack_step_state(1))
    from arrows_after_ack [OF this False, of "tcp_fin off d"] show ?thesis
      unfolding t_def process_state [OF False] arrow_def d_def off_def
      using False by (auto intro: tcp_arrow.abort)
  qed
  with other show ?thesis by blast
qed

text \<open>Two connections: the first waits for the acknowledgement of its FIN.\<close>

definition closing_stack :: stack_state where
  "closing_stack = stack_on (sample_router []) (\<lambda>_. zero_sock)
     (\<lambda>_. []) (\<lambda>k. zero_tcp\<lparr>t_state := (if k = 3 then TCP_LAST_ACK else TCP_ESTABLISHED), rcv_wnd := TCP_DEFAULT_WINDOW\<rparr>)"

definition zero_segment :: tcp_segment where
  "zero_segment = \<lparr>seg_seq = 0, seg_ack = 0, seg_lastseq = 0, seg_len = 0, seg_dlen = 0, seg_wnd = 0, seg_up = 0,
     seg_text = 54, seg_pkb = 0, seg_off = 34\<rparr>"

theorem tcp_process_arrows_witness:
  "t_state (tsk_at (tcp_process (veth_xmit (\<lambda>f. int (length f))) 0 zero_segment (Some 3) closing_stack) 4) = TCP_ESTABLISHED"
proof -
  have c: "3 < sk_next closing_stack" "t_state (tsk_at closing_stack 3) = TCP_SYN_SENT \<longrightarrow> snd_una (tsk_at closing_stack 3) = iss (tsk_at closing_stack 3)"
    "4 < sk_next closing_stack" "t_state (tsk_at closing_stack 4) = TCP_ESTABLISHED"
    by (simp_all add: closing_stack_def)
  show ?thesis using tcp_process_arrows [OF c(1,2), where wr = "\<lambda>f. int (length f)" and p = 0 and g = zero_segment] c(3,4) by simp
qed

end
