(* ===== verification/Tcp_Order.thy ===== *)
theory Tcp_Order
  imports Tcp_Machine
begin

text \<open>
  The text of a connection: what \<open>tcp_write_buf\<close> appends to the receive buffer, and the reassembly of segments that
  arrive in any order (\<^verbatim>\<open>src/tcp/tcp_text.c\<close>, \<^verbatim>\<open>src/tcp/tcp_reass.c\<close>).
\<close>

section \<open>The receive buffer of a connection\<close>

text \<open>What the buffer holds; the free room is the window that is offered.\<close>

definition rx_holds :: "tcp_sock \<Rightarrow> bytes \<Rightarrow> bool" where
  "rx_holds c b \<longleftrightarrow> unat (rcv_wnd c) < 2 ^ 31 \<and>
     (case rcv_buf c of
        None \<Rightarrow> b = []
      | Some cb \<Rightarrow> cbuf_inv cb \<and> cbuf_list cb = b \<and> CBUFFREE cb = int (unat (rcv_wnd c)))"

lemma sint_small: "unat (w :: u32) < 2 ^ 31 \<Longrightarrow> sint w = int (unat w)"
proof -
  assume "unat w < 2 ^ 31"
  then have "int (unat w) < int (2 ^ 31)" by (simp only: of_nat_less_iff)
  then have u: "uint w < 2 ^ 31" by simp
  have "sint w = signed_take_bit 31 (uint w)" by (simp only: sint_uint) simp
  also have "\<dots> = uint w" using u uint_ge_0 [of w] by (intro signed_take_bit_int_eq_self) linarith+
  finally show ?thesis by simp
qed

lemma cbuf_used_list: "cbuf_inv c \<Longrightarrow> int (length (cbuf_list c)) = CBUFUSED c"
  by (simp add: cbuf_inv_def cbuf_pos_inv_def CBUFUSED_def)

lemma tcp_write_buf_appends:
  fixes s :: "'a stack_state_scheme"
  assumes rx: "rx_holds (tsk_at s k) b" and len: "0 < unat len" "unat len \<le> unat (rcv_wnd (tsk_at s k))" "unat len \<le> length data"
  shows "\<exists>cb. tcp_write_buf k data len s =
      (int (unat len), upd_tsk k (\<lambda>c. c\<lparr>rcv_buf := Some cb, rcv_wnd := rcv_wnd c - len, rcv_nxt := rcv_nxt c + len\<rparr>) s) \<and>
    rx_holds ((tsk_at s k)\<lparr>rcv_buf := Some cb, rcv_wnd := rcv_wnd (tsk_at s k) - len, rcv_nxt := rcv_nxt (tsk_at s k) + len\<rparr>)
      (b @ take (unat len) data)"
proof -
  let ?c = "tsk_at s k"
  have w: "unat (rcv_wnd ?c) < 2 ^ 31" using rx by (simp add: rx_holds_def)
  obtain cb where cb_def: "cb = (case rcv_buf ?c of None \<Rightarrow> alloc_cbuf (sint (rcv_wnd ?c)) | Some cb \<Rightarrow> cb)" by simp
  have cb: "cbuf_inv cb" "cbuf_list cb = b" "CBUFFREE cb = int (unat (rcv_wnd ?c))"
    using rx w by (auto simp: cb_def rx_holds_def alloc_cbuf_inv alloc_cbuf_list alloc_cbuf_free sint_small split: option.splits)
  have slen: "sint len = int (unat len)" using len w by (intro sint_small) simp
  have min: "min (CBUFFREE cb) (sint len) = int (unat len)" unfolding cb(3) slen using len(2) by linarith
  from write_cbuf_correct [OF cb(1), of "sint len" data, unfolded min cb(2)] len(3) obtain cb' where
    w': "write_cbuf (Some cb) data (sint len) = Some (Some cb', int (unat len))" "cbuf_inv cb'"
      "cbuf_list cb' = b @ take (unat len) data" "c_size cb' = c_size cb"
    unfolding slen by (auto simp del: of_nat_unat)
  have used: "CBUFUSED cb' = CBUFUSED cb + int (unat len)"
    unfolding cbuf_used_list [OF cb(1), symmetric] cbuf_used_list [OF w'(2), symmetric] w'(3) cb(2)
    using len(3) by (simp del: of_nat_unat)
  have sub: "unat (rcv_wnd ?c - len) = unat (rcv_wnd ?c) - unat len" using len by (simp add: unat_sub word_le_nat_alt)
  have free: "CBUFFREE cb' = int (unat (rcv_wnd ?c - len))"
    using cb(3) w'(4) len(2) unfolding sub CBUFFREE_def used by linarith
  have ofn: "(of_nat (unat len) :: u32) = len" by simp
  have "tcp_write_buf k data len s =
      (int (unat len), upd_tsk k (\<lambda>c. c\<lparr>rcv_buf := Some cb', rcv_wnd := rcv_wnd c - len, rcv_nxt := rcv_nxt c + len\<rparr>) s)"
    using w'(1) len(1) unfolding cb_def
    by (cases "rcv_buf ?c") (simp_all add: tcp_write_buf_def Let_def upd_tsk_def ofn del: of_nat_unat)
  moreover have "unat (rcv_wnd ?c - len) < 2 ^ 31" using sub w by linarith
  ultimately show ?thesis using w'(2,3) free by (intro exI [of _ cb'] conjI) (simp_all add: rx_holds_def del: of_nat_unat)
qed

section \<open>A stream cut into segments\<close>

text \<open>
  A part of the stream: the texts of its segments in order, the sequence number it begins with, and the buffer that
  carries each segment with the place of the text in it.
\<close>

record tcp_stream =
  st_sock :: nat
  st_base :: u32
  st_texts :: "bytes list"
  st_pkb :: "nat \<Rightarrow> nat"
  st_data :: "nat \<Rightarrow> nat"

abbreviation (input) st_n :: "tcp_stream \<Rightarrow> nat" where "st_n z \<equiv> length (st_texts z)"
abbreviation (input) st_text :: "tcp_stream \<Rightarrow> nat \<Rightarrow> bytes" where "st_text z i \<equiv> st_texts z ! i"

definition st_off :: "tcp_stream \<Rightarrow> nat \<Rightarrow> nat" where
  "st_off z i = length (concat (take i (st_texts z)))"

definition st_seq :: "tcp_stream \<Rightarrow> nat \<Rightarrow> u32" where
  "st_seq z i = st_base z + of_nat (st_off z i)"

definition st_ent :: "tcp_stream \<Rightarrow> nat \<Rightarrow> tcp_reass_head" where
  "st_ent z i = \<lparr>trh_pkb = st_pkb z i, trh_data = st_data z i, trh_seq = st_seq z i, trh_len = of_nat (length (st_text z i))\<rparr>"

definition st_wf :: "tcp_stream \<Rightarrow> bool" where
  "st_wf z \<longleftrightarrow> (\<forall>t \<in> set (st_texts z). t \<noteq> []) \<and> unat (st_base z) + length (concat (st_texts z)) < 2 ^ 32 \<and>
     inj_on (st_pkb z) {..<st_n z} \<and> (\<forall>i < st_n z. 32 \<le> st_data z i)"

definition st_seg :: "tcp_stream \<Rightarrow> nat \<Rightarrow> tcp_segment \<Rightarrow> bool" where
  "st_seg z i g \<longleftrightarrow> seg_seq g = st_seq z i \<and> seg_dlen g = of_nat (length (st_text z i)) \<and> seg_text g = st_data z i \<and>
     seg_pkb g = st_pkb z i"

lemma st_off_Suc: "i < st_n z \<Longrightarrow> st_off z (Suc i) = st_off z i + length (st_text z i)"
  by (simp add: st_off_def take_Suc_conv_app_nth)

lemma st_off_mono: "i \<le> j \<Longrightarrow> st_off z i \<le> st_off z j"
proof (induction j)
  case (Suc j)
  have "st_off z j \<le> st_off z (Suc j)" by (cases "j < st_n z") (simp_all add: st_off_Suc, simp add: st_off_def)
  with Suc show ?case by (cases "i = Suc j") auto
qed simp

lemma st_off_total: "st_off z i \<le> length (concat (st_texts z))"
  using st_off_mono [of i "max i (st_n z)" z] by (simp add: st_off_def)

lemma st_off_less: "st_wf z \<Longrightarrow> i < j \<Longrightarrow> j \<le> st_n z \<Longrightarrow> st_off z i < st_off z j"
proof -
  assume a: "st_wf z" "i < j" "j \<le> st_n z"
  then have "length (st_text z i) > 0" by (auto simp: st_wf_def)
  moreover have "st_off z (Suc i) = st_off z i + length (st_text z i)" using a by (simp add: st_off_Suc)
  ultimately show ?thesis using st_off_mono [of "Suc i" j z] a(2) by linarith
qed

lemma st_text_le: "st_wf z \<Longrightarrow> i < st_n z \<Longrightarrow> 0 < length (st_text z i) \<and> length (st_text z i) < 2 ^ 32"
  using st_off_Suc [of i z] st_off_total [of z "Suc i"] by (auto simp: st_wf_def)

lemma unat_st_seq: "st_wf z \<Longrightarrow> unat (st_seq z i) = unat (st_base z) + st_off z i"
proof -
  assume "st_wf z"
  then have "unat (st_base z) + st_off z i < 2 ^ 32" using st_off_total [of z i] by (simp add: st_wf_def)
  then show ?thesis by (simp add: st_seq_def unat_word_ariths unat_of_nat)
qed

lemma st_seq_less: "st_wf z \<Longrightarrow> i \<le> st_n z \<Longrightarrow> j \<le> st_n z \<Longrightarrow> st_seq z i < st_seq z j \<longleftrightarrow> i < j"
  using st_off_less [of z i j] st_off_mono [of j i z]
  by (cases "i < j") (auto simp: word_less_nat_alt unat_st_seq)

lemma st_seq_eq: "st_wf z \<Longrightarrow> i \<le> st_n z \<Longrightarrow> j \<le> st_n z \<Longrightarrow> st_seq z i = st_seq z j \<longleftrightarrow> i = j"
  using st_seq_less [of z i j] st_seq_less [of z j i] by (metis less_irrefl linorder_neqE_nat)

lemma st_seq_Suc: "i < st_n z \<Longrightarrow> st_seq z i + of_nat (length (st_text z i)) = st_seq z (Suc i)"
  by (simp add: st_seq_def st_off_Suc)

lemma st_base_le: "st_wf z \<Longrightarrow> st_base z \<le> st_seq z i"
  by (simp add: word_le_nat_alt unat_st_seq)

section \<open>The state of the receiver\<close>

text \<open>
  The first \<open>m\<close> segments are in the buffer behind \<open>b\<close>, and the window has room for the others. The overlay in front of a
  reassembly queue is read from \<open>snd_wnd\<close> and \<open>snd_up\<close>; it does no harm while their sum is below the stream.
\<close>

definition st_rx :: "tcp_stream \<Rightarrow> bytes \<Rightarrow> nat \<Rightarrow> tcp_sock \<Rightarrow> bool" where
  "st_rx z b m c \<longleftrightarrow> m \<le> st_n z \<and> rx_holds c (b @ concat (take m (st_texts z))) \<and>
     length (concat (st_texts z)) - st_off z m \<le> unat (rcv_wnd c) \<and> rcv_nxt c = st_seq z m \<and> snd_wnd c + snd_up c \<le> st_base z"

text \<open>The buffers hold their texts; the references of one are \<open>rc\<close> and one more while it waits in \<open>xs\<close>.\<close>

definition st_bufs :: "tcp_stream \<Rightarrow> (nat \<Rightarrow> int) \<Rightarrow> nat list \<Rightarrow> 'a stack_state_scheme \<Rightarrow> bool" where
  "st_bufs z rc xs s \<longleftrightarrow>
     (\<forall>i < st_n z. slice (st_data z i) (length (st_text z i)) (data_of s (st_pkb z i)) = st_text z i \<and>
        pk_live (pkb s (st_pkb z i)) \<and> rc i > 0 \<and> pk_refcnt (pkb s (st_pkb z i)) = rc i + (if i \<in> set xs then 1 else 0))"

definition st_wait :: "tcp_stream \<Rightarrow> nat \<Rightarrow> nat list \<Rightarrow> bool" where
  "st_wait z m xs \<longleftrightarrow> sorted_wrt (<) xs \<and> (\<forall>j \<in> set xs. m \<le> j \<and> j < st_n z)"

definition st_state :: "tcp_stream \<Rightarrow> bytes \<Rightarrow> (nat \<Rightarrow> int) \<Rightarrow> nat \<Rightarrow> nat list \<Rightarrow> 'a stack_state_scheme \<Rightarrow> bool" where
  "st_state z b rc m xs s \<longleftrightarrow> st_rx z b m (tsk_at s (st_sock z)) \<and> st_bufs z rc xs s \<and> st_wait z m xs \<and>
     rcv_reass (tsk_at s (st_sock z)) = map (st_ent z) xs"

text \<open>The next segment of the stream is written whole.\<close>

lemma st_write:
  fixes s :: "'a stack_state_scheme"
  assumes wf: "st_wf z" and rx: "st_rx z b m (tsk_at s k)" and bufs: "st_bufs z rc xs s" and m: "m < st_n z"
  shows "\<exists>cb w. tcp_write_buf k (drop (st_data z m) (data_of s (st_pkb z m))) (of_nat (length (st_text z m))) s =
      (int (length (st_text z m)), upd_tsk k (\<lambda>c. c\<lparr>rcv_buf := Some cb, rcv_wnd := w, rcv_nxt := st_seq z (Suc m)\<rparr>) s) \<and>
    st_rx z b (Suc m) ((tsk_at s k)\<lparr>rcv_buf := Some cb, rcv_wnd := w, rcv_nxt := st_seq z (Suc m)\<rparr>)"
proof -
  let ?c = "tsk_at s k"
  let ?d = "drop (st_data z m) (data_of s (st_pkb z m))" and ?l = "of_nat (length (st_text z m)) :: u32"
  have l: "unat ?l = length (st_text z m)" using st_text_le [OF wf m] by (simp add: unat_of_nat)
  have off: "st_off z (Suc m) = st_off z m + length (st_text z m)" by (rule st_off_Suc [OF m])
  have tot: "st_off z (Suc m) \<le> length (concat (st_texts z))" by (rule st_off_total)
  have r: "rx_holds ?c (b @ concat (take m (st_texts z)))" "length (concat (st_texts z)) - st_off z m \<le> unat (rcv_wnd ?c)"
    "rcv_nxt ?c = st_seq z m" using rx by (auto simp: st_rx_def)
  have t: "take (unat ?l) ?d = st_text z m" using bufs m by (simp add: l slice_def st_bufs_def)
  have 1: "unat ?l \<le> length ?d" using arg_cong [OF t, of length] l by simp
  have 2: "0 < unat ?l" "unat ?l \<le> unat (rcv_wnd ?c)" using st_text_le [OF wf m] r(2) off tot l by linarith+
  from tcp_write_buf_appends [OF r(1) 2 1] obtain cb where cb: "tcp_write_buf k ?d ?l s =
      (int (unat ?l), upd_tsk k (\<lambda>c. c\<lparr>rcv_buf := Some cb, rcv_wnd := rcv_wnd c - ?l, rcv_nxt := rcv_nxt c + ?l\<rparr>) s)"
    "rx_holds (?c\<lparr>rcv_buf := Some cb, rcv_wnd := rcv_wnd ?c - ?l, rcv_nxt := rcv_nxt ?c + ?l\<rparr>)
      ((b @ concat (take m (st_texts z))) @ take (unat ?l) ?d)" by blast
  have n: "rcv_nxt ?c + ?l = st_seq z (Suc m)" using st_seq_Suc [OF m] r(3) by simp
  have sub: "unat (rcv_wnd ?c - ?l) = unat (rcv_wnd ?c) - unat ?l" using 2 by (simp add: unat_sub word_le_nat_alt)
  have "st_rx z b (Suc m) (?c\<lparr>rcv_buf := Some cb, rcv_wnd := rcv_wnd ?c - ?l, rcv_nxt := st_seq z (Suc m)\<rparr>)"
    using cb(2) rx m sub r(2) off tot l unfolding t n
    by (auto simp: st_rx_def take_Suc_conv_app_nth)
  then show ?thesis using cb(1) unfolding l upd_tsk_def n by (intro exI [of _ cb] exI [of _ "rcv_wnd ?c - ?l"]) simp
qed

lemma st_bufs_free:
  assumes wf: "st_wf z" and bufs: "st_bufs z rc (m # xs) s" and m: "m < st_n z" "m \<notin> set xs"
  shows "st_bufs z rc xs (free_pkb (st_pkb z m) s)" "fault (free_pkb (st_pkb z m) s) = fault s"
proof -
  have live: "pk_live (pkb s (st_pkb z m))" "pk_refcnt (pkb s (st_pkb z m)) = rc m + 1" "rc m > 0"
    using bufs m by (auto simp: st_bufs_def)
  then show "fault (free_pkb (st_pkb z m) s) = fault s" by (simp add: free_pkb_simps)
  have other: "pkb (free_pkb (st_pkb z m) s) (st_pkb z i) = pkb s (st_pkb z i)" if "i < st_n z" "i \<noteq> m" for i
    using wf that m by (auto simp: st_wf_def inj_on_def intro: free_pkb_simps)
  show "st_bufs z rc xs (free_pkb (st_pkb z m) s)"
    unfolding st_bufs_def
  proof (intro allI impI)
    fix i assume i: "i < st_n z"
    then show "slice (st_data z i) (length (st_text z i)) (data_of (free_pkb (st_pkb z m) s) (st_pkb z i)) = st_text z i \<and>
        pk_live (pkb (free_pkb (st_pkb z m) s) (st_pkb z i)) \<and> 0 < rc i \<and>
        pk_refcnt (pkb (free_pkb (st_pkb z m) s) (st_pkb z i)) = rc i + (if i \<in> set xs then 1 else 0)"
      using bufs live m other [OF i] by (cases "i = m") (auto simp: st_bufs_def free_pkb_live)
  qed
qed

lemma st_chain:
  fixes s :: "'a stack_state_scheme"
  assumes wf: "st_wf z" and k: "st_sock z = k" and st: "st_state z b rc m xs s"
  shows "\<exists>m' ys. m \<le> m' \<and> xs = [m..<m'] @ ys \<and> (\<forall>j \<in> set ys. m' < j) \<and> st_state z b rc m' ys (snd (reass_write k (map (st_ent z) xs) len s)) \<and>
    fault (snd (reass_write k (map (st_ent z) xs) len s)) = fault s"
  using st
proof (induction xs arbitrary: m len s)
  case Nil
  then show ?case by (intro exI [of _ m] exI [of _ "[]"]) simp
next
  case (Cons x xs)
  let ?c = "tsk_at s k"
  have p: "st_rx z b m ?c" "st_bufs z rc (x # xs) s" "st_wait z m (x # xs)" "rcv_nxt ?c = st_seq z m"
    using Cons.prems by (auto simp: st_state_def k st_rx_def)
  have x: "m \<le> x" "x < st_n z" "x \<notin> set xs" "st_wait z (Suc x) xs" using p(3) by (auto simp: st_wait_def)
  show ?case
  proof (cases "m < x")
    case True
    then have "trh_seq (st_ent z x) > rcv_nxt ?c" using st_seq_less [OF wf, of m x] x p(4) by (simp add: st_ent_def)
    then show ?thesis using True Cons.prems x(4)
      by (intro exI [of _ m] exI [of _ "x # xs"]) (auto simp: st_wait_def)
  next
    case False
    then have xm: "x = m" using x(1) by simp
    note m = x(2) [unfolded xm]
    obtain cb w where w: "tcp_write_buf k (drop (st_data z m) (data_of s (st_pkb z m))) (of_nat (length (st_text z m))) s =
        (int (length (st_text z m)), upd_tsk k (\<lambda>c. c\<lparr>rcv_buf := Some cb, rcv_wnd := w, rcv_nxt := st_seq z (Suc m)\<rparr>) s)"
      "st_rx z b (Suc m) (?c\<lparr>rcv_buf := Some cb, rcv_wnd := w, rcv_nxt := st_seq z (Suc m)\<rparr>)"
      using st_write [OF wf p(1,2) m] by blast
    define s1 where "s1 = upd_tsk k (\<lambda>c. c\<lparr>rcv_reass := map (st_ent z) xs\<rparr>)
      (upd_tsk k (\<lambda>c. c\<lparr>rcv_buf := Some cb, rcv_wnd := w, rcv_nxt := st_seq z (Suc m)\<rparr>) s)"
    have b1: "st_bufs z rc (m # xs) s1" using p(2) unfolding xm by (simp add: st_bufs_def s1_def)
    note f = st_bufs_free [OF wf b1 m x(3) [unfolded xm]]
    have "st_state z b rc (Suc m) xs (free_pkb (st_pkb z m) s1)"
      using f w(2) x(4) unfolding xm by (simp add: st_state_def k s1_def st_rx_def rx_holds_def)
    from Cons.IH [OF this, of "len + int (length (st_text z m))"] obtain m' ys where
      ih: "Suc m \<le> m'" "xs = [Suc m..<m'] @ ys" "\<forall>j \<in> set ys. m' < j"
        "st_state z b rc m' ys (snd (reass_write k (map (st_ent z) xs) (len + int (length (st_text z m))) (free_pkb (st_pkb z m) s1)))"
        "fault (snd (reass_write k (map (st_ent z) xs) (len + int (length (st_text z m))) (free_pkb (st_pkb z m) s1))) = fault s1"
      using f by auto
    have eq: "reass_write k (map (st_ent z) (x # xs)) len s =
        reass_write k (map (st_ent z) xs) (len + int (length (st_text z m))) (free_pkb (st_pkb z m) s1)"
      using w(1) st_text_le [OF wf m] p(4) by (simp add: xm st_ent_def s1_def)
    have "x # xs = [m..<m'] @ ys" using ih(1,2) by (simp add: xm upt_conv_Cons)
    moreover have "fault s1 = fault s" by (simp add: s1_def)
    ultimately show ?thesis using ih unfolding eq by (intro exI [of _ m'] exI [of _ ys]) simp
  qed
qed

lemma st_rx_update [simp]:
  "st_rx z b m (c\<lparr>rcv_reass := r\<rparr>) = st_rx z b m c" "st_rx z b m (c\<lparr>t_flags := f\<rparr>) = st_rx z b m c"
  by (simp_all add: st_rx_def rx_holds_def split: option.split)

lemma st_state_flags [simp]:
  "st_state z b rc m xs (upd_tsk k (\<lambda>c. c\<lparr>t_flags := f c\<rparr>) s) = st_state z b rc m xs s"
  "st_state z b rc m xs (set_tflags k h s) = st_state z b rc m xs s"
  "st_state z b rc m xs (tcp_recv_notify k s) = st_state z b rc m xs s"
  by (simp_all add: st_state_def st_bufs_def set_tflags_def tcp_recv_notify_def wake_up_def
      split: option.split)

lemma sorted_split:
  assumes "sorted_wrt (<) xs" "i \<notin> set xs"
  defines "pr \<equiv> takeWhile (\<lambda>j. \<not> i < j) xs" and "rs \<equiv> dropWhile (\<lambda>j. \<not> i < j) xs"
  shows "xs = pr @ rs" "\<forall>j \<in> set pr. j < i" "\<forall>j \<in> set rs. i < (j :: nat)" "sorted_wrt (<) (pr @ i # rs)"
proof -
  show 1: "xs = pr @ rs" by (simp add: pr_def rs_def)
  have "\<forall>j \<in> set pr. j \<le> i" by (auto simp: pr_def dest: set_takeWhileD)
  then show 2: "\<forall>j \<in> set pr. j < i" using assms(2) 1 by (metis Un_iff le_neq_implies_less set_append)
  show 3: "\<forall>j \<in> set rs. i < j"
  proof (cases rs)
    case (Cons r rs')
    then have "i < r" unfolding rs_def by (metis dropWhile_eq_Cons_conv)
    moreover have "\<forall>j \<in> set rs'. r < j" using assms(1) unfolding 1 Cons by (simp add: sorted_wrt_append)
    ultimately show ?thesis using Cons by auto
  qed simp
  show "sorted_wrt (<) (pr @ i # rs)" using assms(1) 2 3 unfolding 1 by (auto simp: sorted_wrt_append)
qed

lemma st_cuts:
  fixes s :: "'a stack_state_scheme"
  assumes wf: "st_wf z" and g: "st_seg z i g" "i < st_n z" and c: "snd_wnd c + snd_up c \<le> st_base z"
    and pr: "\<forall>j \<in> set pr. j < i" and rs: "\<forall>j \<in> set rs. i < j \<and> j < st_n z"
  shows "reass_head_cut c (map (st_ent z) pr) (map (st_ent z) rs) g = Some g"
    "reass_tail_cut (map (st_ent z) rs) g s = (True, g, map (st_ent z) rs, s)"
proof -
  have seq: "seg_seq g = st_seq z i" "seg_seq g + seg_dlen g = st_seq z (Suc i)"
    using g st_seq_Suc [OF g(2)] by (auto simp: st_seg_def)
  have "\<not> (if pr = [] then snd_wnd c + snd_up c else trh_seq (st_ent z (last pr)) + trh_len (st_ent z (last pr))) > seg_seq g"
  proof (cases "pr = []")
    case True
    then show ?thesis using c st_base_le [OF wf, of i] seq(1) by simp
  next
    case False
    then have l: "last pr < i" using pr by simp
    then have "trh_seq (st_ent z (last pr)) + trh_len (st_ent z (last pr)) = st_seq z (Suc (last pr))"
      using st_seq_Suc [of "last pr" z] g(2) by (simp add: st_ent_def)
    then show ?thesis using False l st_seq_less [OF wf, of i "Suc (last pr)"] g(2) seq(1) by simp
  qed
  then show "reass_head_cut c (map (st_ent z) pr) (map (st_ent z) rs) g = Some g"
    by (cases rs) (auto simp: reass_head_cut_def adjacent_segment_head_def last_map split: if_splits)
  show "reass_tail_cut (map (st_ent z) rs) g s = (True, g, map (st_ent z) rs, s)"
  proof (cases rs)
    case (Cons j rs')
    then have j: "i < j" "j < st_n z" using rs by auto
    have "trh_seq (st_ent z j) + trh_len (st_ent z j) = st_seq z (Suc j)" using st_seq_Suc [OF j(2)] by (simp add: st_ent_def)
    then show ?thesis using Cons j st_seq_less [OF wf, of "Suc i" "Suc j"] st_seq_less [OF wf, of j "Suc i"] seq(2)
      by (simp add: st_ent_def)
  qed simp
qed

lemma st_bufs_insert:
  assumes wf: "st_wf z" and bufs: "st_bufs z rc (pr @ rs) s" and i: "i < st_n z" "i \<notin> set (pr @ rs)"
  shows "st_bufs z rc (pr @ i # rs) (get_pkb (st_pkb z i) (upd_tsk k f (upd_data (st_pkb z i) (\<lambda>d. wr32 28 v (wr32 24 w d)) s)))"
  unfolding st_bufs_def
proof (intro allI impI)
  fix j assume j: "j < st_n z"
  have "32 \<le> st_data z j" using wf j by (simp add: st_wf_def)
  then have "slice (st_data z j) n (wr32 28 v (wr32 24 w d)) = slice (st_data z j) n d" for n d by (simp add: slice_def wr32_skip)
  moreover have "j \<noteq> i \<Longrightarrow> st_pkb z j \<noteq> st_pkb z i" using wf i j by (auto simp: st_wf_def inj_on_def)
  ultimately show "slice (st_data z j) (length (st_text z j))
        (data_of (get_pkb (st_pkb z i) (upd_tsk k f (upd_data (st_pkb z i) (\<lambda>d. wr32 28 v (wr32 24 w d)) s))) (st_pkb z j)) = st_text z j \<and>
      pk_live (pkb (get_pkb (st_pkb z i) (upd_tsk k f (upd_data (st_pkb z i) (\<lambda>d. wr32 28 v (wr32 24 w d)) s))) (st_pkb z j)) \<and>
      0 < rc j \<and> pk_refcnt (pkb (get_pkb (st_pkb z i) (upd_tsk k f (upd_data (st_pkb z i) (\<lambda>d. wr32 28 v (wr32 24 w d)) s))) (st_pkb z j)) =
        rc j + (if j \<in> set (pr @ i # rs) then 1 else 0)"
    using bufs i j by (cases "j = i") (auto simp: st_bufs_def get_pkb_def)
qed

lemma st_reass:
  fixes s :: "'a stack_state_scheme"
  assumes wf: "st_wf z" and k: "st_sock z = k" and st: "st_state z b rc m xs s" and i: "m \<le> i" "i < st_n z" "i \<notin> set xs"
    and g: "st_seg z i g"
  shows "\<exists>m' ys. {..<m'} \<union> set ys = insert i ({..<m} \<union> set xs) \<and> (\<forall>j \<in> set ys. m' < j) \<and>
    st_state z b rc m' ys (snd (tcp_segment_reass k g (st_pkb z i) s)) \<and> fault (snd (tcp_segment_reass k g (st_pkb z i) s)) = fault s"
proof -
  let ?c = "tsk_at s k" and ?p = "st_pkb z i"
  define pr rs where "pr = takeWhile (\<lambda>j. \<not> i < j) xs" and "rs = dropWhile (\<lambda>j. \<not> i < j) xs"
  have p: "st_rx z b m ?c" "st_bufs z rc xs s" "sorted_wrt (<) xs" "\<forall>j \<in> set xs. m \<le> j \<and> j < st_n z"
    "rcv_reass ?c = map (st_ent z) xs" "snd_wnd ?c + snd_up ?c \<le> st_base z"
    using st by (auto simp: st_state_def k st_wait_def st_rx_def)
  note sp = sorted_split [OF p(3) i(3), folded pr_def rs_def]
  have seq: "seg_seq g = st_seq z i" using g by (simp add: st_seg_def)
  have less: "seg_seq g < trh_seq (st_ent z j) \<longleftrightarrow> i < j" if "j \<in> set xs" for j
    using st_seq_less [OF wf, of i j] that p(4) i(2) seq by (auto simp: st_ent_def)
  have tw: "takeWhile (\<lambda>t. \<not> seg_seq g < trh_seq t) (map (st_ent z) xs) = map (st_ent z) pr"
    "dropWhile (\<lambda>t. \<not> seg_seq g < trh_seq t) (map (st_ent z) xs) = map (st_ent z) rs"
    unfolding pr_def rs_def takeWhile_map dropWhile_map o_def using less
    by (auto cong: takeWhile_cong dropWhile_cong)
  have rs: "\<forall>j \<in> set rs. i < j \<and> j < st_n z" using sp(1,3) p(4) by auto
  note cut = st_cuts [OF wf g i(2) p(6) sp(2) rs]
  define s1 where "s1 = get_pkb ?p (upd_tsk k (\<lambda>c. c\<lparr>rcv_reass := map (st_ent z) (pr @ i # rs)\<rparr>)
    (upd_data ?p (\<lambda>d. wr32 28 (seg_dlen g) (wr32 24 (seg_seq g) d)) s))"
  have ent: "\<lparr>trh_pkb = ?p, trh_data = seg_text g, trh_seq = seg_seq g, trh_len = seg_dlen g\<rparr> = st_ent z i"
    using g by (simp add: st_seg_def st_ent_def)
  have "st_bufs z rc (pr @ i # rs) s1" unfolding s1_def by (rule st_bufs_insert [OF wf]) (use p(2) i sp(1) in auto)
  then have "st_state z b rc m (pr @ i # rs) s1"
    using p(1,4) sp(1,4) i k by (auto simp: st_state_def st_wait_def s1_def)
  from st_chain [OF wf k this, of 0] obtain m' ys where c: "m \<le> m'" "pr @ i # rs = [m..<m'] @ ys" "\<forall>j \<in> set ys. m' < j"
    "st_state z b rc m' ys (snd (reass_write k (map (st_ent z) (pr @ i # rs)) 0 s1))"
    "fault (snd (reass_write k (map (st_ent z) (pr @ i # rs)) 0 s1)) = fault s1" by blast
  have "insert i (set xs) = {m..<m'} \<union> set ys" using arg_cong [OF c(2), of set] sp(1) by auto
  moreover have "{..<m'} = {..<m} \<union> {m..<m'}" using c(1) by (rule ivl_disj_un_one(2) [symmetric])
  ultimately have "{..<m'} \<union> set ys = insert i ({..<m} \<union> set xs)" by blast
  moreover have "fault s1 = fault s" by (simp add: s1_def get_pkb_def)
  moreover have "snd (tcp_segment_reass k g ?p s) =
    (let (len, u) = reass_write k (map (st_ent z) (pr @ i # rs)) 0 s1
     in if len > 0 \<and> tcp_psh (seg_off g) (data_of u (seg_pkb g)) then upd_tsk k (\<lambda>c. c\<lparr>t_flags := t_flags c OR TCP_F_PUSH\<rparr>) u else u)"
    unfolding tcp_segment_reass_def Let_def p(5) tw cut option.case prod.case ent
    by (simp add: s1_def case_prod_beta)
  ultimately show ?thesis using c(3,4,5)
    by (intro exI [of _ m'] exI [of _ ys]) (simp add: Let_def case_prod_beta)
qed

lemma st_recv:
  fixes s :: "'a stack_state_scheme"
  assumes wf: "st_wf z" and k: "st_sock z = k" and st: "st_state z b rc m xs s" and wait: "\<forall>j \<in> set xs. m < j"
    and i: "i < st_n z" "i \<notin> {..<m} \<union> set xs" and g: "st_seg z i g"
  shows "\<exists>m' ys. {..<m'} \<union> set ys = insert i ({..<m} \<union> set xs) \<and> (\<forall>j \<in> set ys. m' < j) \<and>
    st_state z b rc m' ys (snd (tcp_recv_text k g (st_pkb z i) s)) \<and> fault (snd (tcp_recv_text k g (st_pkb z i) s)) = fault s"
proof -
  let ?c = "tsk_at s k" and ?p = "st_pkb z i"
  have mi: "m \<le> i" "i \<notin> set xs" using i(2) by auto
  then have m: "m < st_n z" using i(1) by simp
  have p: "st_rx z b m ?c" "st_bufs z rc xs s" "rcv_nxt ?c = st_seq z m" "rcv_reass ?c = map (st_ent z) xs"
    "length (concat (st_texts z)) - st_off z m \<le> unat (rcv_wnd ?c)"
    using st by (auto simp: st_state_def k st_rx_def)
  have "rcv_wnd ?c \<noteq> 0"
    using p(5) st_off_less [OF wf, of m "Suc m"] st_off_total [of z "Suc m"] m by auto
  moreover have "adjacent_segment_head (rcv_nxt ?c) g = Some g"
    using g st_seq_less [OF wf, of i m] mi i(1) m by (auto simp: adjacent_segment_head_def st_seg_def p(3))
  moreover have "(rcv_nxt ?c = seg_seq g) = (i = m)"
    using g st_seq_eq [OF wf, of m i] i(1) m by (auto simp: st_seg_def p(3))
  ultimately have eq: "snd (tcp_recv_text k g ?p s) =
     (let u = (if i = m \<and> xs = []
               then let (rlen, t) = tcp_write_buf k (drop (seg_text g) (data_of s (seg_pkb g))) (seg_dlen g) s
                    in set_tflags k TCP_F_ACKDELAY (if rlen > 0 \<and> tcp_psh (seg_off g) (data_of t (seg_pkb g)) then set_tflags k TCP_F_PUSH t else t)
               else set_tflags k TCP_F_ACKNOW (snd (tcp_segment_reass k g ?p s)))
      in if t_flags (tsk_at u k) AND TCP_F_PUSH \<noteq> 0 then tcp_recv_notify k u else u)"
    by (simp add: tcp_recv_text_def Let_def case_prod_beta p(4))
  have fl: "fault (set_tflags k f u) = fault u" "fault (tcp_recv_notify k u) = fault u" for f and u :: "'a stack_state_scheme"
    by (simp_all add: set_tflags_def tcp_recv_notify_def wake_up_def split: option.split)
  show ?thesis
  proof (cases "i = m \<and> xs = []")
    case True
    from st_write [OF wf p(1,2) m] obtain cb w where w: "tcp_write_buf k (drop (seg_text g) (data_of s (seg_pkb g))) (seg_dlen g) s =
        (int (length (st_text z m)), upd_tsk k (\<lambda>c. c\<lparr>rcv_buf := Some cb, rcv_wnd := w, rcv_nxt := st_seq z (Suc m)\<rparr>) s)"
      "st_rx z b (Suc m) (?c\<lparr>rcv_buf := Some cb, rcv_wnd := w, rcv_nxt := st_seq z (Suc m)\<rparr>)"
      using g True by (auto simp: st_seg_def)
    have "st_state z b rc (Suc m) [] (upd_tsk k (\<lambda>c. c\<lparr>rcv_buf := Some cb, rcv_wnd := w, rcv_nxt := st_seq z (Suc m)\<rparr>) s)"
      using w(2) p(2,4) True by (simp add: st_state_def k st_wait_def st_bufs_def)
    then show ?thesis using True unfolding eq w(1)
      by (intro exI [of _ "Suc m"] exI [of _ "[]"]) (auto simp: Let_def fl)
  next
    case False
    show ?thesis using st_reass [OF wf k st mi(1) i(1) mi(2) g] unfolding eq if_not_P [OF False] by (simp add: Let_def fl)
  qed
qed

text \<open>The texts of the segments \<open>is\<close>, in this order.\<close>

definition tcp_recv_texts ::
  "(nat \<Rightarrow> tcp_segment) \<Rightarrow> tcp_stream \<Rightarrow> nat list \<Rightarrow> 'a stack_state_scheme \<Rightarrow> 'a stack_state_scheme" where
  "tcp_recv_texts gs z is s = fold (\<lambda>i s. snd (tcp_recv_text (st_sock z) (gs i) (st_pkb z i) s)) is s"

lemma st_recv_all:
  fixes s :: "'a stack_state_scheme"
  assumes "st_wf z" "st_state z b rc m xs s" "\<forall>j \<in> set xs. m < j"
    and "distinct is" "set is \<inter> ({..<m} \<union> set xs) = {}" "\<forall>i \<in> set is. i < st_n z \<and> st_seg z i (gs i)"
  shows "\<exists>m' ys. {..<m'} \<union> set ys = set is \<union> {..<m} \<union> set xs \<and> (\<forall>j \<in> set ys. m' < j) \<and>
    st_state z b rc m' ys (tcp_recv_texts gs z is s) \<and> fault (tcp_recv_texts gs z is s) = fault s"
  using assms(2-)
proof (induction "is" arbitrary: m xs s)
  case Nil
  then show ?case by (intro exI [of _ m] exI [of _ xs]) (simp add: tcp_recv_texts_def)
next
  case (Cons i "is")
  let ?t = "snd (tcp_recv_text (st_sock z) (gs i) (st_pkb z i) s)"
  obtain m1 xs1 where 1: "{..<m1} \<union> set xs1 = insert i ({..<m} \<union> set xs)" "\<forall>j \<in> set xs1. m1 < j"
    "st_state z b rc m1 xs1 ?t" "fault ?t = fault s"
    using st_recv [OF assms(1) refl Cons.prems(1,2), of i "gs i"] Cons.prems(4,5) by auto
  have "set is \<inter> ({..<m1} \<union> set xs1) = {}" using Cons.prems(3,4) unfolding 1(1) by auto
  from Cons.IH [OF 1(3,2) _ this] Cons.prems(3,5) obtain m' ys where "{..<m'} \<union> set ys = set is \<union> ({..<m1} \<union> set xs1)"
    "\<forall>j \<in> set ys. m' < j" "st_state z b rc m' ys (tcp_recv_texts gs z is ?t)" "fault (tcp_recv_texts gs z is ?t) = fault ?t" by auto
  then show ?case unfolding 1(1) by (intro exI [of _ m'] exI [of _ ys]) (auto simp: tcp_recv_texts_def 1(4))
qed

section \<open>The stream arrives whatever the order\<close>


definition sample_stream :: tcp_stream where
  "sample_stream = \<lparr>st_sock = 2, st_base = 1000, st_texts = [[1, 2], [3], [4, 5]], st_pkb = id, st_data = (\<lambda>_. 54)\<rparr>"

definition sample_seg :: "nat \<Rightarrow> tcp_segment" where
  "sample_seg i = \<lparr>seg_seq = 1000 + [0, 2, 3] ! i, seg_ack = 0, seg_lastseq = 0, seg_len = 0, seg_dlen = [2, 1, 2] ! i, seg_wnd = 0,
     seg_up = 0, seg_text = 54, seg_pkb = i, seg_off = 34\<rparr>"

definition receiver :: stack_state where
  "receiver = stack_on (sample_ip_pool (map (\<lambda>t. replicate 54 0 @ t) (st_texts sample_stream))) (\<lambda>_. zero_sock)
     (\<lambda>_. []) (\<lambda>_. zero_tcp\<lparr>t_state := TCP_ESTABLISHED, rcv_wnd := TCP_DEFAULT_WINDOW, rcv_nxt := 1000\<rparr>)"

lemma receiver_ready: "st_wf sample_stream" "st_state sample_stream [] (\<lambda>_. 1) 0 [] receiver" "\<forall>i < 3. st_seg sample_stream i (sample_seg i)"
proof -
  show "st_wf sample_stream" by (auto simp: st_wf_def sample_stream_def)
  show "\<forall>i < 3. st_seg sample_stream i (sample_seg i)"
    by (auto simp: st_seg_def sample_stream_def sample_seg_def st_seq_def st_off_def numeral_3_eq_3 less_Suc_eq)
  have bufs: "data_of receiver i = replicate 54 0 @ st_texts sample_stream ! i" "pk_live (pkb receiver i)" "pk_refcnt (pkb receiver i) = 1"
    if "i < 3" for i
    using that sample_ip_pool_pkb [where ds = "map (\<lambda>t. replicate 54 0 @ t) (st_texts sample_stream)" and p = i]
    by (simp_all add: receiver_def) (simp_all add: sample_stream_def)
  have "rx_holds (tsk_at receiver 2) []" by (simp add: rx_holds_def receiver_def zero_tcp_def)
  then show "st_state sample_stream [] (\<lambda>_. 1) 0 [] receiver"
    using bufs by (auto simp: st_state_def st_rx_def st_bufs_def st_wait_def slice_def)
      (auto simp: sample_stream_def receiver_def zero_tcp_def st_seq_def st_off_def)
qed


end
