(* ===== verification/Tcp_Send.thy ===== *)
theory Tcp_Send
  imports Tcp_Order Delivery
begin

text \<open>
  Sending text: the segments \<^verbatim>\<open>tcp_send_text\<close> of \<^verbatim>\<open>src/tcp/tcp_text.c\<close> puts on the wire, from the header one round
  of its loop writes (\<^verbatim>\<open>tcp_init_text\<close>) to the list of frames the whole call leaves there.
\<close>
section \<open>The bytes of a segment\<close>

text \<open>The buffer of a segment after \<open>tcp_init_text\<close> and the PSH bit, with zeros for the headers below TCP.\<close>

definition tcp_text_head :: "u16 \<Rightarrow> u16 \<Rightarrow> u32 \<Rightarrow> u32 \<Rightarrow> u16 \<Rightarrow> bytes \<Rightarrow> bytes" where
  "tcp_text_head sp dp q a w z = wr16 48 w (set_ack 34 (wr32 42 a (wr32 38 q (set_tcp_doff 34 5 (wr16 36 dp (wr16 34 sp z))))))"

definition tcp_text_bytes :: "u16 \<Rightarrow> u16 \<Rightarrow> u32 \<Rightarrow> u32 \<Rightarrow> u16 \<Rightarrow> bool \<Rightarrow> bytes \<Rightarrow> bytes" where
  "tcp_text_bytes sp dp q a w psh tx =
     (let d = memcpy (tcp_text_head sp dp q a w (replicate (54 + length tx) 0)) 54 tx (length tx)
      in if psh then set_psh 34 d else d)"

lemma tcp_text_head_fields:
  assumes "length z = 54 + n" "rd16 z 46 = 0"
  shows "length (tcp_text_head sp dp q a w z) = 54 + n" "rd16 (tcp_text_head sp dp q a w z) 34 = sp"
    "rd16 (tcp_text_head sp dp q a w z) 36 = dp" "rd32 (tcp_text_head sp dp q a w z) 38 = q" "rd32 (tcp_text_head sp dp q a w z) 42 = a"
    "rd16 (tcp_text_head sp dp q a w z) 46 = 0x1050" "rd16 (tcp_text_head sp dp q a w z) 48 = w"
  using assms by (simp_all add: tcp_text_head_def set_tcp_bit_def set_tcp_doff_def set_bit_eq_or)

lemma rd_memcpy:
  assumes "off + n \<le> length d" "n \<le> length src"
  shows "k + 1 < off \<Longrightarrow> rd16 (memcpy d off src n) k = rd16 d k" "k + 3 < off \<Longrightarrow> rd32 (memcpy d off src n) k = rd32 d k"
  using assms by (simp_all add: rd32_def rd16_def memcpy_eq rd8_append rd8_take)

lemma tcp_text_bytes_fields:
  fixes sp dp w :: u16 and q a :: u32 and psh :: bool and tx :: bytes
  defines "d \<equiv> tcp_text_bytes sp dp q a w psh tx"
  shows "length d = 54 + length tx" "drop 54 d = tx" "tcp_src 34 d = sp" "tcp_dst 34 d = dp" "tcp_seq 34 d = q" "tcp_ackn 34 d = a"
    "tcp_flags 34 d = (if psh then 0x1850 else 0x1050)" "tcp_window 34 d = w"
proof -
  let ?n = "length tx"
  define h where "h = tcp_text_head sp dp q a w (replicate (54 + ?n) 0)"
  have z: "rd16 (replicate (54 + ?n) 0) 46 = 0" by (simp add: rd16_def rd8_def mk16_def)
  note hf = tcp_text_head_fields [OF length_replicate z, of sp dp q a w, folded h_def]
  define m where "m = memcpy h 54 tx ?n"
  have mf: "length m = 54 + ?n" "drop 54 m = tx" by (simp_all add: m_def memcpy_eq hf)
  have rm: "k + 1 < 54 \<Longrightarrow> rd16 m k = rd16 h k" "k + 3 < 54 \<Longrightarrow> rd32 m k = rd32 h k" for k
    unfolding m_def by (rule rd_memcpy; simp add: hf)+
  have d: "d = (if psh then wr16 46 0x1850 m else m)"
    using mf(1) by (simp add: d_def tcp_text_bytes_def Let_def set_tcp_bit_def h_def [symmetric] m_def [symmetric] rm hf set_bit_eq_or)
  show "length d = 54 + ?n" "drop 54 d = tx" "tcp_src 34 d = sp" "tcp_dst 34 d = dp" "tcp_seq 34 d = q" "tcp_ackn 34 d = a"
    "tcp_flags 34 d = (if psh then 0x1850 else 0x1050)" "tcp_window 34 d = w"
    using mf by (simp_all add: d rm hf wr16_skip)
qed

text \<open>The frame that carries it.\<close>

definition tcp_wire_frame :: "bytes \<Rightarrow> bytes \<Rightarrow> u32 \<Rightarrow> u32 \<Rightarrow> u16 \<Rightarrow> bytes \<Rightarrow> bytes" where
  "tcp_wire_frame src dst sa da ident d =
     eth_frame src dst (ip_set_checksum (tcp_set_checksum 34 (set_ip_src sa (info_header 0 (of_nat (length d - 14)) ident 64 6 da d))))"

lemma rd32_drop: "rd32 (drop k d) i = rd32 d (k + i)"
  by (simp add: rd32_def rd16_drop add.assoc)

lemma tcp_wire_frame_fields:
  fixes src dst :: bytes and sa da :: u32 and ident :: u16 and d :: bytes
  assumes d: "54 \<le> length d"
  defines "f \<equiv> tcp_wire_frame src dst sa da ident d"
  shows "length f = length d" "drop 54 f = drop 54 d" "ip_src f = sa" "ip_dst f = da" "ip_pro f = 6" "iphlen f = 20"
    "ntohs (ip_len f) = of_nat (length d - 14)" "tcp_src 34 f = tcp_src 34 d" "tcp_dst 34 f = tcp_dst 34 d" "tcp_seq 34 f = tcp_seq 34 d"
    "tcp_ackn 34 f = tcp_ackn 34 d" "tcp_flags 34 f = tcp_flags 34 d" "tcp_window 34 f = tcp_window 34 d"
proof -
  have l: "34 \<le> length d" using d by simp
  define h where "h = info_header 0 (of_nat (length d - 14)) ident 64 6 da d"
  note hf = info_header_fields [OF l, of 0 "of_nat (length d - 14)" ident 64 6 da, folded h_def]
  obtain c where c: "tcp_set_checksum 34 (set_ip_src sa h) = wr16 50 c (set_ip_src sa h)" by (simp add: tcp_set_checksum_def Let_def)
  obtain e where e: "ip_set_checksum (wr16 50 c (set_ip_src sa h)) = wr16 24 e (wr16 50 c (set_ip_src sa h))"
    by (simp add: ip_set_checksum_eq)
  define b where "b = wr16 24 e (wr16 50 c (set_ip_src sa h))"
  have f: "drop 14 f = drop 14 b" "length f = length b"
    using eth_frame_body [of src dst b] by (simp_all add: f_def tcp_wire_frame_def h_def [symmetric] c e b_def)
  have v: "rd16 f (14 + k) = rd16 b (14 + k)" "rd32 f (14 + k) = rd32 b (14 + k)" "rd8 f (14 + k) = rd8 b (14 + k)" for k
    using f(1) rd16_drop [of 14 f k] rd16_drop [of 14 b k] rd32_drop [of 14 f k] rd32_drop [of 14 b k] rd8_drop [of 14 f k] rd8_drop [of 14 b k]
    by simp_all
  have hd: "rd16 h (34 + k) = rd16 d (34 + k)" "rd32 h (34 + k) = rd32 d (34 + k)" for k
    using hf(10) rd16_drop [of 34 h k] rd16_drop [of 34 d k] rd32_drop [of 34 h k] rd32_drop [of 34 d k] by simp_all
  show "length f = length d" using f(2) by (simp add: b_def hf)
  have "drop 40 (drop 14 f) = drop 40 (drop 14 b)" by (simp add: f(1))
  then have "drop 54 f = drop 54 b" by simp
  also have "\<dots> = drop 20 (drop 34 h)" by (simp add: b_def wr16_skip wr32_skip)
  finally show "drop 54 f = drop 54 d" unfolding hf(10) by simp
  show "ip_src f = sa" "ip_dst f = da" "ip_pro f = 6" "ntohs (ip_len f) = of_nat (length d - 14)"
    using v(2) [of 12] v(2) [of 16] v(3) [of 9] v(1) [of 2] d hf by (simp_all add: b_def rd8_wr16)
  show "iphlen f = 20" using v(3) [of 0] hf(3) by (simp add: b_def iphlen_def ip_hlen_def rd8_wr16)
  show "tcp_src 34 f = tcp_src 34 d" "tcp_dst 34 f = tcp_dst 34 d" "tcp_flags 34 f = tcp_flags 34 d" "tcp_window 34 f = tcp_window 34 d"
    using v(1) [of 20] v(1) [of 22] v(1) [of 32] v(1) [of 34] hd(1) [of 0] hd(1) [of 2] hd(1) [of 12] hd(1) [of 14]
    by (simp_all add: b_def)
  show "tcp_seq 34 f = tcp_seq 34 d" "tcp_ackn 34 f = tcp_ackn 34 d"
    using v(2) [of 24] v(2) [of 28] hd(2) [of 4] hd(2) [of 8] by (simp_all add: b_def)
qed

section \<open>Sending one segment\<close>

text \<open>A connection whose route and next hop are known, and a pool with room.\<close>

definition tcp_sender :: "'a stack_state_scheme \<Rightarrow> nat \<Rightarrow> rtentry \<Rightarrow> nat \<Rightarrow> bool" where
  "tcp_sender s k rt i \<longleftrightarrow> sk_dst (sk_at s k) = Some rt \<and> hop_known rt (hop_addr rt (sk_daddr (sk_at s k))) i s \<and> pkb_inv s \<and> pool_room s"

lemma pool_room_live: "pkb_inv s \<Longrightarrow> pool_room s \<longleftrightarrow> int (card (live_pkbs s)) < MAX_PKBS"
  by (simp add: pkb_inv_def pool_room_def)

lemma tcp_send_out_wire:
  fixes s :: "'a stack_state_scheme"
  assumes snd: "sk_dst (sk_at s k) = Some rt" "hop_known rt (hop_addr rt (sk_daddr (sk_at s k))) i s" "pkb_inv s"
    and p: "pk_live (pkb s p)" "data_of s p = d" "pk_len (pkb s p) = int (length d)"
    and d: "54 \<le> length d" "length d < 65536" "int (length d - 14) \<le> net_mtu (dev s (rt_dev rt))"
  shows "let t = tcp_send_out (veth_xmit (\<lambda>f. int (length f))) (Some k) p None s; n = rt_dev rt
    in wire t = wire s @ [(n, tcp_wire_frame (net_hwaddr (dev s n)) (ae_hwaddr (ae s i)) (sk_saddr (sk_at s k)) (sk_daddr (sk_at s k))
          (word_of_int (tcp_id s)) d)] \<and>
      fault t = fault s \<and> pkb_inv t \<and> pk_refcnt (pkb t p) = pk_refcnt (pkb s p) - 1 \<and> (\<forall>q. q \<noteq> p \<longrightarrow> pkb t q = pkb s q) \<and>
      arp_cache t = arp_cache s \<and> same_net s t \<and> pk_next t = pk_next s"
proof -
  obtain m where m: "length d - 14 = m" "length d = 14 + m" "m < 65536" "40 \<le> m" using d that [of "length d - 14"] by simp
  let ?x = "veth_xmit (\<lambda>f. int (length f))" and ?n = "rt_dev rt" and ?sa = "sk_saddr (sk_at s k)" and ?da = "sk_daddr (sk_at s k)"
  define h where "h = info_header 0 (of_nat m) (word_of_int (tcp_id s)) 64 6 ?da d"
  define e where "e = tcp_set_checksum 34 (set_ip_src ?sa h)"
  define u where "u = upd_pkb p (\<lambda>b. b\<lparr>pk_rtdst := Some rt, pk_data := e\<rparr>) s"
  have l: "34 \<le> length d" "14 < length d" using d by simp_all
  note hf = info_header_fields [OF l(1), of 0 "of_nat m" "word_of_int (tcp_id s)" 64 6 ?da, folded h_def]
  have w: "word_of_int (pk_len (pkb s p) - int ETH_HRD_SZ) = (of_nat m :: u16)" using p(3) m by simp
  have hh: "set_ip_dst ?da (set_ip_pro IP_P_TCP (set_ip_ttl 64 (set_ip_fragoff 0 (set_ip_id (htons (word_of_int (tcp_id s)))
      (set_ip_len (htons (word_of_int (pk_len (pkb s p) - int ETH_HRD_SZ))) (set_ip_tos 0 (set_ip_ver 4 (set_ip_hlen 5 d)))))))) = h"
    unfolding w set_ip_ver_hlen [OF l(2)] h_def info_header_def ..
  obtain c where c: "e = wr16 50 c (set_ip_src ?sa h)" by (simp add: e_def tcp_set_checksum_def Let_def)
  have ef: "length e = length d" "ip_dst e = ?da" "ip_len e = htons (of_nat m)" by (simp_all add: c hf)
  have un: "unat (of_nat m :: u16) = m" using m by (simp add: unat_of_nat)
  have send: "tcp_send_out ?x (Some k) p None s = ip_send_out ?x p u"
  proof -
    have "tcp_init_pkb (Some k) p ?sa ?da s =
        (0, upd_data p (set_ip_src ?sa) (upd_pkb p (\<lambda>b. b\<lparr>pk_rtdst := Some rt\<rparr>) (upd_data p (\<lambda>_. h) s)))"
      unfolding tcp_init_pkb_def Let_def by (subst upd_data_const [OF p(2)], unfold hh) (simp add: snd)
    then show ?thesis
      by (simp add: tcp_send_out_def Let_def u_def e_def comp_def)
  qed
  have u: "pk_live (pkb u p)" "pk_rtdst (pkb u p) = Some rt" "data_of u p = e" "pk_len (pkb u p) = int (length e)"
    "hop_known rt (next_hop rt e) i u" "34 \<le> length e" "int (unat (ntohs (ip_len e))) \<le> net_mtu (dev u ?n)" "pkb_inv u" "same_net s u"
    using snd p d hop_known_cong [of u s]
    by (simp_all add: u_def pkb_inv_upd ef next_hop_addr un same_net_def m(1) del: of_nat_unat of_nat_diff)
  show ?thesis
    using vip.send_out_routed [OF u(1-8)] same_net_trans [OF u(9)]
    unfolding Let_def send tcp_wire_frame_def m(1) h_def [symmetric] e_def [symmetric] by (auto simp: u_def)
qed

text \<open>One round of the loop of \<open>tcp_send_text\<close>.\<close>

definition text_round :: "'a stack_state_scheme xmit_fun \<Rightarrow> nat \<Rightarrow> bytes \<Rightarrow> int \<Rightarrow> bool \<Rightarrow> 'a stack_state_scheme \<Rightarrow> 'a stack_state_scheme" where
  "text_round xmit k src n psh s =
     (let (p, s) = alloc_pkb (int (ETH_HRD_SZ + IP_HRD_SZ + TCP_HRD_SZ) + n) s;
          s = tcp_init_text k p src n s;
          s = (if psh then upd_data p (set_psh 34) s else s)
      in tcp_send_out xmit (Some k) p None s)"

text \<open>The frame of the text \<open>tx\<close> at sequence number \<open>q\<close>.\<close>

definition text_frame :: "'a stack_state_scheme \<Rightarrow> nat \<Rightarrow> rtentry \<Rightarrow> nat \<Rightarrow> u32 \<Rightarrow> bool \<Rightarrow> bytes \<Rightarrow> bytes" where
  "text_frame s k rt i q psh tx =
     tcp_wire_frame (net_hwaddr (dev s (rt_dev rt))) (ae_hwaddr (ae s i)) (sk_saddr (sk_at s k)) (sk_daddr (sk_at s k))
       (word_of_int (tcp_id s)) (tcp_text_bytes (sk_sport (sk_at s k)) (sk_dport (sk_at s k)) (htonl q) (htonl (rcv_nxt (tsk_at s k)))
         (htons (ucast (rcv_wnd (tsk_at s k)))) psh tx)"

lemma text_round_sends:
  fixes s :: "'a stack_state_scheme" and psh :: bool
  assumes snd: "tcp_sender s k rt i"
    and n: "0 < n" "n \<le> length src" "n < 65000" "int (40 + n) \<le> net_mtu (dev s (rt_dev rt))"
  defines "t \<equiv> text_round (veth_xmit (\<lambda>f. int (length f))) k src (int n) psh s"
  shows "wire t = wire s @ [(rt_dev rt, text_frame s k rt i (snd_nxt (tsk_at s k)) psh (take n src))]"
    "fault t = fault s" "tcp_sender t k rt i" "text_frame t k rt i = text_frame s k rt i" "net_mtu (dev t (rt_dev rt)) = net_mtu (dev s (rt_dev rt))"
    "sk_heap t = sk_heap s"
    "tsk_heap t = (tsk_heap s)(k := (tsk_at s k)\<lparr>snd_nxt := snd_nxt (tsk_at s k) + of_nat n, snd_wnd := snd_wnd (tsk_at s k) - of_nat n\<rparr>)"
proof -
  let ?p = "pk_next s" and ?x = "veth_xmit (\<lambda>f. int (length f))" and ?c = "tsk_at s k" and ?sk = "sk_at s k"
  define d where "d = tcp_text_bytes (sk_sport ?sk) (sk_dport ?sk) (htonl (snd_nxt ?c)) (htonl (rcv_nxt ?c)) (htons (ucast (rcv_wnd ?c))) psh (take n src)"
  define A where "A = snd (alloc_pkb (54 + int n) s)"
  have al: "alloc_pkb (54 + int n) s = (?p, A)" unfolding A_def by (metis alloc_simps(1) prod.collapse)
  have inv: "pkb_inv s" "pool_room s" and sd: "sk_dst ?sk = Some rt" "hop_known rt (hop_addr rt (sk_daddr ?sk)) i s"
    using snd by (auto simp: tcp_sender_def)
  have A: "pkb_inv A" "fault A = fault s" "wire A = wire s" "arp_cache A = arp_cache s" "dev A j = dev s j" "pk_live (pkb A ?p)"
    "pk_len (pkb A ?p) = 54 + int n" "pk_refcnt (pkb A ?p) = 1" "sk_heap A = sk_heap s" "tsk_heap A = tsk_heap s" "tcp_id A = tcp_id s"
    "data_of A ?p = replicate (54 + n) 0" "pk_next A = Suc ?p" "q \<noteq> ?p \<Longrightarrow> pkb A q = pkb s q" for j q
    using inv by (simp_all add: A_def alloc_pkb_inv alloc_fault) (simp_all add: alloc_pkb_def nat_add_distrib)
  define C where "C = upd_tsk k (\<lambda>c. c\<lparr>snd_nxt := snd_nxt c + of_nat n, snd_wnd := snd_wnd c - of_nat n\<rparr>) (upd_data ?p (\<lambda>_. d) A)"
  have t: "t = tcp_send_out ?x (Some k) ?p None C"
  proof -
    let ?z = "replicate (54 + n) (0 :: u8)"
    define h where "h = tcp_text_head (sk_sport ?sk) (sk_dport ?sk) (htonl (snd_nxt ?c)) (htonl (rcv_nxt ?c)) (htons (ucast (rcv_wnd ?c))) ?z"
    have hl: "length h = 54 + n" unfolding h_def by (rule tcp_text_head_fields) (simp_all add: rd16_def rd8_def mk16_def)
    have "memcpy h 54 src n = memcpy h 54 (take n src) n" using n(2) by (simp add: memcpy_eq hl)
    then have "upd_data ?p (if psh then set_psh 34 else id) (upd_data ?p (\<lambda>_. memcpy h 54 src n) A) = upd_data ?p (\<lambda>_. d) A"
      using n(2) by (simp add: d_def tcp_text_bytes_def h_def comp_def min_absorb2)
    moreover have "tcp_init_text k ?p src (int n) A =
        upd_tsk k (\<lambda>c. c\<lparr>snd_nxt := snd_nxt c + of_nat n, snd_wnd := snd_wnd c - of_nat n\<rparr>) (upd_data ?p (\<lambda>_. memcpy h 54 src n) A)"
      unfolding tcp_init_text_def Let_def
      by (subst upd_data_const [OF A(12)]) (simp add: A h_def tcp_text_head_def)
    moreover have "upd_pkb ?p f (upd_tsk k g u) = upd_tsk k g (upd_pkb ?p f u)" for f g and u :: "'a stack_state_scheme"
      by (simp add: upd_pkb_def upd_tsk_def)
    ultimately show ?thesis unfolding t_def text_round_def using al by (cases psh) (simp_all add: Let_def C_def)
  qed
  have dl: "length d = 54 + n" using tcp_text_bytes_fields(1) n(2) by (simp add: d_def)
  have C: "sk_dst (sk_at C k) = Some rt" "hop_known rt (hop_addr rt (sk_daddr (sk_at C k))) i C" "pkb_inv C" "pk_live (pkb C ?p)"
    "data_of C ?p = d" "pk_len (pkb C ?p) = int (length d)" "54 \<le> length d" "length d < 65536"
    "int (length d - 14) \<le> net_mtu (dev C (rt_dev rt))"
    using A sd n dl hop_known_cong [of C s] by (simp_all add: C_def pkb_inv_upd)
  note w = tcp_send_out_wire [OF C, unfolded Let_def, folded t]
  have more: "sk_heap t = sk_heap s" "tsk_heap t = tsk_heap C" "tcp_id t = tcp_id s"
    using w sk_more_fields [of C t] tcp_more_fields [of C t] A by (simp_all add: same_net_def C_def)
  have net: "net_hwaddr (dev t j) = net_hwaddr (dev s j)" "net_mtu (dev t j) = net_mtu (dev s j)" "arp_cache t = arp_cache s" for j
    using w A by (simp_all add: same_net_def C_def)
  show "wire t = wire s @ [(rt_dev rt, text_frame s k rt i (snd_nxt ?c) psh (take n src))]"
    using w A by (simp add: C_def text_frame_def d_def)
  show "fault t = fault s" using w A by (simp add: C_def)
  show "net_mtu (dev t (rt_dev rt)) = net_mtu (dev s (rt_dev rt))" "sk_heap t = sk_heap s" by (simp_all add: net more)
  show tsk: "tsk_heap t = (tsk_heap s)(k := ?c\<lparr>snd_nxt := snd_nxt ?c + of_nat n, snd_wnd := snd_wnd ?c - of_nat n\<rparr>)"
    using more(2) A by (auto simp: C_def upd_tsk_def)
  then show "text_frame t k rt i = text_frame s k rt i" by (intro ext) (simp add: text_frame_def net more)
  have pi: "pkb_inv t" "\<not> pk_live (pkb t ?p)" using w A by (auto simp: C_def pkb_inv_def)
  have "live_pkbs t = live_pkbs s"
    using w A(13,14) pi(2) by (auto simp: live_pkbs_def C_def less_Suc_eq)
  then show "tcp_sender t k rt i"
    using inv pi sd hop_known_cong [of t s] by (simp add: tcp_sender_def pool_room_live more net)
qed

section \<open>The whole text\<close>

lemma tcp_text_loop_round:
  "tcp_text_loop (Suc m) xmit k buf len slen segsize s =
     (if slen < len
      then let n = min segsize (len - slen)
           in tcp_text_loop m xmit k buf len (slen + n) n (text_round xmit k (drop (nat slen) buf) n (slen + n \<ge> len) s)
      else (slen, s))"
  by (simp add: text_round_def Let_def case_prod_beta)

text \<open>The frames of a text, cut at \<open>n\<close> bytes.\<close>

function text_frames :: "(u32 \<Rightarrow> bool \<Rightarrow> bytes \<Rightarrow> bytes) \<Rightarrow> nat \<Rightarrow> u32 \<Rightarrow> bytes \<Rightarrow> bytes list" where
  "text_frames fr n q tx =
     (if tx = [] \<or> n = 0 then []
      else fr q (length tx \<le> n) (take n tx) # text_frames fr n (q + of_nat n) (drop n tx))"
  by auto
termination by (relation "measure (\<lambda>(fr, n, q, tx). length tx)") auto

declare text_frames.simps [simp del]

lemma tcp_text_loop_sends:
  fixes s :: "'a stack_state_scheme"
  assumes snd: "tcp_sender s k rt i" and n: "0 < n" "n < 65000" "int (40 + n) \<le> net_mtu (dev s (rt_dev rt))"
    and len: "len \<le> length buf" "a \<le> len" "len - a \<le> fuel" and seg: "seg = int n \<or> a = len"
  shows "\<exists>t. tcp_text_loop fuel (veth_xmit (\<lambda>f. int (length f))) k buf (int len) (int a) seg s = (int len, t) \<and>
    wire t = wire s @ map (Pair (rt_dev rt)) (text_frames (text_frame s k rt i) n (snd_nxt (tsk_at s k)) (drop a (take len buf))) \<and>
    fault t = fault s \<and> tcp_sender t k rt i \<and> sk_heap t = sk_heap s \<and>
    tsk_heap t = (tsk_heap s)(k := (tsk_at s k)\<lparr>snd_nxt := snd_nxt (tsk_at s k) + of_nat (len - a),
      snd_wnd := snd_wnd (tsk_at s k) - of_nat (len - a)\<rparr>)"
  using snd n(3) len seg
proof (induction fuel arbitrary: s a seg)
  case 0
  then show ?case by (simp add: text_frames.simps)
next
  case (Suc fuel)
  show ?case
  proof (cases "a < len")
    case False
    then show ?thesis using Suc.prems by (simp add: text_frames.simps)
  next
    case True
    define m where "m = min n (len - a)"
    have m: "0 < m" "m \<le> length (drop a buf)" "m < 65000" "int (40 + m) \<le> net_mtu (dev s (rt_dev rt))" "min seg (int len - int a) = int m"
      "a + m \<le> len"
      using True Suc.prems n by (auto simp: m_def)
    let ?x = "veth_xmit (\<lambda>f. int (length f))" and ?c = "tsk_at s k" and ?T = "drop a (take len buf)"
    let ?t = "text_round ?x k (drop a buf) (int m) (int a + int m \<ge> int len) s"
    note r = text_round_sends [OF Suc.prems(1) m(1-4), of "int a + int m \<ge> int len"]
    have loop: "tcp_text_loop (Suc fuel) ?x k buf (int len) (int a) seg s = tcp_text_loop fuel ?x k buf (int len) (int (a + m)) (int m) ?t"
      unfolding tcp_text_loop_round using True m(5) by (simp add: Let_def)
    have next_seg: "int m = int n \<or> a + m = len" using True by (auto simp: m_def)
    have fuel: "len - (a + m) \<le> fuel" using Suc.prems(5) m(1) by linarith
    have mtu: "int (40 + n) \<le> net_mtu (dev ?t (rt_dev rt))" using Suc.prems(2) r(5) by simp
    obtain t where t: "tcp_text_loop fuel ?x k buf (int len) (int (a + m)) (int m) ?t = (int len, t)"
      "wire t = wire ?t @ map (Pair (rt_dev rt)) (text_frames (text_frame s k rt i) n (snd_nxt (tsk_at ?t k)) (drop (a + m) (take len buf)))"
      "fault t = fault s" "tcp_sender t k rt i" "sk_heap t = sk_heap s"
      "tsk_heap t = (tsk_heap ?t)(k := (tsk_at ?t k)\<lparr>snd_nxt := snd_nxt (tsk_at ?t k) + of_nat (len - (a + m)),
        snd_wnd := snd_wnd (tsk_at ?t k) - of_nat (len - (a + m))\<rparr>)"
      using Suc.IH [OF r(3) mtu Suc.prems(3) m(6) fuel next_seg, unfolded r(2) r(4) r(6)] by blast
    have frames: "text_frames (text_frame s k rt i) n (snd_nxt ?c) ?T =
        text_frame s k rt i (snd_nxt ?c) (int a + int m \<ge> int len) (take m (drop a buf)) #
        text_frames (text_frame s k rt i) n (snd_nxt ?c + of_nat m) (drop (a + m) (take len buf))"
    proof -
      have "length ?T = len - a" using Suc.prems(3) by simp
      then have ne: "?T \<noteq> []" "(length ?T \<le> n) = (int a + int m \<ge> int len)" using True by (auto simp: m_def)
      have "take n ?T = take m (drop a buf)" by (simp add: m_def drop_take)
      moreover have "text_frames fr n (snd_nxt ?c + of_nat n) (drop n ?T) = text_frames fr n (snd_nxt ?c + of_nat m) (drop (a + m) (take len buf))" for fr
      proof (cases "m = n")
        case True
        then show ?thesis by (simp add: add.commute)
      next
        case False
        then have "len - a < n" "a + m = len" using True by (auto simp: m_def)
        then show ?thesis by (simp add: text_frames.simps)
      qed
      ultimately show ?thesis using ne n(1) by (subst text_frames.simps) simp
    qed
    have sum: "of_nat m + of_nat (len - (a + m)) = (of_nat (len - a) :: u32)" 
    proof -
      obtain r where "len = a + m + r" using m(6) le_Suc_ex by blast
      then show ?thesis by simp
    qed
    show ?thesis
      using t unfolding loop frames
      by (intro exI [of _ t]) (simp add: r add.assoc sum diff_diff_eq)
  qed
qed

lemma flag_bits:
  "bit (if p then 0x1850 else 0x1050 :: u16) 12 = True" "bit (if p then 0x1850 else 0x1050 :: u16) 11 = p"
  "bit (if p then 0x1850 else 0x1050 :: u16) 10 = False" "bit (if p then 0x1850 else 0x1050 :: u16) 9 = False"
  "bit (if p then 0x1850 else 0x1050 :: u16) 8 = False"
  by (cases p; simp)+

lemma text_frame_fields:
  fixes s :: "'a stack_state_scheme" and q :: u32 and psh :: bool and tx :: bytes and i :: nat and rt :: rtentry and k :: nat
  defines "f \<equiv> text_frame s k rt i q psh tx"
  shows "length f = 54 + length tx" "drop 54 f = tx" "ip_src f = sk_saddr (sk_at s k)" "ip_dst f = sk_daddr (sk_at s k)" "ip_pro f = IP_P_TCP"
    "tcp_src 34 f = sk_sport (sk_at s k)" "tcp_dst 34 f = sk_dport (sk_at s k)" "ntohl (tcp_seq 34 f) = q"
    "ntohl (tcp_ackn 34 f) = rcv_nxt (tsk_at s k)" "tcp_ack 34 f" "tcp_psh 34 f = psh" "\<not> tcp_syn 34 f" "\<not> tcp_rst 34 f" "\<not> tcp_fin 34 f"
proof -
  define d where "d = tcp_text_bytes (sk_sport (sk_at s k)) (sk_dport (sk_at s k)) (htonl q) (htonl (rcv_nxt (tsk_at s k)))
    (htons (ucast (rcv_wnd (tsk_at s k)))) psh tx"
  note d = tcp_text_bytes_fields [of "sk_sport (sk_at s k)" "sk_dport (sk_at s k)" "htonl q" "htonl (rcv_nxt (tsk_at s k))"
    "htons (ucast (rcv_wnd (tsk_at s k)))" psh tx, folded d_def]
  have l: "54 \<le> length d" by (simp only: d le_add1)
  have f: "f = tcp_wire_frame (net_hwaddr (dev s (rt_dev rt))) (ae_hwaddr (ae s i)) (sk_saddr (sk_at s k)) (sk_daddr (sk_at s k))
    (word_of_int (tcp_id s)) d" by (simp only: f_def text_frame_def d_def)
  note w = tcp_wire_frame_fields [OF l, of "net_hwaddr (dev s (rt_dev rt))" "ae_hwaddr (ae s i)" "sk_saddr (sk_at s k)" "sk_daddr (sk_at s k)"
    "word_of_int (tcp_id s)", folded f]
  show "length f = 54 + length tx" "drop 54 f = tx" "ip_src f = sk_saddr (sk_at s k)" "ip_dst f = sk_daddr (sk_at s k)" "ip_pro f = IP_P_TCP"
    "tcp_src 34 f = sk_sport (sk_at s k)" "tcp_dst 34 f = sk_dport (sk_at s k)" 
    by (simp_all only: w d)
  show "ntohl (tcp_seq 34 f) = q" "ntohl (tcp_ackn 34 f) = rcv_nxt (tsk_at s k)"
    by (simp_all only: w d htonl_htonl)
  have "tcp_flags 34 f = (if psh then 0x1850 else 0x1050)" by (simp only: w d)
  then show "tcp_ack 34 f" "tcp_psh 34 f = psh" "\<not> tcp_syn 34 f" "\<not> tcp_rst 34 f" "\<not> tcp_fin 34 f"
    by (simp_all only: flag_bits not_False_eq_True)
qed

abbreviation (input) frames_text :: "bytes list \<Rightarrow> bytes" where "frames_text fs \<equiv> concat (map (drop 54) fs)"

lemma text_frames_correct:
  fixes s :: "'a stack_state_scheme" and i :: nat and rt :: rtentry and k :: nat and n :: nat
  assumes "0 < n"
  defines "fs q tx \<equiv> text_frames (text_frame s k rt i) n q tx"
  shows "frames_text (fs q tx) = tx" "j < length (fs q tx) \<Longrightarrow> (\<exists>psh t. fs q tx ! j = text_frame s k rt i (q + of_nat (length (frames_text (take j (fs q tx))))) psh t \<and>
      0 < length t \<and> length t \<le> n \<and> psh = (Suc j = length (fs q tx)))"
proof -
  have "frames_text (fs q tx) = tx \<and> (\<forall>j < length (fs q tx). (\<exists>psh t. fs q tx ! j = text_frame s k rt i (q + of_nat (length (frames_text (take j (fs q tx))))) psh t \<and>
      0 < length t \<and> length t \<le> n \<and> psh = (Suc j = length (fs q tx))))"
    unfolding fs_def using assms(1)
  proof (induction "text_frame s k rt i" n q tx rule: text_frames.induct)
    case (1 n q tx)
    show ?case
    proof (cases "tx = []")
      case True
      then show ?thesis by (simp add: text_frames.simps)
    next
      case False
      let ?fr = "text_frame s k rt i"
      let ?rest = "text_frames ?fr n (q + of_nat n) (drop n tx)"
      have eq: "text_frames ?fr n q tx = ?fr q (length tx \<le> n) (take n tx) # ?rest"
        using False 1(2) by (subst text_frames.simps) simp
      have rest: "frames_text ?rest = drop n tx" "\<And>j. j < length ?rest \<Longrightarrow> (\<exists>psh t. ?rest ! j = ?fr (q + of_nat n + of_nat (length (frames_text (take j ?rest)))) psh t \<and>
          0 < length t \<and> length t \<le> n \<and> psh = (Suc j = length ?rest))"
        using 1(1) False 1(2) by auto
      have last: "(length tx \<le> n) = (?rest = [])"
        using 1(2) by (subst text_frames.simps) auto
      have "frames_text (text_frames ?fr n q tx) = tx" unfolding eq using rest(1) by (simp add: text_frame_fields)
      moreover have "\<exists>psh t. text_frames ?fr n q tx ! j = ?fr (q + of_nat (length (frames_text (take j (text_frames ?fr n q tx))))) psh t \<and>
          0 < length t \<and> length t \<le> n \<and> psh = (Suc j = length (text_frames ?fr n q tx))" if "j < length (text_frames ?fr n q tx)" for j
      proof (cases j)
        case 0
        then show ?thesis unfolding eq using False 1(2) last by (intro exI [of _ "length tx \<le> n"] exI [of _ "take n tx"]) auto
      next
        case (Suc j')
        then have j': "j' < length ?rest" using that eq by simp
        then have "length tx > n" using last by auto
        then have "length (drop 54 (?fr q (length tx \<le> n) (take n tx))) = n" by (simp add: text_frame_fields)
        then show ?thesis using rest(2) [OF j'] unfolding eq Suc by (simp add: add.assoc del: length_drop)
      qed
      ultimately show ?thesis by blast
    qed
  qed
  then show "frames_text (fs q tx) = tx" "j < length (fs q tx) \<Longrightarrow> (\<exists>psh t. fs q tx ! j = text_frame s k rt i (q + of_nat (length (frames_text (take j (fs q tx))))) psh t \<and>
      0 < length t \<and> length t \<le> n \<and> psh = (Suc j = length (fs q tx)))" by blast+
qed

section \<open>The send call\<close>


text \<open>A connection from 10.0.0.9 to 10.0.0.1 with a window of 2000 bytes sends 3000 bytes.\<close>

definition text_sender :: stack_state where
  "text_sender = stack_on (sample_router [[]])
     (\<lambda>_. zero_sock\<lparr>sk_ops := Tcp_Ops, sk_protocol := 6, sk_dst := Some sample_route,
        sk_addr := \<lparr>src_addr = 0x0900000a, dst_addr = 0x0100000a, src_port = 0x3930, dst_port = 0x0700\<rparr>\<rparr>)
     (\<lambda>_. []) (\<lambda>_. zero_tcp\<lparr>t_state := TCP_ESTABLISHED, snd_nxt := 5, snd_wnd := 2000\<rparr>)"

lemma text_sender_ready:
  "tcp_sender text_sender 2 sample_route 0" "net_mtu (dev text_sender (rt_dev sample_route)) = 1500" "snd_wnd (tsk_at text_sender 2) = 2000"
  "wire text_sender = []" "fault text_sender = None"
proof -
  note r = sample_router_ok [of "[[]]", simplified]
  have "hop_addr sample_route 0x0100000a = 0x0100000a" by (simp add: hop_addr_def sample_route_def)
  moreover have "hop_known sample_route 0x0100000a 0 text_sender"
    using r(5) hop_known_cong [of text_sender "sample_router [[]]"] by (simp add: text_sender_def hop_known_def arp_lookup_def)
  ultimately show "tcp_sender text_sender 2 sample_route 0" by (simp add: tcp_sender_def) (simp add: text_sender_def r)
  show "net_mtu (dev text_sender (rt_dev sample_route)) = 1500" "snd_wnd (tsk_at text_sender 2) = 2000" "wire text_sender = []"
    "fault text_sender = None"
    by (simp_all add: text_sender_def r) (simp_all add: sample_route_def r)
qed


end
