(* ===== verification/Tcp_Timer.thy ===== *)
theory Tcp_Timer
  imports Tcp_Frame
begin

text \<open>
  What the timer of \<^verbatim>\<open>src/tcp/tcp_timer.c\<close> does to the connections in TIME-WAIT: the effect of one tick on the list of
  the waiting control blocks, and which of them it ever closes. The definitions are in the theory of the state machine.
\<close>

text \<open>What the expiry of one control block leaves of the others and of the list.\<close>

lemma timewait_unhash [simp]:
  "timewait (tcp_unhash k s) = timewait s" "sk_next (tcp_unhash k s) = sk_next s"
  "tw_next (tsk_at (tcp_unhash k s) j) = tw_next (tsk_at s j)" "tw_timeout (tsk_at (tcp_unhash k s) j) = tw_timeout (tsk_at s j)"
  by (simp_all add: tcp_unhash_def)

lemma timewait_unbhash [simp]:
  "timewait (tcp_unbhash k s) = timewait s" "sk_next (tcp_unbhash k s) = sk_next s"
  "tw_next (tsk_at (tcp_unbhash k s) j) = tw_next (tsk_at s j)" "tw_timeout (tsk_at (tcp_unbhash k s) j) = tw_timeout (tsk_at s j)"
  by (simp_all add: tcp_unbhash_def tcp_unset_sport_def Let_def split: option.split)

lemma tcp_expire_frame [simp]:
  "timewait (tcp_expire k s) = timewait s" "sk_next (tcp_expire k s) = sk_next s"
  "tw_next (tsk_at (tcp_expire k s) j) = tw_next (tsk_at s j)" "tw_timeout (tsk_at (tcp_expire k s) j) = tw_timeout (tsk_at s j)"
  "t_state (tsk_at (tcp_expire k s) j) = (if j = k then TCP_CLOSED else t_state (tsk_at s j))"
  by (simp_all add: tcp_expire_def tcp_set_state_def table_state Let_def)

lemma set_timewait_frame:
  "timewait (tcp_set_timewait_timer k s) = Some k" "sk_next (tcp_set_timewait_timer k s) = sk_next s"
  "tw_next (tsk_at (tcp_set_timewait_timer k s) j) = (if j = k then timewait s else tw_next (tsk_at s j))"
  "tw_timeout (tsk_at (tcp_set_timewait_timer k s) j) = (if j = k then TCP_TIMEWAIT_TIMEOUT else tw_timeout (tsk_at s j))"
  "t_state (tsk_at (tcp_set_timewait_timer k s) j) = (if j = k then TCP_TIME_WAIT else t_state (tsk_at s j))"
  by (simp_all add: tcp_set_timewait_timer_def tcp_set_state_def get_tcp_sock_def Let_def)

lemma timewait_tick_two:
  assumes w: "timewait s = Some b" "tw_next (tsk_at s b) = Some a" "tw_next (tsk_at s a) = None" and ne: "a \<noteq> b"
    and to: "tw_timeout (tsk_at s a) = 2000000" "tw_timeout (tsk_at s b) = 2000000" and n: "2 \<le> sk_next s"
  shows "timewait (tcp_timewait_timer 1000000 s) = Some b" "tw_next (tsk_at (tcp_timewait_timer 1000000 s) b) = None"
    "tw_timeout (tsk_at (tcp_timewait_timer 1000000 s) b) = 1000000" "sk_next (tcp_timewait_timer 1000000 s) = sk_next s"
    "t_state (tsk_at (tcp_timewait_timer 1000000 s) j) = t_state (tsk_at s j)"
proof -
  obtain m where m: "sk_next s = Suc (Suc m)" using n by (metis add_2_eq_Suc le_Suc_ex)
  show "timewait (tcp_timewait_timer 1000000 s) = Some b" "tw_next (tsk_at (tcp_timewait_timer 1000000 s) b) = None"
    "tw_timeout (tsk_at (tcp_timewait_timer 1000000 s) b) = 1000000" "sk_next (tcp_timewait_timer 1000000 s) = sk_next s"
    "t_state (tsk_at (tcp_timewait_timer 1000000 s) j) = t_state (tsk_at s j)"
    using w ne to m by (simp_all add: tcp_timewait_timer_def Let_def)
qed

lemma timewait_tick_last:
  assumes "timewait s = Some b" "tw_next (tsk_at s b) = None" "tw_timeout (tsk_at s b) \<le> 1000000" "0 < sk_next s"
  shows "timewait (tcp_timewait_timer 1000000 s) = None"
    "t_state (tsk_at (tcp_timewait_timer 1000000 s) j) = (if j = b then TCP_CLOSED else t_state (tsk_at s j))"
  using assms by (cases "sk_next s"; simp add: tcp_timewait_timer_def tw_link_def Let_def)+

lemma timewait_tick_idle: "timewait s = None \<Longrightarrow> (tcp_timewait_timer 1000000 ^^ n) s = s"
  by (induction n) (simp_all add: tcp_timewait_timer_def)



end
