(* ===== verification/Ping.thy ===== *)
theory Ping
  imports Socket_Api Delivery Lib "HOL-Library.Signed_Division"
begin

text \<open>
  The two ping programs: \<^verbatim>\<open>src/app/ping.c\<close> on a raw socket and the older \<^verbatim>\<open>src/shell/ping_command.c\<close> on the IP layer, with the part of
  \<^verbatim>\<open>getopt\<close> they use. The lemmas follow an echo request from the program to the wire and through the input of the pinged host to the
  reply that the program accepts, and count the requests of \<^verbatim>\<open>ping -c\<close>.
\<close>

section \<open>getopt\<close>

text \<open>
  The GNU function as the programs call it (\<^verbatim>\<open>optind = 0\<close>, \<^verbatim>\<open>opterr = 0\<close>): the options a call sequence returns, each with its
  argument, and the operands that are left behind \<^verbatim>\<open>optind\<close>. Options may follow operands, several may share one
  word, an argument is the rest of the word or the next word, and an unknown option or a missing argument gives a question
  mark.
\<close>

fun takes_arg :: "string \<Rightarrow> char \<Rightarrow> bool" where
  "takes_arg (x # y # os) c = (if x = c then y = CHR 0x3A else takes_arg (y # os) c)"
| "takes_arg os c = False"

definition known_opt :: "string \<Rightarrow> char \<Rightarrow> bool" where
  "known_opt os c \<longleftrightarrow> c \<noteq> CHR 0x3A \<and> c \<in> set os"

fun getopt_word :: "string \<Rightarrow> string \<Rightarrow> string list \<Rightarrow> (char \<times> string) list \<times> string list" where
  "getopt_word os [] as = ([], as)"
| "getopt_word os (c # cs) as =
     (if \<not> known_opt os c then let (es, as) = getopt_word os cs as in ((CHR ''?'', []) # es, as)
      else if \<not> takes_arg os c then let (es, as) = getopt_word os cs as in ((c, []) # es, as)
      else if cs \<noteq> [] then ([(c, cs)], as)
      else case as of [] \<Rightarrow> ([(CHR ''?'', [])], []) | a # as \<Rightarrow> ([(c, a)], as))"

lemma getopt_word_shrinks: "length (snd (getopt_word os cs as)) \<le> length as"
  by (induction os cs as rule: getopt_word.induct) (auto split: prod.splits list.splits)

function getopt_all :: "string \<Rightarrow> string list \<Rightarrow> (char \<times> string) list \<times> string list" where
  "getopt_all os [] = ([], [])"
| "getopt_all os (a # as) =
     (if a = ''--'' then ([], as)
      else if length a > 1 \<and> hd a = CHR ''-''
      then let r = getopt_word os (tl a) as; q = getopt_all os (snd r) in (fst r @ fst q, snd q)
      else let q = getopt_all os as in (fst q, a # snd q))"
  by pat_completeness auto

termination
  by (relation "measure (\<lambda>(os, as). length as)") (auto simp: less_Suc_eq_le getopt_word_shrinks)

section \<open>ping.c\<close>

text \<open>The static variables of the program, and whether an alarm is set.\<close>

record ping_vars =
  pg_id :: u16
  pg_seq :: u16
  pg_size :: int
  pg_count :: int
  pg_recv :: int
  pg_psend :: int
  pg_precv :: int
  pg_finite :: bool
  pg_ttl :: int
  pg_ipaddr :: u32
  pg_sock :: "nat option"
  pg_skaddr :: sock_addr
  pg_buf :: "bytes option"
  pg_alarm :: bool

abbreviation (input) zero_addr :: sock_addr where
  "zero_addr \<equiv> \<lparr>src_addr = 0, dst_addr = 0, src_port = 0, dst_port = 0\<rparr>"

definition ping_init_options :: "ping_vars \<Rightarrow> ping_vars" where
  "ping_init_options v =
     v\<lparr>pg_buf := None, pg_sock := None, pg_size := 56, pg_finite := False, pg_recv := 0, pg_count := 0, pg_ttl := 64, pg_ipaddr := 0,
       pg_seq := 0, pg_psend := 0, pg_precv := 0, pg_skaddr := zero_addr, pg_id := pg_id v + 1\<rparr>"

text \<open>The flag is false where an option makes the function return.\<close>

fun ping_options :: "(char \<times> string) list \<Rightarrow> ping_vars \<Rightarrow> bool \<times> ping_vars" where
  "ping_options [] v = (True, v)"
| "ping_options ((c, optarg) # es) v =
     (if c = CHR ''s'' then ping_options es (v\<lparr>pg_size := sint (atoi optarg)\<rparr>)
      else if c = CHR ''c'' then
        ping_options es (v\<lparr>pg_count := sint (atoi optarg), pg_recv := sint (atoi optarg), pg_finite := True\<rparr>)
      else if c = CHR ''t'' then ping_options es (v\<lparr>pg_ttl := sint (atoi optarg)\<rparr>)
      else (False, v))"

definition ping_parse_args :: "string list \<Rightarrow> ping_vars \<Rightarrow> int \<times> ping_vars" where
  "ping_parse_args argv v =
     (if length argv < 2 then (- 1, v)
      else
        let (es, operands) = getopt_all ''s:t:c:?h'' (tl argv);
            (ok, v) = ping_options es v
        in if \<not> ok then (- 1, v)
           else if pg_size v < 0 \<or> pg_size v > 65507 then (- 2, v)
           else if pg_ttl v < 0 \<or> pg_ttl v > 255 then (- 2, v)
           else
             case operands of
               [a] \<Rightarrow> (case str2ip a of None \<Rightarrow> (- 2, v) | Some ip \<Rightarrow> (0, v\<lparr>pg_ipaddr := ip\<rparr>))
             | _ \<Rightarrow> (- 1, v))"

definition ping_close_socket ::
  "'a stack_state_scheme xmit_fun \<Rightarrow> ping_vars \<Rightarrow> 'a stack_state_scheme \<Rightarrow> ping_vars \<times> 'a stack_state_scheme" where
  "ping_close_socket xmit v s =
     (case pg_sock v of None \<Rightarrow> (v, s) | Some so \<Rightarrow> (v\<lparr>pg_sock := None\<rparr>, socket_close xmit (Some so) s))"

text \<open>The echo request in the buffer; \<^verbatim>\<open>icmp_chksum\<close> is applied while the field is zero.\<close>

definition ping_echo :: "u16 \<Rightarrow> u16 \<Rightarrow> int \<Rightarrow> bytes \<Rightarrow> bytes" where
  "ping_echo ident sq sz buf =
     (let b = memcpy buf ICMP_HRD_SZ (replicate (nat sz) 0x78) (nat sz);
          b = wr8 0 ICMP_T_ECHOREQ b;
          b = wr8 1 0 b;
          b = wr16 4 (htons ident) b;
          b = wr16 6 (htons sq) b;
          b = wr16 2 0 b
      in wr16 2 (icmp_chksum b (int ICMP_HRD_SZ + sz)) b)"

text \<open>\<open>mem\<close> is what the block that \<^verbatim>\<open>xmalloc\<close> returns holds.\<close>

definition ping_send_packet ::
  "bytes \<Rightarrow> sock_addr \<Rightarrow> 'a stack_state_scheme xmit_fun \<Rightarrow> ping_vars \<Rightarrow> 'a stack_state_scheme \<Rightarrow> ping_vars \<times> 'a stack_state_scheme" where
  "ping_send_packet mem junk xmit v s =
     (let b = ping_echo (pg_id v) (pg_seq v) (pg_size v) (case pg_buf v of None \<Rightarrow> mem | Some b \<Rightarrow> b);
          v = v\<lparr>pg_buf := Some b, pg_seq := pg_seq v + 1\<rparr>;
          (_, s) = socket_send junk xmit (pg_sock v) (Some b) (int ICMP_HRD_SZ + pg_size v) (Some (pg_skaddr v)) s
      in (v\<lparr>pg_psend := pg_psend v + 1\<rparr>, s))"

definition ping_sigalrm ::
  "bytes \<Rightarrow> sock_addr \<Rightarrow> 'a stack_state_scheme xmit_fun \<Rightarrow> ping_vars \<Rightarrow> 'a stack_state_scheme \<Rightarrow> ping_vars \<times> 'a stack_state_scheme" where
  "ping_sigalrm mem junk xmit v s =
     (let v = v\<lparr>pg_alarm := False\<rparr>;
          (v, s) = ping_send_packet mem junk xmit v s
      in if \<not> pg_finite v then (v\<lparr>pg_alarm := True\<rparr>, s)
         else
           let v = v\<lparr>pg_count := pg_count v - 1\<rparr>
           in if pg_count v > 0 then (v\<lparr>pg_alarm := True\<rparr>, s)
              else if pg_count v = 0 then (v\<lparr>pg_alarm := True, pg_count := pg_count v - 1\<rparr>, s)
              else ping_close_socket xmit v s)"

definition ping_sigint ::
  "'a stack_state_scheme xmit_fun \<Rightarrow> ping_vars \<Rightarrow> 'a stack_state_scheme \<Rightarrow> ping_vars \<times> 'a stack_state_scheme" where
  "ping_sigint xmit v s = ping_close_socket xmit (v\<lparr>pg_alarm := False\<rparr>) s"

text \<open>
  The receiving loop. \<open>env\<close> is what the other threads do while \<^verbatim>\<open>_recv\<close> waits, \<open>sig\<close> what the signal handlers did to the
  variables and the stack since the last round; the value None is a loop that does not end.
\<close>

definition ping_reply :: "ping_vars \<Rightarrow> bytes \<Rightarrow> bool" where
  "ping_reply v d \<longleftrightarrow>
     ip_pro d = IP_P_ICMP \<and> ntohs (rd16 d (ipdata d + 4)) = pg_id v \<and> icmp_type (ipdata d) d = ICMP_T_ECHORLY"

partial_function (option) ping_recv_packet ::
  "('a stack_state_scheme \<Rightarrow> bool \<times> 'a stack_state_scheme) \<Rightarrow>
   (ping_vars \<times> 'a stack_state_scheme \<Rightarrow> ping_vars \<times> 'a stack_state_scheme) \<Rightarrow> 'a stack_state_scheme xmit_fun \<Rightarrow>
   ping_vars \<Rightarrow> 'a stack_state_scheme \<Rightarrow> (ping_vars \<times> 'a stack_state_scheme) option" where
  "ping_recv_packet env sig xmit v0 s0 =
     (let (v, s) = sig (v0, s0)
      in if pg_finite v \<and> \<not> pg_recv v > 0 then Some (v, s)
         else
           case socket_recv env xmit (pg_sock v) s of
             None \<Rightarrow> None
           | Some (None, s) \<Rightarrow> Some (v, s)
           | Some (Some p, s) \<Rightarrow>
               let v = (if ping_reply v (data_of s p) then v\<lparr>pg_recv := pg_recv v - 1, pg_precv := pg_precv v + 1\<rparr> else v)
               in ping_recv_packet env sig xmit v (free_pkb p s))"

text \<open>The loss that \<^verbatim>\<open>ping_stat\<close> prints; a division by zero ends the process.\<close>

definition ping_stat :: "ping_vars \<Rightarrow> int option" where
  "ping_stat v = (if pg_psend v = 0 then None else Some ((pg_psend v - pg_precv v) * 100 sdiv pg_psend v))"

datatype ping_result = Ping_Usage | Ping_Refused | Ping_Done "int option"

definition ping ::
  "('a stack_state_scheme \<Rightarrow> bool \<times> 'a stack_state_scheme) \<Rightarrow>
   (ping_vars \<times> 'a stack_state_scheme \<Rightarrow> ping_vars \<times> 'a stack_state_scheme) \<Rightarrow> bytes \<Rightarrow> sock_addr \<Rightarrow>
   'a stack_state_scheme xmit_fun \<Rightarrow> string list \<Rightarrow> ping_vars \<Rightarrow> 'a stack_state_scheme \<Rightarrow>
   (ping_result \<times> ping_vars \<times> 'a stack_state_scheme) option" where
  "ping env sig mem junk xmit argv v s =
     (let (err, v) = ping_parse_args argv (ping_init_options v)
      in if err < 0 then Some (if err = - 1 then Ping_Usage else Ping_Refused, v, s)
         else
           let v = v\<lparr>pg_skaddr := (pg_skaddr v)\<lparr>dst_addr := pg_ipaddr v\<rparr>\<rparr>;
               (so, s) = socket_open xmit AF_INET SOCK_RAW (uint IP_P_ICMP) s;
               (v, s) = ping_sigalrm mem junk xmit (v\<lparr>pg_sock := so\<rparr>) s
           in case ping_recv_packet env sig xmit v s of
                None \<Rightarrow> None
              | Some (v, s) \<Rightarrow>
                  let (v, s) = ping_close_socket xmit (v\<lparr>pg_alarm := False\<rparr>) s
                  in Some (Ping_Done (ping_stat v), v\<lparr>pg_buf := None\<rparr>, s))"

subsection \<open>The echo requests\<close>

lemma ping_parse_bounds:
  assumes "ping_parse_args argv v = (0, w)"
  shows "0 \<le> pg_size w" and "pg_size w \<le> 65507" and "0 \<le> pg_ttl w" and "pg_ttl w \<le> 255"
  using assms by (auto simp: ping_parse_args_def split: if_splits prod.splits list.splits option.splits)

lemma ping_echo_fields:
  assumes "length buf = 8 + nat sz" and "0 \<le> sz" and "sz \<le> 65507"
    and b_def: "b = ping_echo ident sq sz buf"
  shows "icmp_type 0 b = ICMP_T_ECHOREQ" and "icmp_code 0 b = 0" and "rd16 b 4 = htons ident" and "rd16 b 6 = htons sq"
    and "drop 8 b = replicate (nat sz) 0x78" and "length b = 8 + nat sz" and "icmp_chksum b (8 + sz) = 0"
proof -
  define c where "c = wr16 2 0 (wr16 6 (htons sq) (wr16 4 (htons ident) (wr8 1 0 (wr8 0 8 (take 8 buf @ replicate (nat sz) 0x78)))))"
  have b: "b = wr16 2 (icmp_chksum c (8 + sz)) c"
    using assms(1) by (simp add: b_def ping_echo_def c_def memcpy_eq Let_def)
  have l: "length c = 8 + nat sz" using assms(1) by (simp add: c_def)
  show "icmp_type 0 b = ICMP_T_ECHOREQ" "icmp_code 0 b = 0" "rd16 b 4 = htons ident" "rd16 b 6 = htons sq" "length b = 8 + nat sz"
    using assms(1) by (simp_all add: b c_def rd8_wr16 rd8_wr8)
  show "drop 8 b = replicate (nat sz) 0x78"
    using assms(1) by (simp add: b c_def wr16_skip wr8_skip)
  have "nsum c (8 + nat sz) \<le> 32768 * (8 + nat sz) + 65535" by (rule nsum_bound)
  then have "unat (0 :: u32) + nsum c (8 + nat sz) + 65535 < 4294967296" using assms(3) by simp
  moreover have "rd16 c 2 = 0" using assms(1) by (simp add: c_def rd16_wr16_same)
  ultimately have "checksum (wr16 2 (checksum c (int (8 + nat sz)) 0) c) (int (8 + nat sz)) 0 = 0"
    using l by (intro checksum_field_verifies(1)) auto
  then show "icmp_chksum b (8 + sz) = 0" using assms(2) by (simp add: b icmp_chksum_def)
qed

section \<open>A raw packet on the wire\<close>

definition raw_packet :: "u8 \<Rightarrow> u16 \<Rightarrow> u32 \<Rightarrow> u32 \<Rightarrow> bytes \<Rightarrow> bytes" where
  "raw_packet pro ident src dst buf =
     set_ip_dst dst (set_ip_src src (set_ip_pro pro (set_ip_ttl RAW_DEFAULT_TTL (set_ip_fragoff 0 (set_ip_id (htons ident)
       (set_ip_len (htons (of_nat (IP_HRD_SZ + length buf))) (set_ip_tos 0 (set_ip_ver 4 (set_ip_hlen 5
         (replicate (ETH_HRD_SZ + IP_HRD_SZ) 0 @ buf))))))))))"

lemma raw_packet_fields:
  defines "P \<equiv> raw_packet"
  shows "ip_dst (P pro ident src dst buf) = dst" "ip_len (P pro ident src dst buf) = htons (of_nat (20 + length buf))"
    "iphlen (P pro ident src dst buf) = 20" "ip_pro (P pro ident src dst buf) = pro" "ip_fragoff (P pro ident src dst buf) = 0"
    "ip_ver (P pro ident src dst buf) = 4" "length (P pro ident src dst buf) = 34 + length buf"
    "drop 34 (P pro ident src dst buf) = buf"
proof -
  let ?z = "replicate 34 0 @ buf :: bytes"
  have h: "set_ip_ver 4 (set_ip_hlen 5 ?z) = wr8 14 0x45 ?z"
    by (simp add: set_ip_ver_def set_ip_hlen_def rd8_wr8) (simp add: rd8_def nth_append wr8_def)
  have v: "ip_verhlen (P pro ident src dst buf) = 0x45"
    by (simp add: P_def raw_packet_def h rd8_wr8 rd8_wr16)
  show "iphlen (P pro ident src dst buf) = 20" "ip_ver (P pro ident src dst buf) = 4"
    by (simp_all add: iphlen_def ip_hlen_def ip_ver_def v)
  show "ip_dst (P pro ident src dst buf) = dst" "ip_len (P pro ident src dst buf) = htons (of_nat (20 + length buf))"
    "ip_pro (P pro ident src dst buf) = pro" "ip_fragoff (P pro ident src dst buf) = 0"
    "length (P pro ident src dst buf) = 34 + length buf"  "drop 34 (P pro ident src dst buf) = buf"
    by (simp_all add: P_def raw_packet_def h rd8_wr8 rd8_wr16 wr8_skip wr16_skip wr32_skip)
qed

definition raw_frame :: "'a raw_state_scheme \<Rightarrow> nat \<Rightarrow> rtentry \<Rightarrow> nat \<Rightarrow> u32 \<Rightarrow> bytes \<Rightarrow> bytes" where
  "raw_frame s k rt i dst buf =
     (let n = rt_dev rt
      in eth_frame (net_hwaddr (dev s n)) (ae_hwaddr (ae s i))
           (ready_packet (net_ipaddr (dev s n)) (raw_packet (sk_protocol (sk_at s k)) (raw_id s) (sk_saddr (sk_at s k)) dst buf)))"

lemma raw_frame_fields:
  fixes s :: "'a raw_state_scheme"
  assumes "length buf \<le> 65515" "length (ae_hwaddr (ae s i)) = 6"
    and f_def: "f = raw_frame s k rt i dst buf"
  shows "length f = 34 + length buf" "drop 34 f = buf" "ip_src f = net_ipaddr (dev s (rt_dev rt))" "ip_dst f = dst"
    "ip_pro f = sk_protocol (sk_at s k)" "ip_fragoff f = 0" "ntohs (ip_len f) = of_nat (20 + length buf)" "iphlen f = 20"
    "eth_dst f = ae_hwaddr (ae s i)" "ntohs (eth_pro f) = ETH_P_IP" "ip_wellformed f (length f)"
proof -
  let ?n = "rt_dev rt" and ?P = "raw_packet (sk_protocol (sk_at s k)) (raw_id s) (sk_saddr (sk_at s k)) dst buf"
  note P = raw_packet_fields [of "sk_protocol (sk_at s k)" "raw_id s" "sk_saddr (sk_at s k)" dst buf]
  define e where "e = ready_packet (net_ipaddr (dev s ?n)) ?P"
  have l: "34 \<le> length ?P" "20 \<le> iphlen ?P" by (simp_all add: P)
  note e = ready_packet_fields [OF l, of "net_ipaddr (dev s ?n)", folded e_def]
  have f: "f = eth_frame (net_hwaddr (dev s ?n)) (ae_hwaddr (ae s i)) e"
    by (simp add: f_def raw_frame_def Let_def e_def)
  have body: "drop 14 f = drop 14 e" "length f = length e" using eth_frame_body by (simp_all add: f)
  note v = ip_views_cong [OF body(1)]
  have un: "unat (of_nat (20 + length buf) :: u16) = 20 + length buf"
    using assms(1) by (simp add: unat_of_nat del: of_nat_add)
  show len: "length f = 34 + length buf" using body(2) e(9) P(7) by simp
  show "drop 34 f = buf" using arg_cong [OF body(1), of "drop 20"] e(10) P(8) by simp
  show ip: "ip_src f = net_ipaddr (dev s ?n)" "ip_dst f = dst" "ip_pro f = sk_protocol (sk_at s k)" "ip_fragoff f = 0"
    "ntohs (ip_len f) = of_nat (20 + length buf)" "iphlen f = 20"
    by (simp_all add: v e P)
  show "eth_dst f = ae_hwaddr (ae s i)" unfolding f using assms(2) e(9) P(7) by (intro eth_dst_frame) simp_all
  show "ntohs (eth_pro f) = ETH_P_IP"
    using e(9) P(7) by (simp add: f eth_frame_def rd16_def rd8_eth_frame rd8_wr16 rd8_hwacpy)
  have "ip_ver e = ip_ver ?P" by (simp add: e_def ready_packet_def ip_set_checksum_eq ip_ver_def rd8_wr16)
  then have ver: "ip_ver f = 4" by (simp add: ip_ver_def v) (simp add: P flip: ip_ver_def)
  show "ip_wellformed f (length f)"
    using e(11) by (simp add: ip_wellformed_def len ver ip un body(1) P del: of_nat_add)
qed

lemma raw_send_wire:
  fixes s :: "'a raw_state_scheme"
  assumes buf: "length buf \<le> 65515" "int (20 + length buf) \<le> net_mtu (dev s (rt_dev rt))"
    and rt: "rt_lookup (dst_addr a) s = Some rt" "hop_known rt (hop_addr rt (dst_addr a)) i s"
    and pool: "pkb_inv s" "pool_room s"
  shows "let t = snd (raw_send_buf (veth_xmit (\<lambda>f. int (length f))) k buf (int (length buf)) (Some a) s) in
    wire t = wire s @ [(rt_dev rt, raw_frame s k rt i (dst_addr a) buf)] \<and> fault t = fault s \<and> pkb_inv t \<and> so_heap t = so_heap s"
proof -
  let ?x = "veth_xmit (\<lambda>f. int (length f))" and ?n = "length buf" and ?p = "pk_next s" and ?m = "rt_dev rt"
  let ?P = "raw_packet (sk_protocol (sk_at s k)) (raw_id s) (sk_saddr (sk_at s k)) (dst_addr a) buf"
  note P = raw_packet_fields [of "sk_protocol (sk_at s k)" "raw_id s" "sk_saddr (sk_at s k)" "dst_addr a" buf]
  define A where "A = snd (alloc_pkb (34 + int ?n) s)"
  have al: "alloc_pkb (34 + int ?n) s = (?p, A)" unfolding A_def by (metis alloc_simps(1) prod.collapse)
  have rawid: "raw_id A = raw_id s"
    unfolding A_def by (simp add: alloc_pkb_def new_pkb_def pkb_safe_def set_fault_def split: option.split)
  have rawid: "raw_id (upd_pkb q h A) = raw_id s" for q h using rawid by (simp add: upd_pkb_def)
  have A: "pkb_inv A" "fault A = fault s" "wire A = wire s" "rt_head A = rt_head s" "arp_cache A = arp_cache s"
    "dev A j = dev s j" "pk_live (pkb A ?p)" "pk_len (pkb A ?p) = int (34 + ?n)" "sk_heap A = sk_heap s" "so_heap A = so_heap s"
    "data_of A ?p = replicate (34 + ?n) 0" "pk_rtdst (pkb A ?p) = None" for j
    using pool by (simp_all add: A_def alloc_pkb_inv alloc_fault) (simp_all add: alloc_pkb_def nat_add_distrib)
  have z: "memcpy (replicate (34 + ?n) 0) 34 buf ?n = replicate 34 0 @ buf" by (simp add: memcpy_eq)
  define u where "u = upd_data ?p (\<lambda>_. ?P) A"
  have "raw_init_pkb k ?p (Some a) (upd_data ?p (\<lambda>d. memcpy d 34 buf ?n) A) = u"
    unfolding raw_init_pkb_def option.case u_def
    by (simp add: comp_def, rule upd_pkb_cong)
      (cases "pkb A ?p", use A(8,9,11) in \<open>simp add: z rawid raw_packet_def Let_def\<close>)
  then have send: "snd (raw_send_buf ?x k buf (int ?n) (Some a) s) = ip_send_out ?x ?p u"
    using buf(1) by (simp add: raw_send_buf_def al raw_send_pkb_def Let_def)
  have un: "unat (of_nat (20 + ?n) :: u16) = 20 + ?n" using buf(1) by (simp add: unat_of_nat del: of_nat_add)
  have u: "pk_live (pkb u ?p)" "pk_rtdst (pkb u ?p) = None" "data_of u ?p = ?P" "pk_len (pkb u ?p) = int (length ?P)"
    "rt_lookup (ip_dst ?P) u = Some rt" "hop_known rt (next_hop rt ?P) i u" "34 \<le> length ?P"
    "int (unat (ntohs (ip_len ?P))) \<le> net_mtu (dev u ?m)" "pkb_inv u"
    using A rt buf(2) hop_known_cong [of u s]
    by (simp_all add: u_def pkb_inv_upd P next_hop_addr un rt_lookup_def del: of_nat_unat of_nat_add)
  note w = vip.send_out_wire [OF u, unfolded Let_def]
  have "so_heap (ip_send_out ?x ?p u) = so_heap s"
    using w A(10) sk_more_fields(6) [of u "ip_send_out ?x ?p u"] by (simp add: same_net_def u_def)
  then show ?thesis unfolding send Let_def using w by (simp add: u_def A raw_frame_def Let_def)
qed

text \<open>The same through \<^verbatim>\<open>_send\<close>: the socket is only referenced for the time of the call.\<close>

lemma socket_send_raw:
  fixes s :: "'a stack_state_scheme"
  assumes so: "so_ops (so_at s so)" "so_sk (so_at s so) = Some k" "so_live (so_at s so)" "0 < so_refcnt (so_at s so)"
      "sk_ops (sk_at s k) = Raw_Ops"
    and buf: "0 < length buf" "length buf \<le> 65515" "int (20 + length buf) \<le> net_mtu (dev s (rt_dev rt))"
    and rt: "rt_lookup (dst_addr a) s = Some rt" "hop_known rt (hop_addr rt (dst_addr a)) i s"
    and pool: "pkb_inv s" "pool_room s"
  shows "let t = snd (socket_send junk (veth_xmit (\<lambda>f. int (length f))) (Some so) (Some buf) (int (length buf)) (Some a) s) in
    wire t = wire s @ [(rt_dev rt, raw_frame s k rt i (dst_addr a) buf)] \<and> fault t = fault s \<and> pkb_inv t"
proof -
  let ?x = "veth_xmit (\<lambda>f. int (length f))"
  define g where "g = get_socket so s"
  define u where "u = snd (raw_send_buf ?x k buf (int (length buf)) (Some a) g)"
  have g: "dev g n = dev s n" "rt_head g = rt_head s" "arp_cache g = arp_cache s" "pkb_inv g" "pool_room g" "sk_heap g = sk_heap s"
    "wire g = wire s" "fault g = fault s" "so_heap g so = (so_heap s so)\<lparr>so_refcnt := so_refcnt (so_heap s so) + 1\<rparr>" for n
    using pool by (simp_all add: g_def get_socket_def)
  have id: "raw_id g = raw_id s" by (simp add: g_def get_socket_def upd_so_def)
  have frame: "raw_frame g k rt i (dst_addr a) buf = raw_frame s k rt i (dst_addr a) buf"
    by (simp add: raw_frame_def g id)
  have u: "wire u = wire s @ [(rt_dev rt, raw_frame s k rt i (dst_addr a) buf)]" "fault u = fault s" "pkb_inv u" "so_heap u = so_heap g"
    using raw_send_wire [where s = g and buf = buf and rt = rt and a = a and i = i and k = k] buf rt g hop_known_cong [of g s]
    by (simp_all add: u_def rt_lookup_def Let_def frame)
  have send: "snd (socket_send junk ?x (Some so) (Some buf) (int (length buf)) (Some a) s) = free_socket ?x so u"
    using so buf(1) by (simp add: socket_send_def Let_def g_def [symmetric] g inet_send_def op_send_buf_def u_def case_prod_beta)
  have "free_socket ?x so u = upd_so so (\<lambda>x. x\<lparr>so_refcnt := so_refcnt x - 1\<rparr>) u"
    using so by (simp add: free_socket_def Let_def u(4) g)
  then show ?thesis unfolding send Let_def using u by simp
qed

section \<open>The answer of the peer\<close>

lemma net_in_echo:
  fixes r :: "'a stack_state_scheme"
  assumes f: "holds_frame r p f" "ip_wellformed f (length f)" "14 + unat (ntohs (ip_len f)) = length f" "ip_fragoff f = 0"
      "ip_pro f = 1" "iphlen f = 20"
    and icmp: "42 \<le> length f" "icmp_type 34 f = ICMP_T_ECHOREQ" "icmp_code 34 f = 0" "icmp_cksum 34 f \<noteq> 0xfff7"
      "icmp_chksum (drop 34 f) (int (length f - 34)) = 0"
    and host: "local_host r n f" "rt_lookup (ip_src f) r = Some rt" "hop_known rt (hop_addr rt (ip_src f)) i r" "pkb_inv r"
      "int (length f - 14) \<le> net_mtu (dev r (rt_dev rt))" "length (ae_hwaddr (ae r i)) = 6"
  shows "\<exists>g. let t = net_in (veth_xmit (\<lambda>f. int (length f))) rxcb n p r in
    wire t = wire r @ [(rt_dev rt, g)] \<and> fault t = fault r \<and> pkb_inv t \<and> eth_dst g = ae_hwaddr (ae r i) \<and> ip_dst g = ip_src f \<and>
    length g = length f \<and> ip_pro g = IP_P_ICMP \<and> ipdata g = 34 \<and> icmp_type 34 g = ICMP_T_ECHORLY \<and>
    icmp_chksum (drop 34 g) (int (length f - 34)) = 0 \<and> drop 38 g = drop 38 f"
proof -
  let ?x = "veth_xmit (\<lambda>f. int (length f))"
  have fr: "ntohs (ip_fragoff f) AND (IP_FRAG_OFF OR IP_FRAG_MF) = 0" by (simp add: f)
  obtain rt' where in_eq: "net_in ?x rxcb n p r = icmp_in ?x p (upd_pkb p (\<lambda>b. b\<lparr>pk_type := PKT_LOCALHOST,
      pk_pro := ETH_P_IP, pk_indev := Some n, pk_rtdst := Some rt', pk_data := ip_ntoh (pk_data b)\<rparr>) r)"
    using net_in_local [OF f(1-3) fr host(1), of ?x rxcb] by (auto simp: Let_def f(5))
  define t where "t = upd_pkb p (\<lambda>b. b\<lparr>pk_type := PKT_LOCALHOST,
      pk_pro := ETH_P_IP, pk_indev := Some n, pk_rtdst := Some rt', pk_data := ip_ntoh (pk_data b)\<rparr>) r"
  define d where "d = data_of t p"
  have m: "34 \<le> length f" using icmp(1) by simp
  have b: "take (length f) (data_of r p) = f" "length f \<le> length (data_of r p)" "pk_len (pkb r p) = int (length f)"
    using f(1) by (simp_all add: holds_frame_def)
  have d: "take (length f) d = ip_ntoh f" "length f \<le> length d"
    using take_ip_ntoh [OF b(1,2) m] b(2) by (simp_all add: d_def t_def)
  have l: "22 \<le> length f" using m by simp
  note nt = ip_ntoh_fields [OF l] and v = take_ip_views [OF d m] and w = take_views [OF d]
  have hl: "iphlen d = 20" "ipdata d = 34" "unat (ip_len d) = length f - 14" "ip_src d = ip_src f" "ip_pro d = 1"
    using f(3,5,6) by (simp_all add: v nt ipdata_def)
  have d34: "drop 34 (ip_ntoh f) = drop 34 f" using nt(8) [of 34] by simp
  have r8: "rd8 (ip_ntoh f) (34 + k) = rd8 f (34 + k)" and r16: "rd16 (ip_ntoh f) (34 + k) = rd16 f (34 + k)" for k
    by (simp_all only: rd8_drop [symmetric] rd16_drop [symmetric] d34)
  have c: "icmp_type 34 d = 8" "icmp_code 34 d = 0" "icmp_cksum 34 d = icmp_cksum 34 f"
    using w(1) [of 34] w(1) [of 35] w(2) [of 36] r8 [of 0] r8 [of 1] r16 [of 2] icmp(1-3) by simp_all
  have "icmp_chksum (drop 34 d) (int (length f - 34)) = icmp_chksum (drop 34 (ip_ntoh f)) (int (length f - 34))"
    using chksum_take [OF d, of 34 "length f - 34"] m by (simp add: icmp_chksum_def)
  then have chk: "icmp_chksum (drop (ipdata d) d) (ipdlen d) = 0"
    using icmp(5) m by (simp add: d34 hl ipdlen_def)
  have pk: "pk_len (pkb t p) = int (length f)" "pk_live (pkb t p)" "pkb_inv t" "dev t j = dev r j" "rt_lookup x t = rt_lookup x r"
    "arp_cache t = arp_cache r" "wire t = wire r" "fault t = fault r" for j x
    using b(3) f(1) host(4) by (simp_all add: t_def pkb_inv_upd rt_lookup_def holds_frame_def)
  have hop: "hop_known rt (hop_addr rt (ip_src d)) i t" using host(3) hop_known_cong [OF pk(6)] by (simp add: hl)
  have T: "data_of t p = d" "pk_len (pkb t p) = int (ETH_HRD_SZ + unat (ip_len d))" "pk_live (pkb t p)" "pkb_inv t"
    "20 \<le> iphlen d" "ETH_HRD_SZ + unat (ip_len d) \<le> length d" "iphlen d + ICMP_HRD_SZ \<le> unat (ip_len d)"
    "icmp_type (ipdata d) d = ICMP_T_ECHOREQ" "icmp_code (ipdata d) d = 0" "icmp_chksum (drop (ipdata d) d) (ipdlen d) = 0"
    "rt_lookup (ip_src d) t = Some rt" "hop_known rt (hop_addr rt (ip_src d)) i t"
    "int (unat (ip_len d)) \<le> net_mtu (dev t (rt_dev rt))"
    using m d(2) host(2,5) icmp(1) c chk hop pk(1-5) unfolding hl by (simp_all add: d_def)
  have A: "length (ae_hwaddr (ae t i)) = 6" and ck: "icmp_cksum (ipdata d) d \<noteq> 0xfff7"
    using host(6) icmp(4) c(3) by (simp_all add: pk hl)
  let ?g = "echo_frame t (rt_dev rt) i d"
  note g = echo_frame_fields [OF T(5-7) A refl, of "rt_dev rt"] and gi = echo_frame_icmp [OF T(5-10) ck A refl, of "rt_dev rt"]
  have "drop 38 ?g = drop 38 (take (length f) d)" using gi(3) m by (simp add: hl)
  also have "\<dots> = drop 38 f" using nt(8) [of 38] by (simp add: d)
  finally have "drop 38 ?g = drop 38 f" .
  moreover have "ipdlen d = int (length f - 34)" using m by (simp add: ipdlen_def hl)
  ultimately show ?thesis
    using icmp_echo_sent [OF T] g gi m unfolding in_eq t_def [symmetric] Let_def
    by (intro exI [of _ ?g]) (simp add: hl pk)
qed

text \<open>The reply of the peer is one that the receiving loop counts.\<close>

lemma ping_reply_sent:
  fixes r :: "'a stack_state_scheme"
  assumes f: "holds_frame r p f" "ip_wellformed f (length f)" "14 + unat (ntohs (ip_len f)) = length f" "ip_fragoff f = 0"
      "ip_pro f = 1" "iphlen f = 20"
    and icmp: "42 \<le> length f" "icmp_type 34 f = ICMP_T_ECHOREQ" "icmp_code 34 f = 0" "icmp_cksum 34 f \<noteq> 0xfff7"
      "icmp_chksum (drop 34 f) (int (length f - 34)) = 0"
    and host: "local_host r n f" "rt_lookup (ip_src f) r = Some rt" "hop_known rt (hop_addr rt (ip_src f)) i r" "pkb_inv r"
      "int (length f - 14) \<le> net_mtu (dev r (rt_dev rt))" "length (ae_hwaddr (ae r i)) = 6"
    and ident: "ntohs (rd16 f 38) = pg_id v"
  shows "\<exists>g. let u = net_in (veth_xmit (\<lambda>f. int (length f))) rxcb n p r in
    wire u = wire r @ [(rt_dev rt, g)] \<and> fault u = fault r \<and> pkb_inv u \<and> eth_dst g = ae_hwaddr (ae r i) \<and>
    ip_dst g = ip_src f \<and> length g = length f \<and> drop 38 g = drop 38 f \<and> ping_reply v (ip_ntoh g)"
proof -
  let ?u = "net_in (veth_xmit (\<lambda>f. int (length f))) rxcb n p r"
  obtain g where g: "wire ?u = wire r @ [(rt_dev rt, g)]" "fault ?u = fault r" "pkb_inv ?u" "eth_dst g = ae_hwaddr (ae r i)"
    "ip_dst g = ip_src f" "length g = length f" "ip_pro g = IP_P_ICMP" "ipdata g = 34" "icmp_type 34 g = ICMP_T_ECHORLY"
    "drop 38 g = drop 38 f"
    using net_in_echo [OF f icmp host, of rxcb] by (auto simp: Let_def)
  have gl: "22 \<le> length g" using g(6) icmp(1) by simp
  note nt = ip_ntoh_fields [OF gl]
  have o: "ipdata (ip_ntoh g) = 34" using g(8) by (simp add: ipdata_def nt)
  have "rd16 (ip_ntoh g) 38 = rd16 f 38" "rd8 (ip_ntoh g) 34 = rd8 g 34"
    using rd16_drop [of 38 "ip_ntoh g" 0] rd16_drop [of 38 f 0] rd8_drop [of 34 "ip_ntoh g" 0] rd8_drop [of 34 g 0] nt(8) [of 38]
      nt(8) [of 34] g(10) by simp_all
  then have "ping_reply v (ip_ntoh g)" by (simp add: ping_reply_def o nt g ident)
  then show ?thesis using g by (intro exI [of _ g]) (simp add: Let_def)
qed

text \<open>The frame of an echo request.\<close>

lemma ping_frame_fields:
  fixes s :: "'a raw_state_scheme"
  assumes msg: "length b0 = 8 + nat sz" "0 \<le> sz" "sz \<le> 65507" and hw: "length (ae_hwaddr (ae s i)) = 6"
    and sk: "sk_protocol (sk_at s k) = IP_P_ICMP"
    and f: "f = raw_frame s k rt i dst (ping_echo ident sq sz b0)"
  shows "icmp_type 34 f = ICMP_T_ECHOREQ" "icmp_code 34 f = 0" "rd16 f 38 = htons ident" "rd16 f 40 = htons sq" "ip_pro f = 1"
    "length f = 42 + nat sz" "drop 42 f = replicate (nat sz) 0x78" "icmp_chksum (drop 34 f) (8 + sz) = 0"
    "14 + unat (ntohs (ip_len f)) = length f"
proof -
  note b = ping_echo_fields [OF msg refl, of ident sq]
  have bl: "length (ping_echo ident sq sz b0) \<le> 65515" using msg by (simp add: b)
  note F = raw_frame_fields [OF bl hw f]
  have d: "rd8 f (34 + q) = rd8 (ping_echo ident sq sz b0) q" "rd16 f (34 + q) = rd16 (ping_echo ident sq sz b0) q" for q
    by (simp_all only: F(2) rd8_drop [symmetric] rd16_drop [symmetric])
  show "icmp_type 34 f = ICMP_T_ECHOREQ" "icmp_code 34 f = 0" "rd16 f 38 = htons ident" "rd16 f 40 = htons sq"
    using d(1) [of 0] d(1) [of 1] d(2) [of 4] d(2) [of 6] b(1-4) by simp_all
  show "ip_pro f = 1" "length f = 42 + nat sz" using F(1,5) b(6) sk by simp_all
  show "drop 42 f = replicate (nat sz) 0x78" using arg_cong [OF F(2), of "drop 8"] b(5) by simp
  show "icmp_chksum (drop 34 f) (8 + sz) = 0" using b(7) by (simp add: F(2))
  show "14 + unat (ntohs (ip_len f)) = length f" unfolding F(7) using bl by (simp add: unat_of_nat F(1) del: of_nat_add)
qed


text \<open>Two hosts on one network, each with the other one in its cache: 10.0.0.2 pings 10.0.0.1.\<close>

definition ping_host :: "u32 \<Rightarrow> bytes \<Rightarrow> u32 \<Rightarrow> bytes \<Rightarrow> bytes list \<Rightarrow> ip_state" where
  "ping_host ip hw nip nhw ds =
     upd_dev 0 (\<lambda>v. v\<lparr>net_ipaddr := ip, net_hwaddr := hw\<rparr>)
       ((sample_router ds)\<lparr>arp_cache := (zero_arpentry\<lparr>ae_state := ARP_RESOLVED, ae_pro := ETH_P_IP, ae_ipaddr := nip, ae_hwaddr := nhw\<rparr>) #
          replicate 19 zero_arpentry, rt_head := [rt_alloc ip 0xffffffff 0 0 RT_LOCALHOST 0, sample_route]\<rparr>)"

definition pinger :: stack_state where
  "pinger = upd_so 0 (\<lambda>x. x\<lparr>so_sk := Some 2\<rparr>)
     (stack_on (ping_host 0x0200000a [2,0,0,0,0,2] 0x0100000a [2,0,0,0,0,1] [[]]) (\<lambda>_. zero_sock\<lparr>sk_protocol := 1\<rparr>) (\<lambda>_. []) (\<lambda>_. zero_tcp))"

definition ping_target :: "bytes \<Rightarrow> stack_state" where
  "ping_target f =
     stack_on (ping_host 0x0100000a [2,0,0,0,0,1] 0x0200000a [2,0,0,0,0,2] [f]) (\<lambda>_. zero_sock) (\<lambda>_. []) (\<lambda>_. zero_tcp)"

definition ping_start :: ping_vars where
  "ping_start = \<lparr>pg_id = 1, pg_seq = 0, pg_size = 4, pg_count = 0, pg_recv = 0, pg_psend = 0, pg_precv = 0, pg_finite = False,
     pg_ttl = 64, pg_ipaddr = 0x0100000a, pg_sock = Some 0, pg_skaddr = zero_addr\<lparr>dst_addr := 0x0100000a\<rparr>, pg_buf = None, pg_alarm = False\<rparr>"

lemma ping_host_ok:
  assumes "length ds < 200000" "0 < length ds"
  shows "pkb_inv (ping_host ip hw nip nhw ds)" "pool_room (ping_host ip hw nip nhw ds)" "pk_live (pkb (ping_host ip hw nip nhw ds) 0)"
    "data_of (ping_host ip hw nip nhw ds) 0 = ds ! 0" "pk_len (pkb (ping_host ip hw nip nhw ds) 0) = int (length (ds ! 0))"
    "net_mtu (dev (ping_host ip hw nip nhw ds) 0) = 1500" "net_ipaddr (dev (ping_host ip hw nip nhw ds) 0) = ip"
    "net_hwaddr (dev (ping_host ip hw nip nhw ds) 0) = hw" "wire (ping_host ip hw nip nhw ds) = []"
    "hop_known sample_route nip 0 (ping_host ip hw nip nhw ds)" "ae_hwaddr (ae (ping_host ip hw nip nhw ds) 0) = nhw"
    "rt_head (ping_host ip hw nip nhw ds) = [rt_alloc ip 0xffffffff 0 0 RT_LOCALHOST 0, sample_route]"
  using sample_router_ok [OF assms] sample_host_fields [OF assms(2)]
  by (simp_all add: ping_host_def hop_known_def arp_lookup_def upt_rec [of 0] sample_route_def)
    (simp_all add: sample_router_def)

lemma ping_routes:
  "rt_head s = [rt_alloc 0x0200000a 0xffffffff 0 0 RT_LOCALHOST 0, sample_route] \<Longrightarrow> rt_lookup 0x0100000a s = Some sample_route"
  "rt_head s = [rt_alloc 0x0100000a 0xffffffff 0 0 RT_LOCALHOST 0, sample_route] \<Longrightarrow> rt_lookup 0x0200000a s = Some sample_route"
  "rt_head s = [rt_alloc 0x0100000a 0xffffffff 0 0 RT_LOCALHOST 0, sample_route] \<Longrightarrow>
     rt_lookup 0x0100000a s = Some (rt_alloc 0x0100000a 0xffffffff 0 0 RT_LOCALHOST 0)"
  by (simp_all add: rt_lookup_def rt_match_def sample_route_def rt_alloc_def)

lemma ping_target_ready:
  assumes "eth_dst f = [2,0,0,0,0,1]" "ntohs (eth_pro f) = ETH_P_IP" "ip_dst f = 0x0100000a" "ip_pro f = IP_P_ICMP"
  shows "holds_frame (ping_target f) 0 f" "local_host (ping_target f) 0 f"
proof -
  note h = ping_host_ok [of "[f]", simplified]
  show "holds_frame (ping_target f) 0 f" by (simp add: holds_frame_def ping_target_def h)
  have "rt_lookup 0x0100000a (ping_target f) = Some (rt_alloc 0x0100000a 0xffffffff 0 0 RT_LOCALHOST 0)"
    by (rule ping_routes(3)) (simp add: ping_target_def h)
  then show "local_host (ping_target f) 0 f"
    using assms by (simp add: local_host_def ping_target_def h is_eth_multicast_def eval_simps rt_alloc_def)
qed


subsection \<open>The number of requests\<close>

text \<open>What \<open>n\<close> runs of the alarm handler make of the program and the stack, when no reply arrives.\<close>

definition ping_alarms ::
  "bytes \<Rightarrow> sock_addr \<Rightarrow> 'a stack_state_scheme xmit_fun \<Rightarrow> nat \<Rightarrow> ping_vars \<times> 'a stack_state_scheme \<Rightarrow> ping_vars \<times> 'a stack_state_scheme" where
  "ping_alarms mem junk xmit n = (\<lambda>(v, s). ping_sigalrm mem junk xmit v s) ^^ n"

lemma ping_send_packet_vars:
  "\<exists>b t. ping_send_packet mem junk xmit v s = (v\<lparr>pg_buf := Some b, pg_seq := pg_seq v + 1, pg_psend := pg_psend v + 1\<rparr>, t)"
  unfolding ping_send_packet_def Let_def case_prod_beta by simp blast

lemma ping_sigalrm_finite:
  assumes "pg_finite v" "pg_sock v = Some so" "ping_sigalrm mem junk xmit v s = (w, t)"
  shows "pg_finite w" "pg_psend w = pg_psend v + 1"
    "pg_count w = (if pg_count v = 1 then - 1 else pg_count v - 1)"
    "pg_sock w = (if pg_count v \<ge> 1 then Some so else None)" "pg_alarm w \<longleftrightarrow> pg_count v \<ge> 1"
proof -
  obtain b u where snd: "ping_send_packet mem junk xmit (v\<lparr>pg_alarm := False\<rparr>) s =
      (v\<lparr>pg_alarm := False, pg_buf := Some b, pg_seq := pg_seq v + 1, pg_psend := pg_psend v + 1\<rparr>, u)"
    using ping_send_packet_vars [of mem junk xmit "v\<lparr>pg_alarm := False\<rparr>" s] by auto
  note eq = assms(3) [unfolded ping_sigalrm_def Let_def snd prod.case]
  consider "pg_count v = 1" | "pg_count v > 1" | "pg_count v < 1" by linarith
  then show "pg_finite w" "pg_psend w = pg_psend v + 1" "pg_count w = (if pg_count v = 1 then - 1 else pg_count v - 1)"
    "pg_sock w = (if pg_count v \<ge> 1 then Some so else None)" "pg_alarm w \<longleftrightarrow> pg_count v \<ge> 1"
    using eq assms(1,2) by (cases; auto simp: ping_close_socket_def)+
qed

lemma ping_alarms_upto:
  assumes "pg_finite v" "pg_sock v = Some so" "pg_count v = int n" "k \<le> n" "ping_alarms mem junk xmit k (v, s) = (w, t)"
  shows "pg_finite w \<and> pg_sock w = Some so \<and> pg_psend w = pg_psend v + int k \<and> (0 < k \<longrightarrow> pg_alarm w) \<and>
    pg_count w = (if 0 < k \<and> k = n then - 1 else int (n - k))"
  using assms(4,5)
proof (induction k arbitrary: w t)
  case 0
  then show ?case using assms by (simp add: ping_alarms_def)
next
  case (Suc k)
  obtain w' t' where 1: "ping_alarms mem junk xmit k (v, s) = (w', t')" by (rule prod.exhaust)
  have k: "k \<le> n" "k < n" using Suc.prems(1) by simp_all
  note IH = Suc.IH [OF k(1) 1]
  have "ping_sigalrm mem junk xmit w' t' = (w, t)" using Suc.prems(2) 1 by (simp add: ping_alarms_def)
  from ping_sigalrm_finite [OF _ _ this, of so] IH k(2) show ?case by (auto simp: of_nat_diff)
qed



section \<open>ping\_command.c\<close>

text \<open>The older program inside the stack: it builds the packet itself, and it passes the time to live on.\<close>

record ping2_vars =
  p2_id :: u16
  p2_seq :: u16
  p2_size :: int
  p2_count :: int
  p2_finite :: bool
  p2_ttl :: int
  p2_ipaddr :: u32
  p2_alarm :: bool

fun ping2_options :: "(char \<times> string) list \<Rightarrow> ping2_vars \<Rightarrow> bool \<times> ping2_vars" where
  "ping2_options [] v = (True, v)"
| "ping2_options ((c, optarg) # es) v =
     (if c = CHR ''s'' then ping2_options es (v\<lparr>p2_size := sint (atoi optarg)\<rparr>)
      else if c = CHR ''c'' then ping2_options es (v\<lparr>p2_count := sint (atoi optarg), p2_finite := True\<rparr>)
      else if c = CHR ''t'' then ping2_options es (v\<lparr>p2_ttl := sint (atoi optarg)\<rparr>)
      else (False, v))"

definition ping2_parse_args :: "string list \<Rightarrow> ping2_vars \<Rightarrow> int \<times> ping2_vars" where
  "ping2_parse_args argv v =
     (if length argv < 2 then (- 1, v)
      else
        let v = v\<lparr>p2_size := 56, p2_finite := False, p2_count := 0, p2_ttl := 64, p2_ipaddr := 0, p2_id := p2_id v + 1, p2_seq := 0\<rparr>;
            (es, operands) = getopt_all ''s:t:c:?h'' (tl argv);
            (ok, v) = ping2_options es v
        in if \<not> ok then (- 1, v)
           else if p2_size v < 0 \<or> p2_size v > 65507 then (- 2, v)
           else if p2_ttl v < 0 \<or> p2_ttl v > 255 then (- 2, v)
           else
             case operands of
               [a] \<Rightarrow> (case str2ip a of None \<Rightarrow> (- 2, v) | Some ip \<Rightarrow> (0, v\<lparr>p2_ipaddr := ip\<rparr>))
             | _ \<Rightarrow> (- 1, v))"

definition ping2_send_packet ::
  "'a ip_state_scheme xmit_fun \<Rightarrow> ping2_vars \<Rightarrow> 'a ip_state_scheme \<Rightarrow> ping2_vars \<times> 'a ip_state_scheme" where
  "ping2_send_packet xmit v s =
     (let (p, s) = alloc_pkb (int ETH_HRD_SZ + int IP_HRD_SZ + int ICMP_HRD_SZ + p2_size v) s;
          v = v\<lparr>p2_seq := p2_seq v + 1\<rparr>;
          s = upd_data p (\<lambda>d. take 34 d @ ping_echo (p2_id v) (p2_seq v) (p2_size v) (drop 34 d)) s
      in (v, ip_send_info xmit p 0 (word_of_int (int IP_HRD_SZ + int ICMP_HRD_SZ + p2_size v)) (word_of_int (p2_ttl v)) IP_P_ICMP (p2_ipaddr v) s))"

text \<open>The handler then waits for the signal that ends the program.\<close>

definition ping2_sigalrm ::
  "'a ip_state_scheme xmit_fun \<Rightarrow> ping2_vars \<Rightarrow> 'a ip_state_scheme \<Rightarrow> ping2_vars \<times> 'a ip_state_scheme" where
  "ping2_sigalrm xmit v s =
     (if \<not> p2_finite v \<or> p2_count v > 0
      then ping2_send_packet xmit (v\<lparr>p2_count := p2_count v - 1, p2_alarm := True\<rparr>) s
      else (v\<lparr>p2_alarm := False\<rparr>, s))"

definition ping2 ::
  "(ping2_vars \<times> 'a ip_state_scheme \<Rightarrow> ping2_vars \<times> 'a ip_state_scheme) \<Rightarrow> 'a ip_state_scheme xmit_fun \<Rightarrow> string list \<Rightarrow>
   u32 \<Rightarrow> ping2_vars \<Rightarrow> 'a ip_state_scheme \<Rightarrow> int \<times> u32 \<times> ping2_vars \<times> 'a ip_state_scheme" where
  "ping2 sig xmit argv net_debug v s =
     (let (err, v) = ping2_parse_args argv v
      in if err < 0 then (err, net_debug, v, s)
         else
           let (v, s) = ping2_sigalrm xmit v s;
               (v, s) = sig (v, s)
           in (0, 0, v\<lparr>p2_alarm := False\<rparr>, s))"

lemma ping2_parse_bounds:
  assumes "ping2_parse_args argv v = (0, w)"
  shows "0 \<le> p2_size w" and "p2_size w \<le> 65507" and "0 \<le> p2_ttl w" and "p2_ttl w \<le> 255"
  using assms by (auto simp: ping2_parse_args_def Let_def split: if_splits prod.splits list.splits option.splits)

text \<open>A request of \<open>ping2\<close> carries the time to live of the command line and counts the sequence numbers from one.\<close>

lemma ping2_frame:
  fixes s :: "'a ip_state_scheme"
  assumes v: "0 \<le> p2_size v" "p2_size v \<le> 65507" "28 + p2_size v \<le> net_mtu (dev s (rt_dev rt))"
    and rt: "rt_lookup (p2_ipaddr v) s = Some rt" "hop_known rt (hop_addr rt (p2_ipaddr v)) i s" and pool: "pkb_inv s" "pool_room s"
  shows "\<exists>t f. ping2_send_packet (veth_xmit (\<lambda>f. int (length f))) v s = (v\<lparr>p2_seq := p2_seq v + 1\<rparr>, t) \<and>
    wire t = wire s @ [(rt_dev rt, f)] \<and> fault t = fault s \<and> ip_ttl f = word_of_int (p2_ttl v) \<and> ip_dst f = p2_ipaddr v \<and>
    drop 34 f = ping_echo (p2_id v) (p2_seq v + 1) (p2_size v) (replicate (8 + nat (p2_size v)) 0)"
proof -
  let ?x = "veth_xmit (\<lambda>f. int (length f))" and ?n = "nat (p2_size v)" and ?p = "pk_next s"
  let ?ttl = "word_of_int (p2_ttl v) :: u8"
  define L where "L = (word_of_int (28 + p2_size v) :: u16)"
  define A where "A = snd (alloc_pkb (42 + p2_size v) s)"
  have al: "alloc_pkb (42 + p2_size v) s = (?p, A)" unfolding A_def by (metis alloc_simps(1) prod.collapse)
  have A: "pkb_inv A" "fault A = fault s" "wire A = wire s" "rt_head A = rt_head s" "arp_cache A = arp_cache s"
    "dev A j = dev s j" "pk_live (pkb A ?p)" "pk_len (pkb A ?p) = int (42 + ?n)" "data_of A ?p = replicate (42 + ?n) 0"
    "pk_rtdst (pkb A ?p) = None" for j
    using pool v(1) by (simp_all add: A_def alloc_pkb_inv alloc_fault) (simp_all add: alloc_pkb_def nat_add_distrib)
  define e where "e = ping_echo (p2_id v) (p2_seq v + 1) (p2_size v) (replicate (8 + ?n) 0)"
  define d where "d = replicate 34 0 @ e"
  define u where "u = upd_data ?p (\<lambda>_. d) A"
  have el: "length e = 8 + ?n" unfolding e_def using ping_echo_fields(6) [OF _ v(1,2) refl] by simp
  have upd: "upd_data ?p (\<lambda>x. take 34 x @ ping_echo (p2_id v) (p2_seq v + 1) (p2_size v) (drop 34 x)) A = u"
    unfolding u_def by (subst upd_data_const [OF A(9)]) (simp add: d_def e_def)
  have send: "ping2_send_packet ?x v s = (v\<lparr>p2_seq := p2_seq v + 1\<rparr>, ip_send_info ?x ?p 0 L ?ttl IP_P_ICMP (p2_ipaddr v) u)"
    by (simp add: ping2_send_packet_def Let_def al upd L_def)
  have w16: "int (unat (word_of_int x :: u16)) = x" if "0 \<le> x" "x < 65536" for x
    using that by (simp add: unsigned_of_int take_bit_int_eq_self)
  have un: "int (unat L) = 28 + p2_size v" unfolding L_def by (rule w16) (use v(1,2) in simp_all)
  have dl: "length d = 42 + ?n" "34 \<le> length d" "drop 34 d = e" using el by (simp_all add: d_def)
  have U: "pk_live (pkb u ?p)" "pk_rtdst (pkb u ?p) = None" "data_of u ?p = d" "pk_len (pkb u ?p) = int (length d)"
    "rt_lookup (p2_ipaddr v) u = Some rt" "hop_known rt (hop_addr rt (p2_ipaddr v)) i u" "34 \<le> length d"
    "int (unat L) \<le> net_mtu (dev u (rt_dev rt))" "pkb_inv u"
    using A rt v(3) dl hop_known_cong [of u s] by (simp_all add: u_def pkb_inv_upd rt_lookup_def un del: of_nat_unat)
  define h where "h = info_header 0 L (ipid u) ?ttl IP_P_ICMP (p2_ipaddr v) d"
  define f where "f = eth_frame (net_hwaddr (dev u (rt_dev rt))) (ae_hwaddr (ae u i)) (ready_packet (net_ipaddr (dev u (rt_dev rt))) h)"
  note H = info_header_fields [OF dl(2), of 0 L "ipid u" ?ttl IP_P_ICMP "p2_ipaddr v", folded h_def]
  have hl: "34 \<le> length h" "20 \<le> iphlen h" using H dl(1) by simp_all
  note R = ready_packet_fields [OF hl, of "net_ipaddr (dev u (rt_dev rt))"]
  have body: "drop 14 f = drop 14 (ready_packet (net_ipaddr (dev u (rt_dev rt))) h)" using eth_frame_body by (simp add: f_def)
  note V = ip_views_cong [OF body]
  have "ip_ttl f = ?ttl" "ip_dst f = p2_ipaddr v" using V(1) [of 22] V(3) [of 30] by (simp_all add: R H)
  moreover have "drop 34 f = e" using arg_cong [OF body, of "drop 20"] R(10) H(10) dl(3) by simp
  ultimately show ?thesis
    using vip.send_info_wire [OF U, of 0 ?ttl IP_P_ICMP] send
    by (intro exI [of _ "ip_send_info ?x ?p 0 L ?ttl IP_P_ICMP (p2_ipaddr v) u"] exI [of _ f])
      (simp add: Let_def f_def h_def e_def, simp add: u_def A)
qed

end
