(* ===== verification/Programs.thy ===== *)
theory Programs
  imports Ping
begin

text \<open>
  The programs on the socket interface: \<^verbatim>\<open>src/app/snc.c\<close>, which copies between the terminal and a connection, \<^verbatim>\<open>src/app/perf.c\<close>, which
  sends or counts datagrams, and the reports of \<^verbatim>\<open>src/net/stat.c\<close>. Signals, the standard streams and the clock are arguments. The lemmas
  are on the arguments the programs accept and on the reports.
\<close>

section \<open>snc.c\<close>

record snc_vars =
  nc_flags :: u32
  nc_sock :: "nat option"
  nc_csock :: "nat option"
  nc_skaddr :: sock_addr
  nc_type :: int
  nc_interrupt :: bool

abbreviation (input) F_BIND :: u32 where "F_BIND \<equiv> 1"
abbreviation (input) F_CONNECT :: u32 where "F_CONNECT \<equiv> 2"
abbreviation (input) F_TCP :: u32 where "F_TCP \<equiv> 4"
abbreviation (input) F_UDP :: u32 where "F_UDP \<equiv> 8"
abbreviation (input) F_DEBUG :: u32 where "F_DEBUG \<equiv> 16"

text \<open>\<^verbatim>\<open>close_socket\<close>, the same in both programs, on the two socket variables.\<close>

definition close_sockets ::
  "'a stack_state_scheme xmit_fun \<Rightarrow> nat option \<Rightarrow> nat option \<Rightarrow> 'a stack_state_scheme \<Rightarrow> 'a stack_state_scheme" where
  "close_sockets xmit sock csock s =
     (let s = (if sock \<noteq> None then socket_close xmit sock s else s)
      in if csock \<noteq> None then socket_close xmit csock s else s)"

definition snc_close_socket ::
  "'a stack_state_scheme xmit_fun \<Rightarrow> snc_vars \<Rightarrow> 'a stack_state_scheme \<Rightarrow> snc_vars \<times> 'a stack_state_scheme" where
  "snc_close_socket xmit v s = (v\<lparr>nc_sock := None, nc_csock := None\<rparr>, close_sockets xmit (nc_sock v) (nc_csock v) s)"

definition snc_create_socket ::
  "'a stack_state_scheme xmit_fun \<Rightarrow> snc_vars \<Rightarrow> 'a stack_state_scheme \<Rightarrow> int \<times> snc_vars \<times> 'a stack_state_scheme" where
  "snc_create_socket xmit v s =
     (let (so, s) = socket_open xmit AF_INET (nc_type v) 0 s
      in (if so = None then - 1 else 0, v\<lparr>nc_sock := so\<rparr>, s))"

definition snc_sigint ::
  "'a stack_state_scheme xmit_fun \<Rightarrow> snc_vars \<Rightarrow> 'a stack_state_scheme \<Rightarrow> snc_vars \<times> 'a stack_state_scheme" where
  "snc_sigint xmit v s = snc_close_socket xmit (v\<lparr>nc_interrupt := True\<rparr>) s"

text \<open>
  The sending loop. \<open>chunks\<close> are the results of \<^verbatim>\<open>read\<close> on the standard input, which is at its end when they are used up; \<open>sig\<close> is what
  the interrupt handler did during the read.
\<close>

fun snc_send_loop ::
  "sock_addr \<Rightarrow> 'a stack_state_scheme xmit_fun \<Rightarrow> (snc_vars \<times> 'a stack_state_scheme \<Rightarrow> snc_vars \<times> 'a stack_state_scheme) \<Rightarrow> bytes list \<Rightarrow>
   snc_vars \<Rightarrow> 'a stack_state_scheme \<Rightarrow> snc_vars \<times> 'a stack_state_scheme" where
  "snc_send_loop junk xmit sig [] v s = sig (v, s)"
| "snc_send_loop junk xmit sig (buf # bufs) v0 s0 =
     (let (v, s) = sig (v0, s0); len = int (length buf)
      in if nc_interrupt v then (v, s)
         else if len \<le> 0 then (v, s)
         else if nc_flags v AND F_UDP \<noteq> 0
         then let (r, s) = socket_send junk xmit (nc_sock v) (Some buf) len (Some (nc_skaddr v)) s
              in if r \<noteq> len then (v, s) else snc_send_loop junk xmit sig bufs v s
         else let (r, s) = socket_write junk xmit (nc_sock v) (Some buf) len s
              in if r < 0 then (v, s) else snc_send_loop junk xmit sig bufs v s)"

definition snc_send_packet ::
  "('a stack_state_scheme \<Rightarrow> 'a stack_state_scheme) \<Rightarrow> sock_addr \<Rightarrow> 'a stack_state_scheme xmit_fun \<Rightarrow>
   (snc_vars \<times> 'a stack_state_scheme \<Rightarrow> snc_vars \<times> 'a stack_state_scheme) \<Rightarrow> bytes list \<Rightarrow> snc_vars \<Rightarrow> 'a stack_state_scheme \<Rightarrow>
   snc_vars \<times> 'a stack_state_scheme" where
  "snc_send_packet env junk xmit sig bufs v s =
     (if nc_flags v AND F_TCP \<noteq> 0
      then let (r, s) = socket_connect env xmit (nc_sock v) (Some (nc_skaddr v)) s
           in if r < 0 then (v, s) else snc_send_loop junk xmit sig bufs v s
      else snc_send_loop junk xmit sig bufs v s)"

text \<open>
  The receiving side returns what it wrote to the standard output; the value None is a loop that does not end. \<open>env\<close> is what other
  threads do while the program sleeps.
\<close>

partial_function (option) snc_read_loop ::
  "('a stack_state_scheme \<Rightarrow> 'a stack_state_scheme) \<Rightarrow> 'a stack_state_scheme xmit_fun \<Rightarrow> nat option \<Rightarrow> bytes \<Rightarrow> 'a stack_state_scheme \<Rightarrow>
   (bytes \<times> 'a stack_state_scheme) option" where
  "snc_read_loop env xmit csock out s =
     (case socket_read env xmit csock True 512 s of
        None \<Rightarrow> None
      | Some (len, d, s) \<Rightarrow>
          if len > 0 then snc_read_loop env xmit csock (out @ take (nat len) d) s else Some (out, s))"

definition snc_recv_tcp_packet ::
  "('a stack_state_scheme \<Rightarrow> 'a stack_state_scheme) \<Rightarrow> 'a stack_state_scheme xmit_fun \<Rightarrow> snc_vars \<Rightarrow> 'a stack_state_scheme \<Rightarrow>
   (bytes \<times> snc_vars \<times> 'a stack_state_scheme) option" where
  "snc_recv_tcp_packet env xmit v s =
     (let (r, s) = socket_listen xmit (nc_sock v) 10 s
      in if r < 0 then Some ([], v, s)
         else
           case socket_accept env xmit (nc_sock v) (Some (nc_skaddr v)) s of
             None \<Rightarrow> None
           | Some (cs, a, s) \<Rightarrow>
               let v = v\<lparr>nc_csock := cs, nc_skaddr := (case a of None \<Rightarrow> nc_skaddr v | Some x \<Rightarrow> x)\<rparr>
               in if cs = None then Some ([], v, s)
                  else case snc_read_loop env xmit cs [] s of None \<Rightarrow> None | Some (out, s) \<Rightarrow> Some (out, v, s))"

text \<open>
  \<open>wr\<close> is the result of \<^verbatim>\<open>write\<close> for the data bytes and the length; the length is negative when the datagram says that it is shorter
  than its header.
\<close>

partial_function (option) snc_recv_udp_packet ::
  "('a stack_state_scheme \<Rightarrow> bool \<times> 'a stack_state_scheme) \<Rightarrow> (bytes \<Rightarrow> int \<Rightarrow> int) \<Rightarrow> 'a stack_state_scheme xmit_fun \<Rightarrow> nat option \<Rightarrow>
   bytes list \<Rightarrow> 'a stack_state_scheme \<Rightarrow> (bytes list \<times> 'a stack_state_scheme) option" where
  "snc_recv_udp_packet env wr xmit sock out s =
     (case socket_recv env xmit sock s of
        None \<Rightarrow> None
      | Some (None, s) \<Rightarrow> Some (out, s)
      | Some (Some p, s) \<Rightarrow>
          let d = data_of s p;
              off = ipdata d;
              len = int (unat (ntohs (udp_length off d))) - int UDP_HRD_SZ;
              data = slice (off + UDP_HRD_SZ) (nat len) d
          in if wr data len \<noteq> len then Some (out, free_pkb p s)
             else snc_recv_udp_packet env wr xmit sock (out @ [data]) (free_pkb p s))"

definition snc_recv_packet ::
  "('a stack_state_scheme \<Rightarrow> 'a stack_state_scheme) \<Rightarrow> ('a stack_state_scheme \<Rightarrow> bool \<times> 'a stack_state_scheme) \<Rightarrow> (bytes \<Rightarrow> int \<Rightarrow> int) \<Rightarrow>
   'a stack_state_scheme xmit_fun \<Rightarrow> snc_vars \<Rightarrow> 'a stack_state_scheme \<Rightarrow> (bytes \<times> snc_vars \<times> 'a stack_state_scheme) option" where
  "snc_recv_packet env wenv wr xmit v s =
     (let (r, s) = socket_bind xmit (nc_sock v) (Some (nc_skaddr v)) s
      in if r < 0 then Some ([], v, s)
         else if nc_flags v AND F_UDP \<noteq> 0
         then case snc_recv_udp_packet wenv wr xmit (nc_sock v) [] s of None \<Rightarrow> None | Some (out, s) \<Rightarrow> Some (concat out, v, s)
         else snc_recv_tcp_packet env xmit v s)"

definition set_src :: "(u32 \<times> u16 option) \<Rightarrow> sock_addr \<Rightarrow> sock_addr" where
  "set_src r a = (case snd r of None \<Rightarrow> a\<lparr>src_addr := fst r\<rparr> | Some p \<Rightarrow> a\<lparr>src_addr := fst r, src_port := p\<rparr>)"

definition set_dst :: "(u32 \<times> u16 option) \<Rightarrow> sock_addr \<Rightarrow> sock_addr" where
  "set_dst r a = (case snd r of None \<Rightarrow> a\<lparr>dst_addr := fst r\<rparr> | Some p \<Rightarrow> a\<lparr>dst_addr := fst r, dst_port := p\<rparr>)"

fun snc_options :: "(char \<times> string) list \<Rightarrow> snc_vars \<Rightarrow> int \<times> snc_vars" where
  "snc_options [] v = (0, v)"
| "snc_options ((c, optarg) # es) v =
     (if c = CHR ''d'' then snc_options es (v\<lparr>nc_flags := nc_flags v OR F_DEBUG\<rparr>)
      else if c = CHR ''b'' then
        (let v = v\<lparr>nc_flags := nc_flags v OR F_BIND\<rparr>
         in case parse_ip_port optarg of None \<Rightarrow> (- 2, v) | Some r \<Rightarrow> snc_options es (v\<lparr>nc_skaddr := set_src r (nc_skaddr v)\<rparr>))
      else if c = CHR ''c'' then
        (let v = v\<lparr>nc_flags := nc_flags v OR F_CONNECT\<rparr>
         in case parse_ip_port optarg of None \<Rightarrow> (- 2, v) | Some r \<Rightarrow> snc_options es (v\<lparr>nc_skaddr := set_dst r (nc_skaddr v)\<rparr>))
      else if c = CHR ''u'' then snc_options es (v\<lparr>nc_flags := (nc_flags v AND NOT F_TCP) OR F_UDP\<rparr>)
      else (- 1, v))"

definition snc_parse_args :: "string list \<Rightarrow> snc_vars \<Rightarrow> int \<times> snc_vars" where
  "snc_parse_args argv v =
     (let (es, operands) = getopt_all ''b:c:du?h'' (tl argv);
          (r, v) = snc_options es v;
          m = nc_flags v AND (F_BIND OR F_CONNECT)
      in if r < 0 then (r, v)
         else if m = F_BIND OR F_CONNECT then (- 1, v)
         else if m = 0 then (- 1, v)
         else if operands \<noteq> [] then (- 1, v)
         else (0, if nc_flags v AND F_UDP \<noteq> 0 then v\<lparr>nc_type := SOCK_DGRAM\<rparr> else v))"

definition snc_init_options :: "snc_vars \<Rightarrow> snc_vars" where
  "snc_init_options v =
     v\<lparr>nc_skaddr := zero_addr, nc_type := SOCK_STREAM, nc_flags := F_TCP, nc_csock := None, nc_sock := None, nc_interrupt := False\<rparr>"

text \<open>\<open>act\<close> is the result of \<^verbatim>\<open>sigaction\<close>.\<close>

definition snc ::
  "('a stack_state_scheme \<Rightarrow> 'a stack_state_scheme) \<Rightarrow> ('a stack_state_scheme \<Rightarrow> bool \<times> 'a stack_state_scheme) \<Rightarrow> (bytes \<Rightarrow> int \<Rightarrow> int) \<Rightarrow>
   sock_addr \<Rightarrow> 'a stack_state_scheme xmit_fun \<Rightarrow> (snc_vars \<times> 'a stack_state_scheme \<Rightarrow> snc_vars \<times> 'a stack_state_scheme) \<Rightarrow> bytes list \<Rightarrow>
   int \<Rightarrow> string list \<Rightarrow> snc_vars \<Rightarrow> 'a stack_state_scheme \<Rightarrow> (int \<times> bytes \<times> snc_vars \<times> 'a stack_state_scheme) option" where
  "snc env wenv wr junk xmit sig bufs act argv v s =
     (let (err, v) = snc_parse_args argv (snc_init_options v)
      in if err < 0 then Some (err, [], v, s)
         else if act < 0 then let (v, s) = snc_close_socket xmit v s in Some (0, [], v, s)
         else
           let (r, v, s) = snc_create_socket xmit v s
           in if r < 0 then let (v, s) = snc_close_socket xmit v s in Some (0, [], v, s)
              else
                case (if nc_flags v AND F_BIND \<noteq> 0 then snc_recv_packet env wenv wr xmit v s
                      else let (v, s) = snc_send_packet env junk xmit sig bufs v s in Some ([], v, s)) of
                  None \<Rightarrow> None
                | Some (out, v, s) \<Rightarrow> let (v, s) = snc_close_socket xmit v s in Some (0, out, v, s))"

section \<open>stat.c\<close>

record stat_reporter =
  last_pktcount :: "64 word"
  last_tick_us :: "64 word"
  print_count :: u32

definition stat_init :: stat_reporter where
  "stat_init = \<lparr>last_pktcount = 0, last_tick_us = 0, print_count = 0\<rparr>"

text \<open>
  \<open>now\<close> is the time of the call. The result has the line that is printed, if any: packets, microseconds and rate. A report in the
  microsecond of the last one divides by zero, which ends the process: None.
\<close>

definition stat_show ::
  "64 word \<Rightarrow> 64 word \<Rightarrow> bool \<Rightarrow> stat_reporter \<Rightarrow> ((64 word \<times> 64 word \<times> 64 word) option \<times> stat_reporter) option" where
  "stat_show now pktcount flush st =
     (if last_tick_us st = 0 then Some (None, st\<lparr>last_tick_us := now\<rparr>)
      else if \<not> flush \<and> pktcount - last_pktcount st < 1000000 then Some (None, st)
      else
        let time_delta = now - last_tick_us st;
            pktcount_delta = pktcount - last_pktcount st
        in if time_delta = 0 then None
           else Some (Some (pktcount_delta, time_delta, pktcount_delta * 1000000 div time_delta),
                      st\<lparr>last_tick_us := now, last_pktcount := pktcount, print_count := print_count st + 1\<rparr>))"

text \<open>The calls of a program: time and number of packets of each; the result has the printed lines.\<close>

fun stat_run :: "(64 word \<times> 64 word) list \<Rightarrow> stat_reporter \<Rightarrow> (64 word \<times> 64 word \<times> 64 word) list option" where
  "stat_run [] st = Some []"
| "stat_run ((now, n) # cs) st =
     (case stat_show now n True st of
        None \<Rightarrow> None
      | Some (l, st) \<Rightarrow>
          (case stat_run cs st of None \<Rightarrow> None | Some ls \<Rightarrow> Some (case l of None \<Rightarrow> ls | Some x \<Rightarrow> x # ls)))"

text \<open>No packet is reported twice or left out: the printed numbers add up to the last count.\<close>

lemma stat_run_sum:
  assumes "stat_run cs st = Some ls" and "cs \<noteq> []" and "last_tick_us st \<noteq> 0" and "\<forall>(now, n) \<in> set cs. now \<noteq> 0"
  shows "sum_list (map fst ls) + last_pktcount st = snd (last cs)"
  using assms
proof (induction cs arbitrary: st ls)
  case (Cons c cs)
  obtain now n where c: "c = (now, n)" by fastforce
  define u where "u = st\<lparr>last_tick_us := now, last_pktcount := n, print_count := print_count st + 1\<rparr>"
  obtain x rest where show_c: "stat_show now n True st = Some (Some x, u)" "fst x = n - last_pktcount st"
    and rest: "stat_run cs u = Some rest" "ls = x # rest"
    using Cons.prems(1,3) by (auto simp: c stat_show_def Let_def u_def split: if_splits option.splits)
  show ?case
  proof (cases "cs = []")
    case True
    then show ?thesis using rest show_c(2) by (simp add: c)
  next
    case False
    have "last_tick_us u \<noteq> 0" using Cons.prems(4) by (simp add: u_def c)
    then have "sum_list (map fst rest) + n = snd (last cs)"
      using Cons.IH [OF rest(1) False] Cons.prems(4) by (simp add: u_def)
    moreover have "sum_list (map fst ls) + last_pktcount st = sum_list (map fst rest) + n" by (simp add: rest(2) show_c(2))
    ultimately show ?thesis using False by simp
  qed
qed simp

section \<open>perf.c\<close>

record perf_vars =
  pf_flags :: u32
  pf_sock :: "nat option"
  pf_csock :: "nat option"
  pf_skaddr :: sock_addr
  pf_packet_length :: u32
  pf_interrupt :: bool

abbreviation (input) BUF_SIZE :: nat where "BUF_SIZE \<equiv> 1500"

definition perf_close_socket ::
  "'a stack_state_scheme xmit_fun \<Rightarrow> perf_vars \<Rightarrow> 'a stack_state_scheme \<Rightarrow> perf_vars \<times> 'a stack_state_scheme" where
  "perf_close_socket xmit v s = (v\<lparr>pf_sock := None, pf_csock := None\<rparr>, close_sockets xmit (pf_sock v) (pf_csock v) s)"

definition perf_create_socket ::
  "'a stack_state_scheme xmit_fun \<Rightarrow> perf_vars \<Rightarrow> 'a stack_state_scheme \<Rightarrow> int \<times> perf_vars \<times> 'a stack_state_scheme" where
  "perf_create_socket xmit v s =
     (let (so, s) = socket_open xmit AF_INET SOCK_DGRAM 0 s
      in (if so = None then - 1 else 0, v\<lparr>pf_sock := so\<rparr>, s))"

definition perf_sigint ::
  "'a stack_state_scheme xmit_fun \<Rightarrow> perf_vars \<Rightarrow> 'a stack_state_scheme \<Rightarrow> perf_vars \<times> 'a stack_state_scheme" where
  "perf_sigint xmit v s = perf_close_socket xmit (v\<lparr>pf_interrupt := True\<rparr>) s"

text \<open>\<open>buf\<close> is the uninitialised local array; reading behind its end is a fault.\<close>

partial_function (option) perf_send_packet ::
  "bytes \<Rightarrow> sock_addr \<Rightarrow> 'a stack_state_scheme xmit_fun \<Rightarrow> (perf_vars \<times> 'a stack_state_scheme \<Rightarrow> perf_vars \<times> 'a stack_state_scheme) \<Rightarrow>
   perf_vars \<Rightarrow> 'a stack_state_scheme \<Rightarrow> (perf_vars \<times> 'a stack_state_scheme) option" where
  "perf_send_packet buf junk xmit sig v0 s0 =
     (let (v, s) = sig (v0, s0)
      in if pf_interrupt v then Some (v, s)
         else
           let len = sint (pf_packet_length v);
               s = (if int (length buf) < len then set_fault Out_Of_Bounds s else s);
               (r, s) = socket_send junk xmit (pf_sock v) (Some buf) len (Some (pf_skaddr v)) s
           in if r \<noteq> len then Some (v, s) else perf_send_packet buf junk xmit sig v s)"

text \<open>\<open>cb\<close> stands for the callback \<^verbatim>\<open>on_rx_packet\<close>, which counts; \<open>ticks\<close> has time and count at the end of each second until the
  interrupt, which ends the loop.\<close>

definition perf_recv_packet ::
  "nat \<Rightarrow> (64 word \<times> 64 word) list \<Rightarrow> 'a stack_state_scheme xmit_fun \<Rightarrow> perf_vars \<Rightarrow> 'a stack_state_scheme \<Rightarrow>
   ((64 word \<times> 64 word \<times> 64 word) list \<times> perf_vars \<times> 'a stack_state_scheme) option" where
  "perf_recv_packet cb ticks xmit v s =
     (let (r, s) = socket_bind xmit (pf_sock v) (Some (pf_skaddr v)) s
      in if r < 0 then Some ([], v, s)
         else
           let s = sock_set_rx_callback (pf_sock v) (Some cb) s
           in case stat_run ticks stat_init of None \<Rightarrow> None | Some ls \<Rightarrow> Some (ls, perf_sigint xmit v s))"

fun perf_options :: "(char \<times> string) list \<Rightarrow> perf_vars \<Rightarrow> int \<times> perf_vars" where
  "perf_options [] v = (0, v)"
| "perf_options ((c, optarg) # es) v =
     (if c = CHR ''d'' then perf_options es (v\<lparr>pf_flags := pf_flags v OR F_DEBUG\<rparr>)
      else if c = CHR ''b'' then
        (let v = v\<lparr>pf_flags := pf_flags v OR F_BIND\<rparr>
         in case parse_ip_port optarg of None \<Rightarrow> (- 2, v) | Some r \<Rightarrow> perf_options es (v\<lparr>pf_skaddr := set_src r (pf_skaddr v)\<rparr>))
      else if c = CHR ''c'' then
        (let v = v\<lparr>pf_flags := pf_flags v OR F_CONNECT\<rparr>
         in case parse_ip_port optarg of None \<Rightarrow> (- 2, v) | Some r \<Rightarrow> perf_options es (v\<lparr>pf_skaddr := set_dst r (pf_skaddr v)\<rparr>))
      else if c = CHR ''l'' then
        (let n = atoi optarg in perf_options es (v\<lparr>pf_packet_length := if n > of_nat BUF_SIZE then of_nat BUF_SIZE else n\<rparr>))
      else (- 1, v))"

definition perf_parse_args :: "string list \<Rightarrow> perf_vars \<Rightarrow> int \<times> perf_vars" where
  "perf_parse_args argv v =
     (let (es, operands) = getopt_all ''b:c:l:du?h'' (tl argv);
          (r, v) = perf_options es (v\<lparr>pf_packet_length := 10\<rparr>);
          m = pf_flags v AND (F_BIND OR F_CONNECT)
      in if r < 0 then (r, v)
         else if m = F_BIND OR F_CONNECT then (- 1, v)
         else if m = 0 then (- 1, v)
         else if operands \<noteq> [] then (- 1, v)
         else (0, v))"

definition perf_init_options :: "perf_vars \<Rightarrow> perf_vars" where
  "perf_init_options v = v\<lparr>pf_skaddr := zero_addr, pf_csock := None, pf_sock := None, pf_interrupt := False\<rparr>"

definition perf ::
  "bytes \<Rightarrow> nat \<Rightarrow> (64 word \<times> 64 word) list \<Rightarrow> sock_addr \<Rightarrow> 'a stack_state_scheme xmit_fun \<Rightarrow>
   (perf_vars \<times> 'a stack_state_scheme \<Rightarrow> perf_vars \<times> 'a stack_state_scheme) \<Rightarrow> int \<Rightarrow> string list \<Rightarrow> perf_vars \<Rightarrow> 'a stack_state_scheme \<Rightarrow>
   (int \<times> perf_vars \<times> 'a stack_state_scheme) option" where
  "perf buf cb ticks junk xmit sig act argv v s =
     (let (err, v) = perf_parse_args argv (perf_init_options v)
      in if err < 0 then Some (err, v, s)
         else if act < 0 then let (v, s) = perf_close_socket xmit v s in Some (0, v, s)
         else
           let (r, v, s) = perf_create_socket xmit v s
           in if r < 0 then let (v, s) = perf_close_socket xmit v s in Some (0, v, s)
              else
                case (if pf_flags v AND F_BIND \<noteq> 0
                      then (case perf_recv_packet cb ticks xmit v s of None \<Rightarrow> None | Some (_, v, s) \<Rightarrow> Some (v, s))
                      else perf_send_packet buf junk xmit sig v s) of
                  None \<Rightarrow> None
                | Some (v, s) \<Rightarrow> let (v, s) = perf_close_socket xmit v s in Some (0, v, s))"

subsection \<open>Arguments\<close>

lemma perf_options_result: "perf_options es v = (r, w) \<Longrightarrow> \<not> r < 0 \<Longrightarrow> r = 0"
  by (induction es v rule: perf_options.induct) (auto simp: Let_def split: if_splits option.splits)

text \<open>The mode bits of the flags after the options: the old ones and those of the options.\<close>

lemma perf_options_bits:
  assumes "perf_options es v = (0, w)"
  shows "(bit (pf_flags w) 0 \<longleftrightarrow> bit (pf_flags v) 0 \<or> list_ex (\<lambda>e. fst e = CHR ''b'') es) \<and>
    (bit (pf_flags w) 1 \<longleftrightarrow> bit (pf_flags v) 1 \<or> list_ex (\<lambda>e. fst e = CHR ''c'') es)"
  using assms
proof (induction es v rule: perf_options.induct)
  case (2 c optarg es v)
  show ?case
  proof (cases "c = CHR ''d'' \<or> c = CHR ''l''")
    case True
    then show ?thesis using 2 by (auto simp: Let_def bit_simps)
  next
    case False
    then show ?thesis using 2 by (auto simp: Let_def bit_simps split: if_splits option.splits)
  qed
qed simp

lemma mode_bits: "x AND (F_BIND OR F_CONNECT) = F_BIND OR F_CONNECT \<longleftrightarrow> bit x 0 \<and> bit x 1"
  "x AND (F_BIND OR F_CONNECT) = 0 \<longleftrightarrow> \<not> bit x 0 \<and> \<not> bit x 1" for x :: u32
proof -
  have l: "n < 32" if "n < 2" for n :: nat using that by simp
  have m: "F_BIND OR F_CONNECT = (mask 2 :: u32)" by (simp add: mask_eq_exp_minus_1)
  have "x AND mask 2 = mask 2 \<longleftrightarrow> (\<forall>n < 2. bit x n)" "x AND mask 2 = 0 \<longleftrightarrow> (\<forall>n < 2. \<not> bit x n)"
    by (auto simp: bit_eq_iff bit_simps) (use l in blast)+
  then show "x AND (F_BIND OR F_CONNECT) = F_BIND OR F_CONNECT \<longleftrightarrow> bit x 0 \<and> bit x 1"
    "x AND (F_BIND OR F_CONNECT) = 0 \<longleftrightarrow> \<not> bit x 0 \<and> \<not> bit x 1"
    unfolding m by (auto simp: less_2_cases_iff)
qed

lemma perf_packet_length:
  assumes "perf_parse_args argv v = (0, w)"
  shows "pf_packet_length w \<le> of_nat BUF_SIZE"
proof -
  have opts: "perf_options es u = (0, x) \<Longrightarrow> pf_packet_length u \<le> 1500 \<Longrightarrow> pf_packet_length x \<le> 1500" for es u x
    by (induction es u rule: perf_options.induct) (auto simp: Let_def split: if_splits option.splits)
  obtain es operands where es: "getopt_all ''b:c:l:du?h'' (tl argv) = (es, operands)" by (rule prod.exhaust)
  obtain r x where x: "perf_options es (v\<lparr>pf_packet_length := 10\<rparr>) = (r, x)" by (rule prod.exhaust)
  have "r = 0" "x = w" using assms by (auto simp: perf_parse_args_def es x Let_def dest: perf_options_result [OF x] split: if_splits)
  then show ?thesis using opts [of es _ w] x by simp
qed

definition perf_given :: "char \<Rightarrow> string list \<Rightarrow> bool" where
  "perf_given c argv \<longleftrightarrow> list_ex (\<lambda>e. fst e = c) (fst (getopt_all ''b:c:l:du?h'' (tl argv)))"

lemma perf_parse_bits:
  assumes "perf_parse_args argv v = (r, w)" and "\<not> r < 0"
  shows "bit (pf_flags w) 0 \<longleftrightarrow> bit (pf_flags v) 0 \<or> perf_given (CHR ''b'') argv"
    and "bit (pf_flags w) 1 \<longleftrightarrow> bit (pf_flags v) 1 \<or> perf_given (CHR ''c'') argv"
    and "bit (pf_flags w) 0 \<noteq> bit (pf_flags w) 1"
proof -
  obtain es operands where es: "getopt_all ''b:c:l:du?h'' (tl argv) = (es, operands)" by (rule prod.exhaust)
  obtain q x where x: "perf_options es (v\<lparr>pf_packet_length := 10\<rparr>) = (q, x)" by (rule prod.exhaust)
  have q: "\<not> q < 0" "x = w" "bit (pf_flags w) 0 \<noteq> bit (pf_flags w) 1"
    using assms unfolding perf_parse_args_def es x Let_def prod.case mode_bits by (auto split: if_splits)
  have "q = 0" by (rule perf_options_result [OF x q(1)])
  with perf_options_bits [of es _ w] x q(2,3) show
    "bit (pf_flags w) 0 \<longleftrightarrow> bit (pf_flags v) 0 \<or> perf_given (CHR ''b'') argv"
    "bit (pf_flags w) 1 \<longleftrightarrow> bit (pf_flags v) 1 \<or> perf_given (CHR ''c'') argv"
    "bit (pf_flags w) 0 \<noteq> bit (pf_flags w) 1"
    by (simp_all add: perf_given_def es)
qed

text \<open>
  C34: the mode of \<^verbatim>\<open>perf\<close> is never reset. \<^verbatim>\<open>flags\<close> is not among the variables that \<open>perf_init_options\<close> sets, so after one run with
  \<^verbatim>\<open>-b\<close> was accepted every later run with \<^verbatim>\<open>-c\<close> is refused, whatever else it is given, and the other way round.
\<close>

theorem perf_mode_sticks:
  assumes "perf_parse_args argv v = (0, w)" and "perf_given x argv" and "perf_given y argv2"
    and "(x, y) = (CHR ''b'', CHR ''c'') \<or> (x, y) = (CHR ''c'', CHR ''b'')"
  shows "fst (perf_parse_args argv2 (perf_init_options w)) < 0"
proof (rule ccontr)
  obtain r u where u: "perf_parse_args argv2 (perf_init_options w) = (r, u)" by (rule prod.exhaust)
  assume "\<not> ?thesis"
  then have "\<not> r < 0" by (simp add: u)
  note b = perf_parse_bits [OF u this] and a = perf_parse_bits [OF assms(1)]
  have "pf_flags (perf_init_options w) = pf_flags w" by (simp add: perf_init_options_def)
  with a b assms(2-4) show False by auto
qed

theorem perf_mode_sticks_witness:
  "fst (perf_parse_args [''perf'', ''-c'', ''10.0.0.2:9''] (perf_init_options (snd (perf_parse_args [''perf'', ''-b'', ''10.0.0.1:7'', ''-l99'']
     \<lparr>pf_flags = 0, pf_sock = None, pf_csock = None, pf_skaddr = zero_addr, pf_packet_length = 0, pf_interrupt = False\<rparr>)))) < 0"
proof -
  let ?v = "\<lparr>pf_flags = 0, pf_sock = None, pf_csock = None, pf_skaddr = zero_addr, pf_packet_length = 0, pf_interrupt = False\<rparr>"
  let ?a = "[''perf'', ''-b'', ''10.0.0.1:7'', ''-l99'']" and ?b = "[''perf'', ''-c'', ''10.0.0.2:9'']"
  have 1: "fst (perf_parse_args ?a ?v) = 0" by code_simp
  have 2: "perf_given (CHR ''b'') ?a" by code_simp
  have 3: "perf_given (CHR ''c'') ?b" by code_simp
  show ?thesis by (rule perf_mode_sticks [where argv = ?a and v = ?v, OF _ 2 3]) (use 1 in \<open>simp_all add: prod_eq_iff\<close>)
qed

section \<open>What snc accepts and prints\<close>

lemma snc_parse_modes:
  assumes "snc_parse_args argv v = (0, w)"
  shows "(nc_flags w AND F_BIND \<noteq> 0) \<noteq> (nc_flags w AND F_CONNECT \<noteq> 0)"
    and "nc_flags w AND F_UDP \<noteq> 0 \<Longrightarrow> nc_type w = SOCK_DGRAM"
proof -
  have b: "x AND 1 \<noteq> 0 \<longleftrightarrow> bit x 0" "x AND 2 \<noteq> 0 \<longleftrightarrow> bit x 1" for x :: u32
    using and_exp_eq_0_iff_not_bit [of x 0] and_exp_eq_0_iff_not_bit [of x 1] by auto
  obtain es operands where es: "getopt_all ''b:c:du?h'' (tl argv) = (es, operands)" by (rule prod.exhaust)
  obtain q x where x: "snc_options es v = (q, x)" by (rule prod.exhaust)
  show "(nc_flags w AND F_BIND \<noteq> 0) \<noteq> (nc_flags w AND F_CONNECT \<noteq> 0)" "nc_flags w AND F_UDP \<noteq> 0 \<Longrightarrow> nc_type w = SOCK_DGRAM"
    using assms unfolding snc_parse_args_def es x Let_def prod.case mode_bits b by (auto split: if_splits)
qed

end
