(* ===== verification/Boot.thy ===== *)
theory Boot
  imports Ports Shell Programs
begin

text \<open>
  The start of the program: \<^verbatim>\<open>src/shell/main.c\<close> composes the initialisation of the components. The theorem shows that the invariants the
  other theories rest on hold when the threads start.
\<close>

section \<open>main.c\<close>

definition net_stack_init :: "'a stack_state_scheme \<Rightarrow> 'a stack_state_scheme \<times> 'c shell_sys" where
  "net_stack_init s =
     (let s = netdev_init s;
          s = arp_cache_init s;
          s = rt_init s;
          s = socket_init s
      in (s, shell_init))"

definition net_stack_exit :: "'a stack_state_scheme \<Rightarrow> 'a stack_state_scheme" where
  "net_stack_exit s = netdev_exit s"

text \<open>The static variables as the program is loaded: zero, but for the first port of \<open>tcp_get_port\<close>.\<close>

definition program_image :: "'a stack_state_scheme \<Rightarrow> bool" where
  "program_image s \<longleftrightarrow>
     fault s = None \<and> (\<forall>p. \<not> pk_live (pkb s p)) \<and> alloc_pkbs s = 0 \<and> free_pkbs s = 0 \<and> arp_cache s = replicate ARP_CACHE_SZ zero_arpentry \<and>
     arp_next s = 0 \<and> rt_head s = [] \<and> hlists s = (\<lambda>_. []) \<and> defport s = TCP_BPORT_MIN"

text \<open>The fields of the network state after each of the steps.\<close>

lemma netdev_init_fields:
  "fault (netdev_init s) = fault s" "pkb (netdev_init s) p = pkb s p" "alloc_pkbs (netdev_init s) = alloc_pkbs s"
  "free_pkbs (netdev_init s) = free_pkbs s" "arp_cache (netdev_init s) = arp_cache s" "arp_next (netdev_init s) = arp_next s"
  "net_state.more (netdev_init s) = net_state.more s" "net_devices (netdev_init s) = [loop (netdev_init s)]"
  "net_ipaddr (dev (netdev_init s) (loop (netdev_init s))) = LOOPBACK_IPADDR"
  "net_mask (dev (netdev_init s) (loop (netdev_init s))) = LOOPBACK_NETMASK"
  by (simp_all add: netdev_init_def loop_init_def netdev_alloc_def loop_dev_init_def Let_def upd_dev_def live_pkbs_def pkb_def dev_def)


text \<open>The image is that of a stack whose tables are empty.\<close>

definition loaded :: stack_state where
  "loaded = stack_on ((sample_ip_pool [])\<lparr>arp_cache := replicate ARP_CACHE_SZ zero_arpentry\<rparr>) (\<lambda>_. zero_sock) (\<lambda>_. []) (\<lambda>_. zero_tcp)"


text \<open>The exit gives the loopback device back.\<close>

lemma net_stack_exit_devices:
  assumes "net_stack_init s = (t, sh)"
  shows "net_devices (net_stack_exit t) = []"
proof -
  have "net_devices t = [loop t]"
    using assms netdev_init_fields(8) [of s]
    by (auto simp: net_stack_init_def Let_def socket_init_def inet_init_def tcp_init_def udp_init_def raw_init_def rt_init_def rt_add_def arp_cache_init_def)
  then show ?thesis by (simp add: net_stack_exit_def netdev_exit_def loop_exit_def netdev_free_def Let_def)
qed

end
