(* ===== verification/Spec2Isabelle.thy ===== *)
theory Spec2Isabelle
  imports Cbuf Fast_Pipe Linked_List Lib Shell Drivers Socket_Api Delivery Ports Tcp_Send Tcp_Timer Programs Boot
begin

text \<open>
  A verification development for tapip, a TCP/IP stack that runs in user space on top of a tap device, a raw packet
  socket or a pipe in shared memory.

  \<^bold>\<open>The program.\<close> Frames come in from a device (\<^verbatim>\<open>src/net\<close>), are told apart by their ethernet type and handed to ARP
  (\<^verbatim>\<open>src/arp\<close>) or IP (\<^verbatim>\<open>src/ip\<close>). IP looks up the route, forwards or reassembles, and passes datagrams to ICMP, to the raw
  sockets, to UDP (\<^verbatim>\<open>src/udp\<close>) or to TCP (\<^verbatim>\<open>src/tcp\<close>). Programs use the socket layer (\<^verbatim>\<open>src/socket\<close>), which sends through the
  protocols, IP output, ARP and the device again. A timer thread ages the ARP cache, the fragments under reassembly and
  the TCP connections in TIME-WAIT.

  \<^bold>\<open>The state.\<close> One chain of extensible records follows the layers, so that a function of a lower layer works unchanged
  on the state of every higher one:
  \<^item> \<open>net_state\<close>: packet buffers with their reference counts, devices, ARP cache, the frames on the wire, the first fault
  \<^item> \<open>rt_state\<close>: the routing table
  \<^item> \<open>ip_state\<close>: the datagrams under reassembly
  \<^item> \<open>sk_state\<close>: protocol control blocks, sockets, hash chains and waiting threads
  \<^item> \<open>raw_state\<close> and \<open>udp_state\<close>: the counters and port tables of the two protocols
  \<^item> \<open>stack_state\<close>: TCP control blocks, the bind table and the TIME-WAIT list

  A packet is its bytes. The header structures are views: reads and writes of 8, 16 and 32 bits at the offsets the C
  compiler gives the fields on a little-endian host (ethernet at 0, IP and ARP at 14, the transport header behind the IP
  header). Machine integers are words of their width, C's \<^verbatim>\<open>int\<close> is \<open>int\<close> where it cannot overflow. What is undefined
  or fatal in C (a NULL or dangling pointer, a double free, an access out of bounds, a failed assertion, a loop that
  does not end) sets \<open>fault\<close>, and theorems state that no fault happens.

  \<^bold>\<open>Parameters.\<close> Code outside the repository is an argument: the transmit function of the driver (\<open>xmit\<close>, with the tap
  driver \<open>veth_xmit wr\<close> for the result \<open>wr\<close> of the \<^verbatim>\<open>write\<close> system call as the instance), the results of \<^verbatim>\<open>read\<close>, what
  other threads do while one sleeps (\<open>env\<close>), the callback of a socket (\<open>rxcb\<close>), and the value of variables the code reads
  uninitialised (\<open>junk\<close>).
\<close>

text \<open>
  \<^bold>\<open>The theories.\<close> Definitions carry the names of the C functions.

  \<^item> \<open>Prelude\<close>: word types, loads and stores on byte lists, \<^verbatim>\<open>memcpy\<close>. \<open>Endian\<close>: \<^verbatim>\<open>_htons\<close>, \<^verbatim>\<open>_htonl\<close>. \<open>Headers\<close>: the
    structures of \<^verbatim>\<open>src/include\<close>.
  \<^item> \<open>Fifo\<close>: the contracts \<open>byte_fifo\<close> and \<open>packet_queue\<close> of the two circular buffers, as locales. \<open>Cbuf\<close> (\<^verbatim>\<open>src/lib/cbuf.c\<close>) and
    \<open>Fast_Pipe\<close> (\<^verbatim>\<open>src/net/fast_pipe.c\<close>) interpret them: every sequence of writes and reads ends and loses, duplicates or reorders
    nothing. \<open>Fast_Pipe\<close> also lets the single writes and reads of a sending and a receiving process interleave.
  \<^item> \<open>Checksum\<close> (\<^verbatim>\<open>src/lib/checksum.c\<close>): the checksums verify at the receiver and equal the sum of RFC 1071, except where the
    32-bit accumulator overflows. \<open>Lib\<close> (\<^verbatim>\<open>src/lib/lib.c\<close>): addresses are read back from their text.
  \<^item> \<open>Net_State\<close> (\<^verbatim>\<open>src/net/pkb.c\<close>): the counters of the buffer pool are exact. \<open>Netdev\<close> (\<^verbatim>\<open>src/net/netdev.c\<close>, \<^verbatim>\<open>loop.c\<close>, \<^verbatim>\<open>veth.c\<close>):
    the locale \<open>net_device\<close> says what a driver may touch; \<open>netdev_tx\<close> puts one complete frame on the wire.
  \<^item> \<open>Arp\<close> (\<^verbatim>\<open>src/arp\<close>): \<open>arp_in\<close> is safe on every frame, learns and releases pending packets; the timer ends every wait.
  \<^item> \<open>Route\<close> (\<^verbatim>\<open>src/ip/route.c\<close>): the lookup is longest prefix match whatever the order of additions.
  \<^item> \<open>Ip_Out\<close>, \<open>Ip_Wire\<close> (\<^verbatim>\<open>src/ip/ip_out.c\<close>, \<^verbatim>\<open>ip_forward.c\<close>), \<open>Ip_Reass\<close>, \<open>Ip_Split\<close> (\<^verbatim>\<open>src/ip/ip_frag.c\<close>): fragments that arrive in any
    order are put together once, and what \<open>ip_send_frag\<close> sends is what reassembly undoes.
  \<^item> \<open>Icmp\<close> (\<^verbatim>\<open>src/ip/icmp.c\<close>): echo requests are answered, error messages are well formed or suppressed.
  \<^item> \<open>Sock\<close>, \<open>Raw\<close>, \<open>Udp\<close>, \<open>Tcp_Sock\<close>, \<open>Socket_Api\<close>: control blocks, waiting, the three protocols' socket operations and
    the socket layer. \<open>Ports\<close>: the locale \<open>port_table\<close>, interpreted on the tables of UDP and TCP, and the automatic choice of a port.
  \<^item> \<open>Tcp_Out\<close>, \<open>Tcp_Text\<close>, \<open>Tcp_State\<close>, \<open>Tcp_Api\<close> (\<^verbatim>\<open>src/tcp\<close>): the definitions of TCP. \<open>Tcp_Frame\<close>: what they leave alone, in the
    locale \<open>stack_device\<close>. \<open>Tcp_Machine\<close>: only arrows of the state diagram are taken. \<open>Tcp_Order\<close>: text that arrives in any
    order reaches the buffer in order. \<open>Tcp_Send\<close>: the segments a send call produces.
  \<^item> \<open>Ip_In\<close>: \<^verbatim>\<open>src/ip/ip_in.c\<close> and \<^verbatim>\<open>src/net/net.c\<close>. \<open>Delivery\<close>: a datagram goes from one host's \<open>udp_send_buf\<close> to the queue of the
    socket on another, through all layers.

  \<^bold>\<open>Loops.\<close> Loops over lists are recursive over the list. Where C counts or waits, the model has a bound: the number of
  bytes left (\<open>tcp_text_loop\<close>, \<open>ip_send_frag_loop\<close>, the loops of the circular buffers), the length of a queue, or the size of the
  port space (\<open>tcp_port_loop\<close>); reaching it sets the fault \<open>Out_Of_Fuel\<close>, and the theorems about these functions show that it
  is not reached.

  \<^bold>\<open>Not modelled.\<close> Mutexes and condition variables (functions run to completion; what other threads do shows up in
  \<open>env\<close>), debug output, and the parts listed as such in the manifest: system calls that configure devices, the shell
  and the programs started from it.
\<close>

end
